(* ===== verification/Prelude.thy ===== *)
theory Prelude
  imports Main
begin

text \<open>
  Shared ground of the development: the clock, the byte strings of the Go code and the
  standard-library routines it uses on them (\<^verbatim>\<open>strings\<close>, \<^verbatim>\<open>strconv\<close>, \<^verbatim>\<open>fmt\<close>), and the
  generic facts on lists and options that the component theories rest on.
\<close>

named_theorems str_simps \<open>evaluation rules for the string library\<close>
named_theorems clock_simps \<open>unfolding rules for instants, stamps and durations\<close>
named_theorems keep \<open>frame facts: what an operation leaves alone\<close>

section \<open>Results\<close>

text \<open>A fallible Go function returns either an error or a value.\<close>

type_synonym ('e, 'a) result = "'e + 'a"

fun bind_res :: "'e + 'a \<Rightarrow> ('a \<Rightarrow> 'e + 'b) \<Rightarrow> 'e + 'b" where
  "bind_res (Inl e) f = Inl e"
| "bind_res (Inr a) f = f a"

lemma bind_res_Inr_iff: "bind_res m f = Inr b \<longleftrightarrow> (\<exists>a. m = Inr a \<and> f a = Inr b)"
  by (cases m) auto

section \<open>The clock\<close>

text \<open>
  \<^verbatim>\<open>time.Now()\<close> is an instant in nanoseconds since the epoch. What the database keeps is
  its RFC3339 text with a resolution of one second, and the empty text for "never";
  \<^verbatim>\<open>None\<close> stands for the empty text. RFC3339 texts in UTC compare as strings the way the
  seconds compare as numbers, and the empty text is below all of them.
\<close>

type_synonym instant = nat
type_synonym stamp = "nat option"

definition nsec :: nat where "nsec = 1000000000"

definition seconds :: "nat \<Rightarrow> nat" where "seconds n = n * nsec"
definition minutes :: "nat \<Rightarrow> nat" where "minutes n = n * (60 * nsec)"
definition hours :: "nat \<Rightarrow> nat" where "hours n = n * (3600 * nsec)"

definition stamp_of :: "instant \<Rightarrow> stamp" where
  "stamp_of t = Some (t div nsec)"

fun stamp_less :: "stamp \<Rightarrow> stamp \<Rightarrow> bool" where
  "stamp_less None None = False"
| "stamp_less None (Some _) = True"
| "stamp_less (Some _) None = False"
| "stamp_less (Some a) (Some b) = (a < b)"

text \<open>\<^verbatim>\<open>time.Since\<close> of a parsed stamp: a signed number of nanoseconds.\<close>

definition since :: "instant \<Rightarrow> nat \<Rightarrow> int" where
  "since t s = int t - int (s * nsec)"

lemma nsec_pos [simp]: "0 < nsec" by (simp add: nsec_def)

lemmas clock_defs [clock_simps] = seconds_def minutes_def hours_def stamp_of_def since_def nsec_def

lemma stamp_less_trans: "stamp_less a b \<Longrightarrow> stamp_less b c \<Longrightarrow> stamp_less a c"
  by (cases a; cases b; cases c) auto

lemma stamp_less_irrefl [simp]: "\<not> stamp_less a a"
  by (cases a) auto

lemma since_stamp_nonneg: "0 \<le> since t (t div nsec)"
  by (simp add: since_def) (metis div_times_less_eq_dividend of_nat_le_iff of_nat_mult)

lemma since_mono: "t \<le> t' \<Longrightarrow> since t s \<le> since t' s"
  by (simp add: since_def)

section \<open>Strings\<close>

text \<open>Go strings are byte strings; the classes below are those of the ASCII range.\<close>

definition code :: "char \<Rightarrow> nat" where "code c = of_char c"

definition is_digit :: "char \<Rightarrow> bool" where "is_digit c \<longleftrightarrow> 48 \<le> code c \<and> code c \<le> 57"
definition is_lower :: "char \<Rightarrow> bool" where "is_lower c \<longleftrightarrow> 97 \<le> code c \<and> code c \<le> 122"
definition is_upper :: "char \<Rightarrow> bool" where "is_upper c \<longleftrightarrow> 65 \<le> code c \<and> code c \<le> 90"
definition is_hex :: "char \<Rightarrow> bool" where
  "is_hex c \<longleftrightarrow> is_digit c \<or> 97 \<le> code c \<and> code c \<le> 102 \<or> 65 \<le> code c \<and> code c \<le> 70"
definition is_space :: "char \<Rightarrow> bool" where
  "is_space c \<longleftrightarrow> code c = 32 \<or> 9 \<le> code c \<and> code c \<le> 13"

definition to_lower :: "char \<Rightarrow> char" where
  "to_lower c = (if is_upper c then char_of (code c + 32) else c)"
definition to_upper :: "char \<Rightarrow> char" where
  "to_upper c = (if is_lower c then char_of (code c - 32) else c)"

text \<open>\<^verbatim>\<open>strings.ToLower\<close>, \<^verbatim>\<open>ToUpper\<close>, \<^verbatim>\<open>TrimSpace\<close>, \<^verbatim>\<open>HasPrefix\<close>, \<^verbatim>\<open>HasSuffix\<close>,
  \<^verbatim>\<open>TrimPrefix\<close>, \<^verbatim>\<open>Contains\<close>, \<^verbatim>\<open>Split\<close> by one byte.\<close>

definition lower :: "string \<Rightarrow> string" where "lower = map to_lower"
definition upper :: "string \<Rightarrow> string" where "upper = map to_upper"

definition trim_space :: "string \<Rightarrow> string" where
  "trim_space s = rev (dropWhile is_space (rev (dropWhile is_space s)))"

definition has_prefix :: "string \<Rightarrow> string \<Rightarrow> bool" where
  "has_prefix s p \<longleftrightarrow> take (length p) s = p"

definition has_suffix :: "string \<Rightarrow> string \<Rightarrow> bool" where
  "has_suffix s p \<longleftrightarrow> has_prefix (rev s) (rev p)"

definition trim_prefix :: "string \<Rightarrow> string \<Rightarrow> string" where
  "trim_prefix s p = (if has_prefix s p then drop (length p) s else s)"

fun str_contains :: "string \<Rightarrow> string \<Rightarrow> bool" where
  "str_contains [] p = (p = [])"
| "str_contains (c # s) p = (has_prefix (c # s) p \<or> str_contains s p)"

fun split_on :: "char \<Rightarrow> string \<Rightarrow> string list" where
  "split_on d [] = [[]]"
| "split_on d (c # s) =
     (if c = d then [] # split_on d s
      else case split_on d s of [] \<Rightarrow> [[c]] | w # ws \<Rightarrow> (c # w) # ws)"

text \<open>The part of a path after its last slash.\<close>

definition after_last :: "char \<Rightarrow> string \<Rightarrow> string" where
  "after_last d s = rev (takeWhile (\<lambda>c. c \<noteq> d) (rev s))"

text \<open>\<^verbatim>\<open>path.Base\<close>.\<close>

definition path_base :: "string \<Rightarrow> string" where
  "path_base p =
     (let q = rev (dropWhile (\<lambda>c. c = CHR ''/'') (rev p))
      in if p = [] then ''.'' else if q = [] then ''/'' else after_last CHR ''/'' q)"

section \<open>Numbers as text\<close>

definition digit :: "nat \<Rightarrow> char" where
  "digit n = (if n < 10 then char_of (48 + n) else char_of (87 + n))"

text \<open>\<^verbatim>\<open>%d\<close>, \<^verbatim>\<open>%02d\<close> and \<^verbatim>\<open>%02x\<close> of \<^verbatim>\<open>fmt\<close>.\<close>

fun show_nat :: "nat \<Rightarrow> string" where
  "show_nat n = (if n < 10 then [digit n] else show_nat (n div 10) @ [digit (n mod 10)])"

declare show_nat.simps [simp del]

definition show_int :: "int \<Rightarrow> string" where
  "show_int n = (if n < 0 then ''-'' @ show_nat (nat (- n)) else show_nat (nat n))"

definition pad2 :: "int \<Rightarrow> string" where
  "pad2 n = (if 0 \<le> n \<and> n < 10 then ''0'' @ show_int n else show_int n)"

text \<open>The low byte of a number, in two hexadecimal digits.\<close>

definition hex2 :: "int \<Rightarrow> string" where
  "hex2 n = (let b = nat (n mod 256) in [digit (b div 16), digit (b mod 16)])"

text \<open>\<^verbatim>\<open>strconv.Atoi\<close>: an optional sign, then at least one decimal digit, within 64 bits.\<close>

definition digit_val :: "char \<Rightarrow> nat" where "digit_val c = code c - 48"

definition nat_of_digits :: "string \<Rightarrow> nat" where
  "nat_of_digits s = foldl (\<lambda>a c. a * 10 + digit_val c) 0 s"

definition atoi :: "string \<Rightarrow> int option" where
  "atoi s =
     (let (neg, ds) =
        (case s of [] \<Rightarrow> (False, [])
         | c # r \<Rightarrow> if c = CHR ''-'' then (True, r)
                    else if c = CHR ''+'' then (False, r) else (False, s));
       n = int (nat_of_digits ds)
      in if ds = [] \<or> \<not> list_all is_digit ds then None
         else if neg then (if n \<le> 2 ^ 63 then Some (- n) else None)
         else (if n < 2 ^ 63 then Some n else None))"

subsection \<open>Facts about the string library\<close>

lemma digit_table [str_simps]:
  "digit 0 = CHR ''0''" "digit (Suc 0) = CHR ''1''" "digit 1 = CHR ''1''" "digit 2 = CHR ''2''"
  "digit 3 = CHR ''3''" "digit 4 = CHR ''4''" "digit 5 = CHR ''5''" "digit 6 = CHR ''6''"
  "digit 7 = CHR ''7''" "digit 8 = CHR ''8''" "digit 9 = CHR ''9''" "digit 10 = CHR ''a''"
  "digit 11 = CHR ''b''" "digit 12 = CHR ''c''" "digit 13 = CHR ''d''" "digit 14 = CHR ''e''"
  "digit 15 = CHR ''f''"
  by code_simp+

lemmas class_defs [str_simps] = is_digit_def is_lower_def is_upper_def is_hex_def is_space_def code_def

lemma split_on_not_Nil [simp]: "split_on d s \<noteq> []"
  by (induction s) (auto split: list.splits)

lemma split_on_none: "d \<notin> set s \<Longrightarrow> split_on d s = [s]"
  by (induction s) auto

lemma split_on_append:
  "d \<notin> set s \<Longrightarrow> split_on d (s @ d # r) = s # split_on d r"
  by (induction s) auto

lemma code_char_of [simp]: "n < 256 \<Longrightarrow> code (char_of n) = n"
  by (simp add: code_def)

lemma is_digit_digit [simp]: "n < 10 \<Longrightarrow> is_digit (digit n)"
  by (simp add: is_digit_def digit_def)

lemma digit_val_digit [simp]: "n < 10 \<Longrightarrow> digit_val (digit n) = n"
  by (simp add: digit_val_def digit_def)

lemma digit_inj: "m < 16 \<Longrightarrow> n < 16 \<Longrightarrow> digit m = digit n \<Longrightarrow> m = n"
proof -
  assume m: "m < 16" and n: "n < 16" and eq: "digit m = digit n"
  from eq have "code (digit m) = code (digit n)" by simp
  with m n show "m = n" by (simp add: digit_def split: if_splits)
qed

lemma show_nat_digits: "list_all is_digit (show_nat n)"
proof (induction n rule: show_nat.induct)
  case (1 n)
  then show ?case by (subst show_nat.simps) auto
qed

lemma show_nat_not_Nil [simp]: "show_nat n \<noteq> []"
  by (subst show_nat.simps) simp

lemma nat_of_digits_snoc: "nat_of_digits (s @ [c]) = nat_of_digits s * 10 + digit_val c"
  by (simp add: nat_of_digits_def)

lemma nat_of_digits_show: "nat_of_digits (show_nat n) = n"
proof (induction n rule: show_nat.induct)
  case (1 n)
  show ?case
  proof (cases "n < 10")
    case True
    then show ?thesis by (subst show_nat.simps) (simp add: nat_of_digits_def)
  next
    case False
    then have "nat_of_digits (show_nat n) = n div 10 * 10 + n mod 10"
      using 1 by (subst show_nat.simps) (simp add: nat_of_digits_snoc)
    then show ?thesis by simp
  qed
qed

lemma show_nat_inj: "show_nat m = show_nat n \<Longrightarrow> m = n"
  by (metis nat_of_digits_show)

lemma no_digit_in_show: "\<not> is_digit c \<Longrightarrow> c \<notin> set (show_nat n)"
  using show_nat_digits [of n] by (auto simp: list_all_iff)

lemma hd_show_nat_digit: "is_digit (hd (show_nat n))"
  using show_nat_digits [of n] by (cases "show_nat n") (auto simp: list_all_iff)

lemma show_int_inj: "show_int m = show_int n \<longleftrightarrow> m = n"
proof -
  have "show_nat k \<noteq> CHR ''-'' # r" for k r
    using no_digit_in_show [of "CHR ''-''" k] by (auto simp: is_digit_def code_def)
  then show ?thesis by (auto simp: show_int_def split: if_splits dest: sym show_nat_inj)
qed

lemma atoi_digits:
  assumes "list_all is_digit s" and "s \<noteq> []" and "int (nat_of_digits s) < 2 ^ 63"
  shows "atoi s = Some (int (nat_of_digits s))"
proof -
  obtain c r where s: "s = c # r" using assms(2) by (cases s) auto
  with assms(1) have "is_digit c" by simp
  then have "c \<noteq> CHR ''-''" and "c \<noteq> CHR ''+''" by (auto simp: is_digit_def code_def)
  with s assms show ?thesis by (simp add: atoi_def)
qed

lemma atoi_show_nat: "int n < 2 ^ 63 \<Longrightarrow> atoi (show_nat n) = Some (int n)"
  using atoi_digits [of "show_nat n"] by (simp add: show_nat_digits nat_of_digits_show)

section \<open>Lists and options\<close>

lemma find_Some_iff_unique:
  "distinct (map f xs) \<Longrightarrow> find (\<lambda>x. f x = k) xs = Some x \<longleftrightarrow> x \<in> set xs \<and> f x = k"
proof (induction xs)
  case Nil
  then show ?case by simp
next
  case (Cons y ys)
  then show ?case by (auto simp: rev_image_eqI)
qed

lemma find_SomeD: "find P xs = Some x \<Longrightarrow> x \<in> set xs \<and> P x"
  by (induction xs) (auto split: if_splits)

lemma find_None_iff_all: "find P xs = None \<longleftrightarrow> (\<forall>x\<in>set xs. \<not> P x)"
  by (induction xs) auto

lemma length_take_last: "length (drop (length xs - n) xs) = min n (length xs)"
  by (simp add: min_def)

lemma filter_False_Nil: "(\<And>x. x \<in> set xs \<Longrightarrow> \<not> P x) \<Longrightarrow> filter P xs = []"
  by (induction xs) auto

section \<open>Operations that keep an invariant\<close>

text \<open>What every single operation keeps, every run of operations keeps.\<close>

locale kept_by =
  fixes exec :: "'op \<Rightarrow> 's \<Rightarrow> 's"
    and inv :: "'s \<Rightarrow> bool"
  assumes kept_one: "inv s \<Longrightarrow> inv (exec x s)"
begin

lemma kept_fold: "inv s \<Longrightarrow> inv (fold exec xs s)"
  by (induction xs arbitrary: s) (simp_all add: kept_one)

lemma kept_prefix: "inv s \<Longrightarrow> inv (fold exec (take n xs) s)"
  by (rule kept_fold)

end

end
