(* ===== verification/Tables.thy ===== *)
theory Tables
  imports Prelude
begin

text \<open>
  The tables of the SQLite schema as lists of rows, with the statements the code runs
  against them: \<^verbatim>\<open>UPDATE .. WHERE\<close>, \<^verbatim>\<open>DELETE .. WHERE\<close>, \<^verbatim>\<open>INSERT\<close>, \<^verbatim>\<open>SELECT .. WHERE\<close> by the
  primary key and \<^verbatim>\<open>COUNT\<close>. Row order is the order of insertion; a query with
  \<^verbatim>\<open>ORDER BY\<close> sorts explicitly. The locale \<open>keyed_table\<close> is the interface every
  component uses: a table with a primary key, read through the component's own getter.
\<close>

section \<open>Statements\<close>

definition upd_where :: "('r \<Rightarrow> bool) \<Rightarrow> ('r \<Rightarrow> 'r) \<Rightarrow> 'r list \<Rightarrow> 'r list" where
  "upd_where P f t = map (\<lambda>r. if P r then f r else r) t"

definition del_where :: "('r \<Rightarrow> bool) \<Rightarrow> 'r list \<Rightarrow> 'r list" where
  "del_where P t = filter (\<lambda>r. \<not> P r) t"

definition count_where :: "('r \<Rightarrow> bool) \<Rightarrow> 'r list \<Rightarrow> nat" where
  "count_where P t = length (filter P t)"

text \<open>\<^verbatim>\<open>INSERT .. ON CONFLICT(key) DO UPDATE\<close>: rewrite the row that is there, or append.\<close>

definition upsert :: "('r \<Rightarrow> 'k) \<Rightarrow> ('r \<Rightarrow> 'r) \<Rightarrow> 'r \<Rightarrow> 'r list \<Rightarrow> 'r list" where
  "upsert key f new t =
     (if \<exists>r\<in>set t. key r = key new then upd_where (\<lambda>r. key r = key new) f t else t @ [new])"

text \<open>
  \<^verbatim>\<open>ORDER BY c DESC LIMIT 1\<close>: the row with the greatest column value. Where several rows
  share it SQLite may return any of them; the model takes the first one stored.
\<close>

fun latest_by :: "('r \<Rightarrow> stamp) \<Rightarrow> 'r list \<Rightarrow> 'r option" where
  "latest_by c [] = None"
| "latest_by c (r # rs) =
     (case latest_by c rs of
        None \<Rightarrow> Some r
      | Some b \<Rightarrow> if stamp_less (c r) (c b) then Some b else Some r)"

section \<open>Facts about statements\<close>

lemma length_upd_where [simp]: "length (upd_where P f t) = length t"
  by (simp add: upd_where_def)

lemma set_upd_where: "set (upd_where P f t) = (\<lambda>r. if P r then f r else r) ` set t"
  by (simp add: upd_where_def)

lemma upd_where_Nil [simp]: "upd_where P f [] = []"
  by (simp add: upd_where_def)

lemma upd_where_Cons [simp]:
  "upd_where P f (r # t) = (if P r then f r else r) # upd_where P f t"
  by (simp add: upd_where_def)

lemma upd_where_none: "(\<And>r. r \<in> set t \<Longrightarrow> \<not> P r) \<Longrightarrow> upd_where P f t = t"
  by (induction t) auto

lemma map_upd_where_same:
  "(\<And>r. P r \<Longrightarrow> g (f r) = g r) \<Longrightarrow> map g (upd_where P f t) = map g t"
  by (induction t) auto

lemma upd_where_all:
  "(\<And>r. r \<in> set t \<Longrightarrow> \<not> P r \<Longrightarrow> Q r) \<Longrightarrow> (\<And>r. r \<in> set t \<Longrightarrow> P r \<Longrightarrow> Q (f r)) \<Longrightarrow>
   \<forall>r\<in>set (upd_where P f t). Q r"
  by (auto simp: set_upd_where)

lemma set_del_where: "set (del_where P t) = {r \<in> set t. \<not> P r}"
  by (simp add: del_where_def)

lemma distinct_del_where: "distinct (map g t) \<Longrightarrow> distinct (map g (del_where P t))"
  by (simp add: del_where_def distinct_map_filter)

lemma count_where_0_iff: "count_where P t = 0 \<longleftrightarrow> (\<forall>r\<in>set t. \<not> P r)"
  by (auto simp: count_where_def filter_empty_conv)

lemma count_where_upd:
  "(\<And>r. r \<in> set t \<Longrightarrow> Q r \<Longrightarrow> P (f r) = P r) \<Longrightarrow> count_where P (upd_where Q f t) = count_where P t"
  by (induction t) (auto simp: count_where_def)

lemma latest_by_mem: "latest_by c t = Some r \<Longrightarrow> r \<in> set t"
  by (induction t arbitrary: r) (auto split: option.splits if_splits)

lemma latest_by_None [simp]: "latest_by c t = None \<longleftrightarrow> t = []"
  by (cases t) (auto split: option.splits)

lemma latest_by_max: "latest_by c t = Some r \<Longrightarrow> x \<in> set t \<Longrightarrow> \<not> stamp_less (c r) (c x)"
proof (induction t arbitrary: r x)
  case Nil
  then show ?case by simp
next
  case (Cons a t)
  show ?case
  proof (cases "latest_by c t")
    case None
    with Cons.prems show ?thesis by simp
  next
    case (Some b)
    have le: "\<And>y. y \<in> set t \<Longrightarrow> \<not> stamp_less (c b) (c y)" using Cons.IH [OF Some] .
    show ?thesis
    proof (cases "stamp_less (c a) (c b)")
      case True
      with Some Cons.prems have r: "r = b" by simp
      from True have "\<not> stamp_less (c b) (c a)" by (meson stamp_less_irrefl stamp_less_trans)
      with r Cons.prems le show ?thesis by auto
    next
      case False
      with Some Cons.prems have r: "r = a" by simp
      have "\<not> stamp_less (c a) (c y)" if "y \<in> set t" for y
        using False le [OF that] by (cases "c a"; cases "c b"; cases "c y") auto
      with r Cons.prems show ?thesis by auto
    qed
  qed
qed

section \<open>Tables with a primary key\<close>

locale keyed_table =
  fixes key :: "'r \<Rightarrow> 'k"
    and get :: "'r list \<Rightarrow> 'k \<Rightarrow> 'r option"
  assumes get_find: "get t k = find (\<lambda>r. key r = k) t"
begin

lemma get_Nil: "get [] k = None"
  by (simp add: get_find)

lemma get_SomeD: "get t k = Some r \<Longrightarrow> r \<in> set t \<and> key r = k"
  by (auto simp: get_find dest: find_SomeD)

lemma get_None_iff: "get t k = None \<longleftrightarrow> k \<notin> key ` set t"
  by (auto simp: get_find find_None_iff_all)

lemma get_mem: "distinct (map key t) \<Longrightarrow> r \<in> set t \<Longrightarrow> get t (key r) = Some r"
  by (simp add: get_find find_Some_iff_unique)

lemma get_iff: "distinct (map key t) \<Longrightarrow> get t k = Some r \<longleftrightarrow> r \<in> set t \<and> key r = k"
  by (simp add: get_find find_Some_iff_unique)

text \<open>An update of the row with key \<open>k\<close> that keeps the key.\<close>

lemma keys_upd:
  "(\<And>r. P r \<Longrightarrow> key (f r) = key r) \<Longrightarrow> map key (upd_where P f t) = map key t"
  by (rule map_upd_where_same)

lemma get_upd_same:
  "(\<And>r. key (f r) = key r) \<Longrightarrow> get (upd_where (\<lambda>r. key r = k) f t) k = map_option f (get t k)"
  by (induction t) (auto simp: get_find)

lemma get_upd_other:
  "(\<And>r. key (f r) = key r) \<Longrightarrow> k' \<noteq> k \<Longrightarrow> get (upd_where (\<lambda>r. key r = k) f t) k' = get t k'"
  by (induction t) (auto simp: get_find)

lemma get_upd:
  "(\<And>r. key (f r) = key r) \<Longrightarrow>
   get (upd_where (\<lambda>r. key r = k) f t) k' = (if k' = k then map_option f (get t k) else get t k')"
  by (simp add: get_upd_same get_upd_other)

text \<open>An update under any condition that keeps the keys acts row by row.\<close>

lemma get_upd_where:
  "(\<And>r. P r \<Longrightarrow> key (f r) = key r) \<Longrightarrow>
   get (upd_where P f t) k = map_option (\<lambda>r. if P r then f r else r) (get t k)"
  by (induction t) (auto simp: get_find)

lemma get_append:
  "get (t @ [r]) k = (case get t k of None \<Rightarrow> (if key r = k then Some r else None) | Some x \<Rightarrow> Some x)"
  by (induction t) (auto simp: get_find)

lemma get_insert_new: "get t (key r) = None \<Longrightarrow> get (t @ [r]) (key r) = Some r"
  by (simp add: get_append)

lemma get_del_same: "get (del_where (\<lambda>r. key r = k) t) k = None"
  by (auto simp: get_None_iff set_del_where)

lemma get_del_other: "k' \<noteq> k \<Longrightarrow> get (del_where (\<lambda>r. key r = k) t) k' = get t k'"
  by (induction t) (auto simp: get_find del_where_def)

lemma get_del: "get (del_where (\<lambda>r. key r = k) t) k' = (if k' = k then None else get t k')"
  by (simp add: get_del_same get_del_other)

lemma distinct_insert:
  "distinct (map key t) \<Longrightarrow> get t (key r) = None \<Longrightarrow> distinct (map key (t @ [r]))"
  by (simp add: get_None_iff)

lemma distinct_upsert:
  assumes "distinct (map key t)" and "\<And>r. key (f r) = key r"
  shows "distinct (map key (upsert key f new t))"
proof (cases "\<exists>r\<in>set t. key r = key new")
  case True
  then show ?thesis using assms by (simp add: upsert_def keys_upd)
next
  case False
  then have "key new \<notin> key ` set t" by auto
  with False assms show ?thesis by (simp add: upsert_def)
qed

lemma get_upsert:
  assumes "\<And>r. key (f r) = key r"
  shows "get (upsert key f new t) k =
    (if k = key new then Some (case get t k of None \<Rightarrow> new | Some r \<Rightarrow> f r) else get t k)"
proof (cases "\<exists>r\<in>set t. key r = key new")
  case True
  then have "get t (key new) \<noteq> None" by (auto simp: get_None_iff intro: rev_image_eqI)
  with True show ?thesis using assms by (auto simp: upsert_def get_upd)
next
  case False
  then have "get t (key new) = None" by (auto simp: get_None_iff)
  with False show ?thesis by (auto simp: upsert_def get_append split: option.splits)
qed

text \<open>A run of updates by key, each key once: every row is rewritten at most once.\<close>

lemma get_fold_upd:
  assumes "distinct (map kx xs)" and "\<And>x r. key (g x r) = key r"
  shows "get (fold (\<lambda>x t. upd_where (\<lambda>r. key r = kx x) (g x) t) xs t) k =
    (case find (\<lambda>x. kx x = k) xs of None \<Rightarrow> get t k | Some x \<Rightarrow> map_option (g x) (get t k))"
  using assms(1)
proof (induction xs arbitrary: t)
  case Nil
  then show ?case by simp
next
  case (Cons x xs)
  then have "find (\<lambda>y. kx y = kx x) xs = None" by (auto simp: find_None_iff_all image_iff)
  with Cons assms(2) show ?case by (auto simp: get_upd split: option.split)
qed

end

end
