(* ===== verification/Json.thy ===== *)
theory Json
  imports Complex_Main Prelude "HOL-Library.AList"
begin

text \<open>
  JSON documents as \<^verbatim>\<open>encoding/json\<close> decodes them into \<^verbatim>\<open>any\<close>, and the routines of
  \<^verbatim>\<open>src/server/api.go\<close>, \<^verbatim>\<open>src/server/db.go\<close> and \<^verbatim>\<open>src/server/ipam.go\<close> that work on them: merging
  configuration layers, patching a scope, and carrying the hardware facts of a module
  across reports. A \<^verbatim>\<open>map[string]any\<close> is an association list read with \<open>map_of\<close>;
  a number is the rational value of its \<^verbatim>\<open>float64\<close>.
\<close>

section \<open>Documents\<close>

datatype json =
    JNull
  | JBool bool
  | JNum rat
  | JStr string
  | JArr "json list"
  | JObj "(string \<times> json) list"

type_synonym jmap = "(string \<times> json) list"

text \<open>Decoding a document into a \<^verbatim>\<open>map[string]any\<close> whose error is ignored: anything but an
  object leaves the map nil, which reads as empty.\<close>

fun obj_of :: "json \<Rightarrow> jmap" where
  "obj_of (JObj m) = m"
| "obj_of _ = []"

text \<open>\<^verbatim>\<open>num\<close>: the number in a value, if it is one.\<close>

fun num :: "json option \<Rightarrow> rat option" where
  "num (Some (JNum q)) = Some q"
| "num _ = None"

text \<open>The type assertions \<^verbatim>\<open>.(string)\<close> and \<^verbatim>\<open>.(bool)\<close>.\<close>

fun as_str :: "json option \<Rightarrow> string option" where
  "as_str (Some (JStr s)) = Some s"
| "as_str _ = None"

fun as_bool :: "json option \<Rightarrow> bool option" where
  "as_bool (Some (JBool b)) = Some b"
| "as_bool _ = None"

fun as_obj :: "json option \<Rightarrow> jmap option" where
  "as_obj (Some (JObj m)) = Some m"
| "as_obj _ = None"

section \<open>Merging configuration layers\<close>

text \<open>
  \<^verbatim>\<open>mergeInto\<close> ranges over the source map. An object meets an object by recursion; an
  object over anything else is copied; every other value replaces what was there.
\<close>

lemma json_size_le: "(\<Sum>p\<leftarrow>m. size (snd p)) \<le> (\<Sum>p\<leftarrow>m. Suc (size (snd p)))"
  for m :: jmap
  by (rule sum_list_mono) simp

function (sequential) mergeInto :: "jmap \<Rightarrow> jmap \<Rightarrow> jmap" where
  "mergeInto dst [] = dst"
| "mergeInto dst ((k, JObj sm) # src) =
     (case map_of dst k of
        Some (JObj dm) \<Rightarrow> mergeInto (AList.update k (JObj (mergeInto dm sm)) dst) src
      | _ \<Rightarrow> mergeInto (AList.update k (JObj (mergeInto [] sm)) dst) src)"
| "mergeInto dst ((k, v) # src) = mergeInto (AList.update k v dst) src"
  by pat_completeness auto
termination
  by (relation "measure (\<lambda>(dst, src). size_list (\<lambda>(k, v). size v) src)")
     (auto simp: size_list_conv_sum_list case_prod_unfold size_prod_simp comp_def
           intro!: le_less_trans [OF json_size_le])

text \<open>\<^verbatim>\<open>hConfigPatch\<close>: one level deep, and a null removes.\<close>

fun patch_section :: "jmap \<Rightarrow> jmap \<Rightarrow> jmap" where
  "patch_section old [] = old"
| "patch_section old ((sk, sv) # sub) =
     patch_section (if sv = JNull then AList.delete sk old else AList.update sk sv old) sub"

fun patch_config :: "jmap \<Rightarrow> jmap \<Rightarrow> jmap" where
  "patch_config cur [] = cur"
| "patch_config cur ((k, v) # ins) =
     patch_config
       (if v = JNull then AList.delete k cur
        else case v of
          JObj sub \<Rightarrow>
            (case map_of cur k of
               Some (JObj old) \<Rightarrow> AList.update k (JObj (patch_section old sub)) cur
             | _ \<Rightarrow> AList.update k v cur)
        | _ \<Rightarrow> AList.update k v cur)
       ins"

text \<open>\<^verbatim>\<open>stringList\<close>: a list of strings, or one string, trimmed, blanks dropped.\<close>

fun stringList :: "json option \<Rightarrow> string list" where
  "stringList (Some (JArr t)) =
     [trim_space s. s \<leftarrow> List.map_filter (\<lambda>e. as_str (Some e)) t, trim_space s \<noteq> []]"
| "stringList (Some (JStr s)) = (if trim_space s \<noteq> [] then [trim_space s] else [])"
| "stringList _ = []"

section \<open>Hardware facts\<close>

definition hardwareKeys :: "string list" where
  "hardwareKeys =
     [''board'', ''board_rev'', ''board_revision'', ''soc'', ''maker'', ''ram_mb'',
      ''cpu_cores'', ''cpu_mhz'', ''emmc_bytes'', ''emmc_model'', ''nvme_bytes'',
      ''nvme_model'', ''wireless'', ''eth_mac'', ''bootloader'', ''boot_order'']"

text \<open>
  \<^verbatim>\<open>keepHardware\<close> on two stored documents. A document that is not an object (and not
  null) fails to decode and the new report is taken as it is. A \<^verbatim>\<open>null\<close> report decodes to
  a nil map, and writing a kept fact into a nil map panics.
\<close>

datatype 'a outcome = Value 'a | Panic

fun keep_keys :: "string list \<Rightarrow> jmap \<Rightarrow> jmap \<Rightarrow> jmap" where
  "keep_keys [] old cur = cur"
| "keep_keys (k # ks) old cur =
     (case map_of cur k of
        Some _ \<Rightarrow> keep_keys ks old cur
      | None \<Rightarrow> (case map_of old k of
                   Some v \<Rightarrow> keep_keys ks old (AList.update k v cur)
                 | None \<Rightarrow> keep_keys ks old cur))"

definition keepHardware :: "json \<Rightarrow> json \<Rightarrow> json outcome" where
  "keepHardware before now =
     (case (before, now) of
        (JObj old, JObj cur) \<Rightarrow> Value (JObj (keep_keys hardwareKeys old cur))
      | (JNull, JObj cur) \<Rightarrow> Value (JObj cur)
      | (JObj old, JNull) \<Rightarrow>
          if \<exists>k\<in>set hardwareKeys. map_of old k \<noteq> None then Panic else Value JNull
      | _ \<Rightarrow> Value now)"

text \<open>\<^verbatim>\<open>hardwareOnly\<close>: what is left of the facts when a blade is put aside.\<close>

definition hardwareOnly :: "json \<Rightarrow> json" where
  "hardwareOnly raw =
     (let all = obj_of raw
      in JObj (List.map_filter (\<lambda>k. map_option (Pair k) (map_of all k)) hardwareKeys))"

text \<open>\<^verbatim>\<open>mergeFacts\<close> on the stored document.\<close>

definition merge_facts :: "json \<Rightarrow> jmap \<Rightarrow> json" where
  "merge_facts raw add = JObj (fold (\<lambda>(k, v) m. AList.update k v m) add (obj_of raw))"

section \<open>What merging does to a lookup\<close>

text \<open>The value a source entry gives over what the destination holds.\<close>

definition over :: "json option \<Rightarrow> json \<Rightarrow> json" where
  "over d v = (case v of
     JObj sm \<Rightarrow> JObj (mergeInto (case d of Some (JObj dm) \<Rightarrow> dm | _ \<Rightarrow> []) sm)
   | _ \<Rightarrow> v)"

lemma mergeInto_Cons: "mergeInto dst ((k, v) # src) = mergeInto (AList.update k (over (map_of dst k) v) dst) src"
  by (cases v) (auto simp: over_def split: option.splits json.splits)

lemma map_of_mergeInto:
  assumes "distinct (map fst src)"
  shows "map_of (mergeInto dst src) k =
    (case map_of src k of None \<Rightarrow> map_of dst k | Some v \<Rightarrow> Some (over (map_of dst k) v))"
  using assms
proof (induction src arbitrary: dst)
  case Nil
  then show ?case by simp
next
  case (Cons kv src)
  obtain k' v where kv: "kv = (k', v)" by force
  from Cons.prems kv have notin: "map_of src k' = None" and d: "distinct (map fst src)"
    by (auto simp: map_of_eq_None_iff)
  show ?case
    by (simp add: kv mergeInto_Cons Cons.IH [OF d] update_conv' notin del: mergeInto.simps
             split: option.split)
qed

lemma map_of_keep_keys:
  "map_of (keep_keys ks old cur) k =
     (case map_of cur k of Some v \<Rightarrow> Some v | None \<Rightarrow> if k \<in> set ks then map_of old k else None)"
proof (induction ks old cur rule: keep_keys.induct)
  case (1 old cur)
  then show ?case by (simp split: option.split)
next
  case (2 h ks old cur)
  then show ?case by (auto simp: update_conv' split: option.splits)
qed

lemma map_of_map_filter_keys:
  "map_of (List.map_filter (\<lambda>k. map_option (Pair k) (f k)) ks) k = (if k \<in> set ks then f k else None)"
  by (induction ks) (auto simp: List.map_filter_simps split: option.splits)

lemma map_of_hardwareOnly:
  "map_of (obj_of (hardwareOnly raw)) k = (if k \<in> set hardwareKeys then map_of (obj_of raw) k else None)"
  by (simp add: hardwareOnly_def map_of_map_filter_keys)

lemma map_of_fold_update:
  "distinct (map fst add) \<Longrightarrow>
   map_of (fold (\<lambda>(k, v) m. AList.update k v m) add m) k =
     (case map_of add k of Some v \<Rightarrow> Some v | None \<Rightarrow> map_of m k)"
proof (induction add arbitrary: m)
  case Nil
  then show ?case by simp
next
  case (Cons kv add)
  obtain k' v where kv: "kv = (k', v)" by force
  from Cons.prems kv have "map_of add k' = None" and "distinct (map fst add)"
    by (auto simp: map_of_eq_None_iff)
  then show ?case by (simp add: kv Cons.IH update_conv' split: option.split)
qed

lemma map_of_merge_facts:
  "distinct (map fst add) \<Longrightarrow>
   map_of (obj_of (merge_facts raw add)) k =
     (case map_of add k of Some v \<Rightarrow> Some v | None \<Rightarrow> map_of (obj_of raw) k)"
  by (simp add: merge_facts_def map_of_fold_update)

text \<open>The value a patch leaves under a key.\<close>

definition patched :: "json option \<Rightarrow> json \<Rightarrow> json option" where
  "patched c v = (if v = JNull then None
     else Some (case v of
       JObj sub \<Rightarrow> (case c of Some (JObj old) \<Rightarrow> JObj (patch_section old sub) | _ \<Rightarrow> v)
     | _ \<Rightarrow> v))"

lemma map_of_patch_config:
  assumes "distinct (map fst ins)"
  shows "map_of (patch_config cur ins) k =
    (case map_of ins k of None \<Rightarrow> map_of cur k | Some v \<Rightarrow> patched (map_of cur k) v)"
  using assms
proof (induction ins arbitrary: cur)
  case Nil
  then show ?case by simp
next
  case (Cons kv ins)
  obtain k' v where kv: "kv = (k', v)" by force
  from Cons.prems kv have n: "map_of ins k' = None" and d: "distinct (map fst ins)"
    by (auto simp: map_of_eq_None_iff)
  show ?case
    by (cases v) (auto simp: kv Cons.IH [OF d] n patched_def update_conv' delete_conv'
                       split: option.splits json.splits)
qed

lemma map_of_patch_section:
  assumes "distinct (map fst sub)"
  shows "map_of (patch_section old sub) k =
    (case map_of sub k of None \<Rightarrow> map_of old k | Some JNull \<Rightarrow> None | Some v \<Rightarrow> Some v)"
  using assms
proof (induction sub arbitrary: old)
  case Nil
  then show ?case by simp
next
  case (Cons kv sub)
  obtain k' v where kv: "kv = (k', v)" by force
  from Cons.prems kv have n: "map_of sub k' = None" and d: "distinct (map fst sub)"
    by (auto simp: map_of_eq_None_iff)
  show ?case
    by (cases v) (auto simp: kv Cons.IH [OF d] n update_conv' delete_conv'
                       split: option.splits json.splits)
qed

end
