(* ===== verification/Model.thy ===== *)
theory Model
  imports Tables Json
begin

text \<open>
  The data of the central server: the row types of \<^verbatim>\<open>src/server/db.go\<close> and
  \<^verbatim>\<open>src/server/netboot.go\<close>, the errors its operations answer with, and the state
  \<open>app\<close> that every operation of the server takes and returns. Rows keep the
  columns of the schema; a blade as the interface sees it (\<open>bview\<close>) extends the stored
  row by the fields derived from its position.
\<close>

section \<open>Errors\<close>

text \<open>One constructor per message key of \<^verbatim>\<open>me(..)\<close>; \<open>ErrDB\<close> is a statement the database
  refuses because of a constraint.\<close>

datatype err =
    ErrSitename | ErrSitenet | ErrSitepool | ErrSiteprefix | ErrSitelease
  | ErrSitehasracks nat | ErrSitelast | ErrSitegone
  | ErrRacknotfound int | ErrBadsize int | ErrShrink int int | ErrNooffset | ErrUpdatefail
  | ErrSlotrange int int | ErrSlottaken int string string | ErrAssignfail
  | ErrBladeunknown string | ErrBladegone | ErrNosuchblade | ErrBusyinstall
  | ErrStillslotted string | ErrForgetrunning string | ErrNothingtocancel | ErrProbebusy
  | ErrNeedimage | ErrNodevice string string | ErrToosmall string string | ErrGptoncard string string
  | ErrMacformat string | ErrHostlabel string | ErrNotipv4 string
  | ErrDB

section \<open>Rows\<close>

record site =
  s_id :: int
  s_name :: string
  s_location :: string
  s_net_base :: string
  s_gateway :: string
  s_dns :: string
  s_domain :: string
  s_pool_from :: int
  s_pool_to :: int
  s_offset_base :: int
  s_offset_step :: int
  s_local :: bool
  s_token :: string
  s_last_seen :: stamp
  s_created :: stamp
  s_payload :: string
  s_site_version :: string
  s_trouble :: string
  s_enroll_code :: string
  s_enroll_until :: stamp
  s_host_prefix :: string
  s_relay_url :: string
  s_lease :: string
  s_policy_json :: json
  s_desired_at :: stamp

record rack =
  r_id :: int
  r_site_id :: int
  r_name :: string
  r_size :: int
  r_ip_offset :: int
  r_location :: string
  r_created :: stamp

text \<open>\<^verbatim>\<open>install_state\<close>: what the next netboot of a blade is meant to do.\<close>

datatype install_state = InstallIdle | InstallPending | InstallDone | InstallError | InstallWipe

record blade =
  b_serial :: string
  b_short_serial :: string
  b_rack_id :: "int option"
  b_slot :: "int option"
  b_hostname :: string
  b_mac :: string
  b_image :: string
  b_variant :: string
  b_state :: string
  b_groups :: "string list"
  b_facts :: json
  b_health :: json
  b_install_state :: install_state
  b_installed_at :: stamp
  b_config_applied :: string
  b_last_seen :: stamp
  b_created :: stamp
  b_probe :: stamp
  b_probe_sent :: stamp
  b_halted :: stamp
  b_stored :: stamp
  b_token :: string

text \<open>The fields \<^verbatim>\<open>decorate\<close> derives.\<close>

record bview = blade +
  v_ip :: string
  v_rack_name :: string
  v_rack_idx :: int
  v_site_id :: int
  v_site_name :: string

record image =
  i_id :: string
  i_url :: string
  i_sha256 :: string
  i_seed :: string
  i_os_id :: string
  i_notes :: string
  i_local :: string
  i_bytes :: int
  i_created :: stamp
  i_kernel :: string
  i_min_disk :: int
  i_verified :: bool
  i_part_table :: string
  i_state :: string
  i_note :: string
  i_updated :: stamp

text \<open>A queued command; \<open>taken\<close> is empty, or says when and why it left the queue.\<close>

datatype taken = NotTaken | TakenAt nat string

record command =
  c_id :: int
  c_serial :: string
  c_kind :: string
  c_created :: stamp
  c_taken :: taken

record event =
  e_ts :: stamp
  e_serial :: string
  e_level :: string
  e_msg :: string
  e_received :: stamp
  e_actor :: string

record netboot =
  n_mac :: string
  n_ip :: string
  n_serial :: string
  n_stage :: string
  n_files :: nat
  n_last_file :: string
  n_image :: string
  n_client :: string
  n_note :: string
  n_site_id :: int
  n_first_seen :: stamp
  n_last_seen :: stamp

record sample =
  m_serial :: string
  m_ts :: nat
  m_soc :: "rat option"
  m_airflow :: "rat option"
  m_rpm :: "rat option"

record alert =
  al_serial :: string
  al_level :: string
  al_reason :: string
  al_since :: nat
  al_notified :: string
  al_notified_at :: stamp

record site_image =
  si_site_id :: int
  si_image_id :: string
  si_state :: string
  si_bytes :: int
  si_note :: string
  si_ts :: stamp

section \<open>The server's state\<close>

text \<open>
  The tables, the setting \<open>policy\<close> (kept as the document its text holds, \<open>JNull\<close> when it is
  empty, like the other JSON columns), the keys \<^verbatim>\<open>AUTOINCREMENT\<close> hands out next, the memoised site networks and
  names, and the directory of dnsmasq host records the server writes when it owns the
  wire itself (\<^verbatim>\<open>localDHCP\<close>), and the progress marks that thin out the log (\<^verbatim>\<open>logMarks\<close>).
\<close>

record app =
  a_settings :: "(string \<times> string) list"
  a_policy :: json
  a_sites :: "site list"
  a_racks :: "rack list"
  a_blades :: "blade list"
  a_images :: "image list"
  a_configs :: "(string \<times> json) list"
  a_commands :: "command list"
  a_events :: "event list"
  a_samples :: "sample list"
  a_site_images :: "site_image list"
  a_netboot :: "netboot list"
  a_alerts :: "alert list"
  a_next_site :: int
  a_next_rack :: int
  a_next_cmd :: int
  a_netCache :: "int \<rightharpoonup> string"
  a_nameCache :: "int \<rightharpoonup> string"
  a_hosts :: "(string \<times> string) list"
  a_localDHCP :: bool
  a_logMarks :: "(string \<times> int) list"

section \<open>Reading a row by its key\<close>

definition get_site :: "site list \<Rightarrow> int \<Rightarrow> site option" where
  "get_site t k = find (\<lambda>r. s_id r = k) t"

definition get_rack :: "rack list \<Rightarrow> int \<Rightarrow> rack option" where
  "get_rack t k = find (\<lambda>r. r_id r = k) t"

definition get_row :: "blade list \<Rightarrow> string \<Rightarrow> blade option" where
  "get_row t k = find (\<lambda>r. b_serial r = k) t"

definition get_image :: "image list \<Rightarrow> string \<Rightarrow> image option" where
  "get_image t k = find (\<lambda>r. i_id r = k) t"

definition get_netboot :: "netboot list \<Rightarrow> string \<Rightarrow> netboot option" where
  "get_netboot t k = find (\<lambda>r. n_mac r = k) t"

definition get_alert :: "alert list \<Rightarrow> string \<Rightarrow> alert option" where
  "get_alert t k = find (\<lambda>r. al_serial r = k) t"

interpretation sites: keyed_table s_id get_site
  by unfold_locales (rule get_site_def)

interpretation racks: keyed_table r_id get_rack
  by unfold_locales (rule get_rack_def)

interpretation blades: keyed_table b_serial get_row
  by unfold_locales (rule get_row_def)

interpretation images: keyed_table i_id get_image
  by unfold_locales (rule get_image_def)

interpretation sessions: keyed_table n_mac get_netboot
  by unfold_locales (rule get_netboot_def)

interpretation alerts: keyed_table al_serial get_alert
  by unfold_locales (rule get_alert_def)

definition getSite :: "app \<Rightarrow> int \<Rightarrow> site option" where
  "getSite a k = get_site (a_sites a) k"

definition getRack :: "app \<Rightarrow> int \<Rightarrow> rack option" where
  "getRack a k = get_rack (a_racks a) k"

text \<open>The constraints the schema itself enforces: primary keys, \<^verbatim>\<open>UNIQUE\<close> and \<^verbatim>\<open>CHECK\<close>.\<close>

definition validSize :: "int \<Rightarrow> bool" where
  "validSize n \<longleftrightarrow> n = 2 \<or> n = 4 \<or> n = 10 \<or> n = 20"

definition sites_ok :: "site list \<Rightarrow> bool" where
  "sites_ok t \<longleftrightarrow> distinct (map s_id t) \<and> distinct (map s_name t)"

definition racks_ok :: "rack list \<Rightarrow> bool" where
  "racks_ok t \<longleftrightarrow> distinct (map r_id t) \<and> distinct (map r_name t)
     \<and> distinct (map (\<lambda>r. (r_site_id r, r_ip_offset r)) t) \<and> list_all (\<lambda>r. validSize (r_size r)) t"

definition position :: "blade \<Rightarrow> (int \<times> int) option" where
  "position b = (case (b_rack_id b, b_slot b) of (Some r, Some s) \<Rightarrow> Some (r, s) | _ \<Rightarrow> None)"

definition positions :: "blade list \<Rightarrow> (int \<times> int) list" where
  "positions t = List.map_filter position t"

definition blades_ok :: "blade list \<Rightarrow> bool" where
  "blades_ok t \<longleftrightarrow> distinct (map b_serial t) \<and> distinct (positions t)"

definition schema_ok :: "app \<Rightarrow> bool" where
  "schema_ok a \<longleftrightarrow> sites_ok (a_sites a) \<and> racks_ok (a_racks a) \<and> blades_ok (a_blades a)"

lemma schema_okD:
  "schema_ok a \<Longrightarrow> sites_ok (a_sites a)"
  "schema_ok a \<Longrightarrow> racks_ok (a_racks a)"
  "schema_ok a \<Longrightarrow> blades_ok (a_blades a)"
  by (simp_all add: schema_ok_def)

lemma positions_mem: "b \<in> set t \<Longrightarrow> position b = Some p \<Longrightarrow> p \<in> set (positions t)"
  by (auto simp: positions_def List.map_filter_def image_iff intro!: bexI [of _ b])

lemma positions_Cons:
  "positions (b # t) = (case position b of None \<Rightarrow> positions t | Some p \<Rightarrow> p # positions t)"
  by (simp add: positions_def List.map_filter_simps split: option.split)

lemma positions_unique:
  "distinct (positions t) \<Longrightarrow> b \<in> set t \<Longrightarrow> b' \<in> set t \<Longrightarrow>
   position b = Some p \<Longrightarrow> position b' = Some p \<Longrightarrow> b = b'"
proof (induction t)
  case Nil
  then show ?case by simp
next
  case (Cons x t)
  then show ?case
    by (auto simp: positions_Cons dest: positions_mem split: option.splits)
qed

lemma positions_same:
  "(\<And>b. P b \<Longrightarrow> position (f b) = position b) \<Longrightarrow> positions (upd_where P f t) = positions t"
  by (induction t) (auto simp: positions_Cons split: option.split)

text \<open>A statement that sets no position keeps the constraints on the blade table.\<close>

lemma blades_ok_upd:
  "blades_ok t \<Longrightarrow> (\<And>b. P b \<Longrightarrow> b_serial (f b) = b_serial b) \<Longrightarrow>
   (\<And>b. P b \<Longrightarrow> position (f b) = position b) \<Longrightarrow> blades_ok (upd_where P f t)"
  by (simp add: blades_ok_def blades.keys_upd positions_same)

lemma position_cleared [simp]:
  "position (b\<lparr>b_rack_id := None, b_slot := x\<rparr>) = None"
  by (simp add: position_def)

lemma positions_subseq:
  "(\<And>b. P b \<Longrightarrow> position (f b) = None) \<Longrightarrow>
   positions (upd_where P f t) = positions (del_where P t)"
  by (induction t) (auto simp: positions_Cons del_where_def split: option.split)

lemma distinct_positions_del: "distinct (positions t) \<Longrightarrow> distinct (positions (del_where P t))"
proof (induction t)
  case Nil
  then show ?case by (simp add: del_where_def)
next
  case (Cons x t)
  have sub: "set (positions (del_where P t)) \<subseteq> set (positions t)"
    by (auto simp: positions_def List.map_filter_def set_del_where)
  with Cons show ?case
    by (auto simp: positions_Cons del_where_def split: option.splits)
qed

text \<open>A statement that clears the position of the rows it touches keeps them too.\<close>

lemma blades_ok_clear:
  "blades_ok t \<Longrightarrow> (\<And>b. P b \<Longrightarrow> b_serial (f b) = b_serial b) \<Longrightarrow>
   (\<And>b. P b \<Longrightarrow> position (f b) = None) \<Longrightarrow> blades_ok (upd_where P f t)"
  by (simp add: blades_ok_def blades.keys_upd positions_subseq distinct_positions_del)

lemma blades_ok_del: "blades_ok t \<Longrightarrow> blades_ok (del_where P t)"
  by (simp add: blades_ok_def distinct_del_where distinct_positions_del)

end
