(* ===== verification/Addressing.thy ===== *)
theory Addressing
  imports Model "HOL-Library.Option_ord" "HOL-Library.Product_Lexorder"
    "HOL-Library.List_Lexorder" "HOL-Library.Char_ord"
begin

text \<open>
  The address plan of \<^verbatim>\<open>src/server/ipam.go\<close> and the read side of \<^verbatim>\<open>src/server/db.go\<close>: what a
  blade is called and which MAC and address it gets, derived from its site, the block of
  its BladeRunner and its slot; the patterns that recognise derived names; and the
  decorated view of a blade (\<^verbatim>\<open>decorate\<close>, \<^verbatim>\<open>listBlades\<close>, \<^verbatim>\<open>getBlade\<close>).
\<close>

section \<open>Derived names, addresses and numbers\<close>

definition setting :: "app \<Rightarrow> string \<Rightarrow> string \<Rightarrow> string" where
  "setting a key def = (case map_of (a_settings a) key of None \<Rightarrow> def | Some v \<Rightarrow> v)"

definition setSetting :: "app \<Rightarrow> string \<Rightarrow> string \<Rightarrow> app" where
  "setSetting a key val = a\<lparr>a_settings := AList.update key val (a_settings a)\<rparr>"

definition rackIndex :: "app \<Rightarrow> rack \<Rightarrow> int" where
  "rackIndex a rk =
     (let (base, step) = (case getSite a (r_site_id rk) of
            Some st \<Rightarrow> (s_offset_base st, s_offset_step st) | None \<Rightarrow> (100, 20))
      in if step \<le> 0 \<or> r_ip_offset rk < base then 1 else (r_ip_offset rk - base) div step + 1)"

definition bladeMAC :: "int \<Rightarrow> int \<Rightarrow> int \<Rightarrow> string" where
  "bladeMAC siteID rackIdx slot =
     ''02:b1:ad:'' @ hex2 siteID @ '':'' @ hex2 rackIdx @ '':'' @ hex2 slot"

definition bladeHostname :: "string \<Rightarrow> int \<Rightarrow> int \<Rightarrow> string" where
  "bladeHostname prefix rackIdx slot =
     (if prefix \<noteq> [] then ''blade-'' @ prefix @ ''-r'' @ show_int rackIdx @ ''s'' @ pad2 slot
      else ''blade-r'' @ show_int rackIdx @ ''s'' @ pad2 slot)"

definition validSlot :: "int \<Rightarrow> int \<Rightarrow> err + unit" where
  "validSlot sz slot = (if slot < 1 \<or> slot > sz then Inl (ErrSlotrange slot sz) else Inr ())"

definition hostPrefix :: "app \<Rightarrow> int \<Rightarrow> string" where
  "hostPrefix a siteID = (case getSite a siteID of None \<Rightarrow> [] | Some st \<Rightarrow> s_host_prefix st)"

definition siteRelayURL :: "app \<Rightarrow> int \<Rightarrow> string" where
  "siteRelayURL a siteID =
     (if siteID = 0 then [] else case getSite a siteID of None \<Rightarrow> [] | Some st \<Rightarrow> s_relay_url st)"

section \<open>Recognising what was generated\<close>

definition is_label :: "char \<Rightarrow> bool" where
  "is_label c \<longleftrightarrow> is_lower c \<or> is_digit c"

definition is_alnum :: "char \<Rightarrow> bool" where
  "is_alnum c \<longleftrightarrow> is_lower c \<or> is_upper c \<or> is_digit c"

text \<open>\<^verbatim>\<open>autoHostRe\<close>: \<^verbatim>\<open>^blade-([a-z0-9]{1,8}-)?r\d+s\d{2}$\<close>.\<close>

definition auto_tail :: "string \<Rightarrow> bool" where
  "auto_tail x = (case x of [] \<Rightarrow> False
     | c # r \<Rightarrow> c = CHR ''r'' \<and> takeWhile is_digit r \<noteq> []
         \<and> (case dropWhile is_digit r of
              [s, d1, d2] \<Rightarrow> s = CHR ''s'' \<and> is_digit d1 \<and> is_digit d2
            | _ \<Rightarrow> False))"

definition autoHost :: "string \<Rightarrow> bool" where
  "autoHost h = (has_prefix h ''blade-'' \<and>
     (let rest = drop 6 h; w = takeWhile is_label rest
      in case dropWhile is_label rest of
           c # tail \<Rightarrow> c = CHR ''-'' \<and> w \<noteq> [] \<and> length w \<le> 8 \<and> auto_tail tail
         | [] \<Rightarrow> auto_tail rest))"

definition autoMACPrefix :: string where "autoMACPrefix = ''02:b1:ad:''"

text \<open>\<^verbatim>\<open>macRe\<close>, \<^verbatim>\<open>hostRe\<close> and an IPv4 address in dotted decimal (\<^verbatim>\<open>net.ParseIP\<close>, \<^verbatim>\<open>To4\<close>).\<close>

definition macRe :: "string \<Rightarrow> bool" where
  "macRe s = (let ps = split_on CHR '':'' s
     in length ps = 6 \<and> list_all (\<lambda>p. length p = 2 \<and> list_all is_hex p) ps)"

definition hostRe :: "string \<Rightarrow> bool" where
  "hostRe s \<longleftrightarrow> s \<noteq> [] \<and> length s \<le> 63 \<and> is_alnum (hd s) \<and> is_alnum (last s)
     \<and> list_all (\<lambda>c. is_alnum c \<or> c = CHR ''-'') s"

definition octet :: "string \<Rightarrow> bool" where
  "octet p \<longleftrightarrow> p \<noteq> [] \<and> list_all is_digit p \<and> nat_of_digits p \<le> 255 \<and> (length p = 1 \<or> hd p \<noteq> CHR ''0'')"

definition parseIPv4 :: "string \<Rightarrow> bool" where
  "parseIPv4 s = (let ps = split_on CHR ''.'' s in length ps = 4 \<and> list_all octet ps)"

text \<open>The first three octets of a \<^verbatim>\<open>/24\<close>, as the code checks them.\<close>

definition validNetBase :: "string \<Rightarrow> bool" where
  "validNetBase s = (let parts = split_on CHR ''.'' s
     in length parts = 3 \<and>
        list_all (\<lambda>p. case atoi p of
          None \<Rightarrow> False
        | Some n \<Rightarrow> \<not> (n < 0 \<or> n > 255 \<or> (length p > 1 \<and> hd p = CHR ''0''))) parts)"

definition validHostPrefix :: "string \<Rightarrow> bool" where
  "validHostPrefix p \<longleftrightarrow> length p \<le> 8 \<and> list_all is_label p"

definition validLease :: "string \<Rightarrow> bool" where
  "validLease s \<longleftrightarrow> s = [] \<or> s = ''infinite''
     \<or> (length s \<ge> 2 \<and> list_all is_digit (butlast s) \<and> last s \<in> set ''smhd'')"

section \<open>The blade as the interface sees it\<close>

record siteNet =
  sn_name :: string
  sn_net_base :: string

definition siteNets :: "app \<Rightarrow> int \<rightharpoonup> siteNet" where
  "siteNets a sid = map_option (\<lambda>st. \<lparr>sn_name = s_name st, sn_net_base = s_net_base st\<rparr>) (getSite a sid)"

definition bare :: "blade \<Rightarrow> bview" where
  "bare b = blade.extend b (bview.fields [] [] 0 0 [])"

definition decorate :: "blade \<Rightarrow> (int \<rightharpoonup> rack) \<Rightarrow> (int \<rightharpoonup> siteNet) \<Rightarrow> (rack \<Rightarrow> int) \<Rightarrow> bview" where
  "decorate b racks nets idx =
     (case (b_rack_id b, b_slot b) of
        (Some rid, Some slot) \<Rightarrow>
          (case racks rid of
             None \<Rightarrow> bare b
           | Some r \<Rightarrow>
               (let sn = (case nets (r_site_id r) of
                            None \<Rightarrow> \<lparr>sn_name = [], sn_net_base = []\<rparr> | Some n \<Rightarrow> n);
                    ip = (if 1 \<le> slot \<and> slot \<le> r_size r \<and> sn_net_base sn \<noteq> []
                          then sn_net_base sn @ ''.'' @ show_int (r_ip_offset r + slot) else [])
                in (bare b)\<lparr>v_rack_name := r_name r, v_rack_idx := idx r, v_site_id := r_site_id r,
                            v_site_name := sn_name sn, v_ip := ip\<rparr>))
      | _ \<Rightarrow> bare b)"

definition view :: "app \<Rightarrow> blade \<Rightarrow> bview" where
  "view a b = decorate b (getRack a) (siteNets a) (rackIndex a)"

definition listBlades :: "app \<Rightarrow> bview list" where
  "listBlades a =
     map (view a) (sort_key (\<lambda>b. (b_rack_id b, b_slot b, b_serial b)) (a_blades a))"

definition getBlade :: "app \<Rightarrow> string \<Rightarrow> bview option" where
  "getBlade a serial = map_option (view a) (get_row (a_blades a) serial)"

definition bladeName :: "('v) blade_scheme \<Rightarrow> string" where
  "bladeName b = (if b_hostname b \<noteq> [] then b_hostname b else b_serial b)"

text \<open>\<^verbatim>\<open>bladeIP\<close> reads the network through the cache (\<^verbatim>\<open>siteNetBase\<close>).\<close>

definition fresh_net_base :: "app \<Rightarrow> int \<Rightarrow> string" where
  "fresh_net_base a sid =
     (case getSite a sid of Some st \<Rightarrow> s_net_base st | None \<Rightarrow> setting a ''net_base'' ''10.0.0'')"

definition siteNetBase :: "app \<Rightarrow> int \<Rightarrow> string \<times> app" where
  "siteNetBase a sid =
     (case a_netCache a sid of
        Some v \<Rightarrow> (v, a)
      | None \<Rightarrow> (let v = fresh_net_base a sid
                 in (v, a\<lparr>a_netCache := (a_netCache a)(sid \<mapsto> v)\<rparr>)))"

definition fresh_site_name :: "app \<Rightarrow> int \<Rightarrow> string" where
  "fresh_site_name a sid = (case getSite a sid of Some st \<Rightarrow> s_name st | None \<Rightarrow> [])"

definition siteName :: "app \<Rightarrow> int \<Rightarrow> string \<times> app" where
  "siteName a sid =
     (case a_nameCache a sid of
        Some v \<Rightarrow> (v, a)
      | None \<Rightarrow> (let v = fresh_site_name a sid
                 in (v, a\<lparr>a_nameCache := (a_nameCache a)(sid \<mapsto> v)\<rparr>)))"

definition invalidateNetCache :: "app \<Rightarrow> app" where
  "invalidateNetCache a = a\<lparr>a_netCache := Map.empty, a_nameCache := Map.empty\<rparr>"

definition bladeIP :: "app \<Rightarrow> rack \<Rightarrow> int \<Rightarrow> string \<times> app" where
  "bladeIP a r slot =
     (if slot < 1 \<or> slot > r_size r then ([], a)
      else let (net, a') = siteNetBase a (r_site_id r)
           in (net @ ''.'' @ show_int (r_ip_offset r + slot), a'))"

section \<open>Events\<close>

definition logEvent :: "app \<Rightarrow> instant \<Rightarrow> string \<Rightarrow> string \<Rightarrow> string \<Rightarrow> app" where
  "logEvent a t serial level msg =
     a\<lparr>a_events := a_events a @ [\<lparr>e_ts = stamp_of t, e_serial = serial, e_level = level,
        e_msg = msg, e_received = None, e_actor = []\<rparr>]\<rparr>"

definition logActed :: "app \<Rightarrow> instant \<Rightarrow> string \<Rightarrow> string \<Rightarrow> string \<Rightarrow> string \<Rightarrow> app" where
  "logActed a t actor serial level msg =
     a\<lparr>a_events := a_events a @ [\<lparr>e_ts = stamp_of t, e_serial = serial, e_level = level,
        e_msg = msg, e_received = None, e_actor = actor\<rparr>]\<rparr>"

text \<open>\<^verbatim>\<open>usableStamp\<close> on a parsed stamp: \<open>None\<close> for an empty or unreadable one.\<close>

definition usableStamp :: "instant \<Rightarrow> stamp \<Rightarrow> stamp \<Rightarrow> stamp" where
  "usableStamp t when fallback =
     (case when of None \<Rightarrow> fallback
      | Some s \<Rightarrow> if since t s < - int (minutes 5) \<or> since t s > int (hours (30 * 24))
                  then fallback else Some s)"

definition logEventAt :: "app \<Rightarrow> instant \<Rightarrow> string \<Rightarrow> string \<Rightarrow> string \<Rightarrow> stamp \<Rightarrow> app" where
  "logEventAt a t serial level msg when =
     (let arrived = stamp_of t; ts = usableStamp t when arrived;
          received = (if ts \<noteq> arrived then arrived else None)
      in a\<lparr>a_events := a_events a @ [\<lparr>e_ts = ts, e_serial = serial, e_level = level,
             e_msg = msg, e_received = received, e_actor = []\<rparr>]\<rparr>)"

section \<open>The view keeps the row and adds the position\<close>

lemma view_cases:
  "view a b = (case position b of None \<Rightarrow> bare b
     | Some (rid, slot) \<Rightarrow> decorate b (getRack a) (siteNets a) (rackIndex a))"
  by (simp add: view_def decorate_def position_def split: option.splits)

lemma bare_fields [simp]:
  "b_serial (bare b) = b_serial b" "b_rack_id (bare b) = b_rack_id b" "b_slot (bare b) = b_slot b"
  "b_hostname (bare b) = b_hostname b" "b_mac (bare b) = b_mac b" "b_image (bare b) = b_image b"
  "b_state (bare b) = b_state b" "b_groups (bare b) = b_groups b" "b_facts (bare b) = b_facts b"
  "b_health (bare b) = b_health b" "b_install_state (bare b) = b_install_state b"
  "b_probe (bare b) = b_probe b" "b_probe_sent (bare b) = b_probe_sent b"
  "b_halted (bare b) = b_halted b" "b_stored (bare b) = b_stored b" "b_token (bare b) = b_token b"
  "b_last_seen (bare b) = b_last_seen b"
  "v_ip (bare b) = []" "v_rack_name (bare b) = []" "v_rack_idx (bare b) = 0"
  "v_site_id (bare b) = 0" "v_site_name (bare b) = []"
  by (simp_all add: bare_def blade.extend_def bview.fields_def)

lemma view_fields [simp]:
  "b_serial (view a b) = b_serial b" "b_rack_id (view a b) = b_rack_id b"
  "b_slot (view a b) = b_slot b" "b_hostname (view a b) = b_hostname b"
  "b_mac (view a b) = b_mac b" "b_image (view a b) = b_image b" "b_state (view a b) = b_state b"
  "b_groups (view a b) = b_groups b" "b_facts (view a b) = b_facts b"
  "b_health (view a b) = b_health b" "b_install_state (view a b) = b_install_state b"
  "b_probe (view a b) = b_probe b" "b_probe_sent (view a b) = b_probe_sent b"
  "b_halted (view a b) = b_halted b" "b_stored (view a b) = b_stored b"
  "b_token (view a b) = b_token b" "b_last_seen (view a b) = b_last_seen b"
  by (simp_all add: view_def decorate_def Let_def split: option.split)

lemma set_listBlades: "set (listBlades a) = view a ` set (a_blades a)"
  by (simp add: listBlades_def)

lemma getBlade_SomeD:
  "getBlade a serial = Some v \<Longrightarrow>
   \<exists>b. get_row (a_blades a) serial = Some b \<and> b \<in> set (a_blades a) \<and> b_serial b = serial \<and> v = view a b"
  by (auto simp: getBlade_def dest: blades.get_SomeD)

lemma distinct_listBlades:
  assumes "blades_ok (a_blades a)"
  shows "distinct (map b_serial (listBlades a))"
proof -
  have "map b_serial (listBlades a)
      = map b_serial (sort_key (\<lambda>b. (b_rack_id b, b_slot b, b_serial b)) (a_blades a))"
    by (simp add: listBlades_def comp_def)
  then show ?thesis using assms by (simp add: blades_ok_def distinct_map inj_on_def)
qed

lemma find_view:
  assumes "blades_ok (a_blades a)" and "get_row (a_blades a) s = Some r"
  shows "find (\<lambda>b. b_serial b = s) (filter P (listBlades a)) = (if P (view a r) then Some (view a r) else None)"
proof -
  have r: "r \<in> set (a_blades a)" "b_serial r = s" using blades.get_SomeD [OF assms(2)] by auto
  have d: "distinct (map b_serial (filter P (listBlades a)))"
    using distinct_listBlades [OF assms(1)] by (rule distinct_map_filter)
  show ?thesis
  proof (cases "P (view a r)")
    case True
    then have "view a r \<in> set (filter P (listBlades a))" using r by (simp add: set_listBlades)
    with True r d show ?thesis by (simp add: find_Some_iff_unique)
  next
    case False
    have "x = r" if "x \<in> set (a_blades a)" and "b_serial x = s" for x
      using assms r that by (auto simp: blades_ok_def distinct_map inj_on_def)
    with False show ?thesis by (auto simp: find_None_iff_all set_listBlades)
  qed
qed

text \<open>The derived address, read off the position.\<close>

lemma view_placed:
  assumes "position b = Some (rid, slot)" and "getRack a rid = Some r"
  shows "v_rack_name (view a b) = r_name r" and "v_rack_idx (view a b) = rackIndex a r"
    and "v_site_id (view a b) = r_site_id r"
    and "v_ip (view a b) =
      (case getSite a (r_site_id r) of None \<Rightarrow> []
       | Some st \<Rightarrow> if 1 \<le> slot \<and> slot \<le> r_size r \<and> s_net_base st \<noteq> []
           then s_net_base st @ ''.'' @ show_int (r_ip_offset r + slot) else [])"
  using assms
  by (auto simp: view_def decorate_def position_def siteNets_def Let_def split: option.splits)

lemma view_unplaced:
  assumes "position b = None \<or> (\<exists>rid slot. position b = Some (rid, slot) \<and> getRack a rid = None)"
  shows "view a b = bare b"
  using assms
  by (cases "b_rack_id b"; cases "b_slot b") (auto simp: view_def decorate_def position_def)

lemma view_ip_nonempty:
  assumes "v_ip (view a b) \<noteq> []"
  obtains rid slot r st where "position b = Some (rid, slot)" and "getRack a rid = Some r"
    and "getSite a (r_site_id r) = Some st" and "1 \<le> slot" and "slot \<le> r_size r"
    and "v_site_id (view a b) = r_site_id r"
    and "v_ip (view a b) = s_net_base st @ ''.'' @ show_int (r_ip_offset r + slot)"
proof -
  obtain rid slot where pos: "position b = Some (rid, slot)"
    using assms view_unplaced [of b a] by (cases "position b") auto
  obtain r where r: "getRack a rid = Some r"
    using assms pos view_unplaced [of b a] by (cases "getRack a rid") auto
  from assms obtain st where "getSite a (r_site_id r) = Some st"
    by (auto simp: view_placed [OF pos r] split: option.splits)
  with assms that pos r show thesis
    by (auto simp: view_placed [OF pos r] split: if_splits)
qed

text \<open>The view depends on the site and rack tables only.\<close>

lemma getSite_cong: "a_sites a' = a_sites a \<Longrightarrow> getSite a' = getSite a"
  by (simp add: fun_eq_iff getSite_def)

lemma getRack_cong: "a_racks a' = a_racks a \<Longrightarrow> getRack a' = getRack a"
  by (simp add: fun_eq_iff getRack_def)

lemma hostPrefix_cong: "a_sites a' = a_sites a \<Longrightarrow> hostPrefix a' = hostPrefix a"
  by (simp add: fun_eq_iff hostPrefix_def getSite_def)

lemma rackIndex_cong: "a_sites a' = a_sites a \<Longrightarrow> rackIndex a' = rackIndex a"
  by (simp add: fun_eq_iff rackIndex_def getSite_def)

lemma view_cong: "a_sites a' = a_sites a \<Longrightarrow> a_racks a' = a_racks a \<Longrightarrow> view a' = view a"
proof -
  assume s: "a_sites a' = a_sites a" and r: "a_racks a' = a_racks a"
  have "siteNets a' = siteNets a" using s by (simp add: fun_eq_iff siteNets_def getSite_def)
  then show "view a' = view a"
    using getRack_cong [OF r] rackIndex_cong [OF s] by (intro ext) (simp add: view_def)
qed

section \<open>The caches of site networks and names\<close>

definition cache_coherent :: "app \<Rightarrow> bool" where
  "cache_coherent a \<longleftrightarrow>
     (\<forall>k v. a_netCache a k = Some v \<longrightarrow> v = fresh_net_base a k)
   \<and> (\<forall>k v. a_nameCache a k = Some v \<longrightarrow> v = fresh_site_name a k)"

lemma invalidate_coherent: "cache_coherent (invalidateNetCache a)"
  by (simp add: cache_coherent_def invalidateNetCache_def)

lemma fresh_frame:
  "a_sites a' = a_sites a \<Longrightarrow> a_settings a' = a_settings a \<Longrightarrow> fresh_net_base a' = fresh_net_base a"
  "a_sites a' = a_sites a \<Longrightarrow> fresh_site_name a' = fresh_site_name a"
  by (auto simp: fun_eq_iff fresh_net_base_def fresh_site_name_def getSite_def setting_def
           split: option.split)

lemma cache_coherent_frame:
  "cache_coherent a \<Longrightarrow> a_sites a' = a_sites a \<Longrightarrow> a_settings a' = a_settings a \<Longrightarrow>
   a_netCache a' = a_netCache a \<Longrightarrow> a_nameCache a' = a_nameCache a \<Longrightarrow> cache_coherent a'"
  by (simp add: cache_coherent_def fresh_frame [of a' a])

lemma cache_coherent_fill:
  assumes "cache_coherent a"
  shows "cache_coherent (a\<lparr>a_netCache := (a_netCache a)(k \<mapsto> fresh_net_base a k)\<rparr>)"
    and "cache_coherent (a\<lparr>a_nameCache := (a_nameCache a)(k \<mapsto> fresh_site_name a k)\<rparr>)"
  using assms fresh_frame [of "a\<lparr>a_netCache := (a_netCache a)(k \<mapsto> fresh_net_base a k)\<rparr>" a]
    fresh_frame [of "a\<lparr>a_nameCache := (a_nameCache a)(k \<mapsto> fresh_site_name a k)\<rparr>" a]
  by (simp_all add: cache_coherent_def)

lemma siteNetBase_value: "cache_coherent a \<Longrightarrow> fst (siteNetBase a k) = fresh_net_base a k"
  by (auto simp: siteNetBase_def cache_coherent_def Let_def split: option.split)

lemma siteNetBase_coherent: "cache_coherent a \<Longrightarrow> cache_coherent (snd (siteNetBase a k))"
  by (simp add: siteNetBase_def Let_def cache_coherent_fill split: option.split)

lemma siteName_value: "cache_coherent a \<Longrightarrow> fst (siteName a k) = fresh_site_name a k"
  by (auto simp: siteName_def cache_coherent_def Let_def split: option.split)

lemma siteName_coherent: "cache_coherent a \<Longrightarrow> cache_coherent (snd (siteName a k))"
  by (simp add: siteName_def Let_def cache_coherent_fill split: option.split)

section \<open>Derived names are recognised and well formed\<close>

lemma hex_digit [simp]: "n < 16 \<Longrightarrow> is_hex (digit n)"
  by (auto simp: is_hex_def is_digit_def digit_def)

lemma colon_not_digit [simp]: "n < 16 \<Longrightarrow> digit n \<noteq> CHR '':''"
proof
  assume "n < 16" and "digit n = CHR '':''"
  then have "code (digit n) = 58" by (simp add: code_def)
  with \<open>n < 16\<close> show False by (simp add: digit_def split: if_splits)
qed

lemma hex2_parts:
  "hex2 n = [digit (nat (n mod 256) div 16), digit (nat (n mod 256) mod 16)]"
  "nat (n mod 256) div 16 < 16" "nat (n mod 256) mod 16 < 16"
  by (auto simp: hex2_def Let_def)

lemma length_hex2 [simp]: "length (hex2 n) = 2"
  by (simp add: hex2_def Let_def)

lemma hex2_inj: "hex2 m = hex2 n \<longleftrightarrow> m mod 256 = n mod 256"
proof
  assume "hex2 m = hex2 n"
  then have "digit (nat (m mod 256) div 16) = digit (nat (n mod 256) div 16)"
    and "digit (nat (m mod 256) mod 16) = digit (nat (n mod 256) mod 16)"
    by (simp_all add: hex2_parts(1))
  then have "nat (m mod 256) div 16 = nat (n mod 256) div 16"
    and "nat (m mod 256) mod 16 = nat (n mod 256) mod 16"
    using hex2_parts(2,3) digit_inj by meson+
  then have "nat (m mod 256) = nat (n mod 256)" by (metis mult_div_mod_eq)
  then show "m mod 256 = n mod 256" by (simp add: nat_eq_iff)
next
  assume "m mod 256 = n mod 256"
  then show "hex2 m = hex2 n" by (simp add: hex2_def)
qed

lemma colon_notin_hex2 [simp]: "CHR '':'' \<notin> set (hex2 n)"
  using hex2_parts(2,3) [of n] colon_not_digit by (auto simp: hex2_parts(1) dest!: sym [of "CHR '':''"])

lemma hex_hex2 [simp]: "list_all is_hex (hex2 n)"
  using hex2_parts(2,3) [of n] by (simp add: hex2_parts(1))

lemma split_bladeMAC:
  "split_on CHR '':'' (bladeMAC s i k) = [''02'', ''b1'', ''ad'', hex2 s, hex2 i, hex2 k]"
  by (simp add: bladeMAC_def split_on_append split_on_none)

lemma macRe_bladeMAC: "macRe (bladeMAC s i k)"
  by (simp add: macRe_def split_bladeMAC Let_def) (simp add: is_hex_def is_digit_def code_def)

lemma bladeMAC_eq_iff:
  "bladeMAC s i k = bladeMAC s' i' k' \<longleftrightarrow>
     s mod 256 = s' mod 256 \<and> i mod 256 = i' mod 256 \<and> k mod 256 = k' mod 256"
proof -
  have "bladeMAC s i k = bladeMAC s' i' k' \<longleftrightarrow>
      hex2 s = hex2 s' \<and> hex2 i = hex2 i' \<and> hex2 k = hex2 k'"
    by (simp add: bladeMAC_def append_eq_append_conv)
  then show ?thesis by (simp add: hex2_inj)
qed

end
