(* ===== verification/Names.thy ===== *)
theory Names
  imports Addressing
begin

text \<open>
  What the patterns of \<^verbatim>\<open>src/server/ipam.go\<close> and the generators beside them promise each
  other: a generated name is recognised as generated and is a legal host label, a
  generated MAC is well formed, and the address derived from a checked network and a
  slot of the block is one dnsmasq accepts.
\<close>

lemma char_classes [simp]:
  "\<not> is_digit CHR ''s''" "\<not> is_digit CHR ''r''" "\<not> is_digit CHR ''.''" "\<not> is_label CHR ''-''"
  "is_label CHR ''r''" "is_label CHR ''s''" "is_alnum CHR ''r''" "is_alnum CHR ''s''"
  "\<not> is_digit CHR ''-''" "\<not> is_digit CHR ''+''"
  by (simp_all add: is_digit_def is_label_def is_lower_def is_alnum_def is_upper_def code_def)

lemma digit_label: "is_digit c \<Longrightarrow> is_label c" by (simp add: is_label_def)
lemma label_alnum: "is_label c \<Longrightarrow> is_alnum c" by (auto simp: is_label_def is_alnum_def)

lemma digit_0: "digit 0 = CHR ''0''"
  by code_simp

lemma pad2_two:
  assumes "0 \<le> n" and "n < 100"
  shows "pad2 n = [digit (nat n div 10), digit (nat n mod 10)]"
proof (cases "n < 10")
  case True
  with assms have "nat n < 10" by simp
  then show ?thesis using True assms
    by (simp add: pad2_def show_int_def show_nat.simps [of "nat n"] digit_0)
next
  case False
  with assms have "\<not> nat n < 10" and "nat n div 10 < 10" by auto
  then show ?thesis using False assms
    by (simp add: pad2_def show_int_def show_nat.simps [of "nat n"] show_nat.simps [of "nat n div 10"])
qed

lemma auto_tail_gen:
  assumes "a < 10" and "b < 10"
  shows "auto_tail (CHR ''r'' # show_nat n @ [CHR ''s'', digit a, digit b])"
proof -
  have d: "\<forall>c\<in>set (show_nat n). is_digit c" using show_nat_digits [of n] by (simp add: list_all_iff)
  have "takeWhile is_digit (show_nat n @ CHR ''s'' # [digit a, digit b]) = show_nat n"
    using d by (simp add: takeWhile_append2)
  moreover have "dropWhile is_digit (show_nat n @ CHR ''s'' # [digit a, digit b])
      = CHR ''s'' # [digit a, digit b]"
    using d by (simp add: dropWhile_append2)
  ultimately show ?thesis using assms by (simp add: auto_tail_def)
qed

lemma bladeHostname_shape:
  assumes "0 \<le> i" and "0 \<le> k" and "k < 100"
  shows "bladeHostname p i k = ''blade-'' @ (if p = [] then [] else p @ ''-'')
     @ CHR ''r'' # show_nat (nat i) @ [CHR ''s'', digit (nat k div 10), digit (nat k mod 10)]"
  using assms by (simp add: bladeHostname_def pad2_two show_int_def)

text \<open>A host name the server generates itself - for any site prefix the settings accept,
  any BladeRunner number and any slot below one hundred - is recognised by the pattern that
  tells generated names from names a person typed, so a move re-derives it.\<close>

theorem autoHost_bladeHostname:
  assumes "validHostPrefix p" and "0 \<le> i" and "0 \<le> k" and "k < 100"
  shows "autoHost (bladeHostname p i k)"
proof -
  define t where "t = CHR ''r'' # show_nat (nat i) @ [CHR ''s'', digit (nat k div 10), digit (nat k mod 10)]"
  have tail: "auto_tail t"
    unfolding t_def by (rule auto_tail_gen) (use assms in auto)
  have lab: "\<forall>c\<in>set t. is_label c"
    using show_nat_digits [of "nat i"] assms by (auto simp: t_def list_all_iff intro!: digit_label)
  have name: "bladeHostname p i k = ''blade-'' @ (if p = [] then [] else p @ ''-'') @ t"
    unfolding t_def by (rule bladeHostname_shape) (use assms in auto)
  show ?thesis
  proof (cases "p = []")
    case True
    have dn: "dropWhile is_label t = []" using lab by simp
    from True tail show ?thesis unfolding name by (simp add: autoHost_def has_prefix_def Let_def dn)
  next
    case False
    have p: "\<forall>c\<in>set p. is_label c" and "length p \<le> 8"
      using assms(1) by (simp_all add: validHostPrefix_def list_all_iff)
    then have "takeWhile is_label (p @ CHR ''-'' # t) = p"
      and "dropWhile is_label (p @ CHR ''-'' # t) = CHR ''-'' # t"
      by (simp_all add: takeWhile_append2 dropWhile_append2)
    with False tail \<open>length p \<le> 8\<close> show ?thesis
      unfolding name by (simp add: autoHost_def has_prefix_def Let_def)
  qed
qed

theorem autoHost_bladeHostname_witness: "autoHost (bladeHostname ''kb'' 1 7)"
  by (rule autoHost_bladeHostname) (simp_all add: validHostPrefix_def is_label_def is_lower_def code_def)

lemma length_show_nat: "n < 1000 \<Longrightarrow> length (show_nat n) \<le> 3"
  by (subst show_nat.simps, simp, subst show_nat.simps, simp, subst show_nat.simps, simp)

lemma hostRe_bladeHostname:
  assumes "validHostPrefix p" and "0 \<le> i" and "i < 1000" and "0 \<le> k" and "k < 100"
  shows "hostRe (bladeHostname p i k)"
proof -
  have name: "bladeHostname p i k = ''blade-'' @ (if p = [] then [] else p @ ''-'')
     @ CHR ''r'' # show_nat (nat i) @ [CHR ''s'', digit (nat k div 10), digit (nat k mod 10)]"
    by (rule bladeHostname_shape) (use assms in auto)
  have l: "length (show_nat (nat i)) \<le> 3" by (rule length_show_nat) (use assms in auto)
  have p: "length p \<le> 8" "\<forall>c\<in>set p. is_alnum c"
    using assms(1) by (auto simp: validHostPrefix_def list_all_iff label_alnum)
  have d: "\<forall>c\<in>set (show_nat (nat i)). is_alnum c"
    using show_nat_digits [of "nat i"] by (auto simp: list_all_iff intro: label_alnum digit_label)
  have k: "is_alnum (digit (nat k div 10))" "is_alnum (digit (nat k mod 10))"
    using assms by (auto intro!: label_alnum digit_label)
  have "\<forall>c\<in>set ''blade''. is_alnum c"
    by (simp add: is_alnum_def is_lower_def code_def)
  then show ?thesis using l p d k
    by (auto simp: name hostRe_def list_all_iff)
qed

section \<open>Networks and addresses\<close>

definition dotted3 :: "nat \<Rightarrow> nat \<Rightarrow> nat \<Rightarrow> string" where
  "dotted3 x y z = show_nat x @ ''.'' @ show_nat y @ ''.'' @ show_nat z"

lemma split_dotted3:
  "split_on CHR ''.'' (dotted3 x y z) = [show_nat x, show_nat y, show_nat z]"
  by (simp add: dotted3_def split_on_append split_on_none no_digit_in_show)

lemma show_nat_no_lead: "length (show_nat n) > 1 \<Longrightarrow> hd (show_nat n) \<noteq> CHR ''0''"
proof (induction n rule: show_nat.induct)
  case (1 n)
  then have big: "\<not> n < 10" by (auto simp: show_nat.simps [of n] split: if_splits)
  show ?case
  proof (cases "n div 10 < 10")
    case True
    have "n div 10 \<noteq> 0" using big by simp
    have "code (digit (n div 10)) \<noteq> 48" using True \<open>n div 10 \<noteq> 0\<close> by (simp add: digit_def)
    then have "digit (n div 10) \<noteq> CHR ''0''" by (auto simp: code_def)
    then show ?thesis using big True by (simp add: show_nat.simps [of n] show_nat.simps [of "n div 10"])
  next
    case False
    then have "length (show_nat (n div 10)) > 1"
      by (subst show_nat.simps) (simp add: Suc_le_eq)
    then show ?thesis using 1(1) [OF big] big by (simp add: show_nat.simps [of n])
  qed
qed

lemma octet_show: "n \<le> 255 \<Longrightarrow> octet (show_nat n)"
  using show_nat_no_lead [of n]
  by (cases "length (show_nat n) > 1")
     (auto simp: octet_def show_nat_digits nat_of_digits_show not_less le_Suc_eq)

text \<open>A network written as three decimal octets is accepted by the site form, and every
  address the plan derives in it - any host number up to 255 - passes the IPv4 check in
  front of the reservation file.\<close>

theorem validNetBase_dotted:
  assumes "x \<le> 255" and "y \<le> 255" and "z \<le> 255" and "0 \<le> n" and "n \<le> 255"
  shows "validNetBase (dotted3 x y z) \<and> parseIPv4 (dotted3 x y z @ ''.'' @ show_int n)"
proof
  have ok: "atoi (show_nat v) = Some (int v)" if "v \<le> 255" for v
    by (rule atoi_show_nat) (use that in auto)
  show "validNetBase (dotted3 x y z)"
    using assms show_nat_no_lead
    by (auto simp: validNetBase_def split_dotted3 ok)
next
  have "split_on CHR ''.'' (dotted3 x y z @ ''.'' @ show_int n)
      = [show_nat x, show_nat y, show_nat z, show_nat (nat n)]"
    using assms by (simp add: dotted3_def split_on_append split_on_none no_digit_in_show show_int_def)
  then show "parseIPv4 (dotted3 x y z @ ''.'' @ show_int n)"
    using assms by (simp add: parseIPv4_def octet_show)
qed

theorem validNetBase_dotted_witness:
  "validNetBase (dotted3 10 0 7) \<and> parseIPv4 (dotted3 10 0 7 @ ''.'' @ show_int 103)"
  by (rule validNetBase_dotted) simp_all

text \<open>The network check accepts more than three octets: a sign in front of a number passes,
  and no address derived in such a network passes the IPv4 check, so the reservation
  writer refuses every blade of the site.\<close>

theorem validNetBase_sign:
  "validNetBase ''+10.0.0'' \<and> (\<forall>n. 0 \<le> n \<longrightarrow> \<not> parseIPv4 (''+10.0.0'' @ ''.'' @ show_int n))"
proof
  show "validNetBase ''+10.0.0''"
    by (simp add: validNetBase_def atoi_def nat_of_digits_def digit_val_def is_digit_def code_def)
  show "\<forall>n. 0 \<le> n \<longrightarrow> \<not> parseIPv4 (''+10.0.0'' @ ''.'' @ show_int n)"
  proof (intro allI impI)
    fix n :: int assume "0 \<le> n"
    have "split_on CHR ''.'' (''+10.0.0'' @ ''.'' @ show_int n)
        = [''+10'', ''0'', ''0'', show_nat (nat n)]"
      using \<open>0 \<le> n\<close> by (simp add: split_on_none no_digit_in_show show_int_def)
    then show "\<not> parseIPv4 (''+10.0.0'' @ ''.'' @ show_int n)"
      by (simp add: parseIPv4_def octet_def)
  qed
qed

theorem validNetBase_sign_witness: "\<not> parseIPv4 (''+10.0.0'' @ ''.'' @ show_int 101)"
  using validNetBase_sign by (auto dest!: spec [of _ 101])

end
