(* ===== verification/Demo.thy ===== *)
theory Demo
  imports Model
begin

text \<open>
  A small installation the concrete instances of the theorems are stated on: one local
  site, one BladeRunner with four slots, one blade in slot 3 with an image, one image.
\<close>

definition demo_site :: site where
  "demo_site = \<lparr>s_id = 1, s_name = ''Site 1'', s_location = [], s_net_base = ''10.0.0'',
     s_gateway = [], s_dns = [], s_domain = [], s_pool_from = 210, s_pool_to = 240,
     s_offset_base = 100, s_offset_step = 20, s_local = True, s_token = ''tok'',
     s_last_seen = None, s_created = Some 0, s_payload = [], s_site_version = [],
     s_trouble = [], s_enroll_code = [], s_enroll_until = None, s_host_prefix = [],
     s_relay_url = [], s_lease = ''1h'', s_policy_json = JNull, s_desired_at = None\<rparr>"

definition demo_rack :: rack where
  "demo_rack = \<lparr>r_id = 1, r_site_id = 1, r_name = ''R1'', r_size = 4, r_ip_offset = 100,
     r_location = [], r_created = Some 0\<rparr>"

definition demo_blade :: blade where
  "demo_blade = \<lparr>b_serial = ''c0ffee01'', b_short_serial = ''c0ffee01'', b_rack_id = Some 1,
     b_slot = Some 3, b_hostname = ''blade-r1s03'', b_mac = ''02:b1:ad:01:01:03'',
     b_image = ''dietpi'', b_variant = [], b_state = ''online'', b_groups = [],
     b_facts = JObj [(''nvme_bytes'', JNum 500)], b_health = JObj [(''soc_temp_c'', JNum 50)],
     b_install_state = InstallIdle, b_installed_at = None, b_config_applied = [],
     b_last_seen = Some 0, b_created = Some 0, b_probe = None, b_probe_sent = None,
     b_halted = None, b_stored = None, b_token = ''secret''\<rparr>"

definition demo_image :: image where
  "demo_image = \<lparr>i_id = ''dietpi'', i_url = ''http://x/dietpi.img'', i_sha256 = [], i_seed = ''dietpi'',
     i_os_id = [], i_notes = [], i_local = ''dietpi.img'', i_bytes = 100, i_created = Some 0,
     i_kernel = [], i_min_disk = 200, i_verified = True, i_part_table = ''mbr'', i_state = ''ready'',
     i_note = [], i_updated = None\<rparr>"

definition demo :: app where
  "demo = \<lparr>a_settings = [], a_policy = JNull, a_sites = [demo_site], a_racks = [demo_rack], a_blades = [demo_blade],
     a_images = [demo_image], a_configs = [], a_commands = [], a_events = [], a_samples = [],
     a_site_images = [], a_netboot = [], a_alerts = [], a_next_site = 2, a_next_rack = 2,
     a_next_cmd = 1, a_netCache = Map.empty, a_nameCache = Map.empty, a_hosts = [],
     a_localDHCP = True, a_logMarks = []\<rparr>"

lemmas demo_defs = demo_def demo_site_def demo_rack_def demo_blade_def demo_image_def

end
