(* ===== verification/Reservations.thy ===== *)
theory Reservations
  imports Names Demo
begin

text \<open>
  The host records dnsmasq reads (\<^verbatim>\<open>syncDHCP\<close> of \<^verbatim>\<open>src/server/ipam.go\<close>) and the netboot tag
  in them. One file per placed blade of the local site; files of blades that left are
  removed. The directory is an association list from file names to contents. The locale
  \<open>directory_mirror\<close> is the contract of such a writer; the site program of
  \<^verbatim>\<open>src/site/dhcp.go\<close> implements the same contract in its own theory.
\<close>

section \<open>A directory that mirrors a list of files\<close>

type_synonym files = "(string \<times> string) list"

definition is_conf :: "string \<Rightarrow> bool" where
  "is_conf n \<longleftrightarrow> has_prefix n ''blade-'' \<and> has_suffix n ''.conf''"

definition confName :: "string \<Rightarrow> string" where
  "confName serial = ''blade-'' @ serial @ ''.conf''"

definition write_all :: "files \<Rightarrow> files \<Rightarrow> files" where
  "write_all ws fs = fold (\<lambda>(n, body) m. AList.update n body m) ws fs"

definition prune :: "string list \<Rightarrow> files \<Rightarrow> files" where
  "prune want fs = filter (\<lambda>(n, _). \<not> (is_conf n \<and> n \<notin> set want)) fs"

lemma map_of_write_all:
  "distinct (map fst ws) \<Longrightarrow>
   map_of (write_all ws fs) n = (case map_of ws n of Some v \<Rightarrow> Some v | None \<Rightarrow> map_of fs n)"
  unfolding write_all_def by (rule map_of_fold_update)

lemma map_of_prune:
  "map_of (prune want fs) n = (if is_conf n \<and> n \<notin> set want then None else map_of fs n)"
  by (induction fs) (auto simp: prune_def)

lemma mirror_lookup:
  assumes "distinct (map fst ws)" and "\<forall>n\<in>fst ` set ws. is_conf n"
  shows "map_of (prune (map fst ws) (write_all ws fs)) n =
    (if is_conf n then map_of ws n else map_of fs n)"
proof (cases "n \<in> fst ` set ws")
  case True
  then obtain v where "map_of ws n = Some v" by (metis not_None_eq map_of_eq_None_iff)
  moreover from True assms(2) have "is_conf n" by auto
  ultimately show ?thesis using True assms(1) by (simp add: map_of_prune map_of_write_all)
next
  case False
  then have "map_of ws n = None" by (simp add: map_of_eq_None_iff)
  with False assms show ?thesis by (simp add: map_of_prune map_of_write_all)
qed

lemma map_of_write_all_cong:
  "map_of fs = map_of fs' \<Longrightarrow> map_of (write_all ws fs) = map_of (write_all ws fs')"
proof (induction ws arbitrary: fs fs')
  case Nil
  then show ?case by (simp add: write_all_def)
next
  case (Cons w ws)
  obtain n body where w: "w = (n, body)" by force
  have "map_of (AList.update n body fs) = map_of (AList.update n body fs')"
    using Cons.prems by (simp add: update_conv')
  from Cons.IH [OF this] show ?case by (simp add: w write_all_def)
qed

locale directory_mirror =
  fixes ok :: "'s \<Rightarrow> bool"
    and want :: "'s \<Rightarrow> files"
    and run :: "'s \<Rightarrow> files \<Rightarrow> files"
  assumes managed: "ok s \<Longrightarrow> is_conf n \<Longrightarrow> map_of (run s fs) n = map_of (want s) n"
    and unmanaged: "ok s \<Longrightarrow> \<not> is_conf n \<Longrightarrow> map_of (run s fs) n = map_of fs n"
begin

text \<open>Running twice changes nothing: the second pass writes no file.\<close>

lemma settled: "ok s \<Longrightarrow> map_of (run s (run s fs)) n = map_of (run s fs) n"
  by (cases "is_conf n") (simp_all add: managed unmanaged)

text \<open>No record of a blade that is not wanted survives a pass.\<close>

lemma no_orphan: "ok s \<Longrightarrow> is_conf n \<Longrightarrow> map_of (want s) n = None \<Longrightarrow> map_of (run s fs) n = None"
  by (simp add: managed)

text \<open>The outcome does not depend on what the directory held before.\<close>

lemma history_free: "ok s \<Longrightarrow> is_conf n \<Longrightarrow> map_of (run s fs) n = map_of (run s fs') n"
  by (simp add: managed)

end

section \<open>The reservation of one blade\<close>

definition probeFor :: nat where "probeFor = minutes 30"

definition probeArmed :: "instant \<Rightarrow> 'v blade_scheme \<Rightarrow> bool" where
  "probeArmed t b = (case b_probe b of None \<Rightarrow> False | Some s \<Rightarrow> since t s < int probeFor)"

definition validReservation :: "string \<Rightarrow> string \<Rightarrow> string \<Rightarrow> err + unit" where
  "validReservation mac host ip =
     (if \<not> macRe mac then Inl (ErrMacformat mac)
      else if \<not> hostRe host then Inl (ErrHostlabel host)
      else if \<not> parseIPv4 ip then Inl (ErrNotipv4 ip)
      else Inr ())"

definition nl :: string where "nl = [CHR 0x0A]"
definition endash :: string where "endash = map char_of [226, 128, 147 :: nat]"
definition emdash :: string where "emdash = map char_of [226, 128, 148 :: nat]"

text \<open>The MAC and name of a reservation: the blade's own, or the derived ones.\<close>

definition res_mac :: "bview \<Rightarrow> int \<Rightarrow> string" where
  "res_mac b slot = (if b_mac b = [] then bladeMAC (v_site_id b) (v_rack_idx b) slot else b_mac b)"

definition res_host :: "app \<Rightarrow> bview \<Rightarrow> int \<Rightarrow> string" where
  "res_host a b slot =
     (if b_hostname b = [] then bladeHostname (hostPrefix a (v_site_id b)) (v_rack_idx b) slot
      else b_hostname b)"

definition bootnet :: string where "bootnet = ''set:bootnet,''"

definition netboot_tag :: "instant \<Rightarrow> bview \<Rightarrow> string \<times> string" where
  "netboot_tag t b =
     (let (tag, why) = (case b_install_state b of
            InstallPending \<Rightarrow> (bootnet, ''install requested '' @ endash @ '' boots over the network'')
          | InstallWipe \<Rightarrow> (bootnet, ''erase requested '' @ endash @ '' boots over the network'')
          | _ \<Rightarrow> ([], ''boots from the NVMe''))
      in if tag = [] \<and> probeArmed t b
         then (bootnet, ''firmware read requested '' @ endash @ '' boots over the network once'')
         else (tag, why))"

definition res_body :: "app \<Rightarrow> instant \<Rightarrow> bview \<Rightarrow> int \<Rightarrow> string" where
  "res_body a t b slot =
     (let (tag, why) = netboot_tag t b
      in ''# Sheath '' @ endash @ '' generated, do not edit by hand'' @ nl
         @ ''# Blade '' @ b_serial b @ ''  Rack '' @ v_rack_name b @ ''  Slot '' @ show_int slot @ nl
         @ ''# '' @ why @ nl
         @ res_mac b slot @ '','' @ tag @ res_host a b slot @ '','' @ v_ip b @ '',infinite'' @ nl)"

section \<open>The sync\<close>

record syncResult =
  sr_written :: "string list"
  sr_removed :: "string list"
  sr_foreign :: nat

definition localSite :: "app \<Rightarrow> site option" where
  "localSite a = (case sort_key s_id (filter s_local (a_sites a)) of [] \<Rightarrow> None | st # _ \<Rightarrow> Some st)"

definition local_id :: "app \<Rightarrow> int" where
  "local_id a = (case localSite a of None \<Rightarrow> 0 | Some st \<Rightarrow> s_id st)"

definition foreign :: "int \<Rightarrow> bview \<Rightarrow> bool" where
  "foreign lid b \<longleftrightarrow> lid \<noteq> 0 \<and> v_site_id b \<noteq> lid"

text \<open>The loop over the blades: the directory, the names wanted, the names written, the
  number skipped, and the error that ends it early.\<close>

fun sync_loop :: "app \<Rightarrow> instant \<Rightarrow> int \<Rightarrow> bview list \<Rightarrow> files \<Rightarrow> string list \<Rightarrow> string list \<Rightarrow> nat
    \<Rightarrow> files \<times> string list \<times> string list \<times> nat \<times> err option" where
  "sync_loop a t lid [] fs want written skipped = (fs, want, written, skipped, None)"
| "sync_loop a t lid (b # bs) fs want written skipped =
     (case (b_rack_id b, b_slot b) of
        (Some _, Some slot) \<Rightarrow>
          (if v_ip b = [] then sync_loop a t lid bs fs want written skipped
           else if foreign lid b then sync_loop a t lid bs fs want written (Suc skipped)
           else
             (let mac = res_mac b slot; host = res_host a b slot; name = confName (b_serial b)
              in case validReservation mac host (v_ip b) of
                   Inl e \<Rightarrow> (fs, want @ [name], written, skipped, Some e)
                 | Inr _ \<Rightarrow>
                     (let body = res_body a t b slot
                      in if map_of fs name = Some body
                         then sync_loop a t lid bs fs (want @ [name]) written skipped
                         else sync_loop a t lid bs (AList.update name body fs) (want @ [name])
                                (written @ [name]) skipped)))
      | _ \<Rightarrow> sync_loop a t lid bs fs want written skipped)"

definition syncDHCP :: "app \<Rightarrow> instant \<Rightarrow> app \<times> (err + syncResult)" where
  "syncDHCP a t =
     (if \<not> a_localDHCP a
      then (a, Inr \<lparr>sr_written = [], sr_removed = [], sr_foreign = 0\<rparr>)
      else case sync_loop a t (local_id a) (listBlades a) (a_hosts a) [] [] 0 of
             (fs, want, written, skipped, Some e) \<Rightarrow> (a\<lparr>a_hosts := fs\<rparr>, Inl e)
           | (fs, want, written, skipped, None) \<Rightarrow>
               (let gone = filter (\<lambda>n. is_conf n \<and> n \<notin> set want) (map fst fs)
                in (a\<lparr>a_hosts := prune want fs\<rparr>,
                    Inr \<lparr>sr_written = sort written, sr_removed = sort gone, sr_foreign = skipped\<rparr>)))"

text \<open>The callers that ignore the result keep the state only.\<close>

definition sync :: "app \<Rightarrow> instant \<Rightarrow> app" where
  "sync a t = fst (syncDHCP a t)"

section \<open>What the sync leaves in the directory\<close>

text \<open>The blades that get a record, and the record each gets.\<close>

definition reserved :: "int \<Rightarrow> bview \<Rightarrow> bool" where
  "reserved lid b \<longleftrightarrow> b_rack_id b \<noteq> None \<and> b_slot b \<noteq> None \<and> v_ip b \<noteq> [] \<and> \<not> foreign lid b"

definition reservations :: "app \<Rightarrow> instant \<Rightarrow> files" where
  "reservations a t =
     map (\<lambda>b. (confName (b_serial b), res_body a t b (the (b_slot b))))
       (filter (reserved (local_id a)) (listBlades a))"

definition all_valid :: "app \<Rightarrow> bool" where
  "all_valid a \<longleftrightarrow> (\<forall>b\<in>set (listBlades a). reserved (local_id a) b \<longrightarrow>
     validReservation (res_mac b (the (b_slot b))) (res_host a b (the (b_slot b))) (v_ip b) = Inr ())"

lemma confName_inj [simp]: "confName s = confName s' \<longleftrightarrow> s = s'"
  by (simp add: confName_def)

lemma is_conf_confName [simp]: "is_conf (confName s)"
  by (simp add: is_conf_def confName_def has_prefix_def has_suffix_def)

lemma sync_frame [keep]:
  "a_settings (sync a t) = a_settings a" "a_sites (sync a t) = a_sites a"
  "a_racks (sync a t) = a_racks a" "a_blades (sync a t) = a_blades a"
  "a_images (sync a t) = a_images a" "a_configs (sync a t) = a_configs a"
  "a_commands (sync a t) = a_commands a" "a_events (sync a t) = a_events a"
  "a_samples (sync a t) = a_samples a" "a_netboot (sync a t) = a_netboot a"
  "a_alerts (sync a t) = a_alerts a" "a_netCache (sync a t) = a_netCache a"
  "a_nameCache (sync a t) = a_nameCache a" "a_localDHCP (sync a t) = a_localDHCP a"
  "a_next_site (sync a t) = a_next_site a" "a_next_rack (sync a t) = a_next_rack a"
  "a_next_cmd (sync a t) = a_next_cmd a" "a_site_images (sync a t) = a_site_images a"
  "a_policy (sync a t) = a_policy a"
  by (auto simp: sync_def syncDHCP_def Let_def split: prod.splits option.splits)

text \<open>One turn of the loop, for a blade that gets a record and for one that does not.\<close>

lemma sync_loop_skip:
  "\<not> reserved lid b \<Longrightarrow> \<exists>sk. sync_loop a t lid (b # bs) fs want written skipped
     = sync_loop a t lid bs fs want written sk"
  by (auto simp: reserved_def split: option.split)

lemma sync_loop_write:
  assumes "reserved lid b" and "b_slot b = Some slot"
    and "validReservation (res_mac b slot) (res_host a b slot) (v_ip b) = Inr ()"
  shows "\<exists>wr fs1. sync_loop a t lid (b # bs) fs want written skipped
      = sync_loop a t lid bs fs1 (want @ [confName (b_serial b)]) wr skipped
    \<and> map_of fs1 = map_of (AList.update (confName (b_serial b)) (res_body a t b slot) fs)"
proof -
  obtain rid where r: "b_rack_id b = Some rid" and "v_ip b \<noteq> []" "\<not> foreign lid b"
    using assms(1) by (auto simp: reserved_def)
  then show ?thesis using assms(2,3)
    by (cases "map_of fs (confName (b_serial b)) = Some (res_body a t b slot)")
       (force simp: Let_def update_conv' fun_upd_idem)+
qed

lemma sync_loop_fail:
  assumes "reserved lid b" and "b_slot b = Some slot"
    and "validReservation (res_mac b slot) (res_host a b slot) (v_ip b) = Inl e"
  shows "sync_loop a t lid (b # bs) fs want written skipped
      = (fs, want @ [confName (b_serial b)], written, skipped, Some e)"
  using assms by (auto simp: reserved_def Let_def)

definition res_files :: "app \<Rightarrow> instant \<Rightarrow> int \<Rightarrow> bview list \<Rightarrow> files" where
  "res_files a t lid bs =
     map (\<lambda>b. (confName (b_serial b), res_body a t b (the (b_slot b)))) (filter (reserved lid) bs)"

text \<open>The loop writes what the list of reservations says, whichever files were there.\<close>

lemma sync_loop_spec:
  "sync_loop a t lid bs fs want written skipped = (fs', want', written', skipped', None) \<Longrightarrow>
   want' = want @ map fst (res_files a t lid bs)
     \<and> map_of fs' = map_of (write_all (res_files a t lid bs) fs)"
proof (induction bs arbitrary: fs want written skipped)
  case Nil
  then show ?case by (simp add: write_all_def res_files_def)
next
  case (Cons b bs)
  show ?case
  proof (cases "reserved lid b")
    case False
    with sync_loop_skip [OF False, of a t bs fs want written skipped] Cons show ?thesis
      by (auto simp: res_files_def)
  next
    case True
    then obtain slot where slot: "b_slot b = Some slot" by (auto simp: reserved_def)
    have val: "validReservation (res_mac b slot) (res_host a b slot) (v_ip b) = Inr ()"
      using Cons.prems sync_loop_fail [OF True slot, of a]
      by (cases "validReservation (res_mac b slot) (res_host a b slot) (v_ip b)") auto
    obtain wr fs1 where step: "sync_loop a t lid (b # bs) fs want written skipped
        = sync_loop a t lid bs fs1 (want @ [confName (b_serial b)]) wr skipped"
      and fs1: "map_of fs1 = map_of (AList.update (confName (b_serial b)) (res_body a t b slot) fs)"
      using sync_loop_write [OF True slot val] by blast
    have "want' = (want @ [confName (b_serial b)]) @ map fst (res_files a t lid bs)
        \<and> map_of fs' = map_of (write_all (res_files a t lid bs) fs1)"
      using Cons.prems unfolding step by (rule Cons.IH)
    then show ?thesis
      using True slot map_of_write_all_cong [OF fs1]
      by (simp add: res_files_def write_all_def)
  qed
qed

text \<open>With valid records throughout, the loop reaches the end.\<close>

lemma sync_loop_total:
  assumes "\<forall>b\<in>set bs. reserved lid b \<longrightarrow>
     validReservation (res_mac b (the (b_slot b))) (res_host a b (the (b_slot b))) (v_ip b) = Inr ()"
  shows "\<exists>fs' want' written' skipped'.
     sync_loop a t lid bs fs want written skipped = (fs', want', written', skipped', None)"
  using assms
proof (induction bs arbitrary: fs want written skipped)
  case Nil
  then show ?case by simp
next
  case (Cons b bs)
  show ?case
  proof (cases "reserved lid b")
    case False
    with sync_loop_skip [OF False, of a t bs fs want written skipped] Cons show ?thesis by auto
  next
    case True
    then obtain slot where slot: "b_slot b = Some slot" by (auto simp: reserved_def)
    with Cons.prems True have "validReservation (res_mac b slot) (res_host a b slot) (v_ip b) = Inr ()"
      by auto
    from sync_loop_write [OF True slot this, of t bs fs want written skipped] Cons show ?thesis
      by auto
  qed
qed

lemma reservations_res_files: "reservations a t = res_files a t (local_id a) (listBlades a)"
  by (simp add: reservations_def res_files_def)

lemma distinct_reservations:
  assumes "blades_ok (a_blades a)"
  shows "distinct (map fst (reservations a t))"
proof -
  have "distinct (map b_serial (listBlades a))" by (rule distinct_listBlades [OF assms])
  then have "distinct (map b_serial (filter (reserved (local_id a)) (listBlades a)))"
    by (simp add: distinct_map_filter)
  then show ?thesis
    by (simp add: reservations_def distinct_map comp_def inj_on_def)
qed

lemma conf_reservations: "\<forall>n\<in>fst ` set (reservations a t). is_conf n"
  by (auto simp: reservations_def)

text \<open>The sync as a pass over the directory alone.\<close>

definition sync_pass :: "app \<times> instant \<Rightarrow> files \<Rightarrow> files" where
  "sync_pass s fs = (case s of (a, t) \<Rightarrow> a_hosts (sync (a\<lparr>a_hosts := fs\<rparr>) t))"

definition sync_ok :: "app \<times> instant \<Rightarrow> bool" where
  "sync_ok s = (case s of (a, t) \<Rightarrow> a_localDHCP a \<and> blades_ok (a_blades a) \<and> all_valid a)"

lemma hosts_irrelevant:
  "view (a\<lparr>a_hosts := fs\<rparr>) = view a" "listBlades (a\<lparr>a_hosts := fs\<rparr>) = listBlades a"
  "local_id (a\<lparr>a_hosts := fs\<rparr>) = local_id a" "res_host (a\<lparr>a_hosts := fs\<rparr>) = res_host a"
  "res_body (a\<lparr>a_hosts := fs\<rparr>) = res_body a" "res_files (a\<lparr>a_hosts := fs\<rparr>) = res_files a"
proof -
  show v: "view (a\<lparr>a_hosts := fs\<rparr>) = view a" by (rule view_cong) simp_all
  have hp: "hostPrefix (a\<lparr>a_hosts := fs\<rparr>) = hostPrefix a" by (rule hostPrefix_cong) simp
  show rh: "res_host (a\<lparr>a_hosts := fs\<rparr>) = res_host a" by (simp add: fun_eq_iff res_host_def hp)
  show rb: "res_body (a\<lparr>a_hosts := fs\<rparr>) = res_body a" by (simp add: fun_eq_iff res_body_def rh)
  show "res_files (a\<lparr>a_hosts := fs\<rparr>) = res_files a" by (simp add: fun_eq_iff res_files_def rb)
qed (simp_all add: listBlades_def local_id_def localSite_def view_cong [of "a\<lparr>a_hosts := fs\<rparr>" a])

lemma all_valid_hosts: "all_valid (a\<lparr>a_hosts := fs\<rparr>) = all_valid a"
  by (simp add: all_valid_def hosts_irrelevant)

lemma sync_pass_eq:
  assumes "sync_ok (a, t)"
  shows "map_of (sync_pass (a, t) fs)
    = map_of (prune (map fst (reservations a t)) (write_all (reservations a t) fs))"
proof -
  let ?a = "a\<lparr>a_hosts := fs\<rparr>"
  have "all_valid ?a" using assms by (simp add: sync_ok_def all_valid_hosts)
  then obtain fs' want' wr sk where l:
    "sync_loop ?a t (local_id ?a) (listBlades ?a) fs [] [] 0 = (fs', want', wr, sk, None)"
    using sync_loop_total [of "listBlades ?a" "local_id ?a" ?a t fs "[]" "[]" 0]
    by (auto simp: all_valid_def)
  from sync_loop_spec [OF l] have "want' = map fst (reservations a t)"
    and "map_of fs' = map_of (write_all (reservations a t) fs)"
    by (simp_all add: reservations_res_files hosts_irrelevant)
  then show ?thesis using assms l
    by (auto simp: sync_pass_def sync_def syncDHCP_def sync_ok_def Let_def map_of_prune fun_eq_iff)
qed

interpretation centre_dhcp: directory_mirror sync_ok "\<lambda>(a, t). reservations a t" sync_pass
proof unfold_locales
  fix s n fs assume "sync_ok s" and "is_conf n"
  moreover obtain a t where "s = (a, t)" by force
  ultimately show "map_of (sync_pass s fs) n = map_of (case s of (a, t) \<Rightarrow> reservations a t) n"
    using mirror_lookup [OF distinct_reservations conf_reservations]
    by (simp add: sync_pass_eq sync_ok_def)
next
  fix s n fs assume "sync_ok s" and "\<not> is_conf n"
  moreover obtain a t where "s = (a, t)" by force
  ultimately show "map_of (sync_pass s fs) n = map_of fs n"
    using mirror_lookup [OF distinct_reservations conf_reservations]
    by (simp add: sync_pass_eq sync_ok_def)
qed

lemma sync_sync_pass: "a_hosts (sync a t) = sync_pass (a, t) (a_hosts a)"
  by (simp add: sync_pass_def)

lemma netboot_tag_iff:
  "fst (netboot_tag t b) =
     (if b_install_state b = InstallPending \<or> b_install_state b = InstallWipe \<or> probeArmed t b
      then bootnet else [])"
  by (cases "b_install_state b") (auto simp: netboot_tag_def Let_def bootnet_def)

text \<open>C17. Where the server owns the wire and every record is well formed, a sync leaves in the
  reservation directory exactly one record per blade of the local site that stands in a
  slot with an address, with the body of its current state, whatever the directory held
  before, and it touches no file that is not a blade record.\<close>

theorem sync_directory_exact:
  assumes "sync_ok (a, t)"
  shows "map_of (a_hosts (sync a t)) n = (if is_conf n then map_of (reservations a t) n else map_of (a_hosts a) n)"
proof (cases "is_conf n")
  case True
  with centre_dhcp.managed [OF assms True, of "a_hosts a"] show ?thesis by (simp add: sync_sync_pass)
next
  case False
  with centre_dhcp.unmanaged [OF assms False, of "a_hosts a"] show ?thesis by (simp add: sync_sync_pass)
qed

lemma demo_sync_ok: "sync_ok (demo, 5 * nsec)"
  by (simp add: sync_ok_def all_valid_def listBlades_def demo_defs blades_ok_def positions_def
        List.map_filter_simps position_def view_def decorate_def getRack_def get_rack_def siteNets_def
        getSite_def get_site_def validReservation_def macRe_def hostRe_def parseIPv4_def octet_def
        res_mac_def res_host_def bare_def blade.extend_def bview.fields_def is_alnum_def
        show_int_def show_nat.simps nat_of_digits_def digit_val_def str_simps Let_def)

theorem sync_directory_exact_witness:
  "map_of (a_hosts (sync demo (5 * nsec))) (confName ''c0ffee01'')
     = map_of (reservations demo (5 * nsec)) (confName ''c0ffee01'')
   \<and> map_of (reservations demo (5 * nsec)) (confName ''c0ffee01'') \<noteq> None"
proof
  show "map_of (a_hosts (sync demo (5 * nsec))) (confName ''c0ffee01'')
     = map_of (reservations demo (5 * nsec)) (confName ''c0ffee01'')"
    using sync_directory_exact [OF demo_sync_ok, of "confName ''c0ffee01''"] by simp
  show "map_of (reservations demo (5 * nsec)) (confName ''c0ffee01'') \<noteq> None"
    by (simp add: reservations_def listBlades_def reserved_def demo_defs view_def decorate_def
          getRack_def get_rack_def siteNets_def getSite_def get_site_def local_id_def localSite_def
          foreign_def bare_def blade.extend_def bview.fields_def Let_def)
qed

end
