(* ===== verification/Racks.thy ===== *)
theory Racks
  imports Sites
begin

text \<open>
  BladeRunners: the address block each one gets within its site, creating, changing,
  moving and removing one (\<^verbatim>\<open>src/server/db.go\<close>, \<^verbatim>\<open>src/server/api.go\<close>, \<^verbatim>\<open>src/server/ui.go\<close>), and
  the self-check of the address plan (\<^verbatim>\<open>src/server/ipam.go\<close>). The theorems: the search for a
  free block returns exactly when the step is not zero or the first block is free, what it
  returns is the first free block; no operation leaves a blade outside its enclosure; and
  a plan the self-check has nothing to say about gives every blade an address of its own.
\<close>

section \<open>Address blocks\<close>

definition listRacks :: "app \<Rightarrow> rack list" where
  "listRacks a = sort_key (\<lambda>r. (r_site_id r, r_ip_offset r)) (a_racks a)"

definition used_offsets :: "app \<Rightarrow> int \<Rightarrow> int set" where
  "used_offsets a sid = set (map r_ip_offset (filter (\<lambda>r. r_site_id r = sid) (listRacks a)))"

text \<open>The loop \<^verbatim>\<open>for off := base; off+step <= 250; off += step\<close>; \<open>None\<close> is a loop that does
  not end.\<close>

partial_function (option) next_off :: "int set \<Rightarrow> int \<Rightarrow> int \<Rightarrow> (err + int) option" where
  "next_off used step off =
     (if off + step \<le> 250
      then (if off \<notin> used then Some (Inr off) else next_off used step (off + step))
      else Some (Inl ErrNooffset))"

definition nextRackOffset :: "app \<Rightarrow> int \<Rightarrow> (err + int) option" where
  "nextRackOffset a sid =
     (case getSite a sid of
        None \<Rightarrow> Some (Inl ErrDB)
      | Some st \<Rightarrow> next_off (used_offsets a sid) (s_offset_step st) (s_offset_base st))"

section \<open>Operations\<close>

definition maxOccupiedSlot :: "app \<Rightarrow> int \<Rightarrow> int" where
  "maxOccupiedSlot a rid =
     (case List.map_filter b_slot (filter (\<lambda>b. b_rack_id b = Some rid) (a_blades a)) of
        [] \<Rightarrow> 0 | s # ss \<Rightarrow> fold max ss s)"

definition countBladesInRack :: "app \<Rightarrow> int \<Rightarrow> nat" where
  "countBladesInRack a rid = count_where (\<lambda>b. b_rack_id b = Some rid) (a_blades a)"

definition rackCounts :: "app \<Rightarrow> int \<rightharpoonup> nat" where
  "rackCounts a sid = (let n = count_where (\<lambda>r. r_site_id r = sid) (a_racks a)
     in if n = 0 then None else Some n)"

definition moveRack :: "app \<Rightarrow> int \<Rightarrow> int \<Rightarrow> (err + app) option" where
  "moveRack a k sid =
     (case getRack a k of
        None \<Rightarrow> Some (Inl (ErrRacknotfound k))
      | Some rk \<Rightarrow>
          if r_site_id rk = sid then Some (Inr a)
          else if getSite a sid = None then Some (Inl ErrSitegone)
          else (case nextRackOffset a sid of
                  None \<Rightarrow> None
                | Some (Inl e) \<Rightarrow> Some (Inl e)
                | Some (Inr off) \<Rightarrow>
                    (let t' = upd_where (\<lambda>r. r_id r = k) (\<lambda>r. r\<lparr>r_site_id := sid, r_ip_offset := off\<rparr>) (a_racks a)
                     in if racks_ok t' then Some (Inr (invalidateNetCache (a\<lparr>a_racks := t'\<rparr>)))
                        else Some (Inl ErrUpdatefail))))"

definition updateRack :: "app \<Rightarrow> int \<Rightarrow> string \<Rightarrow> string \<Rightarrow> int \<Rightarrow> err + app" where
  "updateRack a k name loc size0 =
     (case getRack a k of
        None \<Rightarrow> Inl (ErrRacknotfound k)
      | Some rk \<Rightarrow>
          (let sz = (if size0 = 0 then r_size rk else size0)
           in if \<not> validSize sz then Inl (ErrBadsize sz)
              else if sz < r_size rk \<and> maxOccupiedSlot a k > sz then Inl (ErrShrink sz (maxOccupiedSlot a k))
              else (let name' = (if name = [] then r_name rk else name);
                        t' = upd_where (\<lambda>r. r_id r = k)
                               (\<lambda>r. r\<lparr>r_name := name', r_location := loc, r_size := sz\<rparr>) (a_racks a)
                    in if racks_ok t' then Inr (a\<lparr>a_racks := t'\<rparr>) else Inl ErrUpdatefail)))"

text \<open>\<^verbatim>\<open>INSERT INTO racks\<close>, refused when a constraint of the table does not hold.\<close>

definition insert_rack :: "app \<Rightarrow> instant \<Rightarrow> int \<Rightarrow> string \<Rightarrow> int \<Rightarrow> int \<Rightarrow> string \<Rightarrow> (app \<times> int) option" where
  "insert_rack a t sid name sz off loc =
     (let k = a_next_rack a;
          row = \<lparr>r_id = k, r_site_id = sid, r_name = name, r_size = sz, r_ip_offset = off,
                 r_location = loc, r_created = stamp_of t\<rparr>;
          t' = a_racks a @ [row]
      in if racks_ok t' then Some (a\<lparr>a_racks := t', a_next_rack := k + 1\<rparr>, k) else None)"

record rackInput =
  ri_name :: string
  ri_size :: int
  ri_location :: string
  ri_offset :: int
  ri_site :: int

definition hRacksCreate :: "app \<Rightarrow> instant \<Rightarrow> rackInput \<Rightarrow> (app \<times> nat) option" where
  "hRacksCreate a t inp =
     (if ri_name inp = [] then Some (a, 400)
      else if \<not> validSize (ri_size inp) then Some (a, 400)
      else case (if ri_site inp = 0 then map_option s_id (defaultSite a) else Some (ri_site inp)) of
             None \<Rightarrow> Some (a, 500)
           | Some sid \<Rightarrow>
               (case (if ri_offset inp = 0 then nextRackOffset a sid else Some (Inr (ri_offset inp))) of
                  None \<Rightarrow> None
                | Some (Inl e) \<Rightarrow> Some (a, 409)
                | Some (Inr off) \<Rightarrow>
                    (case insert_rack a t sid (ri_name inp) (ri_size inp) off (ri_location inp) of
                       None \<Rightarrow> Some (a, 409)
                     | Some (a1, k) \<Rightarrow>
                         Some (logEvent a1 t [] ''info'' (''BladeRunner '' @ goquote (ri_name inp)
                           @ '' created ('' @ show_int (ri_size inp) @ '' slots, block .''
                           @ show_int (off + 1) @ ''-.'' @ show_int (off + ri_size inp) @ '')''), 201))))"

definition hUIRackCreate :: "app \<Rightarrow> instant \<Rightarrow> rackInput \<Rightarrow> (app \<times> bool) option" where
  "hUIRackCreate a t inp =
     (if ri_name inp = [] then Some (a, False)
      else if \<not> validSize (ri_size inp) then Some (a, False)
      else case (if ri_site inp = 0 then map_option s_id (defaultSite a) else Some (ri_site inp)) of
             None \<Rightarrow> Some (a, False)
           | Some sid \<Rightarrow>
               (let (net, a0) = siteNetBase a sid
                in case nextRackOffset a0 sid of
                     None \<Rightarrow> None
                   | Some (Inl e) \<Rightarrow> Some (a0, False)
                   | Some (Inr off) \<Rightarrow>
                       (case insert_rack a0 t sid (ri_name inp) (ri_size inp) off (ri_location inp) of
                          None \<Rightarrow> Some (a0, False)
                        | Some (a1, k) \<Rightarrow>
                            Some (logEvent a1 t [] ''info''
                              (''Rack '' @ [CHR 0x22] @ ri_name inp @ [CHR 0x22] @ '' created''), True))))"

definition hRackUpdate :: "app \<Rightarrow> instant \<Rightarrow> int \<Rightarrow> string \<Rightarrow> string \<Rightarrow> int \<Rightarrow> app \<times> nat" where
  "hRackUpdate a t k name loc sz =
     (case updateRack a k name loc sz of
        Inl e \<Rightarrow> (a, 400)
      | Inr a1 \<Rightarrow>
          (let a2 = sync a1 t
           in (logEvent a2 t [] ''info'' (''BladeRunner changed: ''
                @ (case getRack a2 k of None \<Rightarrow> [] | Some rk \<Rightarrow> r_name rk)), 200)))"

definition hRackDelete :: "app \<Rightarrow> instant \<Rightarrow> int \<Rightarrow> app \<times> nat" where
  "hRackDelete a t k =
     (if countBladesInRack a k > 0 then (a, 409)
      else (sync (a\<lparr>a_racks := del_where (\<lambda>r. r_id r = k) (a_racks a)\<rparr>) t, 200))"

text \<open>The form changes the row first; a move that is refused leaves that change in place.
  The site field arrives as \<open>None\<close> when it is not a number.\<close>

definition hUIRackUpdate ::
    "app \<Rightarrow> instant \<Rightarrow> int \<Rightarrow> string \<Rightarrow> string \<Rightarrow> int \<Rightarrow> int option \<Rightarrow> (app \<times> err option) option" where
  "hUIRackUpdate a t k name loc sz site =
     (case updateRack a k name loc sz of
        Inl e \<Rightarrow> Some (a, Some e)
      | Inr a1 \<Rightarrow>
          (let finish = (\<lambda>a2. case syncDHCP a2 t of
                 (a3, Inl e) \<Rightarrow> Some (a3, Some e) | (a3, Inr _) \<Rightarrow> Some (a3, None))
           in case (site, getRack a1 k) of
                (Some sid, Some rk) \<Rightarrow>
                  (if sid > 0 \<and> r_site_id rk \<noteq> sid
                   then (case moveRack a1 k sid of
                           None \<Rightarrow> None
                         | Some (Inl e) \<Rightarrow> Some (a1, Some e)
                         | Some (Inr a2) \<Rightarrow>
                             finish (snd (siteName (snd (siteNetBase a2 sid)) sid)))
                   else finish a1)
              | _ \<Rightarrow> finish a1))"

definition hUIRackDelete :: "app \<Rightarrow> instant \<Rightarrow> int \<Rightarrow> app \<times> bool" where
  "hUIRackDelete a t k =
     (case getRack a k of
        None \<Rightarrow> (a, False)
      | Some rk \<Rightarrow>
          if countBladesInRack a k > 0 then (a, False)
          else (logEvent (sync (a\<lparr>a_racks := del_where (\<lambda>r. r_id r = k) (a_racks a)\<rparr>) t) t []
                  ''warn'' (''Rack '' @ [CHR 0x22] @ r_name rk @ [CHR 0x22] @ '' deleted''), True))"

section \<open>The self-check of the address plan\<close>

datatype warning =
    WNetbase string | WOverflow string | WPool string int int int int | WBlocks string string

type_synonym span = "string \<times> int \<times> int"

definition span_of :: "rack \<Rightarrow> span" where
  "span_of r = (r_name r, r_ip_offset r + 1, r_ip_offset r + r_size r)"

definition check_rack :: "site \<Rightarrow> rack \<Rightarrow> warning list" where
  "check_rack st r =
     (let lo = r_ip_offset r + 1; hi = r_ip_offset r + r_size r
      in (if hi > 254 then [WOverflow (r_name r)] else [])
         @ (if lo \<le> s_pool_to st \<and> hi \<ge> s_pool_from st
            then [WPool (r_name r) lo hi (s_pool_from st) (s_pool_to st)] else []))"

fun check_pairs :: "span list \<Rightarrow> warning list" where
  "check_pairs [] = []"
| "check_pairs ((n, lo, hi) # ss) =
     map (\<lambda>(n', _, _). WBlocks n n') (filter (\<lambda>(_, lo', hi'). lo \<le> hi' \<and> lo' \<le> hi) ss)
     @ check_pairs ss"

definition checkSite :: "site \<Rightarrow> rack list \<Rightarrow> warning list" where
  "checkSite st racksAll =
     (if \<not> parseIPv4 (s_net_base st @ ''.1'') then [WNetbase (s_net_base st)]
      else let racks = filter (\<lambda>r. r_site_id r = s_id st) racksAll
           in concat (map (check_rack st) racks) @ check_pairs (map span_of racks))"

definition checkNet :: "app \<Rightarrow> warning list" where
  "checkNet a = concat (map (\<lambda>st. checkSite st (listRacks a)) (sort_key s_id (a_sites a)))"

definition checkNames :: "app \<Rightarrow> (string \<times> nat) list" where
  "checkNames a =
     (let names = filter (\<lambda>n. n \<noteq> []) (map b_hostname (a_blades a))
      in filter (\<lambda>(n, c). c > 1) (map (\<lambda>n. (n, count_list names n)) (sort (remdups names))))"

section \<open>The search for a block\<close>

lemma finite_used [simp]: "finite (used_offsets a sid)"
  by (simp add: used_offsets_def)

lemma used_offsets_iff:
  "off \<in> used_offsets a sid \<longleftrightarrow> (\<exists>r\<in>set (a_racks a). r_site_id r = sid \<and> r_ip_offset r = off)"
  by (auto simp: used_offsets_def listRacks_def)

lemma next_off_induct [consumes 1, case_names step]:
  assumes "next_off used st off = Some r"
    and "\<And>f used st off r.
      (\<And>used st off r. f used st off = Some r \<Longrightarrow> P used st off r) \<Longrightarrow>
      (if off + st \<le> 250 then if off \<notin> used then Some (Inr off) else f used st (off + st)
       else Some (Inl ErrNooffset)) = Some r \<Longrightarrow> P used st off r"
  shows "P used st off r"
  using next_off.raw_induct [OF _ assms(1), of P] assms(2) by blast

lemma next_off_stuck:
  assumes "off \<in> used" and "off \<le> 250"
  shows "next_off used 0 off = None"
proof -
  have "next_off u st x = Some r \<Longrightarrow> st = 0 \<longrightarrow> x \<in> u \<longrightarrow> \<not> x \<le> 250" for u st x r
    by (induction rule: next_off_induct) (fastforce split: if_splits)
  with assms show ?thesis by (cases "next_off used 0 off") blast+
qed

lemma next_off_returns:
  assumes "finite used" and "st \<noteq> 0"
  shows "\<exists>r. next_off used st off = Some r"
  using assms
proof (induction "card {u \<in> used. \<exists>n::nat. u = off + int n * st}" arbitrary: off rule: less_induct)
  case less
  let ?A = "\<lambda>x. {u \<in> used. \<exists>n::nat. u = x + int n * st}"
  show ?case
  proof (cases "off + st \<le> 250 \<and> off \<in> used")
    case False
    then show ?thesis by (subst next_off.simps) auto
  next
    case True
    have "?A (off + st) \<subseteq> ?A off"
    proof
      fix u assume "u \<in> ?A (off + st)"
      then obtain n :: nat where "u \<in> used" "u = off + st + int n * st" by auto
      then have "u = off + int (Suc n) * st" by (simp add: algebra_simps)
      with \<open>u \<in> used\<close> show "u \<in> ?A off" by blast
    qed
    moreover have "off \<in> ?A off" using True by (auto intro: exI [of _ 0])
    moreover have "off \<notin> ?A (off + st)"
    proof
      assume "off \<in> ?A (off + st)"
      then obtain n :: nat where "off = off + st + int n * st" by auto
      then have "int (Suc n) * st = 0" by (simp add: algebra_simps)
      with less.prems show False by simp
    qed
    ultimately have "?A (off + st) \<subset> ?A off" by blast
    then have "card (?A (off + st)) < card (?A off)"
      using less.prems by (intro psubset_card_mono) auto
    from less.hyps [OF this less.prems] True show ?thesis by (subst next_off.simps) simp
  qed
qed

text \<open>What it returns: the first block of the progression that is free and still fits.\<close>

lemma next_off_spec:
  "next_off used st off = Some r \<Longrightarrow>
   \<exists>n::nat. (\<forall>i<n. off + int i * st \<in> used \<and> off + int (Suc i) * st \<le> 250)
     \<and> (case r of
          Inr x \<Rightarrow> x = off + int n * st \<and> x \<notin> used \<and> x + st \<le> 250
        | Inl e \<Rightarrow> e = ErrNooffset \<and> off + int (Suc n) * st > 250)"
proof (induction rule: next_off_induct)
  case (step f used st off r)
  show ?case
  proof (cases "off + st \<le> 250 \<and> off \<in> used")
    case False
    with step(2) show ?thesis by (intro exI [of _ 0]) (auto split: if_splits)
  next
    case True
    with step(2) have "f used st (off + st) = Some r" by simp
    from step(1) [OF this] obtain n :: nat where
      all: "\<forall>i<n. off + st + int i * st \<in> used \<and> off + st + int (Suc i) * st \<le> 250"
      and r: "case r of Inr x \<Rightarrow> x = off + st + int n * st \<and> x \<notin> used \<and> x + st \<le> 250
              | Inl e \<Rightarrow> e = ErrNooffset \<and> off + st + int (Suc n) * st > 250" by blast
    have shift: "off + st + int i * st = off + int (Suc i) * st" for i by (simp add: algebra_simps)
    have "\<forall>i<Suc n. off + int i * st \<in> used \<and> off + int (Suc i) * st \<le> 250"
    proof (intro allI impI)
      fix i assume "i < Suc n"
      then show "off + int i * st \<in> used \<and> off + int (Suc i) * st \<le> 250"
        using all [unfolded shift] True by (cases i) (auto simp del: of_nat_Suc simp: of_nat_Suc [of 0])
    qed
    with r show ?thesis unfolding shift by blast
  qed
qed


lemma nextRackOffset_Inr:
  assumes "nextRackOffset a sid = Some (Inr off)"
  shows "\<exists>st. getSite a sid = Some st" and "off \<notin> used_offsets a sid"
    and "\<And>st. getSite a sid = Some st \<Longrightarrow> off + s_offset_step st \<le> 250"
  using assms by (auto simp: nextRackOffset_def dest!: next_off_spec split: option.splits)

text \<open>The block handed out is the first one of the site's progression that no BladeRunner of
  that site holds, and with its whole step it stays within the network; the search refuses
  only when every block up to the end is taken.\<close>

theorem nextRackOffset_first_free:
  assumes "getSite a sid = Some st" and "nextRackOffset a sid = Some r"
  shows "\<exists>n::nat. (\<forall>i<n. \<exists>rk\<in>set (a_racks a). r_site_id rk = sid
             \<and> r_ip_offset rk = s_offset_base st + int i * s_offset_step st)
     \<and> (case r of
          Inr off \<Rightarrow> off = s_offset_base st + int n * s_offset_step st
             \<and> (\<forall>rk\<in>set (a_racks a). r_site_id rk = sid \<longrightarrow> r_ip_offset rk \<noteq> off)
             \<and> off + s_offset_step st \<le> 250
        | Inl e \<Rightarrow> e = ErrNooffset \<and> s_offset_base st + int (Suc n) * s_offset_step st > 250)"
proof -
  have "next_off (used_offsets a sid) (s_offset_step st) (s_offset_base st) = Some r"
    using assms by (simp add: nextRackOffset_def)
  from next_off_spec [OF this] obtain n :: nat where
    "\<forall>i<n. s_offset_base st + int i * s_offset_step st \<in> used_offsets a sid"
    "case r of
       Inr x \<Rightarrow> x = s_offset_base st + int n * s_offset_step st \<and> x \<notin> used_offsets a sid
         \<and> x + s_offset_step st \<le> 250
     | Inl e \<Rightarrow> e = ErrNooffset \<and> s_offset_base st + int (Suc n) * s_offset_step st > 250" by blast
  then show ?thesis by (intro exI [of _ n]) (auto simp: used_offsets_iff split: sum.splits)
qed

theorem nextRackOffset_first_free_witness:
  "getSite demo 1 = Some demo_site \<and> nextRackOffset demo 1 = Some (Inr 120)
   \<and> r_ip_offset demo_rack \<noteq> 120"
proof -
  have g: "getSite demo 1 = Some demo_site" by (simp add: demo_defs getSite_def get_site_def)
  have n: "nextRackOffset demo 1 = Some (Inr 120)"
    by (simp add: nextRackOffset_def getSite_def get_site_def used_offsets_def listRacks_def
          next_off.simps demo_defs)
  from nextRackOffset_first_free [OF g n]
  have "\<forall>rk\<in>set (a_racks demo). r_site_id rk = 1 \<longrightarrow> r_ip_offset rk \<noteq> 120" by auto
  then have "r_ip_offset demo_rack \<noteq> 120" by (simp add: demo_defs)
  with g n show ?thesis by blast
qed

section \<open>No blade outside its enclosure\<close>

definition placed_ok :: "app \<Rightarrow> bool" where
  "placed_ok a \<longleftrightarrow> (\<forall>b\<in>set (a_blades a). \<forall>rid slot. position b = Some (rid, slot) \<longrightarrow>
     (\<exists>r. getRack a rid = Some r \<and> 1 \<le> slot \<and> slot \<le> r_size r))"

lemma placed_okD:
  "placed_ok a \<Longrightarrow> b \<in> set (a_blades a) \<Longrightarrow> position b = Some (rid, slot) \<Longrightarrow>
   \<exists>r. getRack a rid = Some r \<and> 1 \<le> slot \<and> slot \<le> r_size r"
  by (simp add: placed_ok_def)

lemma placed_ok_cong:
  "a_blades a' = a_blades a \<Longrightarrow> a_racks a' = a_racks a \<Longrightarrow> placed_ok a' = placed_ok a"
  by (simp add: placed_ok_def getRack_def)

lemma fold_max_ge: "x \<in> set (s # ss) \<Longrightarrow> x \<le> fold max ss (s :: int)"
  by (metis List.finite_set Max.set_eq_fold Max_ge)

lemma maxOccupiedSlot_ge:
  assumes "b \<in> set (a_blades a)" and "position b = Some (rid, slot)"
  shows "slot \<le> maxOccupiedSlot a rid"
proof -
  let ?l = "List.map_filter b_slot (filter (\<lambda>b. b_rack_id b = Some rid) (a_blades a))"
  have "b_rack_id b = Some rid" "b_slot b = Some slot"
    using assms(2) by (auto simp: position_def split: option.splits)
  then have "slot \<in> set ?l"
    using assms(1) by (auto simp: List.map_filter_def image_iff intro!: bexI [of _ b])
  then show ?thesis
    by (cases ?l) (use fold_max_ge in \<open>auto simp: maxOccupiedSlot_def\<close>)
qed

lemma updateRack_Inr:
  assumes "updateRack a k name loc s0 = Inr a'"
  shows "\<exists>rk sz nm. getRack a k = Some rk \<and> validSize sz
     \<and> (sz < r_size rk \<longrightarrow> maxOccupiedSlot a k \<le> sz)
     \<and> a' = a\<lparr>a_racks := upd_where (\<lambda>r. r_id r = k)
           (\<lambda>r. r\<lparr>r_name := nm, r_location := loc, r_size := sz\<rparr>) (a_racks a)\<rparr> \<and> racks_ok (a_racks a')"
  using assms by (auto simp: updateRack_def Let_def split: option.splits if_splits)

lemma moveRack_Inr:
  assumes "moveRack a k sid = Some (Inr a')"
  shows "a' = a \<or> (\<exists>off. nextRackOffset a sid = Some (Inr off) \<and> racks_ok (a_racks a')
     \<and> a' = invalidateNetCache (a\<lparr>a_racks := upd_where (\<lambda>r. r_id r = k)
          (\<lambda>r. r\<lparr>r_site_id := sid, r_ip_offset := off\<rparr>) (a_racks a)\<rparr>))"
  using assms by (auto simp: moveRack_def Let_def split: option.splits if_splits sum.splits)

lemma updateRack_keeps:
  assumes "placed_ok a" and "updateRack a k name loc s0 = Inr a'"
  shows "placed_ok a'"
proof -
  obtain rk sz nm where k: "getRack a k = Some rk"
    and shrink: "sz < r_size rk \<longrightarrow> maxOccupiedSlot a k \<le> sz"
    and a': "a' = a\<lparr>a_racks := upd_where (\<lambda>r. r_id r = k)
           (\<lambda>r. r\<lparr>r_name := nm, r_location := loc, r_size := sz\<rparr>) (a_racks a)\<rparr>"
    using updateRack_Inr [OF assms(2)] by blast
  have get: "getRack a' x = (if x = k then Some (rk\<lparr>r_name := nm, r_location := loc, r_size := sz\<rparr>)
      else getRack a x)" for x
    using k by (simp add: a' getRack_def racks.get_upd)
  show ?thesis unfolding placed_ok_def
  proof (intro ballI allI impI)
    fix b rid slot assume "b \<in> set (a_blades a')" and pos: "position b = Some (rid, slot)"
    then have b: "b \<in> set (a_blades a)" by (simp add: a')
    obtain r where r: "getRack a rid = Some r" "1 \<le> slot" "slot \<le> r_size r"
      using placed_okD [OF assms(1) b pos] by blast
    have "slot \<le> sz" if "rid = k"
      using that r k shrink maxOccupiedSlot_ge [OF b pos] by (cases "sz < r_size rk") auto
    with r get show "\<exists>r. getRack a' rid = Some r \<and> 1 \<le> slot \<and> slot \<le> r_size r" by auto
  qed
qed

lemma placed_ok_same_size:
  assumes "placed_ok a" and "\<And>x. getRack a' x = map_option (f x) (getRack a x)"
    and "\<And>x r. r_size (f x r) = r_size r" and "a_blades a' = a_blades a"
  shows "placed_ok a'"
  unfolding placed_ok_def
proof (intro ballI allI impI)
  fix b rid slot assume "b \<in> set (a_blades a')" and "position b = Some (rid, slot)"
  then obtain r where "getRack a rid = Some r" "1 \<le> slot" "slot \<le> r_size r"
    using placed_okD [OF assms(1)] assms(4) by metis
  then show "\<exists>r. getRack a' rid = Some r \<and> 1 \<le> slot \<and> slot \<le> r_size r"
    using assms(2,3) by auto
qed

lemma moveRack_keeps:
  assumes "placed_ok a" and "moveRack a k sid = Some (Inr a')"
  shows "placed_ok a'"
proof (cases "a' = a")
  case False
  then obtain off where a': "a' = invalidateNetCache (a\<lparr>a_racks := upd_where (\<lambda>r. r_id r = k)
          (\<lambda>r. r\<lparr>r_site_id := sid, r_ip_offset := off\<rparr>) (a_racks a)\<rparr>)"
    using moveRack_Inr [OF assms(2)] by blast
  have "getRack a' x = map_option (\<lambda>r. if x = k then r\<lparr>r_site_id := sid, r_ip_offset := off\<rparr> else r)
      (getRack a x)" for x
    by (cases "get_rack (a_racks a) x") (auto simp: a' getRack_def racks.get_upd)
  then show ?thesis by (rule placed_ok_same_size [OF assms(1)]) (simp_all add: a')
qed (use assms in simp)

lemma deleteRack_keeps:
  assumes "placed_ok a" and "countBladesInRack a k = 0"
  shows "placed_ok (a\<lparr>a_racks := del_where (\<lambda>r. r_id r = k) (a_racks a)\<rparr>)"
  using assms
  by (auto simp: placed_ok_def getRack_def racks.get_del countBladesInRack_def count_where_0_iff
      position_def split: option.splits)

lemma insertRack_keeps:
  assumes "placed_ok a" and "insert_rack a t sid name sz off loc = Some (a', k)"
  shows "placed_ok a'"
  using assms by (fastforce simp: insert_rack_def Let_def placed_ok_def getRack_def racks.get_append
      split: if_splits option.splits)

section \<open>The plan as a whole\<close>

definition plan_ok :: "app \<Rightarrow> bool" where
  "plan_ok a \<longleftrightarrow> schema_ok a \<and> keys_fresh a \<and> placed_ok a"

lemma plan_ok_cong:
  "a_sites a' = a_sites a \<Longrightarrow> a_racks a' = a_racks a \<Longrightarrow> a_blades a' = a_blades a \<Longrightarrow>
   a_next_site a' = a_next_site a \<Longrightarrow> a_next_rack a' = a_next_rack a \<Longrightarrow> plan_ok a' = plan_ok a"
  by (simp add: plan_ok_def schema_ok_def keys_fresh_def placed_ok_cong [of a' a])

lemma plan_ok_frame [simp]:
  "plan_ok (logEvent a t s l m) = plan_ok a" "plan_ok (sync a t) = plan_ok a"
  "plan_ok (snd (siteNetBase a sid)) = plan_ok a" "plan_ok (snd (siteName a sid)) = plan_ok a"
  "plan_ok (invalidateNetCache a) = plan_ok a"
  by (rule plan_ok_cong; simp add: keep siteNetBase_def siteName_def Let_def split: option.split)+

lemma plan_ok_updateRack:
  assumes "plan_ok a" and "updateRack a k name loc s0 = Inr a'"
  shows "plan_ok a'"
  using assms updateRack_Inr [OF assms(2)] updateRack_keeps [OF _ assms(2)]
  by (auto simp: plan_ok_def schema_ok_def keys_fresh_def set_upd_where)

lemma plan_ok_moveRack:
  assumes "plan_ok a" and "moveRack a k sid = Some (Inr a')"
  shows "plan_ok a'"
  using assms moveRack_Inr [OF assms(2)] moveRack_keeps [OF _ assms(2)]
  by (auto simp: plan_ok_def schema_ok_def keys_fresh_def set_upd_where)

lemma plan_ok_insert_rack:
  assumes "plan_ok a" and "insert_rack a t sid name sz off loc = Some (a', k)"
  shows "plan_ok a'"
  using assms insertRack_keeps [OF _ assms(2)]
  by (fastforce simp: plan_ok_def schema_ok_def keys_fresh_def insert_rack_def Let_def split: if_splits)

lemma plan_ok_deleteRack:
  assumes "plan_ok a" and "countBladesInRack a k = 0"
  shows "plan_ok (a\<lparr>a_racks := del_where (\<lambda>r. r_id r = k) (a_racks a)\<rparr>)"
  using assms deleteRack_keeps [OF _ assms(2)]
  by (auto simp: plan_ok_def schema_ok_def keys_fresh_def racks_ok_def set_del_where list_all_iff
      intro: distinct_del_where)

lemma plan_ok_hRacksCreate:
  "plan_ok a \<Longrightarrow> hRacksCreate a t inp = Some (a', c) \<Longrightarrow> plan_ok a'"
  by (auto simp: hRacksCreate_def dest: plan_ok_insert_rack
      split: if_splits option.splits sum.splits prod.splits)

lemma plan_ok_hUIRackCreate:
  assumes "plan_ok a" and "hUIRackCreate a t inp = Some (a', c)"
  shows "plan_ok a'"
proof -
  have f: "plan_ok a0" if "siteNetBase a sid = (net, a0)" for sid net a0
    using that assms(1) plan_ok_frame(3) [of a sid] by simp
  have g: "plan_ok a1" if "siteNetBase a sid = (net, a0)"
    and "insert_rack a0 t sid' n sz off loc = Some (a1, k)" for sid sid' net a0 a1 n sz off loc k
    using plan_ok_insert_rack [OF f [OF that(1)] that(2)] .
  show ?thesis using assms
    by (auto simp: hUIRackCreate_def dest: f g
        split: if_splits option.splits sum.splits prod.splits)
qed

lemma plan_ok_hRackUpdate: "plan_ok a \<Longrightarrow> plan_ok (fst (hRackUpdate a t k name loc sz))"
  by (auto simp: hRackUpdate_def Let_def dest: plan_ok_updateRack split: sum.split)

lemma plan_ok_hRackDelete: "plan_ok a \<Longrightarrow> plan_ok (fst (hRackDelete a t k))"
  by (simp add: hRackDelete_def plan_ok_deleteRack)

lemma plan_ok_hUIRackDelete: "plan_ok a \<Longrightarrow> plan_ok (fst (hUIRackDelete a t k))"
  by (simp add: hUIRackDelete_def plan_ok_deleteRack split: option.split)

lemma plan_ok_syncDHCP: "plan_ok a \<Longrightarrow> syncDHCP a t = (a', r) \<Longrightarrow> plan_ok a'"
  using plan_ok_frame(2) [of a t] by (simp add: sync_def)

lemma plan_ok_hUIRackUpdate:
  assumes "plan_ok a" and "hUIRackUpdate a t k name loc sz site = Some (a', e)"
  shows "plan_ok a'"
proof (cases "updateRack a k name loc sz")
  case (Inl e)
  with assms show ?thesis by (simp add: hUIRackUpdate_def)
next
  case (Inr a1)
  then have a1: "plan_ok a1" using assms(1) plan_ok_updateRack by blast
  have mv: "plan_ok (snd (siteName (snd (siteNetBase a2 sid)) sid))"
    if "moveRack a1 k sid = Some (Inr a2)" for a2 sid
    using that a1 plan_ok_moveRack by simp
  show ?thesis using assms(2) Inr a1
    by (auto simp: hUIRackUpdate_def Let_def dest: mv plan_ok_syncDHCP
        split: option.splits if_splits sum.splits prod.splits)
qed

section \<open>What a clean self-check means\<close>

lemma check_pairs_clean:
  assumes "check_pairs (map span_of rs) = []" and "r \<in> set rs" and "r' \<in> set rs" and "r \<noteq> r'"
  shows "r_ip_offset r + r_size r < r_ip_offset r' + 1 \<or> r_ip_offset r' + r_size r' < r_ip_offset r + 1"
  using assms
proof (induction rs)
  case Nil
  then show ?case by simp
next
  case (Cons x rs)
  have tail: "check_pairs (map span_of rs) = []"
    and head: "\<And>y. y \<in> set rs \<Longrightarrow>
      r_ip_offset x + r_size x < r_ip_offset y + 1 \<or> r_ip_offset y + r_size y < r_ip_offset x + 1"
    using Cons.prems(1) by (auto simp: span_of_def [abs_def] filter_empty_conv)
  show ?case using Cons.IH [OF tail] head Cons.prems(2-4) by fastforce
qed

lemma checkNet_clean_site:
  assumes "checkNet a = []" and "getSite a sid = Some st"
  shows "checkSite st (listRacks a) = []"
  using assms by (auto simp: checkNet_def getSite_def dest: sites.get_SomeD)

lemma clean_racks:
  assumes "checkNet a = []" and "getSite a sid = Some st"
    and "getRack a k = Some r" and "r_site_id r = sid"
  shows "check_rack st r = []"
    and "\<And>k' r'. getRack a k' = Some r' \<Longrightarrow> r_site_id r' = sid \<Longrightarrow> r \<noteq> r' \<Longrightarrow>
      r_ip_offset r + r_size r < r_ip_offset r' + 1 \<or> r_ip_offset r' + r_size r' < r_ip_offset r + 1"
proof -
  let ?rs = "filter (\<lambda>r. r_site_id r = s_id st) (listRacks a)"
  have sid: "s_id st = sid" using assms(2) by (auto simp: getSite_def dest: sites.get_SomeD)
  have c: "concat (map (check_rack st) ?rs) = []" "check_pairs (map span_of ?rs) = []"
    using checkNet_clean_site [OF assms(1,2)] by (auto simp: checkSite_def Let_def split: if_splits)
  have mem: "x \<in> set ?rs" if "getRack a k = Some x" and "r_site_id x = sid" for x k
    using that sid by (auto simp: getRack_def listRacks_def dest: racks.get_SomeD)
  show "check_rack st r = []" using c(1) mem [OF assms(3,4)] by simp
  show "\<And>k' r'. getRack a k' = Some r' \<Longrightarrow> r_site_id r' = sid \<Longrightarrow> r \<noteq> r' \<Longrightarrow>
      r_ip_offset r + r_size r < r_ip_offset r' + 1 \<or> r_ip_offset r' + r_size r' < r_ip_offset r + 1"
    using check_pairs_clean [OF c(2) mem [OF assms(3,4)] mem] by blast
qed

text \<open>C20. When the self-check of the address plan has nothing to report, an address within a site
  means one machine: two blades of the same site with the same derived address are the same
  blade, and that address ends in a number of at most 254 that lies outside the site's
  dynamic pool.\<close>

theorem clean_plan_unique_address:
  assumes "schema_ok a" and "checkNet a = []"
    and "b \<in> set (a_blades a)" and "b' \<in> set (a_blades a)"
    and "v_ip (view a b) \<noteq> []" and "v_ip (view a b') = v_ip (view a b)"
    and "v_site_id (view a b') = v_site_id (view a b)"
  shows "b' = b \<and> (\<exists>st n. getSite a (v_site_id (view a b)) = Some st
      \<and> v_ip (view a b) = s_net_base st @ ''.'' @ show_int n \<and> n \<le> 254
      \<and> \<not> (s_pool_from st \<le> n \<and> n \<le> s_pool_to st))"
proof -
  obtain rid slot r st where b: "position b = Some (rid, slot)" "getRack a rid = Some r"
    "getSite a (r_site_id r) = Some st" "1 \<le> slot" "slot \<le> r_size r"
    "v_site_id (view a b) = r_site_id r"
    "v_ip (view a b) = s_net_base st @ ''.'' @ show_int (r_ip_offset r + slot)"
    using view_ip_nonempty [OF assms(5)] by metis
  obtain rid' slot' r' st' where b': "position b' = Some (rid', slot')" "getRack a rid' = Some r'"
    "getSite a (r_site_id r') = Some st'" "1 \<le> slot'" "slot' \<le> r_size r'"
    "v_site_id (view a b') = r_site_id r'"
    "v_ip (view a b') = s_net_base st' @ ''.'' @ show_int (r_ip_offset r' + slot')"
    using view_ip_nonempty [of a b'] assms(5,6) by metis
  have same: "r_site_id r' = r_site_id r" using b(6) b'(6) assms(7) by simp
  then have "st' = st" using b(3) b'(3) by simp
  then have eq: "r_ip_offset r' + slot' = r_ip_offset r + slot"
    using b(7) b'(7) assms(6) by (simp add: show_int_inj)
  have "r' = r"
    using clean_racks(2) [OF assms(2) b(3) b(2) refl b'(2) same] eq b(4,5) b'(4,5) by fastforce
  moreover have "rid' = rid" using b(2) b'(2) \<open>r' = r\<close>
    by (auto simp: getRack_def dest!: racks.get_SomeD)
  ultimately have "b' = b" using eq b(1) b'(1) assms(1,3,4)
    by (auto simp: schema_ok_def blades_ok_def intro: positions_unique)
  moreover have "\<exists>st n. getSite a (v_site_id (view a b)) = Some st
      \<and> v_ip (view a b) = s_net_base st @ ''.'' @ show_int n \<and> n \<le> 254
      \<and> \<not> (s_pool_from st \<le> n \<and> n \<le> s_pool_to st)"
    using clean_racks(1) [OF assms(2) b(3) b(2) refl] b(3-7)
    by (intro exI [of _ st] exI [of _ "r_ip_offset r + slot"])
       (auto simp: check_rack_def Let_def split: if_splits)
  ultimately show ?thesis by blast
qed

lemma demo_view:
  "v_ip (view demo demo_blade) = ''10.0.0.103''" "v_site_id (view demo demo_blade) = 1"
  by (simp_all add: demo_defs view_def decorate_def getRack_def get_rack_def siteNets_def
        getSite_def get_site_def bare_def blade.extend_def bview.fields_def
        show_int_def show_nat.simps str_simps Let_def)

lemma demo_plan_ok: "plan_ok demo"
  by (simp add: plan_ok_def schema_ok_def sites_ok_def racks_ok_def blades_ok_def positions_def
        position_def keys_fresh_def placed_ok_def validSize_def List.map_filter_simps
        demo_defs getRack_def get_rack_def)

lemma demo_checkNet: "checkNet demo = []"
  by (simp add: checkNet_def checkSite_def check_rack_def span_of_def listRacks_def demo_defs
        parseIPv4_def octet_def nat_of_digits_def digit_val_def str_simps Let_def)

theorem clean_plan_unique_address_witness:
  "schema_ok demo \<and> checkNet demo = [] \<and> v_ip (view demo demo_blade) \<noteq> []
   \<and> (\<exists>st n. getSite demo 1 = Some st \<and> v_ip (view demo demo_blade) = s_net_base st @ ''.'' @ show_int n
        \<and> n \<le> 254 \<and> \<not> (s_pool_from st \<le> n \<and> n \<le> s_pool_to st))"
proof -
  have "schema_ok demo" using demo_plan_ok by (simp add: plan_ok_def)
  moreover have "demo_blade \<in> set (a_blades demo)" by (simp add: demo_def)
  ultimately show ?thesis
    using clean_plan_unique_address [of demo demo_blade demo_blade] demo_checkNet
    by (simp add: demo_view)
qed

text \<open>The check for doubled names reports nothing exactly when no host name in use is held by
  two blades.\<close>

theorem checkNames_clean:
  "checkNames a = [] \<longleftrightarrow> distinct (filter (\<lambda>n. n \<noteq> []) (map b_hostname (a_blades a)))"
proof -
  have "distinct xs \<longleftrightarrow> (\<forall>x\<in>set xs. count_list xs x \<le> 1)" for xs :: "string list"
  proof (induction xs)
    case (Cons y xs)
    have "(\<forall>x\<in>set (y # xs). count_list (y # xs) x \<le> 1) \<longleftrightarrow>
        y \<notin> set xs \<and> (\<forall>x\<in>set xs. count_list xs x \<le> 1)"
      by (auto simp: count_list_0_iff split: if_splits)
    with Cons show ?case by simp
  qed simp
  then show ?thesis by (auto simp: checkNames_def Let_def filter_empty_conv)
qed

end
