(* ===== verification/Placement.thy ===== *)
theory Placement
  imports Racks
begin

text \<open>
  Putting a blade into a slot and taking it out: \<^verbatim>\<open>placeBlade\<close> of \<^verbatim>\<open>src/server/ipam.go\<close>, the
  interface handlers that call it (\<^verbatim>\<open>src/server/ui.go\<close>) and the API's own update of a blade
  (\<^verbatim>\<open>src/server/api.go\<close>). The theorems: what a placement writes and what it leaves alone,
  which names travel with a move, and that the plan stays sound.
\<close>

section \<open>Operations\<close>

definition occupant :: "app \<Rightarrow> int \<Rightarrow> int \<Rightarrow> string \<Rightarrow> string option" where
  "occupant a rid slot serial =
     map_option b_serial (find (\<lambda>b. b_rack_id b = Some rid \<and> b_slot b = Some slot \<and> b_serial b \<noteq> serial) (a_blades a))"

definition take_out :: "blade \<Rightarrow> blade" where
  "take_out b = b\<lparr>b_rack_id := None, b_slot := None,
     b_state := (if b_state b = ''online'' \<or> b_state b = ''enrolled'' then ''new'' else b_state b)\<rparr>"

definition placed_host :: "app \<Rightarrow> ('v) blade_scheme \<Rightarrow> rack \<Rightarrow> int \<Rightarrow> string" where
  "placed_host a cur rk slot =
     (if b_hostname cur = [] \<or> autoHost (b_hostname cur)
      then bladeHostname (hostPrefix a (r_site_id rk)) (rackIndex a rk) slot else b_hostname cur)"

definition placed_mac :: "app \<Rightarrow> ('v) blade_scheme \<Rightarrow> rack \<Rightarrow> int \<Rightarrow> string" where
  "placed_mac a cur rk slot =
     (if b_mac cur = [] \<or> has_prefix (lower (b_mac cur)) autoMACPrefix
      then bladeMAC (r_site_id rk) (rackIndex a rk) slot else b_mac cur)"

definition put_in :: "app \<Rightarrow> ('v) blade_scheme \<Rightarrow> rack \<Rightarrow> int \<Rightarrow> int \<Rightarrow> blade \<Rightarrow> blade" where
  "put_in a cur rk rid slot b = b\<lparr>b_rack_id := Some rid, b_slot := Some slot,
     b_hostname := placed_host a cur rk slot, b_mac := placed_mac a cur rk slot,
     b_state := (if b_state cur = ''new'' then ''enrolled'' else b_state cur), b_stored := None\<rparr>"

definition placeBlade :: "app \<Rightarrow> string \<Rightarrow> int option \<Rightarrow> int option \<Rightarrow> err + app" where
  "placeBlade a serial rackID slot =
     (case getBlade a serial of
        None \<Rightarrow> Inl (ErrBladeunknown serial)
      | Some cur \<Rightarrow>
          (case (rackID, slot) of
             (Some rid, Some s) \<Rightarrow>
               (case getRack a rid of
                  None \<Rightarrow> Inl (ErrRacknotfound rid)
                | Some rk \<Rightarrow>
                    (case validSlot (r_size rk) s of
                       Inl e \<Rightarrow> Inl e
                     | Inr _ \<Rightarrow>
                         (case occupant a rid s serial of
                            Some o' \<Rightarrow>
                              if o' \<noteq> [] then Inl (ErrSlottaken s (r_name rk) o') else Inl ErrAssignfail
                          | None \<Rightarrow> Inr (a\<lparr>a_blades := upd_where (\<lambda>b. b_serial b = serial)
                                            (put_in a cur rk rid s) (a_blades a)\<rparr>))))
           | _ \<Rightarrow> Inr (a\<lparr>a_blades := upd_where (\<lambda>b. b_serial b = serial) take_out (a_blades a)\<rparr>)))"

definition hUIAssign :: "app \<Rightarrow> instant \<Rightarrow> int \<Rightarrow> int \<Rightarrow> string \<Rightarrow> app \<times> bool" where
  "hUIAssign a t rid slot serial =
     (if serial = [] then (a, False)
      else case placeBlade a serial (Some rid) (Some slot) of
             Inl e \<Rightarrow> (a, False)
           | Inr a1 \<Rightarrow>
               (case syncDHCP a1 t of
                  (a2, Inl e) \<Rightarrow> (a2, False)
                | (a2, Inr _) \<Rightarrow> (logEvent a2 t serial ''info'' (''placed in slot '' @ show_int slot), True)))"

definition hUIUnassign :: "app \<Rightarrow> instant \<Rightarrow> string \<Rightarrow> app \<times> bool" where
  "hUIUnassign a t serial =
     (case getBlade a serial of
        None \<Rightarrow> (a, False)
      | Some b \<Rightarrow>
          (case placeBlade a serial None None of
             Inl e \<Rightarrow> (a, False)
           | Inr a1 \<Rightarrow> (logEvent (sync a1 t) t serial ''warn'' ''removed from slot'', True)))"

text \<open>The API's update: every field of the body may be absent.\<close>

record bladeInput =
  bi_rack_id :: "int option"
  bi_slot :: "int option"
  bi_hostname :: "string option"
  bi_image :: "string option"
  bi_mac :: "string option"
  bi_groups :: "string list option"
  bi_state :: "string option"

definition given :: "'a option \<Rightarrow> 'a \<Rightarrow> 'a" where
  "given x d = (case x of None \<Rightarrow> d | Some v \<Rightarrow> v)"

text \<open>A position in the body: absent keeps the current one, zero clears it.\<close>

definition new_pos :: "int option \<Rightarrow> int option \<Rightarrow> int option" where
  "new_pos inp cur = (case inp of None \<Rightarrow> cur | Some v \<Rightarrow> if v = 0 then None else Some v)"

definition pos_check :: "app \<Rightarrow> string \<Rightarrow> int option \<Rightarrow> int option \<Rightarrow> nat option" where
  "pos_check a serial rackID slot =
     (case (rackID, slot) of
        (Some rid, Some s) \<Rightarrow>
          (case getRack a rid of
             None \<Rightarrow> Some 400
           | Some rk \<Rightarrow>
               (case validSlot (r_size rk) s of
                  Inl _ \<Rightarrow> Some 400
                | Inr _ \<Rightarrow> (case occupant a rid s serial of Some _ \<Rightarrow> Some 409 | None \<Rightarrow> None)))
      | (Some rid, None) \<Rightarrow> (case getRack a rid of None \<Rightarrow> Some 409 | Some _ \<Rightarrow> None)
      | _ \<Rightarrow> None)"

definition api_row :: "app \<Rightarrow> bladeInput \<Rightarrow> bview \<Rightarrow> int option \<Rightarrow> int option \<Rightarrow> blade \<Rightarrow> blade" where
  "api_row a inp cur rackID slot b =
     (let (idx, siteOf) = (case rackID of None \<Rightarrow> (0, 0)
            | Some rid \<Rightarrow> (case getRack a rid of None \<Rightarrow> (0, 0) | Some rk \<Rightarrow> (rackIndex a rk, r_site_id rk)));
          both = (rackID \<noteq> None \<and> slot \<noteq> None);
          host0 = given (bi_hostname inp) (b_hostname cur);
          host = (if host0 = [] \<and> both then bladeHostname (hostPrefix a siteOf) idx (the slot) else host0);
          mac0 = given (bi_mac inp) (b_mac cur);
          mac = (if mac0 = [] \<and> both then bladeMAC siteOf idx (the slot) else mac0);
          state0 = given (bi_state inp) (b_state cur);
          state = (if state0 = ''new'' \<and> both then ''enrolled'' else state0)
      in b\<lparr>b_rack_id := rackID, b_slot := slot, b_hostname := host, b_mac := mac,
           b_image := given (bi_image inp) (b_image cur), b_groups := given (bi_groups inp) (b_groups cur),
           b_state := state\<rparr>)"

definition hBladeUpdate :: "app \<Rightarrow> instant \<Rightarrow> string \<Rightarrow> bladeInput \<Rightarrow> app \<times> nat" where
  "hBladeUpdate a t serial inp =
     (case getBlade a serial of
        None \<Rightarrow> (a, 404)
      | Some cur \<Rightarrow>
          (let rackID = new_pos (bi_rack_id inp) (b_rack_id cur);
               slot = new_pos (bi_slot inp) (b_slot cur)
           in case pos_check a serial rackID slot of
                Some status \<Rightarrow> (a, status)
              | None \<Rightarrow>
                  (logEvent (sync (a\<lparr>a_blades := upd_where (\<lambda>b. b_serial b = serial)
                       (api_row a inp cur rackID slot) (a_blades a)\<rparr>) t) t serial ''info'' ''blade updated'', 200)))"

section \<open>Positions stay unique and inside\<close>

lemma positions_upd_one:
  assumes "distinct (map b_serial t)" and "distinct (positions t)"
    and "\<And>b. b_serial b = serial \<Longrightarrow> position (f b) = Some p"
    and "\<And>b. b \<in> set t \<Longrightarrow> b_serial b \<noteq> serial \<Longrightarrow> position b \<noteq> Some p"
  shows "distinct (positions (upd_where (\<lambda>b. b_serial b = serial) f t))"
  using assms(1,2,4)
proof (induction t)
  case Nil
  then show ?case by simp
next
  case (Cons x t)
  have ih: "distinct (positions (upd_where (\<lambda>b. b_serial b = serial) f t))"
    using Cons by (auto simp: positions_Cons split: option.splits)
  show ?case
  proof (cases "b_serial x = serial")
    case True
    then have rest: "upd_where (\<lambda>b. b_serial b = serial) f t = t"
      using Cons.prems(1) by (intro upd_where_none) (auto simp: rev_image_eqI)
    have "p \<notin> set (positions t)"
    proof
      assume "p \<in> set (positions t)"
      then obtain b where "b \<in> set t" "position b = Some p"
        by (auto simp: positions_def List.map_filter_def)
      moreover from this Cons.prems(1) True have "b_serial b \<noteq> serial" by (auto simp: image_iff)
      ultimately show False using Cons.prems(3) by simp
    qed
    with True rest assms(3) Cons.prems(2) show ?thesis
      by (auto simp: positions_Cons split: option.splits)
  next
    case False
    have sub: "set (positions (upd_where (\<lambda>b. b_serial b = serial) f t)) \<subseteq> insert p (set (positions t))"
      using assms(3) by (auto simp: positions_def List.map_filter_def set_upd_where split: if_splits)
    show ?thesis
      using False ih sub Cons.prems(2) Cons.prems(3) [of x]
      by (auto simp: positions_Cons split: option.splits)
  qed
qed

lemma occupant_None:
  "occupant a rid slot serial = None \<Longrightarrow> b \<in> set (a_blades a) \<Longrightarrow> b_serial b \<noteq> serial \<Longrightarrow>
   position b \<noteq> Some (rid, slot)"
  by (auto simp: occupant_def find_None_iff_all position_def split: option.splits)

lemma validSlot_Inr: "validSlot sz s = Inr u \<longleftrightarrow> 1 \<le> s \<and> s \<le> sz"
  by (auto simp: validSlot_def)

text \<open>One statement that moves one blade, to nowhere or to a free slot of a rack that is there.\<close>

lemma plan_ok_move:
  assumes "plan_ok a" and "\<And>b. b_serial (f b) = b_serial b"
    and pos: "\<And>b. b_serial b = serial \<Longrightarrow> position (f b) = p"
    and free: "\<And>rid s. p = Some (rid, s) \<Longrightarrow> occupant a rid s serial = None
      \<and> (\<exists>rk. getRack a rid = Some rk \<and> 1 \<le> s \<and> s \<le> r_size rk)"
  shows "plan_ok (a\<lparr>a_blades := upd_where (\<lambda>b. b_serial b = serial) f (a_blades a)\<rparr>)"
proof -
  let ?t = "upd_where (\<lambda>b. b_serial b = serial) f (a_blades a)"
  have bok: "blades_ok (a_blades a)" and plc: "placed_ok a"
    using assms(1) by (simp_all add: plan_ok_def schema_ok_def)
  have "blades_ok ?t"
  proof (cases p)
    case None
    then show ?thesis using bok assms(2) pos by (intro blades_ok_clear) auto
  next
    case (Some q)
    obtain rid s where q: "q = (rid, s)" by force
    have "distinct (positions ?t)"
      using bok pos Some q free [of rid s] occupant_None [of a rid s serial]
      by (intro positions_upd_one [where p = q]) (auto simp: blades_ok_def)
    with bok assms(2) show ?thesis by (simp add: blades_ok_def blades.keys_upd)
  qed
  moreover have "placed_ok (a\<lparr>a_blades := ?t\<rparr>)"
    unfolding placed_ok_def
  proof (intro ballI allI impI)
    fix b rid s assume b: "b \<in> set (a_blades (a\<lparr>a_blades := ?t\<rparr>))" and pb: "position b = Some (rid, s)"
    then obtain x where x: "x \<in> set (a_blades a)" "b = (if b_serial x = serial then f x else x)"
      by (auto simp: set_upd_where)
    have "\<exists>rk. getRack a rid = Some rk \<and> 1 \<le> s \<and> s \<le> r_size rk"
    proof (cases "b_serial x = serial")
      case True
      then have "p = Some (rid, s)" using pos [OF True] x(2) pb by simp
      then show ?thesis using free by blast
    next
      case False
      then show ?thesis using placed_okD [OF plc x(1)] x(2) pb by simp
    qed
    then show "\<exists>r. getRack (a\<lparr>a_blades := ?t\<rparr>) rid = Some r \<and> 1 \<le> s \<and> s \<le> r_size r"
      by (simp add: getRack_def)
  qed
  ultimately show ?thesis
    using assms(1) by (simp add: plan_ok_def schema_ok_def keys_fresh_def)
qed

lemma put_in_simps [simp]:
  "b_serial (put_in a cur rk rid slot b) = b_serial b"
  "position (put_in a cur rk rid slot b) = Some (rid, slot)"
  "b_stored (put_in a cur rk rid slot b) = None"
  by (simp_all add: put_in_def position_def)

lemma take_out_simps [simp]:
  "b_serial (take_out b) = b_serial b" "position (take_out b) = None"
  by (simp_all add: take_out_def position_def)

lemma api_row_simps [simp]:
  "b_serial (api_row a inp cur rid slot b) = b_serial b"
  "b_rack_id (api_row a inp cur rid slot b) = rid" "b_slot (api_row a inp cur rid slot b) = slot"
  "b_stored (api_row a inp cur rid slot b) = b_stored b"
  by (simp_all add: api_row_def Let_def split: option.split prod.split)

lemma placeBlade_place:
  assumes "placeBlade a serial (Some rid) (Some s) = Inr a'"
  obtains cur rk where "getBlade a serial = Some cur" and "getRack a rid = Some rk"
    and "1 \<le> s" and "s \<le> r_size rk" and "occupant a rid s serial = None"
    and "a' = a\<lparr>a_blades := upd_where (\<lambda>b. b_serial b = serial) (put_in a cur rk rid s) (a_blades a)\<rparr>"
  using assms
  by (auto simp: placeBlade_def validSlot_Inr split: option.splits sum.splits if_splits)

lemma plan_ok_placeBlade:
  assumes "plan_ok a" and "placeBlade a serial rid s = Inr a'"
  shows "plan_ok a'"
proof (cases "rid = None \<or> s = None")
  case True
  with assms(2) have "a' = a\<lparr>a_blades := upd_where (\<lambda>b. b_serial b = serial) take_out (a_blades a)\<rparr>"
    by (auto simp: placeBlade_def split: option.splits)
  with assms(1) show ?thesis by (auto intro: plan_ok_move [where p = None])
next
  case False
  then obtain r x where rs: "rid = Some r" "s = Some x" by auto
  from assms(2) obtain cur :: bview and rk where k: "getRack a r = Some rk" "1 \<le> x" "x \<le> r_size rk"
    "occupant a r x serial = None"
    and a': "a' = a\<lparr>a_blades := upd_where (\<lambda>b. b_serial b = serial) (put_in a cur rk r x) (a_blades a)\<rparr>"
    unfolding rs by (rule placeBlade_place) blast
  show ?thesis unfolding a' using assms(1) k by (intro plan_ok_move [where p = "Some (r, x)"]) auto
qed

lemma plan_ok_hUIAssign: "plan_ok a \<Longrightarrow> plan_ok (fst (hUIAssign a t rid slot serial))"
  by (auto simp: hUIAssign_def dest: plan_ok_placeBlade plan_ok_syncDHCP split: sum.split prod.split)

lemma plan_ok_hUIUnassign: "plan_ok a \<Longrightarrow> plan_ok (fst (hUIUnassign a t serial))"
  by (auto simp: hUIUnassign_def dest: plan_ok_placeBlade split: sum.split option.split)

lemma plan_ok_hBladeUpdate:
  assumes "plan_ok a"
  shows "plan_ok (fst (hBladeUpdate a t serial inp))"
proof -
  have "plan_ok (a\<lparr>a_blades := upd_where (\<lambda>b. b_serial b = serial) (api_row a inp cur rid s) (a_blades a)\<rparr>)"
    if "pos_check a serial rid s = None" for cur rid s
  proof (rule plan_ok_move [where p = "case (rid, s) of (Some r, Some x) \<Rightarrow> Some (r, x) | _ \<Rightarrow> None"])
    show "position (api_row a inp cur rid s b) = (case (rid, s) of (Some r, Some x) \<Rightarrow> Some (r, x) | _ \<Rightarrow> None)" for b
      by (simp add: position_def)
    show "occupant a r x serial = None \<and> (\<exists>rk. getRack a r = Some rk \<and> 1 \<le> x \<and> x \<le> r_size rk)"
      if "(case (rid, s) of (Some r, Some x) \<Rightarrow> Some (r, x) | _ \<Rightarrow> None) = Some (r, x)" for r x
      using that \<open>pos_check a serial rid s = None\<close>
      by (auto simp: pos_check_def validSlot_Inr split: option.splits sum.splits)
  qed (use assms in auto)
  then show ?thesis using assms by (auto simp: hBladeUpdate_def Let_def split: option.split)
qed

section \<open>What a placement does\<close>

text \<open>C25. A blade placed in a slot stands there and nowhere else, no other blade stands there,
  its generated name and address are those of the new position while a name somebody typed
  and a real MAC stay, it is back in service, and no other blade's row has changed.\<close>

theorem placeBlade_spec:
  assumes "plan_ok a" and "placeBlade a serial (Some rid) (Some slot) = Inr a'"
  shows "\<exists>old new rk. get_row (a_blades a) serial = Some old \<and> get_row (a_blades a') serial = Some new
     \<and> getRack a rid = Some rk \<and> position new = Some (rid, slot)
     \<and> b_hostname new = (if b_hostname old = [] \<or> autoHost (b_hostname old)
          then bladeHostname (hostPrefix a (r_site_id rk)) (rackIndex a rk) slot else b_hostname old)
     \<and> b_mac new = (if b_mac old = [] \<or> has_prefix (lower (b_mac old)) autoMACPrefix
          then bladeMAC (r_site_id rk) (rackIndex a rk) slot else b_mac old)
     \<and> b_stored new = None
     \<and> (\<forall>b\<in>set (a_blades a'). position b = Some (rid, slot) \<longrightarrow> b = new)
     \<and> (\<forall>k. k \<noteq> serial \<longrightarrow> get_row (a_blades a') k = get_row (a_blades a) k)"
proof -
  from assms(2) obtain cur rk where c: "getBlade a serial = Some cur" and rk: "getRack a rid = Some rk"
    and a': "a' = a\<lparr>a_blades := upd_where (\<lambda>b. b_serial b = serial) (put_in a cur rk rid slot) (a_blades a)\<rparr>"
    by (rule placeBlade_place)
  from getBlade_SomeD [OF c] obtain old where old: "get_row (a_blades a) serial = Some old"
    and cur: "cur = view a old" by blast
  let ?new = "put_in a cur rk rid slot old"
  have new: "get_row (a_blades a') serial = Some ?new" by (simp add: a' blades.get_upd old)
  have ok: "distinct (positions (a_blades a'))"
    using plan_ok_placeBlade [OF assms] by (simp add: plan_ok_def schema_ok_def blades_ok_def)
  have "b = ?new" if "b \<in> set (a_blades a')" and "position b = Some (rid, slot)" for b
    using positions_unique [OF ok that(1) _ that(2), of ?new] blades.get_SomeD [OF new] by simp
  moreover have "get_row (a_blades a') k = get_row (a_blades a) k" if "k \<noteq> serial" for k
    using that by (simp add: a' blades.get_upd)
  ultimately show ?thesis using old new rk
    by (intro exI [of _ old] exI [of _ ?new] exI [of _ rk])
       (simp add: cur, simp add: put_in_def placed_host_def placed_mac_def)
qed

theorem placeBlade_spec_witness:
  "placeBlade demo ''c0ffee01'' (Some 1) (Some 2) \<noteq> Inl ErrAssignfail
   \<and> (\<exists>a' new. placeBlade demo ''c0ffee01'' (Some 1) (Some 2) = Inr a'
        \<and> get_row (a_blades a') ''c0ffee01'' = Some new \<and> position new = Some (1, 2))"
proof -
  obtain a' where p: "placeBlade demo ''c0ffee01'' (Some 1) (Some 2) = Inr a'"
    by (simp add: placeBlade_def getBlade_def get_row_def getRack_def get_rack_def demo_defs
          validSlot_def occupant_def)
  then show ?thesis using placeBlade_spec [OF demo_plan_ok p] by auto
qed

text \<open>An occupied slot, a slot outside the enclosure, an unknown BladeRunner and an unknown
  blade are each refused with their own error, and these and the database's own refusal
  are the only ways a placement fails.\<close>

theorem placeBlade_errors:
  "placeBlade a serial (Some rid) (Some slot) = Inl e \<longleftrightarrow>
     (case getBlade a serial of
        None \<Rightarrow> e = ErrBladeunknown serial
      | Some _ \<Rightarrow>
          (case getRack a rid of
             None \<Rightarrow> e = ErrRacknotfound rid
           | Some rk \<Rightarrow>
               if slot < 1 \<or> r_size rk < slot then e = ErrSlotrange slot (r_size rk)
               else (case occupant a rid slot serial of
                       None \<Rightarrow> False
                     | Some who \<Rightarrow> e = (if who = [] then ErrAssignfail else ErrSlottaken slot (r_name rk) who))))"
  by (auto simp: placeBlade_def validSlot_def split: option.split)

text \<open>The API's own update of a blade can put a blade that was reset and put aside back into a
  slot, but it never clears the mark: whatever the body says, every blade keeps the
  \<open>stored\<close> stamp it had.\<close>

theorem hBladeUpdate_keeps_stored:
  "map b_stored (a_blades (fst (hBladeUpdate a t serial inp))) = map b_stored (a_blades a)"
  by (simp add: hBladeUpdate_def Let_def keep map_upd_where_same split: option.split)

end
