(* ===== verification/SiteChanges.thy ===== *)
theory SiteChanges
  imports Placement
begin

text \<open>
  What a change to a site means for the BladeRunners and blades standing in it: the names a
  new prefix gives (\<^verbatim>\<open>renameSiteBlades\<close> of \<^verbatim>\<open>src/server/ipam.go\<close>) and the removal of a site
  (\<^verbatim>\<open>deleteSite\<close> of \<^verbatim>\<open>src/server/db.go\<close>).
\<close>

section \<open>Renaming reaches generated names only\<close>

definition needs_rename :: "string \<Rightarrow> int \<Rightarrow> bview \<Rightarrow> bool" where
  "needs_rename prefix k b \<longleftrightarrow>
     (case (b_rack_id b, b_slot b) of
        (Some _, Some slot) \<Rightarrow> v_site_id b = k \<and> (b_hostname b = [] \<or> autoHost (b_hostname b))
          \<and> bladeHostname prefix (v_rack_idx b) slot \<noteq> b_hostname b
      | _ \<Rightarrow> False)"

definition derived_name :: "string \<Rightarrow> bview \<Rightarrow> string" where
  "derived_name prefix b = bladeHostname prefix (v_rack_idx b) (the (b_slot b))"

lemma rename_loop_step:
  "rename_loop a t prefix k (b # bs) n =
     (if needs_rename prefix k b
      then rename_loop
             (logEvent (a\<lparr>a_blades := upd_where (\<lambda>r. b_serial r = b_serial b)
                  (\<lambda>r. r\<lparr>b_hostname := derived_name prefix b\<rparr>) (a_blades a)\<rparr>)
                t (b_serial b) ''info'' (''renamed '' @ b_hostname b @ '' '' @ arrow @ '' '' @ derived_name prefix b))
             t prefix k bs (Suc n)
      else rename_loop a t prefix k bs n)"
  by (cases "b_rack_id b"; cases "b_slot b") (auto simp: needs_rename_def derived_name_def Let_def)

lemma rename_loop_eq:
  "a_blades (fst (rename_loop a t prefix k bs n)) =
     fold (\<lambda>b tb. upd_where (\<lambda>r. b_serial r = b_serial b) (\<lambda>r. r\<lparr>b_hostname := derived_name prefix b\<rparr>) tb)
       (filter (needs_rename prefix k) bs) (a_blades a)"
  by (induction bs arbitrary: a n) (simp_all add: rename_loop_step del: rename_loop.simps(2))

text \<open>When a site's name prefix changes, every blade standing in a slot of that site whose name
  is empty or generated gets the name its position now means, and every other blade keeps
  its row as it is: a name somebody typed is never touched.\<close>

theorem renameSiteBlades_spec:
  assumes "blades_ok (a_blades a)"
  shows "get_row (a_blades (fst (renameSiteBlades a t k))) s =
    map_option (\<lambda>r. if needs_rename (hostPrefix a k) k (view a r)
                    then r\<lparr>b_hostname := derived_name (hostPrefix a k) (view a r)\<rparr> else r)
      (get_row (a_blades a) s)"
proof -
  have d: "distinct (map b_serial (filter P (listBlades a)))" for P
    using distinct_listBlades [OF assms] by (rule distinct_map_filter)
  show ?thesis
  proof (cases "get_row (a_blades a) s")
    case None
    then show ?thesis
      by (simp add: renameSiteBlades_def rename_loop_eq
            blades.get_fold_upd [OF d, where g = "\<lambda>b r. r\<lparr>b_hostname := derived_name (hostPrefix a k) b\<rparr>"]
            split: option.split)
  next
    case (Some r)
    then show ?thesis
      by (simp add: renameSiteBlades_def rename_loop_eq find_view [OF assms Some]
            blades.get_fold_upd [OF d, where g = "\<lambda>b r. r\<lparr>b_hostname := derived_name (hostPrefix a k) b\<rparr>"])
  qed
qed

theorem renameSiteBlades_spec_witness:
  "blades_ok (a_blades demo) \<and>
   map_option b_hostname (get_row (a_blades (fst (renameSiteBlades
      (demo\<lparr>a_sites := [demo_site\<lparr>s_host_prefix := ''hq''\<rparr>]\<rparr>) 0 1))) ''c0ffee01'') = Some ''blade-hq-r1s03''"
proof -
  let ?a = "demo\<lparr>a_sites := [demo_site\<lparr>s_host_prefix := ''hq''\<rparr>]\<rparr>"
  have ok: "blades_ok (a_blades ?a)"
    using demo_plan_ok by (simp add: plan_ok_def schema_ok_def)
  have v: "needs_rename (hostPrefix ?a 1) 1 (view ?a demo_blade)"
     "derived_name (hostPrefix ?a 1) (view ?a demo_blade) = ''blade-hq-r1s03''"
    by (simp_all add: needs_rename_def derived_name_def bladeHostname_def hostPrefix_def view_def
        decorate_def getRack_def get_rack_def siteNets_def getSite_def get_site_def rackIndex_def
        bare_def blade.extend_def bview.fields_def demo_defs autoHost_def auto_tail_def is_label_def
        pad2_def show_int_def show_nat.simps has_prefix_def str_simps Let_def)
  have "get_row (a_blades ?a) ''c0ffee01'' = Some demo_blade"
    by (simp add: get_row_def demo_def demo_blade_def)
  with renameSiteBlades_spec [OF ok, of 0 1 "''c0ffee01''"] ok v show ?thesis by simp
qed

text \<open>Removing a site that succeeds removes exactly that site, leaves at least one, and leaves
  no BladeRunner without its site: each still finds the site row it found before.\<close>

theorem deleteSite_no_orphan:
  assumes "schema_ok a" and "deleteSite a k = Inr a'"
  shows "getSite a' k = None \<and> a_sites a' \<noteq> []
     \<and> (\<forall>r\<in>set (a_racks a'). getSite a' (r_site_id r) = getSite a (r_site_id r))
     \<and> (\<forall>k'. k' \<noteq> k \<longrightarrow> getSite a' k' = getSite a k')"
proof -
  note d = deleteSite_Inr [OF assms(2)]
  have get: "getSite a' x = (if x = k then None else getSite a x)" for x
    by (simp add: getSite_def d(1) sites.get_del)
  obtain s1 s2 ss where l: "a_sites a = s1 # s2 # ss"
    using d(8) by (cases "a_sites a" rule: list.exhaust; cases "tl (a_sites a)") auto
  have "s_id s1 \<noteq> s_id s2" using assms(1) l by (auto simp: schema_ok_def sites_ok_def)
  then have "a_sites a' \<noteq> []" by (auto simp: d(1) l del_where_def)
  with get d(2,4) show ?thesis by auto
qed

theorem deleteSite_no_orphan_witness:
  "let a = demo\<lparr>a_sites := [demo_site, demo_site\<lparr>s_id := 2, s_name := ''Site 2''\<rparr>]\<rparr>
   in schema_ok a \<and> (\<exists>a'. deleteSite a 2 = Inr a' \<and> getSite a' 2 = None \<and> a_sites a' \<noteq> [])"
proof -
  let ?a = "demo\<lparr>a_sites := [demo_site, demo_site\<lparr>s_id := 2, s_name := ''Site 2''\<rparr>]\<rparr>"
  have ok: "schema_ok ?a"
    using demo_plan_ok by (simp add: plan_ok_def schema_ok_def sites_ok_def demo_defs)
  obtain a' where "deleteSite ?a 2 = Inr a'"
    by (simp add: deleteSite_def count_where_def demo_defs)
  with deleteSite_no_orphan [OF ok this] ok show ?thesis unfolding Let_def by blast
qed

end
