(* ===== verification/Policy.thy ===== *)
theory Policy
  imports SiteChanges
begin

text \<open>
  The numbers that decide what counts as a problem (\<^verbatim>\<open>src/server/policy.go\<close>), in three layers:
  the defaults, the installation's own and a site's own; the judgement of a blade's
  reported values (\<^verbatim>\<open>evalHealthWith\<close> of \<^verbatim>\<open>src/server/ipam.go\<close>), the sweep that marks silent
  blades offline (\<^verbatim>\<open>sweepOffline\<close> of \<^verbatim>\<open>src/server/main.go\<close>) and the measurements kept per
  blade (\<^verbatim>\<open>recordSample\<close>, \<^verbatim>\<open>bladeSamples\<close> of \<^verbatim>\<open>src/server/db.go\<close>). A \<^verbatim>\<open>float64\<close> is the rational
  number it stands for.
\<close>

section \<open>Policies and their layers\<close>

record policy =
  p_soc_warn :: rat
  p_soc_crit :: rat
  p_nvme_warn :: rat
  p_disk_warn :: rat
  p_disk_crit :: rat
  p_offline_min :: int
  p_no_wipe :: bool
  p_command_ttl_min :: int
  p_sample_every_min :: int
  p_sample_keep_hrs :: int

definition zeroPolicy :: policy where
  "zeroPolicy = \<lparr>p_soc_warn = 0, p_soc_crit = 0, p_nvme_warn = 0, p_disk_warn = 0, p_disk_crit = 0,
     p_offline_min = 0, p_no_wipe = False, p_command_ttl_min = 0, p_sample_every_min = 0,
     p_sample_keep_hrs = 0\<rparr>"

definition defaultPolicy :: policy where
  "defaultPolicy = \<lparr>p_soc_warn = 70, p_soc_crit = 80, p_nvme_warn = 70, p_disk_warn = 85,
     p_disk_crit = 95, p_offline_min = 5, p_no_wipe = False, p_command_ttl_min = 15,
     p_sample_every_min = 5, p_sample_keep_hrs = 48\<rparr>"

definition or_else :: "'a::zero \<Rightarrow> 'a \<Rightarrow> 'a" where
  "or_else x y = (if x = 0 then y else x)"

definition fill :: "policy \<Rightarrow> policy \<Rightarrow> policy" where
  "fill p from =
     \<lparr>p_soc_warn = or_else (p_soc_warn p) (p_soc_warn from),
      p_soc_crit = or_else (p_soc_crit p) (p_soc_crit from),
      p_nvme_warn = or_else (p_nvme_warn p) (p_nvme_warn from),
      p_disk_warn = or_else (p_disk_warn p) (p_disk_warn from),
      p_disk_crit = or_else (p_disk_crit p) (p_disk_crit from),
      p_offline_min = or_else (p_offline_min p) (p_offline_min from),
      p_no_wipe = (if \<not> p_no_wipe p then p_no_wipe from else p_no_wipe p),
      p_command_ttl_min = or_else (p_command_ttl_min p) (p_command_ttl_min from),
      p_sample_every_min = or_else (p_sample_every_min p) (p_sample_every_min from),
      p_sample_keep_hrs = or_else (p_sample_keep_hrs p) (p_sample_keep_hrs from)\<rparr>"

text \<open>Durations, in nanoseconds.\<close>

definition commandTTL :: "policy \<Rightarrow> int" where "commandTTL p = p_command_ttl_min p * int (minutes 1)"
definition sampleEvery :: "policy \<Rightarrow> int" where "sampleEvery p = p_sample_every_min p * int (minutes 1)"
definition sampleKeep :: "policy \<Rightarrow> int" where "sampleKeep p = p_sample_keep_hrs p * int (hours 1)"
definition offlineAfter :: "policy \<Rightarrow> int" where "offlineAfter p = p_offline_min p * int (minutes 1)"

text \<open>
  The text of a policy. Reading it ignores unknown keys and leaves absent ones at zero; a
  value of the wrong kind is an error that still keeps the other fields. Keys are matched
  as \<^verbatim>\<open>Marshal\<close> writes them.
\<close>

definition read_num :: "jmap \<Rightarrow> string \<Rightarrow> rat \<times> bool" where
  "read_num m k = (case map_of m k of None \<Rightarrow> (0, True) | Some JNull \<Rightarrow> (0, True)
     | Some (JNum q) \<Rightarrow> (q, True) | Some _ \<Rightarrow> (0, False))"

definition read_int :: "jmap \<Rightarrow> string \<Rightarrow> int \<times> bool" where
  "read_int m k = (case map_of m k of None \<Rightarrow> (0, True) | Some JNull \<Rightarrow> (0, True)
     | Some (JNum q) \<Rightarrow> (if of_int (floor q) = q then (floor q, True) else (0, False))
     | Some _ \<Rightarrow> (0, False))"

definition read_bool :: "jmap \<Rightarrow> string \<Rightarrow> bool \<times> bool" where
  "read_bool m k = (case map_of m k of None \<Rightarrow> (False, True) | Some JNull \<Rightarrow> (False, True)
     | Some (JBool b) \<Rightarrow> (b, True) | Some _ \<Rightarrow> (False, False))"

definition unmarshalPolicy :: "json \<Rightarrow> policy \<times> bool" where
  "unmarshalPolicy j =
     (case j of
        JNull \<Rightarrow> (zeroPolicy, True)
      | JObj m \<Rightarrow>
          (let nums = map (read_num m) [''soc_warn_c'', ''soc_crit_c'', ''nvme_warn_c'', ''disk_warn_pct'', ''disk_crit_pct''];
               ints = map (read_int m) [''offline_after_min'', ''command_ttl_min'', ''sample_every_min'', ''sample_keep_hours''];
               nw = read_bool m ''no_wipe''
           in (\<lparr>p_soc_warn = fst (nums ! 0), p_soc_crit = fst (nums ! 1), p_nvme_warn = fst (nums ! 2),
                p_disk_warn = fst (nums ! 3), p_disk_crit = fst (nums ! 4), p_offline_min = fst (ints ! 0),
                p_no_wipe = fst nw, p_command_ttl_min = fst (ints ! 1), p_sample_every_min = fst (ints ! 2),
                p_sample_keep_hrs = fst (ints ! 3)\<rparr>,
               list_all snd nums \<and> list_all snd ints \<and> snd nw))
      | _ \<Rightarrow> (zeroPolicy, False))"

definition marshalPolicy :: "policy \<Rightarrow> json" where
  "marshalPolicy p = JObj (
     [(''soc_warn_c'', JNum (p_soc_warn p)), (''soc_crit_c'', JNum (p_soc_crit p)),
      (''nvme_warn_c'', JNum (p_nvme_warn p)), (''disk_warn_pct'', JNum (p_disk_warn p)),
      (''disk_crit_pct'', JNum (p_disk_crit p)), (''offline_after_min'', JNum (of_int (p_offline_min p)))]
     @ (if p_no_wipe p then [(''no_wipe'', JBool True)] else [])
     @ (if p_command_ttl_min p = 0 then [] else [(''command_ttl_min'', JNum (of_int (p_command_ttl_min p)))])
     @ (if p_sample_every_min p = 0 then [] else [(''sample_every_min'', JNum (of_int (p_sample_every_min p)))])
     @ (if p_sample_keep_hrs p = 0 then [] else [(''sample_keep_hours'', JNum (of_int (p_sample_keep_hrs p)))]))"

definition globalPolicy :: "app \<Rightarrow> policy" where
  "globalPolicy a = fill (fst (unmarshalPolicy (a_policy a))) defaultPolicy"

definition setGlobalPolicy :: "app \<Rightarrow> policy \<Rightarrow> app" where
  "setGlobalPolicy a p = a\<lparr>a_policy := marshalPolicy p\<rparr>"

definition sitePolicy :: "app \<Rightarrow> int \<Rightarrow> policy" where
  "sitePolicy a sid =
     (let g = globalPolicy a
      in if sid = 0 then g
         else case getSite a sid of
                None \<Rightarrow> g
              | Some st \<Rightarrow>
                  if s_policy_json st = JNull then g
                  else (let (p, ok) = unmarshalPolicy (s_policy_json st) in if ok then fill p g else g))"

definition siteOwnPolicy :: "app \<Rightarrow> int \<Rightarrow> policy" where
  "siteOwnPolicy a sid =
     (case getSite a sid of None \<Rightarrow> zeroPolicy | Some st \<Rightarrow> fst (unmarshalPolicy (s_policy_json st)))"

definition setSitePolicy :: "app \<Rightarrow> int \<Rightarrow> policy \<Rightarrow> app" where
  "setSitePolicy a sid p =
     a\<lparr>a_sites := upd_where (\<lambda>r. s_id r = sid) (\<lambda>r. r\<lparr>s_policy_json := marshalPolicy p\<rparr>) (a_sites a)\<rparr>"

definition hPolicyPut :: "app \<Rightarrow> instant \<Rightarrow> policy \<Rightarrow> app" where
  "hPolicyPut a t inp =
     logEvent (setGlobalPolicy a (fill inp (globalPolicy a))) t [] ''info'' ''policy changed''"

definition hSitePolicyPut :: "app \<Rightarrow> instant \<Rightarrow> int \<Rightarrow> policy \<Rightarrow> app" where
  "hSitePolicyPut a t sid inp =
     logEvent (setSitePolicy a sid inp) t [] ''info'' (''policy of site '' @ show_int sid @ '' changed'')"

section \<open>The judgement of reported values\<close>

datatype healthLevel = HOK | HWarn | HCrit | HUnknown

fun level_rank :: "healthLevel \<Rightarrow> nat" where
  "level_rank HOK = 0" | "level_rank HWarn = 1" | "level_rank HCrit = 2" | "level_rank HUnknown = 3"

definition chip :: "healthLevel \<Rightarrow> string" where
  "chip l = (case l of HOK \<Rightarrow> ''ok'' | HWarn \<Rightarrow> ''warn'' | HCrit \<Rightarrow> ''crit'' | HUnknown \<Rightarrow> ''off'')"

datatype reason = RNohb | RSoc rat | RNvme rat | RDisk rat | RUndervolt | RThrottled | RFanstop

type_synonym verdict = "healthLevel \<times> reason list"

definition raise :: "healthLevel \<Rightarrow> reason \<Rightarrow> verdict \<Rightarrow> verdict" where
  "raise l why v = (if level_rank l > level_rank (fst v) then l else fst v, snd v @ [why])"

definition check_soc :: "policy \<Rightarrow> jmap \<Rightarrow> verdict \<Rightarrow> verdict" where
  "check_soc p h v = (case num (map_of h ''soc_temp_c'') of None \<Rightarrow> v
     | Some q \<Rightarrow> if q > p_soc_crit p then raise HCrit (RSoc q) v
                else if q > p_soc_warn p then raise HWarn (RSoc q) v else v)"

definition check_nvme :: "policy \<Rightarrow> jmap \<Rightarrow> verdict \<Rightarrow> verdict" where
  "check_nvme p h v = (case num (map_of h ''nvme_temp_c'') of None \<Rightarrow> v
     | Some q \<Rightarrow> if q > p_nvme_warn p then raise HWarn (RNvme q) v else v)"

definition check_disk :: "policy \<Rightarrow> jmap \<Rightarrow> verdict \<Rightarrow> verdict" where
  "check_disk p h v = (case num (map_of h ''disk_used_pct'') of None \<Rightarrow> v
     | Some q \<Rightarrow> if q > p_disk_crit p then raise HCrit (RDisk q) v
                else if q > p_disk_warn p then raise HWarn (RDisk q) v else v)"

definition check_power :: "jmap \<Rightarrow> verdict \<Rightarrow> verdict" where
  "check_power h v =
     (let v1 = (if as_bool (map_of h ''undervoltage_now'') = Some True then raise HCrit RUndervolt v else v)
      in if as_bool (map_of h ''throttled_now'') = Some True then raise HWarn RThrottled v1 else v1)"

text \<open>A stopped fan: asked to spin, has had time to, and is not spinning.\<close>

definition fan_stopped :: "jmap \<Rightarrow> bool" where
  "fan_stopped h \<longleftrightarrow> num (map_of h ''fan_rpm'') = Some 0
     \<and> as_str (map_of h ''fan_unit'') = Some ''smart''
     \<and> (case num (map_of h ''fan_percent'') of None \<Rightarrow> False | Some w \<Rightarrow> w > 0)
     \<and> (case num (map_of h ''uptime_s'') of None \<Rightarrow> True | Some up \<Rightarrow> up > 180)"

definition check_fan :: "jmap \<Rightarrow> verdict \<Rightarrow> verdict" where
  "check_fan h v = (if fan_stopped h then raise HCrit RFanstop v else v)"

definition evalHealthWith :: "('v) blade_scheme \<Rightarrow> policy \<Rightarrow> verdict" where
  "evalHealthWith b p =
     (let h = obj_of (b_health b)
      in if b_halted b \<noteq> None \<or> b_stored b \<noteq> None then (HUnknown, [])
         else if b_state b = ''offline'' then (HCrit, [RNohb])
         else if h = [] then (HUnknown, [])
         else check_fan h (check_power h (check_disk p h (check_nvme p h (check_soc p h (HOK, []))))))"

definition evalHealth :: "app \<Rightarrow> bview \<Rightarrow> verdict" where
  "evalHealth a b = evalHealthWith b (sitePolicy a (v_site_id b))"

section \<open>Silent blades\<close>

text \<open>\<^verbatim>\<open>time.Now().UTC().Add(-d).Format(RFC3339)\<close>: the second a moment \<open>d\<close> ago fell in.\<close>

definition cutoff :: "instant \<Rightarrow> int \<Rightarrow> int" where
  "cutoff t d = (int t - d) div int nsec"

definition stamp_before :: "stamp \<Rightarrow> int \<Rightarrow> bool" where
  "stamp_before s c = (case s of None \<Rightarrow> False | Some x \<Rightarrow> int x < c)"

definition silent :: "int \<Rightarrow> blade \<Rightarrow> bool" where
  "silent c b \<longleftrightarrow> b_state b = ''online'' \<and> stamp_before (b_last_seen b) c"

definition flip :: "int \<Rightarrow> (blade \<Rightarrow> bool) \<Rightarrow> app \<times> nat \<Rightarrow> app \<times> nat" where
  "flip c P st = (case st of (a, n) \<Rightarrow>
     (a\<lparr>a_blades := upd_where (\<lambda>b. silent c b \<and> P b) (\<lambda>b. b\<lparr>b_state := ''offline''\<rparr>) (a_blades a)\<rparr>,
      n + count_where (\<lambda>b. silent c b \<and> P b) (a_blades a)))"

definition in_site :: "app \<Rightarrow> int \<Rightarrow> blade \<Rightarrow> bool" where
  "in_site a sid b = (case b_rack_id b of None \<Rightarrow> False
     | Some rid \<Rightarrow> \<exists>r\<in>set (a_racks a). r_id r = rid \<and> r_site_id r = sid)"

definition in_no_rack :: "app \<Rightarrow> blade \<Rightarrow> bool" where
  "in_no_rack a b = (case b_rack_id b of None \<Rightarrow> True
     | Some rid \<Rightarrow> \<not> (\<exists>r\<in>set (a_racks a). r_id r = rid))"

definition sweepOffline :: "app \<Rightarrow> instant \<Rightarrow> app" where
  "sweepOffline a t =
     (let st1 = fold (\<lambda>s st. flip (cutoff t (offlineAfter (sitePolicy a (s_id s)))) (in_site a (s_id s)) st)
                  (sort_key s_id (a_sites a)) (a, 0);
          (a2, n) = flip (cutoff t (offlineAfter (globalPolicy a))) (in_no_rack a) st1
      in if n > 0 then logEvent a2 t [] ''warn'' (show_nat n @ '' blade(s) without heartbeat marked offline'') else a2)"

section \<open>Measurements\<close>

definition recordSample :: "app \<Rightarrow> instant \<Rightarrow> string \<Rightarrow> jmap \<Rightarrow> app" where
  "recordSample a t serial health =
     (let soc = (case num (map_of health ''soc_temp_c'') of Some q \<Rightarrow> Some q
                 | None \<Rightarrow> num (map_of health ''blade_soc_temp_c''));
          air = num (map_of health ''airflow_temp_c'');
          rpm = num (map_of health ''fan_rpm'')
      in if soc = None \<and> air = None \<and> rpm = None then a
         else (let pol = globalPolicy a;
                   recent = (case latest_by (\<lambda>m. Some (m_ts m)) (filter (\<lambda>m. m_serial m = serial) (a_samples a)) of
                               None \<Rightarrow> False | Some m \<Rightarrow> since t (m_ts m) < sampleEvery pol)
               in if recent then a
                  else (let row = \<lparr>m_serial = serial, m_ts = t div nsec, m_soc = soc, m_airflow = air, m_rpm = rpm\<rparr>;
                            put = upsert (\<lambda>m. (m_serial m, m_ts m)) (\<lambda>_. row) row (a_samples a)
                        in a\<lparr>a_samples := del_where (\<lambda>m. m_serial m = serial
                               \<and> int (m_ts m) < cutoff t (sampleKeep pol)) put\<rparr>)))"

definition bladeSamples :: "app \<Rightarrow> instant \<Rightarrow> string \<Rightarrow> int \<Rightarrow> (nat \<times> rat \<times> rat \<times> rat) list" where
  "bladeSamples a t serial window =
     map (\<lambda>m. (m_ts m, case_option (-1) (\<lambda>q. q) (m_soc m), case_option (-1) (\<lambda>q. q) (m_airflow m),
               case_option (-1) (\<lambda>q. q) (m_rpm m)))
       (sort_key m_ts (filter (\<lambda>m. m_serial m = serial \<and> cutoff t window \<le> int (m_ts m)) (a_samples a)))"

section \<open>Layering\<close>

text \<open>Settings in layers: an unset layer says nothing, a layer over itself says nothing new, and
  it does not matter in which order a chain of layers is folded together.\<close>

locale layers =
  fixes over :: "'p \<Rightarrow> 'p \<Rightarrow> 'p" and unset :: 'p
  assumes over_assoc: "over (over p q) r = over p (over q r)"
    and over_unset: "over p unset = p"
    and unset_over: "over unset p = p"
    and over_again: "over p (over q p) = over p q"
begin

lemma over_idem: "over p p = p"
  using over_again [of p unset] by (simp add: unset_over over_unset)

lemma over_left: "over p (over p q) = over p q"
  using over_assoc [of p p q] by (simp add: over_idem)

text \<open>Writing the effective value of a layer back into that layer does not change the outcome.\<close>

lemma write_back: "over (over p q) q = over p q"
  by (simp add: over_assoc over_idem)

lemma resolve_chain: "foldr over (ps @ qs) unset = over (foldr over ps unset) (foldr over qs unset)"
  by (induction ps) (simp_all add: unset_over over_assoc)

end

lemma or_else_simps [simp]:
  "or_else (or_else x y) z = or_else x (or_else y z)" "or_else x 0 = x" "or_else 0 x = x"
  "or_else x (or_else y x) = or_else x y"
  by (auto simp: or_else_def)

interpretation policies: layers fill zeroPolicy
  by unfold_locales (auto simp: fill_def zeroPolicy_def)

section \<open>Stored policies read back\<close>

lemma unmarshal_marshal: "unmarshalPolicy (marshalPolicy p) = (p, True)"
  by (simp add: unmarshalPolicy_def marshalPolicy_def read_num_def read_int_def read_bool_def Let_def)

text \<open>A policy written for a site and read again is the policy that was written, with no field
  lost although zero fields are left out of the text, and what applies elsewhere stays.\<close>

theorem site_policy_roundtrip:
  "siteOwnPolicy (setSitePolicy a sid p) k =
     (if k = sid \<and> getSite a sid \<noteq> None then p else siteOwnPolicy a k)"
  by (auto simp: siteOwnPolicy_def setSitePolicy_def getSite_def sites.get_upd unmarshal_marshal
      split: option.split)

lemma globalPolicy_set: "globalPolicy (setGlobalPolicy a p) = fill p defaultPolicy"
  by (simp add: globalPolicy_def setGlobalPolicy_def unmarshal_marshal)

lemma globalPolicy_log [simp]: "globalPolicy (logEvent a t s l m) = globalPolicy a"
  by (simp add: globalPolicy_def)

lemma globalPolicy_filled: "fill (globalPolicy a) defaultPolicy = globalPolicy a"
  by (simp add: globalPolicy_def policies.write_back)

text \<open>What the installation judges by after a change is the new numbers over the old ones, so
  putting back what was read changes nothing.\<close>

theorem hPolicyPut_spec:
  "globalPolicy (hPolicyPut a t p) = fill p (globalPolicy a)
   \<and> globalPolicy (hPolicyPut a t (globalPolicy a)) = globalPolicy a"
  by (simp add: hPolicyPut_def globalPolicy_set policies.over_assoc globalPolicy_filled policies.over_idem)

text \<open>Once erasing is forbidden for the installation, no change of the policy allows it again,
  at any site: the prohibition can be set and never lifted.\<close>

theorem no_wipe_is_final:
  assumes "p_no_wipe (globalPolicy a)"
  shows "p_no_wipe (globalPolicy (hPolicyPut a t p)) \<and> p_no_wipe (sitePolicy (hPolicyPut a t p) sid)"
proof -
  have g: "p_no_wipe (globalPolicy (hPolicyPut a t p))"
    using assms by (simp add: hPolicyPut_def globalPolicy_set policies.over_assoc globalPolicy_filled) (simp add: fill_def)
  then show ?thesis by (simp add: sitePolicy_def Let_def fill_def split: option.split prod.split)
qed

theorem no_wipe_is_final_witness:
  "p_no_wipe (globalPolicy (hPolicyPut (demo\<lparr>a_policy := JObj [(''no_wipe'', JBool True)]\<rparr>) 0
      (defaultPolicy\<lparr>p_no_wipe := False\<rparr>)))"
  using no_wipe_is_final [of "demo\<lparr>a_policy := JObj [(''no_wipe'', JBool True)]\<rparr>" 0
      "defaultPolicy\<lparr>p_no_wipe := False\<rparr>" 1]
  by (simp add: globalPolicy_def unmarshalPolicy_def read_bool_def read_num_def read_int_def fill_def Let_def)

text \<open>At a site every number is the site's own where it set one, otherwise the installation's,
  otherwise the default; no effective threshold is ever zero.\<close>

theorem sitePolicy_layers:
  assumes "getSite a sid = Some st" and "sid \<noteq> 0" and "snd (unmarshalPolicy (s_policy_json st))"
  shows "sitePolicy a sid = foldr fill [siteOwnPolicy a sid, fst (unmarshalPolicy (a_policy a)), defaultPolicy] zeroPolicy
     \<and> p_soc_crit (sitePolicy a sid) \<noteq> 0 \<and> p_offline_min (sitePolicy a sid) \<noteq> 0"
proof -
  have "sitePolicy a sid = fill (siteOwnPolicy a sid) (globalPolicy a)"
    using assms by (auto simp: sitePolicy_def siteOwnPolicy_def Let_def unmarshalPolicy_def
        policies.unset_over split: prod.split)
  then show ?thesis
    by (simp add: policies.over_unset globalPolicy_def) (simp add: fill_def or_else_def defaultPolicy_def)
qed

theorem sitePolicy_layers_witness:
  "getSite demo 1 = Some demo_site \<and> p_soc_crit (sitePolicy demo 1) \<noteq> 0"
proof -
  have g: "getSite demo 1 = Some demo_site" by (simp add: demo_defs getSite_def get_site_def)
  have "snd (unmarshalPolicy (s_policy_json demo_site))"
    by (simp add: demo_site_def unmarshalPolicy_def)
  with sitePolicy_layers [OF g] g show ?thesis by (metis zero_neq_one)
qed

section \<open>The judgement\<close>

definition exceeds :: "jmap \<Rightarrow> string \<Rightarrow> rat \<Rightarrow> bool" where
  "exceeds h k c = (case num (map_of h k) of None \<Rightarrow> False | Some q \<Rightarrow> q > c)"

definition crit_sign :: "policy \<Rightarrow> jmap \<Rightarrow> bool" where
  "crit_sign p h \<longleftrightarrow> exceeds h ''soc_temp_c'' (p_soc_crit p) \<or> exceeds h ''disk_used_pct'' (p_disk_crit p)
     \<or> as_bool (map_of h ''undervoltage_now'') = Some True \<or> fan_stopped h"

definition warn_sign :: "policy \<Rightarrow> jmap \<Rightarrow> bool" where
  "warn_sign p h \<longleftrightarrow> exceeds h ''soc_temp_c'' (p_soc_warn p) \<or> exceeds h ''nvme_temp_c'' (p_nvme_warn p)
     \<or> exceeds h ''disk_used_pct'' (p_disk_warn p) \<or> as_bool (map_of h ''throttled_now'') = Some True"

definition worst :: "healthLevel \<Rightarrow> healthLevel \<Rightarrow> healthLevel" where
  "worst l m = (if level_rank l > level_rank m then l else m)"

lemma fst_raise: "fst (raise l why v) = worst l (fst v)"
  by (simp add: raise_def worst_def)

lemma worst_simps [simp]: "worst HOK l = l" "worst l HOK = l" "worst l l = l"
  "worst HCrit HWarn = HCrit" "worst HWarn HCrit = HCrit"
  by (cases l; simp add: worst_def)+

lemmas fst_checks = fst_raise check_soc_def check_nvme_def check_disk_def check_power_def check_fan_def
  exceeds_def Let_def

lemma fst_check:
  "fst (check_soc p h v) = worst (if exceeds h ''soc_temp_c'' (p_soc_crit p) then HCrit
     else if exceeds h ''soc_temp_c'' (p_soc_warn p) then HWarn else HOK) (fst v)"
  "fst (check_nvme p h v) = worst (if exceeds h ''nvme_temp_c'' (p_nvme_warn p) then HWarn else HOK) (fst v)"
  "fst (check_disk p h v) = worst (if exceeds h ''disk_used_pct'' (p_disk_crit p) then HCrit
     else if exceeds h ''disk_used_pct'' (p_disk_warn p) then HWarn else HOK) (fst v)"
  "fst (check_power h v) = worst (if as_bool (map_of h ''throttled_now'') = Some True then HWarn else HOK)
     (worst (if as_bool (map_of h ''undervoltage_now'') = Some True then HCrit else HOK) (fst v))"
  "fst (check_fan h v) = worst (if fan_stopped h then HCrit else HOK) (fst v)"
  by (simp_all add: fst_checks split: option.split)

text \<open>A verdict that says all is well gives no reason.\<close>

definition fair :: "verdict \<Rightarrow> bool" where
  "fair v \<longleftrightarrow> (fst v = HOK \<longrightarrow> snd v = [])"

lemma fair_raise: "l \<noteq> HOK \<Longrightarrow> fair (raise l why v)"
  by (cases l; cases "fst v") (simp_all add: fair_def raise_def)

lemma fair_check:
  "fair v \<Longrightarrow> fair (check_soc p h v)" "fair v \<Longrightarrow> fair (check_nvme p h v)"
  "fair v \<Longrightarrow> fair (check_disk p h v)" "fair v \<Longrightarrow> fair (check_power h v)" "fair v \<Longrightarrow> fair (check_fan h v)"
  by (simp_all add: check_soc_def check_nvme_def check_disk_def check_power_def check_fan_def
      fair_raise Let_def split: option.split)

text \<open>A blade in service that reports is critical exactly when a critical sign is there,
  warned about exactly when only a lesser sign is there, and in order otherwise, in which
  case no reason is given; a blade switched off or put aside is never judged, and one that
  fell silent is critical.\<close>

theorem evalHealthWith_spec:
  "fst (evalHealthWith b p) =
     (if b_halted b \<noteq> None \<or> b_stored b \<noteq> None then HUnknown
      else if b_state b = ''offline'' then HCrit
      else if obj_of (b_health b) = [] then HUnknown
      else if crit_sign p (obj_of (b_health b)) then HCrit
      else if warn_sign p (obj_of (b_health b)) then HWarn else HOK)
   \<and> (fst (evalHealthWith b p) = HOK \<longrightarrow> snd (evalHealthWith b p) = [])"
proof -
  let ?h = "obj_of (b_health b)"
  let ?v = "check_fan ?h (check_power ?h (check_disk p ?h (check_nvme p ?h (check_soc p ?h (HOK, [])))))"
  have "fst ?v = (if crit_sign p ?h then HCrit else if warn_sign p ?h then HWarn else HOK)"
    by (simp add: fst_check crit_sign_def warn_sign_def)
  moreover have "fair ?v" by (intro fair_check) (simp add: fair_def)
  ultimately show ?thesis by (simp add: evalHealthWith_def Let_def fair_def)
qed

theorem evalHealthWith_spec_witness: "snd (evalHealthWith demo_blade defaultPolicy) = []"
proof -
  have "fst (evalHealthWith demo_blade defaultPolicy) = HOK"
    by (simp add: evalHealthWith_spec demo_blade_def crit_sign_def warn_sign_def exceeds_def defaultPolicy_def fan_stopped_def)
  then show ?thesis using evalHealthWith_spec [of demo_blade defaultPolicy] by blast
qed

section \<open>Silent blades are marked by their own site's rule\<close>

lemma upd_where_twice:
  assumes "\<And>b. P b \<Longrightarrow> \<not> Q (f b)" and "\<And>b. P b \<Longrightarrow> \<not> P (f b)"
  shows "upd_where Q f (upd_where P f t) = upd_where (\<lambda>b. P b \<or> Q b) f t"
  using assms by (induction t) auto

lemma fold_flip:
  "\<exists>n'. fold (\<lambda>s st. flip (c s) (P s) st) ss (a, n) =
     (a\<lparr>a_blades := upd_where (\<lambda>b. \<exists>s\<in>set ss. silent (c s) b \<and> P s b) (\<lambda>b. b\<lparr>b_state := ''offline''\<rparr>) (a_blades a)\<rparr>, n')"
proof (induction ss arbitrary: a n)
  case Nil
  then show ?case by (simp add: upd_where_none)
next
  case (Cons s ss)
  let ?off = "\<lambda>b :: blade. b\<lparr>b_state := ''offline''\<rparr>"
  let ?a = "a\<lparr>a_blades := upd_where (\<lambda>b. silent (c s) b \<and> P s b) ?off (a_blades a)\<rparr>"
  obtain m where "flip (c s) (P s) (a, n) = (?a, m)" by (simp add: flip_def)
  moreover obtain n' where "fold (\<lambda>s st. flip (c s) (P s) st) ss (?a, m) =
     (?a\<lparr>a_blades := upd_where (\<lambda>b. \<exists>s\<in>set ss. silent (c s) b \<and> P s b) ?off (a_blades ?a)\<rparr>, n')"
    using Cons.IH by blast
  moreover have "upd_where (\<lambda>b. \<exists>s\<in>set ss. silent (c s) b \<and> P s b) ?off (a_blades ?a) =
     upd_where (\<lambda>b. (silent (c s) b \<and> P s b) \<or> (\<exists>s\<in>set ss. silent (c s) b \<and> P s b)) ?off (a_blades a)"
    by simp (rule upd_where_twice, simp_all add: silent_def)
  ultimately show ?case by (auto simp: disj_imp)
qed

text \<open>Which number applies to a blade: its site's, or the installation's when it stands in no
  BladeRunner; none when its BladeRunner names a site that does not exist.\<close>

definition governing :: "app \<Rightarrow> blade \<Rightarrow> policy option" where
  "governing a b =
     (case Option.bind (b_rack_id b) (getRack a) of
        None \<Rightarrow> Some (globalPolicy a)
      | Some r \<Rightarrow> map_option (\<lambda>_. sitePolicy a (r_site_id r)) (getSite a (r_site_id r)))"

lemma in_site_iff:
  assumes "racks_ok (a_racks a)"
  shows "in_site a sid b \<longleftrightarrow> (\<exists>rid r. b_rack_id b = Some rid \<and> getRack a rid = Some r \<and> r_site_id r = sid)"
  using assms racks.get_iff [of "a_racks a"]
  by (auto simp: in_site_def racks_ok_def getRack_def split: option.split)

lemma in_no_rack_iff: "in_no_rack a b \<longleftrightarrow> Option.bind (b_rack_id b) (getRack a) = None"
  by (auto simp: in_no_rack_def getRack_def racks.get_None_iff image_iff split: option.split)

lemma silent_governed:
  assumes "racks_ok (a_racks a)"
  shows "((\<exists>s\<in>set (a_sites a). silent (C (sitePolicy a (s_id s))) b \<and> in_site a (s_id s) b)
      \<or> silent (C (globalPolicy a)) b \<and> in_no_rack a b)
    \<longleftrightarrow> (\<exists>p. governing a b = Some p \<and> silent (C p) b)"
proof (cases "Option.bind (b_rack_id b) (getRack a)")
  case None
  then show ?thesis
    by (auto simp: governing_def in_site_iff [OF assms] in_no_rack_iff bind_eq_Some_conv)
next
  case (Some r)
  then obtain rid where r: "b_rack_id b = Some rid" "getRack a rid = Some r" by (auto simp: bind_eq_Some_conv)
  have "(\<exists>s\<in>set (a_sites a). s_id s = r_site_id r) \<longleftrightarrow> getSite a (r_site_id r) \<noteq> None"
    by (auto simp: getSite_def sites.get_None_iff image_iff) metis
  with Some r show ?thesis
    by (auto simp: governing_def in_site_iff [OF assms] in_no_rack_iff) metis
qed

text \<open>The sweep marks offline exactly the blades that were online and have been silent for
  longer than the number that applies to them, which is the number of the site they stand
  in, and it changes nothing else in any blade's row.\<close>

theorem sweepOffline_spec:
  assumes "racks_ok (a_racks a)"
  shows "a_blades (sweepOffline a t) =
    map (\<lambda>b. if \<exists>p. governing a b = Some p \<and> silent (cutoff t (offlineAfter p)) b
             then b\<lparr>b_state := ''offline''\<rparr> else b) (a_blades a)"
proof -
  let ?off = "\<lambda>b :: blade. b\<lparr>b_state := ''offline''\<rparr>"
  let ?C = "\<lambda>p. cutoff t (offlineAfter p)"
  let ?S = "\<lambda>b. \<exists>s\<in>set (sort_key s_id (a_sites a)). silent (?C (sitePolicy a (s_id s))) b \<and> in_site a (s_id s) b"
  obtain n where "fold (\<lambda>s st. flip (?C (sitePolicy a (s_id s))) (in_site a (s_id s)) st)
      (sort_key s_id (a_sites a)) (a, 0) = (a\<lparr>a_blades := upd_where ?S ?off (a_blades a)\<rparr>, n)"
    using fold_flip [of "\<lambda>s. ?C (sitePolicy a (s_id s))" "\<lambda>s. in_site a (s_id s)"] by blast
  then have "a_blades (sweepOffline a t) =
      upd_where (\<lambda>b. silent (?C (globalPolicy a)) b \<and> in_no_rack a b) ?off (upd_where ?S ?off (a_blades a))"
    by (simp add: sweepOffline_def flip_def Let_def)
  also have "\<dots> = upd_where (\<lambda>b. ?S b \<or> silent (?C (globalPolicy a)) b \<and> in_no_rack a b) ?off (a_blades a)"
    by (rule upd_where_twice) (simp_all add: silent_def)
  also have "\<dots> = upd_where (\<lambda>b. \<exists>p. governing a b = Some p \<and> silent (?C p) b) ?off (a_blades a)"
    using silent_governed [OF assms, of ?C] by simp
  finally show ?thesis by (simp add: upd_where_def)
qed

theorem sweepOffline_spec_witness:
  "racks_ok (a_racks demo) \<and> map b_state (a_blades (sweepOffline demo (minutes 6))) = [''offline'']"
proof -
  have ok: "racks_ok (a_racks demo)" using demo_plan_ok by (simp add: plan_ok_def schema_ok_def)
  have g: "governing demo demo_blade = Some (sitePolicy demo 1)"
    by (simp add: governing_def demo_defs getRack_def get_rack_def getSite_def get_site_def)
  have "silent (cutoff (minutes 6) (offlineAfter (sitePolicy demo 1))) demo_blade"
    by (simp add: silent_def stamp_before_def cutoff_def offlineAfter_def sitePolicy_def globalPolicy_def
        unmarshalPolicy_def fill_def or_else_def zeroPolicy_def defaultPolicy_def getSite_def get_site_def
        demo_defs clock_simps Let_def)
  with sweepOffline_spec [OF ok, of "minutes 6"] ok g show ?thesis by (simp add: demo_def)
qed

section \<open>Measurements are thinned out\<close>

definition spaced :: "nat \<Rightarrow> sample list \<Rightarrow> bool" where
  "spaced gap ms \<longleftrightarrow> (\<forall>m\<in>set ms. \<forall>m'\<in>set ms. m_serial m = m_serial m' \<longrightarrow> m_ts m < m_ts m' \<longrightarrow> m_ts m + gap \<le> m_ts m')"

lemma since_gap:
  assumes "\<not> since t s < int k * int (minutes 1)"
  shows "s + 60 * k \<le> t div nsec"
proof -
  from assms have "int (s * nsec) + int k * int (60 * nsec) \<le> int t"
    by (simp add: since_def minutes_def)
  then have "int (s * nsec + k * (60 * nsec)) \<le> int t" by (simp add: algebra_simps)
  then have "(s + 60 * k) * nsec \<le> t" by (simp add: algebra_simps del: of_nat_add of_nat_mult)
  then show ?thesis by (simp add: less_eq_div_iff_mult_less_eq)
qed

lemma recordSample_taken:
  assumes "recordSample a t serial h \<noteq> a"
  shows "\<exists>row. m_serial row = serial \<and> m_ts row = t div nsec
    \<and> a_samples (recordSample a t serial h) = del_where (\<lambda>m. m_serial m = serial
        \<and> int (m_ts m) < cutoff t (sampleKeep (globalPolicy a)))
        (upsert (\<lambda>m. (m_serial m, m_ts m)) (\<lambda>_. row) row (a_samples a))
    \<and> (\<forall>m. latest_by (\<lambda>m. Some (m_ts m)) (filter (\<lambda>m. m_serial m = serial) (a_samples a)) = Some m \<longrightarrow>
         \<not> since t (m_ts m) < sampleEvery (globalPolicy a))"
proof -
  let ?soc = "case num (map_of h ''soc_temp_c'') of Some q \<Rightarrow> Some q | None \<Rightarrow> num (map_of h ''blade_soc_temp_c'')"
  let ?row = "\<lparr>m_serial = serial, m_ts = t div nsec, m_soc = ?soc,
    m_airflow = num (map_of h ''airflow_temp_c''), m_rpm = num (map_of h ''fan_rpm'')\<rparr>"
  let ?last = "latest_by (\<lambda>m. Some (m_ts m)) (filter (\<lambda>m. m_serial m = serial) (a_samples a))"
  have "\<not> (case ?last of None \<Rightarrow> False | Some m \<Rightarrow> since t (m_ts m) < sampleEvery (globalPolicy a))"
    and "a_samples (recordSample a t serial h) = del_where (\<lambda>m. m_serial m = serial
        \<and> int (m_ts m) < cutoff t (sampleKeep (globalPolicy a)))
        (upsert (\<lambda>m. (m_serial m, m_ts m)) (\<lambda>_. ?row) ?row (a_samples a))"
    using assms unfolding recordSample_def Let_def by (simp_all split: if_split_asm) auto
  then show ?thesis by (intro exI [of _ ?row]) auto
qed

text \<open>Whatever the clock does, two measurements kept of one blade lie at least the configured
  interval apart, a report adds at most one measurement, its own, and after a measurement is
  taken none of that blade is older than the time they are kept.\<close>

theorem recordSample_spacing:
  assumes "p_sample_every_min (globalPolicy a) = int k" and "0 < k" and "spaced (60 * k) (a_samples a)"
  shows "spaced (60 * k) (a_samples (recordSample a t serial h))
     \<and> (\<forall>m\<in>set (a_samples (recordSample a t serial h)). m \<in> set (a_samples a)
          \<or> m_serial m = serial \<and> m_ts m = t div nsec)
     \<and> (recordSample a t serial h \<noteq> a \<longrightarrow>
          (\<forall>m\<in>set (a_samples (recordSample a t serial h)). m_serial m = serial \<longrightarrow>
             cutoff t (sampleKeep (globalPolicy a)) \<le> int (m_ts m)))"
proof (cases "recordSample a t serial h = a")
  case True
  with assms(3) show ?thesis by simp
next
  case False
  let ?old = "filter (\<lambda>m. m_serial m = serial) (a_samples a)"
  obtain row where row: "m_serial row = serial" "m_ts row = t div nsec"
    and eq: "a_samples (recordSample a t serial h) = del_where (\<lambda>m. m_serial m = serial
        \<and> int (m_ts m) < cutoff t (sampleKeep (globalPolicy a)))
        (upsert (\<lambda>m. (m_serial m, m_ts m)) (\<lambda>_. row) row (a_samples a))"
    and nr: "\<And>m. latest_by (\<lambda>m. Some (m_ts m)) ?old = Some m \<Longrightarrow> \<not> since t (m_ts m) < sampleEvery (globalPolicy a)"
    using recordSample_taken [OF False] by blast
  have late: "m_ts m + 60 * k \<le> m_ts row" if "m \<in> set (a_samples a)" and "m_serial m = serial" for m
  proof -
    have m: "m \<in> set ?old" using that by simp
    then obtain b where b: "latest_by (\<lambda>m. Some (m_ts m)) ?old = Some b"
      by (cases "latest_by (\<lambda>m. Some (m_ts m)) ?old") (auto simp: filter_empty_conv)
    have "m_ts m \<le> m_ts b" using latest_by_max [OF b m] by simp
    moreover have "m_ts b + 60 * k \<le> t div nsec"
      using nr [OF b] assms(1) by (intro since_gap) (simp add: sampleEvery_def)
    ultimately show ?thesis by (simp add: row)
  qed
  have sub: "set (upsert (\<lambda>m. (m_serial m, m_ts m)) (\<lambda>_. row) row (a_samples a)) \<subseteq> insert row (set (a_samples a))"
    by (auto simp: upsert_def set_upd_where)
  have "spaced (60 * k) (a_samples (recordSample a t serial h))"
    unfolding spaced_def
  proof (intro ballI impI)
    fix m m' assume "m \<in> set (a_samples (recordSample a t serial h))"
      and "m' \<in> set (a_samples (recordSample a t serial h))"
      and ser: "m_serial m = m_serial m'" and lt: "m_ts m < m_ts m'"
    then have "m \<in> insert row (set (a_samples a))" "m' \<in> insert row (set (a_samples a))"
      using sub by (auto simp: eq set_del_where)
    then show "m_ts m + 60 * k \<le> m_ts m'"
      using ser lt late row assms(3) by (fastforce simp: spaced_def)
  qed
  then show ?thesis using sub row by (auto simp: eq set_del_where)
qed

theorem recordSample_spacing_witness:
  "p_sample_every_min (globalPolicy demo) = 5 \<and> spaced 300 (a_samples (recordSample demo (minutes 1) ''c0ffee01'' [(''fan_rpm'', JNum 3000)]))
   \<and> recordSample demo (minutes 1) ''c0ffee01'' [(''fan_rpm'', JNum 3000)] \<noteq> demo"
proof -
  have p: "p_sample_every_min (globalPolicy demo) = int 5"
    by (simp add: globalPolicy_def unmarshalPolicy_def fill_def or_else_def zeroPolicy_def defaultPolicy_def demo_def)
  have "spaced (60 * 5) (a_samples demo)" by (simp add: spaced_def demo_def)
  from recordSample_spacing [OF p _ this, of "minutes 1" "''c0ffee01''" "[(''fan_rpm'', JNum 3000)]"] p
  show ?thesis
    by (simp add: recordSample_def demo_def upsert_def del_where_def globalPolicy_def unmarshalPolicy_def
        fill_def or_else_def zeroPolicy_def defaultPolicy_def cutoff_def sampleKeep_def clock_simps Let_def)
qed

end
