(* ===== verification/Netboot.thy ===== *)
theory Netboot
  imports Policy
begin

text \<open>
  Netboot sessions (\<^verbatim>\<open>src/server/netboot.go\<close>): what is learnt about a machine on the wire from
  dnsmasq's log and from the installer's own reports, joined on the MAC. A line of the log
  enters as the submatches of the six patterns that are tried on it. The theorems: however
  observations interleave, a session's stage never moves back and the sign of a netboot is
  never lost; the image chosen for a session is what the installer collects.
\<close>

section \<open>Stages\<close>

definition stageDHCP :: string where "stageDHCP = ''dhcp''"
definition stageTFTP :: string where "stageTFTP = ''tftp''"
definition stageRamdisk :: string where "stageRamdisk = ''ramdisk''"
definition stageInstaller :: string where "stageInstaller = ''installer''"
definition stageWriting :: string where "stageWriting = ''writing''"
definition stageDone :: string where "stageDone = ''done''"
definition stageError :: string where "stageError = ''error''"

lemmas stage_defs = stageDHCP_def stageTFTP_def stageRamdisk_def stageInstaller_def stageWriting_def
  stageDone_def stageError_def

text \<open>The rank of a stage; a text that is none of them has rank 0, as a Go map answers.\<close>

definition stageRank :: "string \<Rightarrow> nat" where
  "stageRank s = (case map_of [(stageDHCP, 1), (stageTFTP, 2), (stageRamdisk, 3), (stageInstaller, 4),
     (stageWriting, 5), (stageDone, 6), (stageError, 7)] s of None \<Rightarrow> 0 | Some n \<Rightarrow> n)"

section \<open>Operations on a session\<close>

definition upd_session :: "app \<Rightarrow> (netboot \<Rightarrow> bool) \<Rightarrow> (netboot \<Rightarrow> netboot) \<Rightarrow> app" where
  "upd_session a P f = a\<lparr>a_netboot := upd_where P f (a_netboot a)\<rparr>"

definition raiseStage :: "app \<Rightarrow> instant \<Rightarrow> string \<Rightarrow> string \<Rightarrow> app" where
  "raiseStage a t mac stage =
     (if stage = [] then a
      else case get_netboot (a_netboot a) mac of
             None \<Rightarrow> a
           | Some cur \<Rightarrow>
               if stageRank stage \<le> stageRank (n_stage cur) then a
               else (let a1 = upd_session a (\<lambda>n. n_mac n = mac) (\<lambda>n. n\<lparr>n_stage := stage\<rparr>)
                     in if stage = stageRamdisk
                        then logEvent a1 t [] ''info'' (''netboot: '' @ mac @ '' loaded the mini OS'') else a1))"

definition fresh_session :: "instant \<Rightarrow> string \<Rightarrow> string \<Rightarrow> string \<Rightarrow> string \<Rightarrow> netboot" where
  "fresh_session t mac ip stage note =
     \<lparr>n_mac = mac, n_ip = ip, n_serial = [], n_stage = stage, n_files = 0, n_last_file = [], n_image = [],
      n_client = [], n_note = note, n_site_id = 0, n_first_seen = stamp_of t, n_last_seen = stamp_of t\<rparr>"

definition carry_forward :: "instant \<Rightarrow> string \<Rightarrow> string \<Rightarrow> netboot \<Rightarrow> netboot" where
  "carry_forward t ip note n = n\<lparr>n_ip := (if ip \<noteq> [] then ip else n_ip n), n_last_seen := stamp_of t,
     n_note := (if note \<noteq> [] then note else n_note n)\<rparr>"

definition touchNetboot :: "app \<Rightarrow> instant \<Rightarrow> string \<Rightarrow> string \<Rightarrow> string \<Rightarrow> string \<Rightarrow> app" where
  "touchNetboot a t mac ip stage note =
     (if mac = [] then a
      else raiseStage (a\<lparr>a_netboot := upsert n_mac (carry_forward t ip note)
              (fresh_session t mac ip stage note) (a_netboot a)\<rparr>) t mac stage)"

definition shortFile :: "string \<Rightarrow> string" where
  "shortFile p = after_last CHR ''/'' p"

definition touchNetbootByIP :: "app \<Rightarrow> instant \<Rightarrow> string \<Rightarrow> string \<Rightarrow> string \<Rightarrow> string \<Rightarrow> app" where
  "touchNetbootByIP a t ip stage file note =
     (if ip = [] then a
      else case latest_by n_last_seen (filter (\<lambda>n. n_ip n = ip) (a_netboot a)) of
             None \<Rightarrow> a
           | Some s \<Rightarrow>
               (let mac = n_mac s;
                    a1 = (if file \<noteq> []
                          then upd_session a (\<lambda>n. n_mac n = mac)
                                 (\<lambda>n. n\<lparr>n_files := n_files n + 1, n_last_file := shortFile file, n_last_seen := stamp_of t\<rparr>)
                          else upd_session a (\<lambda>n. n_mac n = mac) (\<lambda>n. n\<lparr>n_last_seen := stamp_of t\<rparr>));
                    a2 = (if note \<noteq> [] then upd_session a1 (\<lambda>n. n_mac n = mac) (\<lambda>n. n\<lparr>n_note := note\<rparr>) else a1)
                in raiseStage a2 t mac stage))"

definition setClient :: "app \<Rightarrow> string \<Rightarrow> string \<Rightarrow> app" where
  "setClient a mac kind =
     (if mac = [] \<or> kind = [] then a
      else if kind = ''netboot'' then upd_session a (\<lambda>n. n_mac n = mac) (\<lambda>n. n\<lparr>n_client := kind\<rparr>)
      else upd_session a (\<lambda>n. n_mac n = mac \<and> n_client n \<noteq> ''netboot'') (\<lambda>n. n\<lparr>n_client := kind\<rparr>))"

definition normMAC :: "string \<Rightarrow> string" where "normMAC s = lower s"

definition serial_of_mac :: "app \<Rightarrow> string \<Rightarrow> string" where
  "serial_of_mac a mac =
     (case get_netboot (a_netboot a) mac of
        Some n \<Rightarrow> if n_serial n \<noteq> [] then n_serial n
                  else (case find (\<lambda>b. lower (b_mac b) = mac) (a_blades a) of None \<Rightarrow> [] | Some b \<Rightarrow> b_serial b)
      | None \<Rightarrow> (case find (\<lambda>b. lower (b_mac b) = mac) (a_blades a) of None \<Rightarrow> [] | Some b \<Rightarrow> b_serial b))"

definition chooseImage :: "app \<Rightarrow> instant \<Rightarrow> string \<Rightarrow> string \<Rightarrow> app" where
  "chooseImage a t mac0 im =
     (let mac = normMAC mac0;
          a1 = upd_session a (\<lambda>n. n_mac n = mac) (\<lambda>n. n\<lparr>n_image := im\<rparr>);
          serial = serial_of_mac a1 mac;
          a2 = (if serial \<noteq> []
                then sync (a1\<lparr>a_blades := upd_where (\<lambda>b. b_serial b = serial)
                       (\<lambda>b. b\<lparr>b_image := im, b_install_state := InstallPending\<rparr>) (a_blades a1)\<rparr>) t
                else a1)
      in logEvent a2 t serial ''info'' (''image chosen for netboot: '' @ im @ '' ('' @ mac @ '')''))"

definition linkNetboot :: "app \<Rightarrow> instant \<Rightarrow> string \<Rightarrow> string \<Rightarrow> app \<times> string" where
  "linkNetboot a t serial mac0 =
     (let mac = normMAC mac0
      in if mac = [] then (a, [])
         else (let a1 = raiseStage (upd_session a (\<lambda>n. n_mac n = mac)
                           (\<lambda>n. n\<lparr>n_serial := serial, n_last_seen := stamp_of t\<rparr>)) t mac stageInstaller
               in (a1, case get_netboot (a_netboot a1) mac of None \<Rightarrow> [] | Some n \<Rightarrow> n_image n)))"

definition resetStage :: "app \<Rightarrow> instant \<Rightarrow> string \<Rightarrow> string \<Rightarrow> string \<Rightarrow> app" where
  "resetStage a t serial stage note =
     (if serial = [] then a
      else upd_session a (\<lambda>n. n_serial n = serial)
             (\<lambda>n. n\<lparr>n_stage := stage, n_note := note, n_last_seen := stamp_of t\<rparr>))"

definition netbootStage :: "app \<Rightarrow> instant \<Rightarrow> string \<Rightarrow> string \<Rightarrow> string \<Rightarrow> app" where
  "netbootStage a t serial stage note =
     (if serial = [] then a
      else case latest_by n_last_seen (filter (\<lambda>n. n_serial n = serial) (a_netboot a)) of
             None \<Rightarrow> a
           | Some s \<Rightarrow>
               raiseStage (upd_session a (\<lambda>n. n_mac n = n_mac s)
                  (\<lambda>n. n\<lparr>n_last_seen := stamp_of t, n_note := note\<rparr>)) t (n_mac s) stage)"

section \<open>Lines of dnsmasq's log\<close>

text \<open>What the vendor-class line of a transaction said, remembered briefly.\<close>

type_synonym xids = "(string \<times> string \<times> instant) list"

definition rememberXID :: "xids \<Rightarrow> instant \<Rightarrow> string \<Rightarrow> string \<Rightarrow> xids" where
  "rememberXID m t xid vendor =
     (let m1 = AList.update xid (vendor, t) m
      in if length m1 > 512
         then filter (\<lambda>(k, c, w). \<not> int t - int w > int (minutes 2)) m1 else m1)"

definition classForXID :: "xids \<Rightarrow> instant \<Rightarrow> string \<Rightarrow> string" where
  "classForXID m t xid =
     (case map_of m xid of
        None \<Rightarrow> []
      | Some (c, w) \<Rightarrow> if int t - int w > int (minutes 2) then [] else c)"

definition clientKind :: "string \<Rightarrow> string" where
  "clientKind c = (if str_contains c ''PXEClient'' then ''netboot'' else if c \<noteq> [] then ''os'' else [])"

text \<open>The submatches of the patterns \<^verbatim>\<open>reVendor\<close>, \<^verbatim>\<open>reXID\<close>, \<^verbatim>\<open>reDHCPAck\<close>, \<^verbatim>\<open>reDHCPDiscover\<close>,
  \<^verbatim>\<open>reTFTPSent\<close> and \<^verbatim>\<open>reTFTPFail\<close> on one line.\<close>

record logLine =
  l_vendor :: "(string \<times> string) option"
  l_xid :: "string option"
  l_ack :: "(string \<times> string) option"
  l_discover :: "string option"
  l_sent :: "(string \<times> string) option"
  l_fail :: "(string \<times> string) option"

definition handleLogLine :: "app \<times> xids \<Rightarrow> instant \<Rightarrow> logLine \<Rightarrow> app \<times> xids" where
  "handleLogLine st t line =
     (case st of (a, m) \<Rightarrow>
        (case l_vendor line of
           Some (xid, c) \<Rightarrow> (a, rememberXID m t xid (trim_space c))
         | None \<Rightarrow>
             (let kind = (case l_xid line of None \<Rightarrow> []
                    | Some xid \<Rightarrow> (let k = clientKind (classForXID m t xid) in if k = [] then ''os'' else k))
              in case l_ack line of
                   Some (ip, mac) \<Rightarrow>
                     (setClient (touchNetboot a t (normMAC mac) ip stageDHCP []) (normMAC mac) kind, m)
                 | None \<Rightarrow>
                     (case l_discover line of
                        Some mac \<Rightarrow>
                          (setClient (touchNetboot a t (normMAC mac) [] stageDHCP []) (normMAC mac) kind, m)
                      | None \<Rightarrow>
                          (case l_sent line of
                             Some (file, ip) \<Rightarrow>
                               (touchNetbootByIP a t ip (if has_suffix file ''boot.img'' then stageRamdisk else stageTFTP) file [], m)
                           | None \<Rightarrow>
                               (case l_fail line of
                                  Some (file, ip) \<Rightarrow>
                                    (touchNetbootByIP a t ip [] [] (''TFTP transfer aborted: '' @ shortFile file), m)
                                | None \<Rightarrow> (a, m)))))))"

section \<open>Queries\<close>

record session_view = netboot +
  x_known :: bool
  x_hostname :: string
  x_rack_name :: string
  x_slot :: int
  x_waiting :: bool

text \<open>The blade a session belongs to: the last one listed with the serial, otherwise the last
  one listed with the MAC, as the two Go maps are filled.\<close>

definition session_blade :: "app \<Rightarrow> netboot \<Rightarrow> bview option" where
  "session_blade a n =
     (case find (\<lambda>b. b_serial b = n_serial n) (rev (listBlades a)) of
        Some b \<Rightarrow> Some b
      | None \<Rightarrow> find (\<lambda>b. b_mac b \<noteq> [] \<and> lower (b_mac b) = n_mac n) (rev (listBlades a)))"

definition waiting :: "string \<Rightarrow> string \<Rightarrow> bool" where
  "waiting im stage \<longleftrightarrow> im = [] \<and> stageRank stage \<ge> stageRank stageRamdisk \<and> stageRank stage < stageRank stageWriting"

definition enrich :: "app \<Rightarrow> netboot \<Rightarrow> session_view" where
  "enrich a n =
     (case session_blade a n of
        None \<Rightarrow> netboot.extend n (session_view.fields False [] [] 0 (waiting (n_image n) (n_stage n)))
      | Some b \<Rightarrow>
          (let im = (if n_image n = [] then b_image b else n_image n)
           in netboot.extend (n\<lparr>n_image := im\<rparr>)
                (session_view.fields True (b_hostname b) (v_rack_name b)
                   (case b_slot b of None \<Rightarrow> 0 | Some s \<Rightarrow> s) (waiting im (n_stage n)))))"

definition listNetboot :: "app \<Rightarrow> instant \<Rightarrow> session_view list" where
  "listNetboot a t =
     map (enrich a) (rev (sort_key n_last_seen
       (filter (\<lambda>n. case n_last_seen n of None \<Rightarrow> False | Some s \<Rightarrow> cutoff t (int (hours 1)) \<le> int s) (a_netboot a))))"

definition siteLastSaw :: "app \<Rightarrow> string \<Rightarrow> int \<times> string" where
  "siteLastSaw a serial =
     (case latest_by n_last_seen (filter (\<lambda>n. n_serial n = serial \<and> n_site_id n \<noteq> 0) (a_netboot a)) of
        None \<Rightarrow> (0, [])
      | Some n \<Rightarrow> (n_site_id n, case getSite a (n_site_id n) of None \<Rightarrow> [] | Some st \<Rightarrow> s_name st))"

definition addressOnTheWire :: "app \<Rightarrow> string \<Rightarrow> string" where
  "addressOnTheWire a serial =
     (case latest_by n_last_seen (filter (\<lambda>n. n_serial n = serial \<and> n_ip n \<noteq> []) (a_netboot a)) of
        None \<Rightarrow> [] | Some n \<Rightarrow> n_ip n)"

definition stageOnTheWire :: "app \<Rightarrow> instant \<Rightarrow> string \<Rightarrow> string \<times> bool" where
  "stageOnTheWire a t serial =
     (case latest_by n_last_seen (filter (\<lambda>n. n_serial n = serial) (a_netboot a)) of
        None \<Rightarrow> ([], False)
      | Some n \<Rightarrow> (n_stage n, case n_last_seen n of None \<Rightarrow> False | Some s \<Rightarrow> since t s < int (minutes 10)))"

section \<open>Sessions only move forward\<close>

text \<open>What every observation keeps of a session: it stays, it does not fall back, the sign of a
  netboot stays, and so does the moment it was first seen.\<close>

definition later :: "netboot \<Rightarrow> netboot \<Rightarrow> bool" where
  "later n n' \<longleftrightarrow> stageRank (n_stage n) \<le> stageRank (n_stage n')
     \<and> (n_client n = ''netboot'' \<longrightarrow> n_client n' = ''netboot'') \<and> n_first_seen n' = n_first_seen n"

definition forward :: "app \<Rightarrow> app \<Rightarrow> bool" where
  "forward a a' \<longleftrightarrow> (\<forall>mac n. get_netboot (a_netboot a) mac = Some n \<longrightarrow>
     (\<exists>n'. get_netboot (a_netboot a') mac = Some n' \<and> later n n'))"

lemma later_refl [simp]: "later n n"
  by (simp add: later_def)

lemma later_trans: "later n n' \<Longrightarrow> later n' n'' \<Longrightarrow> later n n''"
  by (auto simp: later_def)

lemma forward_refl [simp]: "forward a a"
  by (auto simp: forward_def)

lemma forward_trans: "forward a a' \<Longrightarrow> forward a' a'' \<Longrightarrow> forward a a''"
  unfolding forward_def by (meson later_trans)

lemma forward_same: "a_netboot a' = a_netboot a \<Longrightarrow> forward a a'"
  by (auto simp: forward_def)

locale observations =
  fixes run :: "'op \<Rightarrow> app \<Rightarrow> app"
  assumes forward_run: "forward a (run x a)"
begin

lemma forward_fold: "forward a (fold run xs a)"
  by (induction xs arbitrary: a) (auto intro: forward_trans [OF forward_run])

end

lemma forward_upd:
  assumes "\<And>n. n_mac (f n) = n_mac n" and "\<And>n. P n \<Longrightarrow> later n (f n)"
  shows "forward a (upd_session a P f)"
proof -
  have "get_netboot (a_netboot (upd_session a P f)) mac =
      map_option (\<lambda>n. if P n then f n else n) (get_netboot (a_netboot a) mac)" for mac
    using assms(1) by (simp add: upd_session_def sessions.get_upd_where)
  then show ?thesis using assms(2) by (auto simp: forward_def)
qed

lemma forward_log: "forward a (logEvent a' t s l m) = forward a a'"
  by (simp add: forward_def)

lemma forward_sync: "forward a (sync a' t) = forward a a'"
  by (simp add: forward_def keep)

lemma forward_raise: "forward a (raiseStage a t mac stage)"
proof (cases "get_netboot (a_netboot a) mac")
  case (Some cur)
  have "get_netboot (a_netboot (upd_session a (\<lambda>n. n_mac n = mac) (\<lambda>n. n\<lparr>n_stage := stage\<rparr>))) k =
      (if k = mac then Some (cur\<lparr>n_stage := stage\<rparr>) else get_netboot (a_netboot a) k)" for k
    using Some by (simp add: upd_session_def sessions.get_upd)
  then have "\<not> stageRank stage \<le> stageRank (n_stage cur) \<Longrightarrow>
      forward a (upd_session a (\<lambda>n. n_mac n = mac) (\<lambda>n. n\<lparr>n_stage := stage\<rparr>))"
    using Some by (auto simp: forward_def later_def)
  with Some show ?thesis by (auto simp: raiseStage_def forward_log Let_def)
qed (simp add: raiseStage_def)

lemma forward_touch: "forward a (touchNetboot a t mac ip stage note)"
proof -
  have "forward a (a\<lparr>a_netboot := upsert n_mac (carry_forward t ip note) (fresh_session t mac ip stage note) (a_netboot a)\<rparr>)"
    by (auto simp: forward_def sessions.get_upsert carry_forward_def later_def)
  then show ?thesis by (auto simp: touchNetboot_def intro: forward_trans forward_raise)
qed

lemma forward_touchIP: "forward a (touchNetbootByIP a t ip stage file note)"
  by (auto simp: touchNetbootByIP_def Let_def later_def split: option.split
      intro!: forward_trans [OF _ forward_raise] forward_upd forward_trans [OF forward_upd forward_upd])

lemma forward_setClient: "forward a (setClient a mac kind)"
  by (auto simp: setClient_def later_def intro!: forward_upd)

lemma forward_choose: "forward a (chooseImage a t mac im)"
proof -
  have "forward a (upd_session a (\<lambda>n. n_mac n = normMAC mac) (\<lambda>n. n\<lparr>n_image := im\<rparr>))"
    by (rule forward_upd) (simp_all add: later_def)
  then show ?thesis
    by (auto simp: chooseImage_def Let_def forward_log forward_sync elim!: forward_trans intro: forward_same)
qed

lemma forward_link: "forward a (fst (linkNetboot a t serial mac))"
  by (auto simp: linkNetboot_def Let_def later_def intro!: forward_trans [OF _ forward_raise] forward_upd)

lemma forward_stage: "forward a (netbootStage a t serial stage note)"
  by (auto simp: netbootStage_def later_def split: option.split
      intro!: forward_trans [OF _ forward_raise] forward_upd)

text \<open>Everything that observes a boot: lines of the log, reports of a site, the installer
  checking in and reporting, an operator's choice.\<close>

datatype observation =
    ObsLine instant logLine xids
  | ObsSite instant string string string string
  | ObsLink instant string string
  | ObsStage instant string string string
  | ObsChoose instant string string

fun observe :: "observation \<Rightarrow> app \<Rightarrow> app" where
  "observe (ObsLine t line m) a = fst (handleLogLine (a, m) t line)"
| "observe (ObsSite t mac ip stage note) a = touchNetboot a t mac ip stage note"
| "observe (ObsLink t serial mac) a = fst (linkNetboot a t serial mac)"
| "observe (ObsStage t serial stage note) a = netbootStage a t serial stage note"
| "observe (ObsChoose t mac im) a = chooseImage a t mac im"

lemma forward_line: "forward a (fst (handleLogLine (a, m) t line))"
  by (auto simp: handleLogLine_def Let_def forward_touchIP split: option.split
      intro!: forward_trans [OF forward_touch forward_setClient])

interpretation wire: observations observe
  by unfold_locales (case_tac x; simp add: forward_line forward_touch forward_link forward_stage forward_choose)

text \<open>Whatever observations arrive and in whichever order, a netboot session that exists keeps
  existing, its stage never moves back, a machine once seen booting from the network stays
  marked so, and the moment it was first seen stays.\<close>

theorem session_never_falls_back:
  assumes "get_netboot (a_netboot a) mac = Some n"
  shows "\<exists>n'. get_netboot (a_netboot (fold observe xs a)) mac = Some n'
     \<and> stageRank (n_stage n) \<le> stageRank (n_stage n')
     \<and> (n_client n = ''netboot'' \<longrightarrow> n_client n' = ''netboot'') \<and> n_first_seen n' = n_first_seen n"
  using wire.forward_fold [of a xs] assms by (auto simp: forward_def later_def)

theorem session_never_falls_back_witness:
  "\<exists>n'. get_netboot (a_netboot (fold observe
       [ObsSite 5 ''aa'' ''10.0.0.7'' ''dhcp'' [], ObsStage 6 ''c0ffee01'' ''error'' ''failed'']
       (demo\<lparr>a_netboot := [fresh_session 1 ''aa'' [] ''writing'' []]\<rparr>))) ''aa'' = Some n'
     \<and> stageRank ''writing'' \<le> stageRank (n_stage n')"
proof -
  let ?a = "demo\<lparr>a_netboot := [fresh_session 1 ''aa'' [] ''writing'' []]\<rparr>"
  have "get_netboot (a_netboot ?a) ''aa'' = Some (fresh_session 1 ''aa'' [] ''writing'' [])"
    by (simp add: get_netboot_def fresh_session_def)
  from session_never_falls_back [OF this,
      of "[ObsSite 5 ''aa'' ''10.0.0.7'' ''dhcp'' [], ObsStage 6 ''c0ffee01'' ''error'' ''failed'']"]
  show ?thesis by (auto simp: fresh_session_def)
qed

section \<open>The choice of an image reaches the installer\<close>

text \<open>The image chosen for a session is the one the installer is handed when it checks in with
  that MAC, in any spelling; and when the machine is known, its blade row carries the image
  and waits for installation.\<close>

theorem chosen_image_is_collected:
  assumes "get_netboot (a_netboot a) m = Some n" and "m \<noteq> []" and "normMAC mac = m" and "normMAC mac' = m"
  shows "snd (linkNetboot (chooseImage a t mac im) t' serial mac') = im
     \<and> (\<forall>b. serial_of_mac a m \<noteq> [] \<longrightarrow> get_row (a_blades a) (serial_of_mac a m) = Some b \<longrightarrow>
          get_row (a_blades (chooseImage a t mac im)) (serial_of_mac a m)
            = Some (b\<lparr>b_image := im, b_install_state := InstallPending\<rparr>))"
proof -
  let ?a1 = "upd_session a (\<lambda>n. n_mac n = m) (\<lambda>n. n\<lparr>n_image := im\<rparr>)"
  have "get_netboot (a_netboot (chooseImage a t mac im)) m = Some (n\<lparr>n_image := im\<rparr>)"
    using assms(1,3) by (simp add: chooseImage_def Let_def keep upd_session_def sessions.get_upd)
  then have link: "snd (linkNetboot (chooseImage a t mac im) t' serial mac') = im"
    using assms(2,4)
    by (auto simp: linkNetboot_def Let_def raiseStage_def upd_session_def sessions.get_upd split: option.split)
  have ser: "serial_of_mac ?a1 m = serial_of_mac a m"
    using assms(1) by (simp add: serial_of_mac_def upd_session_def sessions.get_upd)
  then have "get_row (a_blades (chooseImage a t mac im)) (serial_of_mac a m)
      = Some (b\<lparr>b_image := im, b_install_state := InstallPending\<rparr>)"
    if "serial_of_mac a m \<noteq> []" and "get_row (a_blades a) (serial_of_mac a m) = Some b" for b
    using that assms(3) by (simp add: chooseImage_def Let_def keep) (simp add: upd_session_def blades.get_upd)
  with link show ?thesis by blast
qed

theorem chosen_image_is_collected_witness:
  "snd (linkNetboot (chooseImage (demo\<lparr>a_netboot := [fresh_session 1 ''aa:bb'' [] ''dhcp'' []]\<rparr>) 2 ''AA:bb'' ''dietpi'')
      3 ''c0ffee01'' ''aa:BB'') = ''dietpi''"
proof -
  let ?a = "demo\<lparr>a_netboot := [fresh_session 1 ''aa:bb'' [] ''dhcp'' []]\<rparr>"
  have g: "get_netboot (a_netboot ?a) ''aa:bb'' = Some (fresh_session 1 ''aa:bb'' [] ''dhcp'' [])"
    by (simp add: get_netboot_def fresh_session_def)
  have "normMAC ''AA:bb'' = ''aa:bb''" "normMAC ''aa:BB'' = ''aa:bb''"
    by (simp_all add: normMAC_def lower_def to_lower_def str_simps char_of_def bit_0)
  from chosen_image_is_collected [OF g _ this, of 2 "''dietpi''" 3 "''c0ffee01''"] show ?thesis by blast
qed

text \<open>A machine is shown as waiting for a choice exactly when its mini system is up or about to
  be, nothing is being written yet, and neither its session nor the blade it belongs to has
  an image.\<close>

theorem listNetboot_waiting:
  assumes "x \<in> set (listNetboot a t)"
  shows "\<exists>n\<in>set (a_netboot a). n_mac x = n_mac n \<and> n_stage x = n_stage n
     \<and> x_known x = (session_blade a n \<noteq> None)
     \<and> x_waiting x = (n_stage n \<in> {stageRamdisk, stageInstaller} \<and> n_image n = []
          \<and> (\<forall>b. session_blade a n = Some b \<longrightarrow> b_image b = []))"
proof -
  from assms obtain n where n: "n \<in> set (a_netboot a)" "x = enrich a n"
    by (auto simp: listNetboot_def)
  have rank: "stageRank s \<ge> stageRank stageRamdisk \<and> stageRank s < stageRank stageWriting
      \<longleftrightarrow> s \<in> {stageRamdisk, stageInstaller}" for s
    by (auto simp: stageRank_def stage_defs split: if_splits)
  show ?thesis
    using n rank by (intro bexI [of _ n])
      (auto simp: enrich_def waiting_def netboot.extend_def session_view.fields_def Let_def split: option.split)
qed

theorem listNetboot_waiting_witness:
  "\<exists>x\<in>set (listNetboot (demo\<lparr>a_netboot := [fresh_session 1 ''aa:bb'' [] ''installer'' []]\<rparr>) 2). x_waiting x"
proof -
  let ?n = "fresh_session 1 ''aa:bb'' [] ''installer'' []"
  let ?a = "demo\<lparr>a_netboot := [?n]\<rparr>"
  have b: "session_blade ?a ?n = None"
    by (simp add: session_blade_def listBlades_def fresh_session_def demo_def demo_blade_def lower_def
        to_lower_def str_simps)
  have mem: "enrich ?a ?n \<in> set (listNetboot ?a 2)"
    by (simp add: listNetboot_def fresh_session_def cutoff_def clock_simps)
  from listNetboot_waiting [OF mem] b have "x_waiting (enrich ?a ?n)"
    by (simp add: fresh_session_def stage_defs)
  with mem show ?thesis by blast
qed

end
