(* ===== verification/Config.thy ===== *)
theory Config
  imports Netboot
begin

text \<open>
  Who may call (\<^verbatim>\<open>requireAdmin\<close>, \<^verbatim>\<open>requireBlade\<close>, \<^verbatim>\<open>requireSite\<close>) and what a blade is told: the
  configuration in its scopes, merged from the general to the particular, and the handlers
  that change a scope (\<^verbatim>\<open>src/server/api.go\<close>); the catalogue entry an upload writes. The
  theorems: what the merge gives under each key, that values derived from the position
  always win, what a patch keeps, and what an upload of an image keeps.
\<close>

section \<open>Credentials\<close>

definition bearer :: "string \<Rightarrow> string" where
  "bearer h = (if has_prefix h ''Bearer '' then trim_space (drop 7 h) else [])"

definition requireAdmin :: "string \<Rightarrow> string \<Rightarrow> bool" where
  "requireAdmin adminToken h \<longleftrightarrow> adminToken = [] \<or> bearer h = adminToken"

definition requireBlade :: "app \<Rightarrow> string \<Rightarrow> string \<Rightarrow> bool" where
  "requireBlade a h serial =
     (case get_row (a_blades a) serial of
        None \<Rightarrow> False
      | Some b \<Rightarrow> b_token b \<noteq> [] \<and> bearer h = b_token b)"

definition requireSite :: "app \<Rightarrow> string \<Rightarrow> int \<Rightarrow> bool" where
  "requireSite a h sid =
     (case getSite a sid of
        None \<Rightarrow> False
      | Some st \<Rightarrow> s_token st \<noteq> [] \<and> trim_prefix h ''Bearer '' = s_token st)"

text \<open>What every token check promises: a party without a token is never admitted, a request
  without a credential is never admitted, and one credential speaks for one token.\<close>

locale credential =
  fixes admits :: "app \<Rightarrow> string \<Rightarrow> 'k \<Rightarrow> bool"
    and secret :: "app \<Rightarrow> 'k \<Rightarrow> string option"
    and given :: "string \<Rightarrow> string"
  assumes admits_iff: "admits a h k \<longleftrightarrow> secret a k = Some (given h) \<and> given h \<noteq> []"
    and given_nothing: "given [] = []"
begin

lemma no_credential: "\<not> admits a [] k"
  by (simp add: admits_iff given_nothing)

lemma no_secret: "secret a k = None \<or> secret a k = Some [] \<Longrightarrow> \<not> admits a h k"
  by (auto simp: admits_iff)

lemma speaks_for_one: "admits a h k \<Longrightarrow> admits a h k' \<Longrightarrow> secret a k = secret a k'"
  by (simp add: admits_iff)

end

interpretation blade_token: credential requireBlade "\<lambda>a s. map_option b_token (get_row (a_blades a) s)" bearer
  by unfold_locales (auto simp: requireBlade_def bearer_def has_prefix_def split: option.splits)

interpretation site_token: credential requireSite "\<lambda>a k. map_option s_token (getSite a k)" "\<lambda>h. trim_prefix h ''Bearer ''"
  by unfold_locales (auto simp: requireSite_def trim_prefix_def has_prefix_def split: option.splits)

section \<open>Scopes\<close>

text \<open>A stored body is an object, or null when null was put; \<open>configFor\<close> answers \<open>None\<close> for the
  nil map a null body decodes to.\<close>

definition configFor :: "app \<Rightarrow> string \<Rightarrow> jmap option" where
  "configFor a scope =
     (case map_of (a_configs a) scope of
        None \<Rightarrow> Some []
      | Some JNull \<Rightarrow> None
      | Some j \<Rightarrow> Some (obj_of j))"

definition scope_map :: "app \<Rightarrow> string \<Rightarrow> jmap" where
  "scope_map a scope = (case configFor a scope of None \<Rightarrow> [] | Some m \<Rightarrow> m)"

definition scopes :: "('v) blade_scheme \<Rightarrow> string list" where
  "scopes b = [''global''] @ map (\<lambda>g. ''group:'' @ g) (sort (b_groups b)) @ [''blade:'' @ b_serial b]"

definition put_key :: "bool \<Rightarrow> string \<Rightarrow> string \<Rightarrow> jmap \<Rightarrow> jmap" where
  "put_key c k v m = (if c then AList.update k (JStr v) m else m)"

definition mergedConfig :: "app \<Rightarrow> bview \<Rightarrow> jmap" where
  "mergedConfig a b =
     (let out = fold (\<lambda>s m. mergeInto m (scope_map a s)) (scopes b) [];
          url = siteRelayURL a (v_site_id b)
      in put_key (v_ip b \<noteq> []) ''expected_ip'' (v_ip b)
           (put_key (b_hostname b \<noteq> []) ''hostname'' (b_hostname b)
             (put_key (url \<noteq> []) ''server_url'' url out)))"

definition installSetting :: "app \<Rightarrow> bview \<Rightarrow> string \<Rightarrow> json option" where
  "installSetting a b key =
     (case as_obj (map_of (mergedConfig a b) ''install'') of None \<Rightarrow> None | Some sec \<Rightarrow> map_of sec key)"

definition installOptions :: "app \<Rightarrow> bview \<Rightarrow> jmap" where
  "installOptions a b =
     map (\<lambda>k. (k, JBool True)) (filter (\<lambda>k. as_bool (installSetting a b k) = Some True)
        [''no_grow'', ''require_checksum'', ''no_root_keys'', ''no_cloud_init'', ''no_agent''])
     @ (case as_str (installSetting a b ''after'') of
          Some v \<Rightarrow> if v \<noteq> [] then [(''after'', JStr v)] else [] | None \<Rightarrow> [])
     @ (case num (installSetting a b ''reboot_delay'') of
          Some q \<Rightarrow> if q > 0 then [(''reboot_delay'', JNum (of_int (floor q)))] else [] | None \<Rightarrow> [])"

definition putConfig :: "app \<Rightarrow> string \<Rightarrow> json \<Rightarrow> app" where
  "putConfig a scope body = a\<lparr>a_configs := AList.update scope body (a_configs a)\<rparr>"

text \<open>The body arrives decoded into a map: an object, or null.\<close>

definition hConfigPut :: "app \<Rightarrow> instant \<Rightarrow> string \<Rightarrow> json \<Rightarrow> app \<times> nat" where
  "hConfigPut a t scope body =
     (case body of
        JObj m \<Rightarrow> (logEvent (putConfig a scope body) t [] ''info'' (''configuration changed: '' @ scope), 200)
      | JNull \<Rightarrow> (logEvent (putConfig a scope body) t [] ''info'' (''configuration changed: '' @ scope), 200)
      | _ \<Rightarrow> (a, 400))"

definition hConfigPatch :: "app \<Rightarrow> instant \<Rightarrow> string \<Rightarrow> json \<Rightarrow> (app \<times> nat) outcome" where
  "hConfigPatch a t scope body =
     (case body of
        JObj ins \<Rightarrow>
          (case configFor a scope of
             Some cur \<Rightarrow>
               Value (logEvent (putConfig a scope (JObj (patch_config cur ins))) t [] ''info''
                        (''configuration changed: '' @ scope), 200)
           | None \<Rightarrow>
               if list_all (\<lambda>(k, v). v = JNull) ins
               then Value (logEvent (putConfig a scope JNull) t [] ''info'' (''configuration changed: '' @ scope), 200)
               else Panic)
      | JNull \<Rightarrow>
          Value (logEvent (putConfig a scope (case configFor a scope of None \<Rightarrow> JNull | Some cur \<Rightarrow> JObj cur)) t []
                   ''info'' (''configuration changed: '' @ scope), 200)
      | _ \<Rightarrow> Value (a, 400))"

section \<open>The catalogue\<close>

definition imageExists :: "app \<Rightarrow> string \<Rightarrow> bool" where
  "imageExists a k \<longleftrightarrow> count_where (\<lambda>i. i_id i = k) (a_images a) > 0"

definition said :: "string \<Rightarrow> string \<Rightarrow> string" where
  "said new old = (if new \<noteq> [] then new else old)"

definition said_int :: "int \<Rightarrow> int \<Rightarrow> int" where
  "said_int new old = (if new \<noteq> 0 then new else old)"

definition merge_image :: "image \<Rightarrow> image \<Rightarrow> image" where
  "merge_image i r = r\<lparr>i_url := said (i_url i) (i_url r), i_sha256 := said (i_sha256 i) (i_sha256 r),
     i_seed := said (i_seed i) (i_seed r), i_os_id := said (i_os_id i) (i_os_id r),
     i_notes := said (i_notes i) (i_notes r), i_local := said (i_local i) (i_local r),
     i_bytes := said_int (i_bytes i) (i_bytes r), i_kernel := said (i_kernel i) (i_kernel r),
     i_min_disk := said_int (i_min_disk i) (i_min_disk r), i_verified := (i_verified i \<or> i_verified r)\<rparr>"

text \<open>The columns an insert leaves to the schema's defaults.\<close>

definition insert_image :: "instant \<Rightarrow> image \<Rightarrow> image" where
  "insert_image t i = i\<lparr>i_created := stamp_of t, i_part_table := [], i_state := [], i_note := [], i_updated := None\<rparr>"

definition hImagesCreate :: "app \<Rightarrow> instant \<Rightarrow> image \<Rightarrow> app \<times> nat" where
  "hImagesCreate a t i0 =
     (if i_id i0 = [] then (a, 400)
      else (let i = (if i_seed i0 = [] \<and> \<not> imageExists a (i_id i0) then i0\<lparr>i_seed := ''generic''\<rparr> else i0)
            in (a\<lparr>a_images := upsert i_id (merge_image i) (insert_image t i) (a_images a)\<rparr>, 201)))"

section \<open>What the merge gives\<close>

definition maps_ok :: "app \<Rightarrow> bool" where
  "maps_ok a \<longleftrightarrow> (\<forall>s. distinct (map fst (scope_map a s)))"

definition derived_keys :: "string set" where
  "derived_keys = {''server_url'', ''hostname'', ''expected_ip''}"

text \<open>One key through a list of scopes: the later scope's value over the earlier one's.\<close>

definition layered :: "app \<Rightarrow> string list \<Rightarrow> string \<Rightarrow> json option" where
  "layered a ss k = fold (\<lambda>s acc. case map_of (scope_map a s) k of None \<Rightarrow> acc | Some v \<Rightarrow> Some (over acc v)) ss None"

lemma map_of_fold_merge:
  assumes "maps_ok a"
  shows "map_of (fold (\<lambda>s m. mergeInto m (scope_map a s)) ss m) k =
    fold (\<lambda>s acc. case map_of (scope_map a s) k of None \<Rightarrow> acc | Some v \<Rightarrow> Some (over acc v)) ss (map_of m k)"
  using assms by (induction ss arbitrary: m) (simp_all add: maps_ok_def map_of_mergeInto)

lemma map_of_put_key:
  "map_of (put_key c k v m) k' = (if c \<and> k' = k then Some (JStr v) else map_of m k')"
  by (simp add: put_key_def update_conv')

lemma map_of_mergedConfig:
  assumes "maps_ok a"
  shows "map_of (mergedConfig a b) k =
    (if k = ''expected_ip'' \<and> v_ip b \<noteq> [] then Some (JStr (v_ip b))
     else if k = ''hostname'' \<and> b_hostname b \<noteq> [] then Some (JStr (b_hostname b))
     else if k = ''server_url'' \<and> siteRelayURL a (v_site_id b) \<noteq> []
       then Some (JStr (siteRelayURL a (v_site_id b)))
     else layered a (scopes b) k)"
  using map_of_fold_merge [OF assms, of "scopes b" "[]" k]
  by (auto simp: mergedConfig_def Let_def map_of_put_key layered_def)

text \<open>C26. Under every key a blade is told the value of its most particular scope that says anything,
  laid over the more general ones section by section, global first, its groups in
  alphabetical order, the blade's own scope last; except that its name, its address and the
  place it reports to always follow from where it stands, whatever the scopes say.\<close>

theorem mergedConfig_spec:
  assumes "maps_ok a"
  shows "(v_ip b \<noteq> [] \<longrightarrow> map_of (mergedConfig a b) ''expected_ip'' = Some (JStr (v_ip b)))
    \<and> (b_hostname b \<noteq> [] \<longrightarrow> map_of (mergedConfig a b) ''hostname'' = Some (JStr (b_hostname b)))
    \<and> (siteRelayURL a (v_site_id b) \<noteq> [] \<longrightarrow>
         map_of (mergedConfig a b) ''server_url'' = Some (JStr (siteRelayURL a (v_site_id b))))
    \<and> (k \<notin> derived_keys \<longrightarrow> map_of (mergedConfig a b) k = layered a (scopes b) k)
    \<and> (k \<notin> derived_keys \<longrightarrow> (\<forall>v. map_of (scope_map a (''blade:'' @ b_serial b)) k = Some v \<longrightarrow>
         (\<forall>m. v \<noteq> JObj m) \<longrightarrow> map_of (mergedConfig a b) k = Some v))"
proof -
  have "layered a (scopes b) k = Some v"
    if "map_of (scope_map a (''blade:'' @ b_serial b)) k = Some v" and "\<forall>m. v \<noteq> JObj m" for v
    using that by (cases v) (simp_all add: layered_def scopes_def over_def)
  then show ?thesis by (auto simp: map_of_mergedConfig [OF assms] derived_keys_def)
qed

theorem mergedConfig_spec_witness:
  "map_of (mergedConfig (demo\<lparr>a_configs := [(''global'', JObj [(''a'', JNum 1), (''hostname'', JStr ''x'')]),
        (''blade:c0ffee01'', JObj [(''a'', JNum 2)])]\<rparr>) (view demo demo_blade)) ''a'' = Some (JNum 2)
   \<and> map_of (mergedConfig (demo\<lparr>a_configs := [(''global'', JObj [(''a'', JNum 1), (''hostname'', JStr ''x'')]),
        (''blade:c0ffee01'', JObj [(''a'', JNum 2)])]\<rparr>) (view demo demo_blade)) ''hostname'' = Some (JStr ''blade-r1s03'')"
proof -
  let ?a = "demo\<lparr>a_configs := [(''global'', JObj [(''a'', JNum 1), (''hostname'', JStr ''x'')]),
        (''blade:c0ffee01'', JObj [(''a'', JNum 2)])]\<rparr>"
  have "maps_ok ?a" by (simp add: maps_ok_def scope_map_def configFor_def)
  moreover have "b_serial demo_blade = ''c0ffee01''" "b_hostname demo_blade = ''blade-r1s03''"
    by (simp_all add: demo_blade_def)
  moreover have "map_of (scope_map ?a ''blade:c0ffee01'') ''a'' = Some (JNum 2)"
    by (simp add: scope_map_def configFor_def)
  ultimately show ?thesis
    using mergedConfig_spec [of ?a "view demo demo_blade" "''a''"] by (auto simp: derived_keys_def)
qed

text \<open>A patch of a scope changes exactly the keys it names: a null removes the key, a section
  over a section is patched key by key with the same rule, anything else replaces the value,
  and every other key and every other scope stays. It panics only on a scope that null was
  put into.\<close>

theorem hConfigPatch_spec:
  assumes "distinct (map fst ins)" and "configFor a scope = Some cur"
  shows "\<exists>a'. hConfigPatch a t scope (JObj ins) = Value (a', 200)
     \<and> map_of (scope_map a' scope) k = (case map_of ins k of None \<Rightarrow> map_of cur k | Some v \<Rightarrow> patched (map_of cur k) v)
     \<and> (\<forall>s. s \<noteq> scope \<longrightarrow> configFor a' s = configFor a s)"
  using assms
  by (auto simp: hConfigPatch_def scope_map_def configFor_def putConfig_def update_conv' map_of_patch_config)

theorem hConfigPatch_spec_witness:
  "\<exists>a'. hConfigPatch (demo\<lparr>a_configs := [(''global'', JObj [(''keys'', JStr ''k''), (''install'', JObj [])])]\<rparr>) 0 ''global''
        (JObj [(''install'', JObj [(''after'', JStr ''reboot'')])]) = Value (a', 200)
     \<and> map_of (scope_map a' ''global'') ''keys'' = Some (JStr ''k'')"
  using hConfigPatch_spec [of "[(''install'', JObj [(''after'', JStr ''reboot'')])]"
      "demo\<lparr>a_configs := [(''global'', JObj [(''keys'', JStr ''k''), (''install'', JObj [])])]\<rparr>" "''global''"
      "[(''keys'', JStr ''k''), (''install'', JObj [])]" 0 "''keys''"]
  by (auto simp: configFor_def)

text \<open>Once null has been put into a scope, a patch that sets anything there crashes instead of
  answering.\<close>

theorem null_scope_patch_panics:
  "hConfigPatch (fst (hConfigPut a t scope JNull)) t' scope (JObj [(k, JStr v)]) = Panic"
  by (simp add: hConfigPut_def hConfigPatch_def configFor_def putConfig_def update_conv')

text \<open>An upload of a catalogue entry overwrites only what it says something about: every field it
  leaves empty keeps what was stored, the mark of a verified image is never taken back, and
  no other entry changes.\<close>

theorem hImagesCreate_keeps:
  assumes "get_image (a_images a) (i_id i) = Some r" and "i_id i \<noteq> []"
  shows "get_image (a_images (fst (hImagesCreate a t i))) (i_id i) = Some (merge_image i r)
     \<and> (i_url i = [] \<longrightarrow> i_url (merge_image i r) = i_url r)
     \<and> (i_local i = [] \<longrightarrow> i_local (merge_image i r) = i_local r)
     \<and> (i_seed i = [] \<longrightarrow> i_seed (merge_image i r) = i_seed r)
     \<and> (i_verified r \<longrightarrow> i_verified (merge_image i r))
     \<and> (\<forall>k. k \<noteq> i_id i \<longrightarrow> get_image (a_images (fst (hImagesCreate a t i))) k = get_image (a_images a) k)"
proof -
  have "imageExists a (i_id i)"
    using images.get_SomeD [OF assms(1)] by (auto simp: imageExists_def count_where_def filter_empty_conv)
  then have "fst (hImagesCreate a t i) = a\<lparr>a_images := upsert i_id (merge_image i) (insert_image t i) (a_images a)\<rparr>"
    using assms(2) by (simp add: hImagesCreate_def)
  then show ?thesis using assms(1)
    by (simp add: images.get_upsert insert_image_def) (simp add: merge_image_def images.get_upsert insert_image_def said_def)
qed

theorem hImagesCreate_keeps_witness:
  "map_option i_local (get_image (a_images (fst (hImagesCreate demo 0 (demo_image\<lparr>i_local := [], i_kernel := ''v8''\<rparr>)))) ''dietpi'')
     = Some ''dietpi.img''"
proof -
  have "get_image (a_images demo) (i_id (demo_image\<lparr>i_local := [], i_kernel := ''v8''\<rparr>)) = Some demo_image"
    by (simp add: get_image_def demo_def demo_image_def)
  from hImagesCreate_keeps [OF this, of 0] show ?thesis by (simp add: demo_image_def)
qed

end
