(* ===== verification/Alerts.thy ===== *)
theory Alerts
  imports Config
begin

text \<open>
  The health watch (\<^verbatim>\<open>src/server/notify.go\<close>, and the alert rows of \<^verbatim>\<open>src/server/db.go\<close>): one pass a
  minute judges every blade, remembers what is bad and says so once it has been bad long
  enough. Delivering a mail is the outside world: the parameter \<open>mail serial level\<close> is the
  error the delivery ends with, \<open>None\<close> when it succeeds; the parameter \<open>render\<close> is the text of
  a list of reasons. The theorems: what a pass leaves in the alert table, when a mail may be
  sent, and where the record of what was said and the mails part ways.
\<close>

section \<open>Alert rows\<close>

definition openAlerts :: "app \<Rightarrow> alert list" where
  "openAlerts a = a_alerts a"

definition raiseAlert :: "app \<Rightarrow> instant \<Rightarrow> alert \<Rightarrow> app" where
  "raiseAlert a t al =
     (let notifiedAt = (if al_notified al \<noteq> [] then stamp_of t else None)
      in a\<lparr>a_alerts := upsert al_serial
            (\<lambda>r. r\<lparr>al_level := al_level al, al_reason := al_reason al, al_since := al_since al,
                  al_notified := al_notified al,
                  al_notified_at := (if al_notified al \<noteq> [] then notifiedAt else al_notified_at r)\<rparr>)
            (al\<lparr>al_notified_at := notifiedAt\<rparr>) (a_alerts a)\<rparr>)"

definition clearAlert :: "app \<Rightarrow> string \<Rightarrow> app" where
  "clearAlert a serial = a\<lparr>a_alerts := del_where (\<lambda>al. al_serial al = serial) (a_alerts a)\<rparr>"

section \<open>The watch\<close>

record mailConf =
  mc_enabled :: bool
  mc_host :: string
  mc_from :: string
  mc_to :: string
  mc_min :: string
  mc_hold :: int

definition mailConf :: "app \<Rightarrow> mailConf" where
  "mailConf a =
     (let hold = (case atoi (setting a ''notify_hold_min'' ''10'') of None \<Rightarrow> 0 | Some n \<Rightarrow> n)
      in \<lparr>mc_enabled = (setting a ''notify_enabled'' [] = ''1''), mc_host = setting a ''notify_host'' [],
          mc_from = setting a ''notify_from'' [], mc_to = setting a ''notify_to'' [],
          mc_min = setting a ''notify_min'' ''warn'', mc_hold = (if hold \<le> 0 then 10 else hold)\<rparr>)"

definition ready :: "mailConf \<Rightarrow> bool" where
  "ready m \<longleftrightarrow> mc_host m \<noteq> [] \<and> mc_from m \<noteq> [] \<and> mc_to m \<noteq> []"

definition levelName :: "healthLevel \<Rightarrow> string" where
  "levelName l = (case l of HWarn \<Rightarrow> ''warn'' | HCrit \<Rightarrow> ''crit'' | _ \<Rightarrow> ''ok'')"

definition worthSending :: "string \<Rightarrow> string \<Rightarrow> bool" where
  "worthSending level mn = (if mn = ''crit'' then level = ''crit'' else level = ''warn'' \<or> level = ''crit'')"

definition sev :: "string \<Rightarrow> nat" where
  "sev s = (if s = ''warn'' then 1 else if s = ''crit'' then 2 else 0)"

definition worse :: "string \<Rightarrow> string \<Rightarrow> bool" where
  "worse x y \<longleftrightarrow> sev x > sev y"

type_synonym mailer = "string \<Rightarrow> string \<Rightarrow> string option"
type_synonym mails = "(string \<times> string) list"

definition tries_mail :: "mailConf \<Rightarrow> string \<Rightarrow> bool" where
  "tries_mail conf level \<longleftrightarrow> mc_enabled conf \<and> ready conf \<and> (level = ''ok'' \<or> worthSending level (mc_min conf))"

definition sendAlert :: "mailConf \<Rightarrow> mailer \<Rightarrow> app \<Rightarrow> instant \<Rightarrow> bview \<Rightarrow> string \<Rightarrow> string \<Rightarrow> alert \<Rightarrow> app \<times> mails" where
  "sendAlert conf mail a t b level reason cur =
     (let a1 = (if level = ''ok''
                then logEvent a t (b_serial b) ''info'' (''recovered: '' @ b_hostname b @ '' is well again'')
                else logEvent a t (b_serial b) ''warn'' (''alert: '' @ b_hostname b @ '' '' @ emdash @ '' '' @ reason));
          sent = (if tries_mail conf level then [(b_serial b, level)] else []);
          kept = (if level = ''ok'' then a1
                  else raiseAlert a1 t (cur\<lparr>al_serial := b_serial b, al_level := level, al_reason := reason,
                                            al_notified := level\<rparr>))
      in case (if tries_mail conf level then mail (b_serial b) level else None) of
           Some err \<Rightarrow> (logEvent a1 t (b_serial b) ''warn'' (''notification not sent: '' @ err), [])
         | None \<Rightarrow> (kept, sent))"

definition watch_blade ::
    "mailConf \<Rightarrow> mailer \<Rightarrow> (reason list \<Rightarrow> string) \<Rightarrow> instant \<Rightarrow> alert option \<Rightarrow> bview \<Rightarrow> app \<Rightarrow> app \<times> mails" where
  "watch_blade conf mail render t cur b a =
     (let (level, reasons) = evalHealth a b; name = levelName level; secs = t div nsec
      in if level = HUnknown then (a, [])
         else if name = ''ok'' then
           (case cur of
              None \<Rightarrow> (a, [])
            | Some c \<Rightarrow>
                (let (a1, ms) = (if al_notified c \<noteq> [] then sendAlert conf mail a t b ''ok'' [] c else (a, []))
                 in (clearAlert a1 (b_serial b), ms)))
         else
           (let reason = render reasons
            in case cur of
                 None \<Rightarrow>
                   (raiseAlert a t \<lparr>al_serial = b_serial b, al_level = name, al_reason = reason,
                                    al_since = secs, al_notified = [], al_notified_at = None\<rparr>, [])
               | Some c \<Rightarrow>
                   if al_level c \<noteq> name then
                     (let c1 = c\<lparr>al_level := name, al_reason := reason, al_since := secs\<rparr>;
                          c2 = (if worse name (al_notified c1) then c1\<lparr>al_notified := []\<rparr> else c1)
                      in (raiseAlert a t c2, []))
                   else
                     (let c1 = c\<lparr>al_reason := reason\<rparr>
                      in if al_notified c1 \<noteq> name \<and> since t (al_since c1) \<ge> mc_hold conf * int (minutes 1)
                         then sendAlert conf mail a t b name reason c1
                         else (raiseAlert a t c1, []))))"

fun watch_loop ::
    "mailConf \<Rightarrow> mailer \<Rightarrow> (reason list \<Rightarrow> string) \<Rightarrow> instant \<Rightarrow> alert list \<Rightarrow> bview list \<Rightarrow> app \<Rightarrow> app \<times> mails \<times> alert list" where
  "watch_loop conf mail render t opn [] a = (a, [], opn)"
| "watch_loop conf mail render t opn (b # bs) a =
     (let (a1, ms) = watch_blade conf mail render t (get_alert opn (b_serial b)) b a;
          (a2, ms', opn') = watch_loop conf mail render t (del_where (\<lambda>al. al_serial al = b_serial b) opn) bs a1
      in (a2, ms @ ms', opn'))"

definition healthPass :: "mailConf \<Rightarrow> mailer \<Rightarrow> (reason list \<Rightarrow> string) \<Rightarrow> app \<Rightarrow> instant \<Rightarrow> app \<times> mails" where
  "healthPass conf mail render a t =
     (let (a1, ms, left) = watch_loop conf mail render t (openAlerts a) (listBlades a) a
      in (fold (\<lambda>al a. clearAlert a (al_serial al)) left a1, ms))"

section \<open>One blade of a pass\<close>

text \<open>What the watch does touches nothing the judgement reads.\<close>

definition same_plan :: "app \<Rightarrow> app \<Rightarrow> bool" where
  "same_plan a a' \<longleftrightarrow> a_sites a' = a_sites a \<and> a_policy a' = a_policy a \<and> a_blades a' = a_blades a"

lemma evalHealth_same: "same_plan a a' \<Longrightarrow> evalHealth a' = evalHealth a"
proof -
  assume s: "same_plan a a'"
  then have "sitePolicy a' = sitePolicy a"
    using getSite_cong [of a' a] by (intro ext) (simp add: same_plan_def sitePolicy_def globalPolicy_def Let_def)
  then show ?thesis by (intro ext) (simp add: evalHealth_def)
qed

lemma same_plan_simps [simp]:
  "same_plan a a" "same_plan a (logEvent a' t s l m) = same_plan a a'"
  "same_plan a (raiseAlert a' t al) = same_plan a a'" "same_plan a (clearAlert a' s) = same_plan a a'"
  by (simp_all add: same_plan_def raiseAlert_def clearAlert_def Let_def)

lemma sendAlert_same: "same_plan a (fst (sendAlert conf mail a' t b level reason cur)) = same_plan a a'"
  by (simp add: sendAlert_def Let_def split: option.split)

lemma watch_blade_same: "same_plan a (fst (watch_blade conf mail render t cur b a))"
  by (cases cur) (simp_all add: watch_blade_def Let_def case_prod_beta sendAlert_same)

lemma get_raiseAlert:
  "get_alert (a_alerts (raiseAlert a t al)) s =
     (if s = al_serial al
      then Some (al\<lparr>al_notified_at := (if al_notified al \<noteq> [] then stamp_of t
         else case get_alert (a_alerts a) s of None \<Rightarrow> None | Some r \<Rightarrow> al_notified_at r)\<rparr>)
      else get_alert (a_alerts a) s)"
  by (auto simp: raiseAlert_def Let_def alerts.get_upsert dest: alerts.get_SomeD split: option.split)

lemma get_clearAlert:
  "get_alert (a_alerts (clearAlert a k)) s = (if s = k then None else get_alert (a_alerts a) s)"
  by (simp add: clearAlert_def alerts.get_del)

lemma get_sendAlert:
  "s \<noteq> b_serial b \<Longrightarrow>
   get_alert (a_alerts (fst (sendAlert conf mail a t b level reason cur))) s = get_alert (a_alerts a) s"
  by (simp add: sendAlert_def Let_def get_raiseAlert split: option.split)

lemma watch_blade_frame:
  assumes "s \<noteq> b_serial b" and "\<And>c. cur = Some c \<Longrightarrow> al_serial c = b_serial b"
  shows "get_alert (a_alerts (fst (watch_blade conf mail render t cur b a))) s = get_alert (a_alerts a) s"
  using assms
  by (cases cur) (simp_all add: watch_blade_def Let_def case_prod_beta get_raiseAlert get_clearAlert get_sendAlert)

text \<open>When a mail about a blade is due: news of a level held long enough and not said yet, or
  the recovery from something that had been said.\<close>

definition due :: "mailConf \<Rightarrow> instant \<Rightarrow> healthLevel \<Rightarrow> alert \<Rightarrow> string \<Rightarrow> bool" where
  "due conf t level c l \<longleftrightarrow> level \<noteq> HUnknown \<and> l = levelName level
     \<and> (if l = ''ok'' then al_notified c \<noteq> []
        else al_level c = l \<and> al_notified c \<noteq> l \<and> since t (al_since c) \<ge> mc_hold conf * int (minutes 1))"

lemma sendAlert_mails:
  "(s, l) \<in> set (snd (sendAlert conf mail a t b level reason cur)) \<Longrightarrow>
   s = b_serial b \<and> l = level \<and> tries_mail conf l \<and> mail s l = None
   \<and> (l \<noteq> ''ok'' \<longrightarrow> (\<exists>c. get_alert (a_alerts (fst (sendAlert conf mail a t b level reason cur))) s = Some c
          \<and> al_notified c = l))"
  by (auto simp: sendAlert_def Let_def get_raiseAlert split: option.splits if_splits)

lemma watch_blade_mails:
  assumes "(s, l) \<in> set (snd (watch_blade conf mail render t cur b a))"
  shows "s = b_serial b \<and> tries_mail conf l \<and> mail s l = None
    \<and> (\<exists>c. cur = Some c \<and> due conf t (fst (evalHealth a b)) c l)
    \<and> (l \<noteq> ''ok'' \<longrightarrow> (\<exists>c. get_alert (a_alerts (fst (watch_blade conf mail render t cur b a))) s = Some c
          \<and> al_notified c = l))"
proof -
  obtain level reasons where v: "evalHealth a b = (level, reasons)" by force
  have ok: "levelName level = ''ok'' \<longleftrightarrow> level = HOK \<or> level = HUnknown"
    by (cases level) (simp_all add: levelName_def)
  show ?thesis
  proof (cases "level = HOK")
    case True
    with assms v ok show ?thesis
      by (auto simp: watch_blade_def Let_def due_def levelName_def case_prod_beta split: option.splits if_splits
          dest: sendAlert_mails)
  next
    case False
    with assms v ok show ?thesis
      by (auto simp: watch_blade_def Let_def due_def split: option.splits if_splits dest: sendAlert_mails)
  qed
qed

section \<open>The whole pass\<close>

lemma watch_loop_spec:
  assumes "watch_loop conf mail render t opn bs a = (a', ms, left)" and "distinct (map b_serial bs)"
    and "\<And>s. s \<in> b_serial ` set bs \<Longrightarrow> get_alert opn s = get_alert (a_alerts a0) s" and "same_plan a0 a"
  shows "((s, l) \<in> set ms \<longrightarrow>
        tries_mail conf l \<and> mail s l = None
        \<and> (\<exists>b\<in>set bs. b_serial b = s \<and> (\<exists>c. get_alert (a_alerts a0) s = Some c \<and> due conf t (fst (evalHealth a0 b)) c l))
        \<and> (l \<noteq> ''ok'' \<longrightarrow> (\<exists>c. get_alert (a_alerts a') s = Some c \<and> al_notified c = l)))
    \<and> (s \<notin> b_serial ` set bs \<longrightarrow> get_alert (a_alerts a') s = get_alert (a_alerts a) s)
    \<and> set left = {al \<in> set opn. al_serial al \<notin> b_serial ` set bs} \<and> same_plan a0 a'"
  using assms
proof (induction bs arbitrary: opn a a' ms left)
  case Nil
  then show ?case by simp
next
  case (Cons b bs)
  let ?cur = "get_alert opn (b_serial b)"
  obtain a1 ms1 where w: "watch_blade conf mail render t ?cur b a = (a1, ms1)" by force
  obtain ms2 where l: "watch_loop conf mail render t (del_where (\<lambda>al. al_serial al = b_serial b) opn) bs a1 = (a', ms2, left)"
    and ms: "ms = ms1 @ ms2"
    using Cons.prems(1) w by (auto simp: Let_def split: prod.splits)
  have plan1: "same_plan a0 a1"
    using watch_blade_same [of a conf mail render t ?cur b] Cons.prems(4) w by (simp add: same_plan_def)
  have ev: "evalHealth a = evalHealth a0" using Cons.prems(4) by (rule evalHealth_same)
  have d: "b_serial b \<notin> b_serial ` set bs" "distinct (map b_serial bs)" using Cons.prems(2) by auto
  have opn': "get_alert (del_where (\<lambda>al. al_serial al = b_serial b) opn) x = get_alert (a_alerts a0) x"
    if "x \<in> b_serial ` set bs" for x
  proof -
    have "x \<noteq> b_serial b" using that d(1) by blast
    with that Cons.prems(3) [of x] show ?thesis by (simp add: alerts.get_del)
  qed
  note ih = Cons.IH [OF l d(2) opn' plan1]
  have cur: "?cur = get_alert (a_alerts a0) (b_serial b)" using Cons.prems(3) by simp
  have frame: "x \<noteq> b_serial b \<Longrightarrow> get_alert (a_alerts a1) x = get_alert (a_alerts a) x" for x
    using watch_blade_frame [of x b ?cur conf mail render t a] w alerts.get_SomeD [of opn] by auto
  have left: "set left = {al \<in> set opn. al_serial al \<notin> b_serial ` set (b # bs)}"
    using ih by (auto simp: set_del_where)
  have here: "(s, l) \<in> set ms1 \<Longrightarrow> s = b_serial b \<and> tries_mail conf l \<and> mail s l = None
      \<and> (\<exists>c. get_alert (a_alerts a0) s = Some c \<and> due conf t (fst (evalHealth a0 b)) c l)
      \<and> (l \<noteq> ''ok'' \<longrightarrow> (\<exists>c. get_alert (a_alerts a1) s = Some c \<and> al_notified c = l))"
    using watch_blade_mails [of s l conf mail render t ?cur b a] w cur ev by auto
  have other: "x \<in> set bs \<Longrightarrow> b_serial x \<noteq> b_serial b" for x using d(1) by (metis imageI)
  show ?case using ih here frame left other by (auto simp: ms)
qed

lemma get_clear_all:
  "get_alert (a_alerts (fold (\<lambda>al a. clearAlert a (al_serial al)) left a)) s =
     (if s \<in> al_serial ` set left then None else get_alert (a_alerts a) s)"
  by (induction left arbitrary: a) (auto simp: get_clearAlert)

lemma healthPass_blades: "a_blades (fst (healthPass conf mail render a t)) = a_blades a"
proof -
  have loop: "same_plan a0 a \<Longrightarrow> same_plan a0 (fst (watch_loop conf mail render t opn bs a))" for a0 a opn bs
  proof (induction bs arbitrary: a opn)
    case (Cons b bs)
    then have "same_plan a0 (fst (watch_blade conf mail render t (get_alert opn (b_serial b)) b a))"
      using watch_blade_same [of a conf mail render t "get_alert opn (b_serial b)" b] by (simp add: same_plan_def)
    with Cons.IH show ?case by (simp add: case_prod_beta Let_def)
  qed simp
  have "a_blades (fold (\<lambda>al a. clearAlert a (al_serial al)) left a1) = a_blades a1" for a1 and left :: "alert list"
    by (induction left arbitrary: a1) (simp_all add: clearAlert_def)
  with loop [of a a "openAlerts a" "listBlades a"] show ?thesis
    by (simp add: healthPass_def case_prod_beta Let_def same_plan_def)
qed

lemma healthPass_mails:
  assumes "blades_ok (a_blades a)" and "(s, l) \<in> set (snd (healthPass conf mail render a t))"
  shows "tries_mail conf l \<and> mail s l = None
    \<and> (\<exists>b\<in>set (listBlades a). b_serial b = s
        \<and> (\<exists>c. get_alert (a_alerts a) s = Some c \<and> due conf t (fst (evalHealth a b)) c l))
    \<and> (l \<noteq> ''ok'' \<longrightarrow> (\<exists>c. get_alert (a_alerts (fst (healthPass conf mail render a t))) s = Some c \<and> al_notified c = l))"
proof -
  obtain a1 ms left where w: "watch_loop conf mail render t (openAlerts a) (listBlades a) a = (a1, ms, left)"
    by (metis prod_cases3)
  note spec = watch_loop_spec [OF w distinct_listBlades [OF assms(1)], of a s l]
  have "s \<notin> al_serial ` set left" if "s \<in> b_serial ` set (listBlades a)"
  proof
    have eq: "set left = {al \<in> set (openAlerts a). al_serial al \<notin> b_serial ` set (listBlades a)}"
      using spec by (simp add: openAlerts_def)
    assume "s \<in> al_serial ` set left"
    then obtain al where "s = al_serial al" "al \<in> set left" by blast
    with eq that show False by simp
  qed
  with assms(2) spec w show ?thesis
    by (auto simp: healthPass_def openAlerts_def get_clear_all)
qed

text \<open>C29. A mail about trouble goes out only for a blade that is in that trouble now, was already
  noted with the same level for at least the holding time, and about which that level had
  not been said; a mail about recovery only for a blade that is well again and about which
  something had been said.\<close>

theorem healthPass_mail_due:
  assumes "blades_ok (a_blades a)" and "(s, l) \<in> set (snd (healthPass conf mail render a t))"
  shows "\<exists>b c. b \<in> set (listBlades a) \<and> b_serial b = s \<and> get_alert (a_alerts a) s = Some c
     \<and> l = levelName (fst (evalHealth a b)) \<and> fst (evalHealth a b) \<noteq> HUnknown
     \<and> (l = ''ok'' \<longrightarrow> al_notified c \<noteq> [])
     \<and> (l \<noteq> ''ok'' \<longrightarrow> al_level c = l \<and> al_notified c \<noteq> l \<and> worthSending l (mc_min conf)
          \<and> mc_hold conf * int (minutes 1) \<le> since t (al_since c))"
  using healthPass_mails [OF assms] by (fastforce simp: due_def tries_mail_def)

text \<open>What has been mailed about a blade is not mailed again by the next pass, whenever that
  runs and whatever the blade has reported since.\<close>

theorem healthPass_says_it_once:
  assumes "blades_ok (a_blades a)" and "(s, l) \<in> set (snd (healthPass conf mail render a t))" and "l \<noteq> ''ok''"
    and "a_alerts a2 = a_alerts (fst (healthPass conf mail render a t))" and "blades_ok (a_blades a2)"
  shows "(s, l) \<notin> set (snd (healthPass conf' mail' render' a2 t'))"
proof
  assume "(s, l) \<in> set (snd (healthPass conf' mail' render' a2 t'))"
  from healthPass_mails [OF assms(5) this] healthPass_mails [OF assms(1,2)] assms(3,4)
  show False by (auto simp: due_def)
qed

section \<open>A concrete pass\<close>

definition hot_blade :: "rat \<Rightarrow> blade" where
  "hot_blade q = demo_blade\<lparr>b_health := JObj [(''soc_temp_c'', JNum q)]\<rparr>"

definition hot :: "rat \<Rightarrow> alert list \<Rightarrow> app" where
  "hot q als = demo\<lparr>a_blades := [hot_blade q], a_alerts := als\<rparr>"

definition noted :: "string \<Rightarrow> string \<Rightarrow> alert" where
  "noted level told = \<lparr>al_serial = ''c0ffee01'', al_level = level, al_reason = [], al_since = 0,
     al_notified = told, al_notified_at = None\<rparr>"

definition post :: "string \<Rightarrow> mailConf" where
  "post mn = \<lparr>mc_enabled = True, mc_host = ''mx'', mc_from = ''a@b'', mc_to = ''c@d'', mc_min = mn, mc_hold = 10\<rparr>"

lemma hot_ok: "blades_ok (a_blades (hot q als))"
  by (simp add: hot_def hot_blade_def demo_blade_def blades_ok_def positions_def position_def List.map_filter_simps)

lemma hot_list: "listBlades (hot q als) = [view (hot q als) (hot_blade q)]"
  by (simp add: listBlades_def hot_def)

lemma hot_policy: "sitePolicy (hot q als) k = defaultPolicy"
  by (simp add: sitePolicy_def globalPolicy_def hot_def demo_def demo_site_def unmarshalPolicy_def
      policies.unset_over getSite_def get_site_def Let_def)

lemma hot_verdict:
  "evalHealth (hot q als) (view (hot q als) (hot_blade q)) =
     (if q > 80 then (HCrit, [RSoc q]) else if q > 70 then (HWarn, [RSoc q]) else (HOK, []))"
  by (simp add: evalHealth_def hot_policy)
     (simp add: evalHealthWith_def hot_blade_def demo_blade_def check_soc_def check_nvme_def check_disk_def
      check_power_def check_fan_def fan_stopped_def raise_def defaultPolicy_def Let_def)

lemma hot_serial: "b_serial (hot_blade q) = ''c0ffee01''"
  by (simp add: hot_blade_def demo_blade_def)

lemmas hot_simps = healthPass_def hot_list openAlerts_def watch_blade_def hot_verdict hot_serial levelName_def
  get_alert_def noted_def post_def tries_mail_def ready_def worthSending_def sendAlert_def Let_def since_def

lemma hot_mail:
  "snd (healthPass (post ''warn'') (\<lambda>_ _. None) (\<lambda>_. []) (hot 90 [noted ''crit'' []]) (minutes 11)) = [(''c0ffee01'', ''crit'')]"
proof -
  have "a_alerts (hot 90 [noted ''crit'' []]) = [noted ''crit'' []]" by (simp add: hot_def)
  then show ?thesis by (simp add: hot_simps clock_simps)
qed

theorem healthPass_mail_due_witness:
  "\<exists>b c. b \<in> set (listBlades (hot 90 [noted ''crit'' []])) \<and> b_serial b = ''c0ffee01''
     \<and> get_alert (a_alerts (hot 90 [noted ''crit'' []])) ''c0ffee01'' = Some c \<and> al_level c = ''crit'' \<and> al_notified c \<noteq> ''crit''"
proof -
  have "(''c0ffee01'', ''crit'') \<in> set (snd (healthPass (post ''warn'') (\<lambda>_ _. None) (\<lambda>_. [])
      (hot 90 [noted ''crit'' []]) (minutes 11)))" by (simp add: hot_mail)
  from healthPass_mail_due [OF hot_ok this] show ?thesis by auto
qed

theorem healthPass_says_it_once_witness:
  "(''c0ffee01'', ''crit'') \<notin> set (snd (healthPass (post ''warn'') (\<lambda>_ _. None) (\<lambda>_. [])
      (fst (healthPass (post ''warn'') (\<lambda>_ _. None) (\<lambda>_. []) (hot 90 [noted ''crit'' []]) (minutes 11))) (minutes 12)))"
proof -
  let ?p = "healthPass (post ''warn'') (\<lambda>_ _. None) (\<lambda>_. []) (hot 90 [noted ''crit'' []]) (minutes 11)"
  have mail: "(''c0ffee01'', ''crit'') \<in> set (snd ?p)" by (simp add: hot_mail)
  have "blades_ok (a_blades (fst ?p))" by (simp add: healthPass_blades hot_ok)
  with healthPass_says_it_once [OF hot_ok mail] show ?thesis by simp
qed

end
