(* ===== verification/Commands.thy ===== *)
theory Commands
  imports Alerts
begin

text \<open>
  Commands to a blade: queued by the server (\<^verbatim>\<open>queueCommand\<close>), handed out once
  (\<^verbatim>\<open>hBladeCommands\<close>, both \<^verbatim>\<open>src/server/api.go\<close>) and carried out by the agent
  (\<^verbatim>\<open>runCommands\<close> of \<^verbatim>\<open>src/agent/main.go\<close>, \<^verbatim>\<open>allows\<close> of \<^verbatim>\<open>src/agent/policy.go\<close>). The theorems: at most
  one pending command per kind, no command handed out twice or after its time, and the
  agent runs each kind once, what ends the session last.
\<close>

section \<open>The queue\<close>

definition taken_where :: "app \<Rightarrow> (command \<Rightarrow> bool) \<Rightarrow> taken \<Rightarrow> app" where
  "taken_where a P x = a\<lparr>a_commands := upd_where (\<lambda>c. P c \<and> c_taken c = NotTaken) (\<lambda>c. c\<lparr>c_taken := x\<rparr>) (a_commands a)\<rparr>"

definition insert_command :: "app \<Rightarrow> instant \<Rightarrow> string \<Rightarrow> string \<Rightarrow> app" where
  "insert_command a t serial kind =
     a\<lparr>a_commands := a_commands a @ [\<lparr>c_id = a_next_cmd a, c_serial = serial, c_kind = kind,
          c_created = stamp_of t, c_taken = NotTaken\<rparr>], a_next_cmd := a_next_cmd a + 1\<rparr>"

definition queueCommand :: "app \<Rightarrow> instant \<Rightarrow> string \<Rightarrow> string \<Rightarrow> app" where
  "queueCommand a t serial kind =
     (let a1 = taken_where a (\<lambda>c. c_serial c = serial \<and> c_kind c = kind) (TakenAt (t div nsec) '' (replaced)'')
      in logEvent (insert_command a1 t serial kind) t serial ''info'' (''command queued: '' @ kind))"

text \<open>\<^verbatim>\<open>time.Duration.String\<close> of a whole number of minutes.\<close>

definition show_minutes :: "int \<Rightarrow> string" where
  "show_minutes n =
     (if n = 0 then ''0s''
      else (if n < 0 then ''-'' else [])
        @ (if abs n < 60 then [] else show_int (abs n div 60) @ ''h'')
        @ show_int (abs n mod 60) @ ''m0s'')"

text \<open>Handing out: expired commands are cleared first, then everything pending is given away, in
  order, and marked. The answer is \<open>None\<close> when the token is not the blade's.\<close>

definition expired :: "instant \<Rightarrow> int \<Rightarrow> command \<Rightarrow> bool" where
  "expired t ttl c \<longleftrightarrow> stamp_before (c_created c) (cutoff t ttl)"

definition pending :: "app \<Rightarrow> string \<Rightarrow> command list" where
  "pending a serial = sort_key c_id (filter (\<lambda>c. c_serial c = serial \<and> c_taken c = NotTaken) (a_commands a))"

definition hBladeCommands :: "app \<Rightarrow> instant \<Rightarrow> string \<Rightarrow> string \<Rightarrow> app \<times> command list option" where
  "hBladeCommands a t header serial =
     (if \<not> requireBlade a header serial then (a, None)
      else
        (let ttl = commandTTL (globalPolicy a);
             old = (\<lambda>c. c_serial c = serial \<and> expired t ttl c);
             n = count_where (\<lambda>c. old c \<and> c_taken c = NotTaken) (a_commands a);
             a1 = taken_where a old (TakenAt (t div nsec) '' (abgelaufen)'');
             a2 = (if n > 0 then logEvent a1 t serial ''warn'' (show_nat n @ '' command(s) expired '' @ emdash @ '' older than '' @ show_minutes (p_command_ttl_min (globalPolicy a))) else a1);
             out = pending a2 serial;
             ids = map c_id out
         in (a2\<lparr>a_commands := upd_where (\<lambda>c. c_id c \<in> set ids) (\<lambda>c. c\<lparr>c_taken := TakenAt (t div nsec) []\<rparr>) (a_commands a2)\<rparr>,
             Some out)))"

section \<open>The agent\<close>

definition agentTTL :: nat where "agentTTL = minutes 15"

definition stale :: "instant \<Rightarrow> command \<Rightarrow> bool" where
  "stale t c = (case c_created c of None \<Rightarrow> False | Some s \<Rightarrow> since t s > int agentTTL)"

text \<open>\<^verbatim>\<open>newest\<close> and \<^verbatim>\<open>order\<close>: the kinds in order of first appearance, each with its last command.\<close>

fun newest :: "instant \<Rightarrow> command list \<Rightarrow> (string \<times> command) list \<Rightarrow> (string \<times> command) list" where
  "newest t [] m = m"
| "newest t (c # cs) m = newest t cs (if stale t c then m else AList.update (c_kind c) c m)"

definition rank :: "string \<Rightarrow> nat" where
  "rank kind =
     (if kind \<in> set [''identify'', ''identify_off'', ''stealth_on'', ''stealth_off''] then 0
      else if kind = ''reimage'' then 8 else if kind = ''reboot'' then 9
      else if kind = ''shutdown'' then 10 else 5)"

definition allows :: "string list \<Rightarrow> string \<Rightarrow> bool" where
  "allows allow kind \<longleftrightarrow> allow = [] \<or> kind \<in> set allow"

datatype deed = Identify bool | Stealth bool | RebootIn nat | HaltIn nat | Unknown string | Refused string

definition carry_out :: "string list \<Rightarrow> string \<Rightarrow> deed" where
  "carry_out allow kind =
     (if \<not> allows allow kind then Refused kind
      else if kind = ''identify'' then Identify True
      else if kind = ''identify_off'' then Identify False
      else if kind = ''stealth_on'' \<or> kind = ''stealth_off'' then Stealth (kind = ''stealth_on'')
      else if kind = ''reboot'' then RebootIn 5
      else if kind = ''shutdown'' then HaltIn 5
      else if kind = ''reimage'' then RebootIn 10
      else Unknown kind)"

definition run_order :: "instant \<Rightarrow> command list \<Rightarrow> string list" where
  "run_order t cmds = sort_key rank (map fst (newest t cmds []))"

definition runCommands :: "string list \<Rightarrow> instant \<Rightarrow> command list \<Rightarrow> deed list" where
  "runCommands allow t cmds = map (carry_out allow) (run_order t cmds)"

section \<open>What the queue promises\<close>

lemma requireBlade_frame:
  "a_blades a' = a_blades a \<Longrightarrow> requireBlade a' h s = requireBlade a h s"
  by (simp add: requireBlade_def)

text \<open>Command ids are handed out in order.\<close>

definition ids_ok :: "app \<Rightarrow> bool" where
  "ids_ok a \<longleftrightarrow> distinct (map c_id (a_commands a)) \<and> (\<forall>c\<in>set (a_commands a). c_id c < a_next_cmd a)"

definition pending_of :: "app \<Rightarrow> string \<Rightarrow> string \<Rightarrow> command list" where
  "pending_of a serial kind = filter (\<lambda>c. c_serial c = serial \<and> c_kind c = kind \<and> c_taken c = NotTaken) (a_commands a)"

lemma filter_upd_same:
  "(\<And>r. Q r \<Longrightarrow> \<not> P r \<and> \<not> P (f r)) \<Longrightarrow> filter P (upd_where Q f t) = filter P t"
  by (induction t) auto

lemma filter_upd_gone:
  "(\<And>r. P r \<Longrightarrow> Q r) \<Longrightarrow> (\<And>r. Q r \<Longrightarrow> \<not> P (f r)) \<Longrightarrow> filter P (upd_where Q f t) = []"
  by (induction t) auto

lemma ids_ok_taken: "ids_ok a \<Longrightarrow> ids_ok (taken_where a P x)"
  by (auto simp: ids_ok_def taken_where_def set_upd_where map_upd_where_same)

lemma ids_ok_insert: "ids_ok a \<Longrightarrow> ids_ok (insert_command a t serial kind)"
  by (fastforce simp: ids_ok_def insert_command_def)

lemma ids_ok_log [simp]: "ids_ok (logEvent a t s l m) = ids_ok a"
  by (simp add: ids_ok_def)

lemma ids_ok_queue: "ids_ok a \<Longrightarrow> ids_ok (queueCommand a t serial kind)"
  by (simp add: queueCommand_def Let_def ids_ok_insert ids_ok_taken)

text \<open>However often the same command is asked for, exactly one of its kind is pending for that
  blade afterwards, the newest; nothing pending for another blade or of another kind is
  touched.\<close>

theorem queueCommand_replaces:
  "length (pending_of (queueCommand a t serial kind) serial kind) = 1
   \<and> (\<forall>s k. (s, k) \<noteq> (serial, kind) \<longrightarrow> pending_of (queueCommand a t serial kind) s k = pending_of a s k)"
proof -
  let ?Q = "\<lambda>c. c_serial c = serial \<and> c_kind c = kind \<and> c_taken c = NotTaken"
  let ?f = "\<lambda>c :: command. c\<lparr>c_taken := TakenAt (t div nsec) '' (replaced)''\<rparr>"
  have gone: "filter (\<lambda>c. c_serial c = serial \<and> c_kind c = kind \<and> c_taken c = NotTaken) (upd_where ?Q ?f (a_commands a)) = []"
    by (rule filter_upd_gone) simp_all
  have other: "filter (\<lambda>c. c_serial c = s \<and> c_kind c = k \<and> c_taken c = NotTaken) (upd_where ?Q ?f (a_commands a))
      = filter (\<lambda>c. c_serial c = s \<and> c_kind c = k \<and> c_taken c = NotTaken) (a_commands a)"
    if "(s, k) \<noteq> (serial, kind)" for s k
    using that by (intro filter_upd_same) auto
  show ?thesis
  proof (intro conjI allI impI)
    show "length (pending_of (queueCommand a t serial kind) serial kind) = 1"
      by (simp add: pending_of_def queueCommand_def insert_command_def taken_where_def Let_def gone)
    fix s k assume "(s, k) \<noteq> (serial, kind)"
    then show "pending_of (queueCommand a t serial kind) s k = pending_of a s k"
      by (auto simp: pending_of_def queueCommand_def insert_command_def taken_where_def Let_def other)
  qed
qed

theorem queueCommand_replaces_witness:
  "(''c0ffee01'', ''reboot'') \<noteq> (''c0ffee01'', ''identify'')
   \<and> pending_of (queueCommand demo 0 ''c0ffee01'' ''identify'') ''c0ffee01'' ''reboot'' = pending_of demo ''c0ffee01'' ''reboot''"
  using queueCommand_replaces [of demo 0 "''c0ffee01''" "''identify''"] by simp

lemma set_pending: "set (pending a serial) = {c \<in> set (a_commands a). c_serial c = serial \<and> c_taken c = NotTaken}"
  by (auto simp: pending_def)

lemma pending_Nil: "pending a serial = [] \<longleftrightarrow> (\<forall>c\<in>set (a_commands a). c_serial c = serial \<longrightarrow> c_taken c \<noteq> NotTaken)"
proof -
  have "pending a serial = [] \<longleftrightarrow> set (pending a serial) = {}" by simp
  then show ?thesis by (auto simp: set_pending)
qed

lemma mem_taken:
  "c \<in> set (upd_where (\<lambda>c. P c \<and> c_taken c = NotTaken) (\<lambda>c. c\<lparr>c_taken := TakenAt n w\<rparr>) t) \<and> c_taken c = NotTaken
     \<longleftrightarrow> c \<in> set t \<and> c_taken c = NotTaken \<and> \<not> P c"
  by (induction t) auto

lemma pending_log [simp]: "pending (logEvent a t s l m) serial = pending a serial"
  by (simp add: pending_def)

lemma pending_taken:
  "set (pending (taken_where a (\<lambda>c. c_serial c = serial \<and> P c) (TakenAt n w)) serial)
     = {c \<in> set (pending a serial). \<not> P c}"
  using mem_taken [of _ "\<lambda>c. c_serial c = serial \<and> P c" n w "a_commands a"]
  by (simp add: set_pending taken_where_def set_eq_iff) blast

lemma hand_out:
  assumes "requireBlade a header serial"
  obtains a2 where "hBladeCommands a t header serial =
      (a2\<lparr>a_commands := upd_where (\<lambda>c. c_id c \<in> set (map c_id (pending a2 serial)))
          (\<lambda>c. c\<lparr>c_taken := TakenAt (t div nsec) []\<rparr>) (a_commands a2)\<rparr>, Some (pending a2 serial))"
    and "set (pending a2 serial) = {c \<in> set (pending a serial). \<not> expired t (commandTTL (globalPolicy a)) c}"
    and "a_blades a2 = a_blades a"
proof -
  let ?a1 = "taken_where a (\<lambda>c. c_serial c = serial \<and> expired t (commandTTL (globalPolicy a)) c)
      (TakenAt (t div nsec) '' (abgelaufen)'')"
  let ?n = "count_where (\<lambda>c. (c_serial c = serial \<and> expired t (commandTTL (globalPolicy a)) c) \<and> c_taken c = NotTaken) (a_commands a)"
  let ?a2 = "if ?n > 0 then logEvent ?a1 t serial ''warn'' (show_nat ?n @ '' command(s) expired '' @ emdash @ '' older than ''
      @ show_minutes (p_command_ttl_min (globalPolicy a))) else ?a1"
  have "hBladeCommands a t header serial =
      (?a2\<lparr>a_commands := upd_where (\<lambda>c. c_id c \<in> set (map c_id (pending ?a2 serial)))
          (\<lambda>c. c\<lparr>c_taken := TakenAt (t div nsec) []\<rparr>) (a_commands ?a2)\<rparr>, Some (pending ?a2 serial))"
    using assms by (simp only: hBladeCommands_def Let_def not_not if_True if_False simp_thms)
  moreover have "set (pending ?a2 serial) = {c \<in> set (pending a serial). \<not> expired t (commandTTL (globalPolicy a)) c}"
    using pending_taken [of a serial] by simp
  moreover have "a_blades ?a2 = a_blades a" by (simp add: taken_where_def)
  ultimately show thesis by (rule that)
qed

text \<open>C27. What a blade is handed is exactly what was pending for it and not expired, in the order it
  was queued; afterwards nothing is pending for it, so no command is handed out twice.\<close>

theorem hBladeCommands_once:
  assumes "requireBlade a header serial"
  shows "\<exists>out. snd (hBladeCommands a t header serial) = Some out
     \<and> set out = {c \<in> set (a_commands a). c_serial c = serial \<and> c_taken c = NotTaken
                   \<and> \<not> expired t (commandTTL (globalPolicy a)) c}
     \<and> sorted (map c_id out)
     \<and> snd (hBladeCommands (fst (hBladeCommands a t header serial)) t' header serial) = Some []"
proof -
  obtain a2 where h: "hBladeCommands a t header serial =
      (a2\<lparr>a_commands := upd_where (\<lambda>c. c_id c \<in> set (map c_id (pending a2 serial)))
          (\<lambda>c. c\<lparr>c_taken := TakenAt (t div nsec) []\<rparr>) (a_commands a2)\<rparr>, Some (pending a2 serial))" (is "_ = (?a3, _)")
    and out: "set (pending a2 serial) = {c \<in> set (pending a serial). \<not> expired t (commandTTL (globalPolicy a)) c}"
    and b: "a_blades a2 = a_blades a"
    by (rule hand_out [OF assms])
  have "c_taken c \<noteq> NotTaken" if "c \<in> set (a_commands ?a3)" and "c_serial c = serial" for c
    using that by (auto simp: set_upd_where set_pending split: if_splits)
  then have none: "pending ?a3 serial = []" by (simp add: pending_Nil)
  have "requireBlade ?a3 header serial" using assms b by (simp add: requireBlade_def)
  from hand_out [OF this, of t'] none have "snd (hBladeCommands ?a3 t' header serial) = Some []"
    by (metis (no_types, lifting) Collect_empty_eq empty_iff list.set(1) set_empty snd_conv)
  moreover have "sorted (map c_id (pending a2 serial))" by (simp add: pending_def)
  ultimately show ?thesis using h out by (auto simp: set_pending)
qed

theorem hBladeCommands_once_witness:
  "requireBlade (queueCommand demo 0 ''c0ffee01'' ''reboot'') ''Bearer secret'' ''c0ffee01''
   \<and> snd (hBladeCommands (fst (hBladeCommands (queueCommand demo 0 ''c0ffee01'' ''reboot'') (minutes 1) ''Bearer secret'' ''c0ffee01''))
        (minutes 2) ''Bearer secret'' ''c0ffee01'') = Some []"
proof -
  have "requireBlade (queueCommand demo 0 ''c0ffee01'' ''reboot'') ''Bearer secret'' ''c0ffee01''"
    by (simp add: requireBlade_def queueCommand_def insert_command_def taken_where_def get_row_def bearer_def
        has_prefix_def trim_space_def demo_def demo_blade_def str_simps Let_def)
  with hBladeCommands_once [OF this, of "minutes 1" "minutes 2"] show ?thesis by blast
qed

section \<open>What the agent does\<close>

lemma map_of_newest:
  "map_of (newest t cs m) k =
     (case filter (\<lambda>c. c_kind c = k \<and> \<not> stale t c) cs of [] \<Rightarrow> map_of m k | d # ds \<Rightarrow> Some (last (d # ds)))"
proof (induction cs arbitrary: m)
  case Nil
  then show ?case by simp
next
  case (Cons c cs)
  then show ?case by (auto simp: update_conv' split: list.split)
qed

lemma distinct_newest: "distinct (map fst m) \<Longrightarrow> distinct (map fst (newest t cs m))"
  by (induction cs arbitrary: m) (simp_all add: distinct_update)

lemma set_run_order: "set (run_order t cmds) = c_kind ` {c \<in> set cmds. \<not> stale t c}"
proof -
  have "k \<in> fst ` set (newest t cmds []) \<longleftrightarrow> (\<exists>c\<in>set cmds. c_kind c = k \<and> \<not> stale t c)" for k
  proof -
    have "k \<in> fst ` set (newest t cmds []) \<longleftrightarrow> map_of (newest t cmds []) k \<noteq> None"
      by (simp add: map_of_eq_None_iff)
    also have "\<dots> \<longleftrightarrow> filter (\<lambda>c. c_kind c = k \<and> \<not> stale t c) cmds \<noteq> []"
      by (simp add: map_of_newest split: list.split)
    finally show ?thesis by (auto simp: filter_empty_conv)
  qed
  then have "fst ` set (newest t cmds []) = c_kind ` {c \<in> set cmds. \<not> stale t c}"
    by (simp add: set_eq_iff image_iff) metis
  then show ?thesis by (simp add: run_order_def)
qed

text \<open>C28. The agent carries out each kind it was sent at most once, exactly the kinds that have a
  command not too old, and a restart or a shutdown never before anything that would still
  have to run; a kind this blade does not allow is refused and nothing else.\<close>

theorem runCommands_spec:
  "distinct (run_order t cmds) \<and> set (run_order t cmds) = c_kind ` {c \<in> set cmds. \<not> stale t c}
   \<and> sorted (map rank (run_order t cmds))
   \<and> (\<forall>i < length (runCommands allow t cmds). \<forall>j < i.
        runCommands allow t cmds ! j \<in> {RebootIn 5, HaltIn 5} \<longrightarrow>
        runCommands allow t cmds ! i \<in> {HaltIn 5, Refused ''shutdown''})
   \<and> (\<forall>k. Refused k \<in> set (runCommands allow t cmds) \<longleftrightarrow> k \<in> set (run_order t cmds) \<and> \<not> allows allow k)"
proof -
  have d: "distinct (run_order t cmds)"
    by (simp add: run_order_def distinct_newest)
  have s: "sorted (map rank (run_order t cmds))" by (simp add: run_order_def)
  have last: "runCommands allow t cmds ! i \<in> {HaltIn 5, Refused ''shutdown''}"
    if i: "i < length (runCommands allow t cmds)" and j: "j < i"
      and r: "runCommands allow t cmds ! j \<in> {RebootIn 5, HaltIn 5}" for i j
  proof -
    let ?o = "run_order t cmds"
    have len: "i < length ?o" using i by (simp add: runCommands_def)
    have kj: "?o ! j = ''reboot'' \<or> ?o ! j = ''shutdown''"
      using r j len by (auto simp: runCommands_def carry_out_def split: if_splits)
    then have "9 \<le> rank (?o ! j)" by (auto simp: rank_def)
    also have "rank (?o ! j) \<le> rank (?o ! i)"
      using sorted_nth_mono [OF s, of j i] j len by simp
    finally have "?o ! i = ''reboot'' \<or> ?o ! i = ''shutdown''"
      by (auto simp: rank_def split: if_splits)
    moreover have "?o ! i \<noteq> ?o ! j" using d j len by (simp add: nth_eq_iff_index_eq)
    moreover have "?o ! i \<noteq> ''reboot''"
    proof
      assume "?o ! i = ''reboot''"
      with calculation kj have "?o ! j = ''shutdown''" by auto
      with \<open>rank (?o ! j) \<le> rank (?o ! i)\<close> \<open>?o ! i = ''reboot''\<close> show False by (simp add: rank_def)
    qed
    ultimately have "?o ! i = ''shutdown''" by blast
    then show ?thesis using len by (simp add: runCommands_def carry_out_def)
  qed
  have "Refused k \<in> set (runCommands allow t cmds) \<longleftrightarrow> k \<in> set (run_order t cmds) \<and> \<not> allows allow k" for k
    by (auto simp: runCommands_def carry_out_def image_iff split: if_splits)
  with d s last set_run_order show ?thesis by blast
qed

theorem runCommands_spec_witness:
  "runCommands [''reboot'', ''shutdown''] 0
     [\<lparr>c_id = 1, c_serial = ''s'', c_kind = ''shutdown'', c_created = Some 0, c_taken = NotTaken\<rparr>,
      \<lparr>c_id = 2, c_serial = ''s'', c_kind = ''reboot'', c_created = Some 0, c_taken = NotTaken\<rparr>] ! 1 \<in> {HaltIn 5, Refused ''shutdown''}"
proof -
  let ?c = "[\<lparr>c_id = 1, c_serial = ''s'', c_kind = ''shutdown'', c_created = Some 0, c_taken = NotTaken\<rparr>,
      \<lparr>c_id = 2, c_serial = ''s'', c_kind = ''reboot'', c_created = Some 0, c_taken = NotTaken\<rparr>] :: command list"
  have "runCommands [''reboot'', ''shutdown''] 0 ?c = [RebootIn 5, HaltIn 5]"
    by (simp add: runCommands_def run_order_def stale_def since_def agentTTL_def minutes_def nsec_def rank_def
        carry_out_def allows_def)
  moreover have "\<forall>i < length (runCommands [''reboot'', ''shutdown''] 0 ?c). \<forall>j < i.
      runCommands [''reboot'', ''shutdown''] 0 ?c ! j \<in> {RebootIn 5, HaltIn 5} \<longrightarrow>
      runCommands [''reboot'', ''shutdown''] 0 ?c ! i \<in> {HaltIn 5, Refused ''shutdown''}"
    using runCommands_spec [of 0 ?c "[''reboot'', ''shutdown'']"] by (elim conjE)
  ultimately show ?thesis by (elim allE [of _ 1] impE allE [of _ 0]) simp_all
qed

end
