(* ===== verification/Hardware.thy ===== *)
theory Hardware
  imports Commands
begin

text \<open>
  What a module says about itself and what follows for an installation: the boot order
  (\<^verbatim>\<open>src/server/bootorder.go\<close>), the partition table of an image (\<^verbatim>\<open>src/server/parttable.go\<close>), the
  devices a blade reported and whether an image may be written to the one it is pointed at
  (\<^verbatim>\<open>src/server/targets.go\<close>, \<^verbatim>\<open>installTarget\<close> of \<^verbatim>\<open>src/server/api.go\<close>). Reading the first kilobyte of
  an image file is the outside world: the parameter \<open>head_of\<close> gives it by file name, \<open>None\<close>
  when it cannot be read.
\<close>

section \<open>The boot order\<close>

definition hex_val :: "char \<Rightarrow> nat option" where
  "hex_val c = (if is_digit c then Some (code c - 48)
     else if 97 \<le> code c \<and> code c \<le> 102 then Some (code c - 87) else None)"

text \<open>The loop from the right; \<open>None\<close> is the early return of nothing.\<close>

fun order_steps :: "string \<Rightarrow> nat list option" where
  "order_steps [] = Some []"
| "order_steps (c # cs) =
     (case hex_val c of
        None \<Rightarrow> None
      | Some d \<Rightarrow> if d = 0 then Some [] else if d = 15 then Some [15]
                 else map_option (\<lambda>r. d # r) (order_steps cs))"

definition bootOrderSteps :: "string \<Rightarrow> nat list" where
  "bootOrderSteps order =
     (case order_steps (rev (trim_prefix (lower (trim_space order)) ''0x'')) of None \<Rightarrow> [] | Some r \<Rightarrow> r)"

definition bootStepKey :: "nat \<Rightarrow> string" where
  "bootStepKey d =
     (if d = 1 then ''bo.card'' else if d = 2 then ''bo.network'' else if d = 3 then ''bo.rpiboot''
      else if d = 4 \<or> d = 5 then ''bo.usb'' else if d = 6 then ''bo.nvme'' else if d = 7 then ''bo.http''
      else if d = 14 then ''bo.stop'' else if d = 15 then ''bo.restart'' else ''bo.other'')"

definition step_reaches :: "string \<Rightarrow> nat \<Rightarrow> bool" where
  "step_reaches kind d \<longleftrightarrow> (d = 1 \<and> (kind = ''sd'' \<or> kind = ''emmc'')) \<or> (d = 6 \<and> kind = ''nvme'')
     \<or> ((d = 4 \<or> d = 5) \<and> kind = ''usb'')"

definition bootOrderReaches :: "string \<Rightarrow> string \<Rightarrow> bool" where
  "bootOrderReaches order kind = list_ex (step_reaches kind) (bootOrderSteps order)"

section \<open>Partition tables\<close>

definition efi_part :: "nat list" where "efi_part = map of_char ''EFI PART''"

definition partTableOf :: "nat list \<Rightarrow> string" where
  "partTableOf head =
     (if length head < 520 then []
      else if head ! 510 \<noteq> 0x55 \<or> head ! 511 \<noteq> 0xAA then []
      else if take 8 (drop 512 head) = efi_part then ''gpt''
      else if list_ex (\<lambda>i. head ! (446 + 16 * i + 4) \<noteq> 0 \<and> head ! (446 + 16 * i + 4) \<noteq> 0xEE) [0, 1, 2, 3]
        then ''mbr'' else [])"

type_synonym heads = "string \<Rightarrow> nat list option"

definition imageTable :: "heads \<Rightarrow> app \<Rightarrow> string \<Rightarrow> app \<times> string" where
  "imageTable head_of a im =
     (if im = [] then (a, [])
      else case get_image (a_images a) im of
             None \<Rightarrow> (a, [])
           | Some i \<Rightarrow>
               if i_part_table i \<noteq> [] \<or> i_local i = [] then (a, i_part_table i)
               else (case head_of (i_local i) of
                       None \<Rightarrow> (a, [])
                     | Some h \<Rightarrow>
                         (let t = partTableOf h
                          in if t = [] then (a, [])
                             else (a\<lparr>a_images := upd_where (\<lambda>r. i_id r = im) (\<lambda>r. r\<lparr>i_part_table := t\<rparr>) (a_images a)\<rparr>, t))))"

section \<open>Where an installation goes\<close>

record installDevice =
  d_path :: string
  d_kind :: string
  d_label :: string
  d_bytes :: int

definition str_of :: "jmap \<Rightarrow> string \<Rightarrow> string" where
  "str_of m k = (case as_str (map_of m k) of None \<Rightarrow> [] | Some s \<Rightarrow> s)"

definition middot :: string where "middot = map char_of [194, 183 :: nat]"

definition labelled :: "string \<Rightarrow> string \<Rightarrow> string" where
  "labelled base m = (if m = [] then base else base @ '' '' @ middot @ '' '' @ m)"

definition size_of :: "jmap \<Rightarrow> string \<Rightarrow> int option" where
  "size_of f k = (case num (map_of f k) of None \<Rightarrow> None | Some q \<Rightarrow> if q > 0 then Some (floor q) else None)"

definition installDevices :: "('v) blade_scheme \<Rightarrow> installDevice list" where
  "installDevices b =
     (let f = obj_of (b_facts b); kind = str_of f ''mmc_kind''
      in (case size_of f ''nvme_bytes'' of
            Some n \<Rightarrow> [\<lparr>d_path = ''/dev/nvme0n1'', d_kind = ''nvme'', d_label = labelled ''NVMe'' (str_of f ''nvme_model''), d_bytes = n\<rparr>]
          | None \<Rightarrow> [])
         @ (case size_of f ''emmc_bytes'' of
              Some n \<Rightarrow> [\<lparr>d_path = ''/dev/mmcblk0'', d_kind = ''emmc'', d_label = labelled ''eMMC'' (str_of f ''emmc_model''), d_bytes = n\<rparr>]
            | None \<Rightarrow>
                (case size_of f ''sd_bytes'' of
                   Some n \<Rightarrow> [\<lparr>d_path = ''/dev/mmcblk0'', d_kind = ''sd'', d_label = labelled ''SD card'' (str_of f ''mmc_model''), d_bytes = n\<rparr>]
                 | None \<Rightarrow> if kind \<noteq> [] then [\<lparr>d_path = ''/dev/mmcblk0'', d_kind = kind, d_label = kind, d_bytes = 0\<rparr>] else [])))"

definition installTarget :: "app \<Rightarrow> bview \<Rightarrow> string" where
  "installTarget a b =
     (case as_str (installSetting a b ''install_target'') of
        Some v \<Rightarrow> if v \<noteq> [] then v else
          (case find (\<lambda>d. d_kind d = ''nvme'') (installDevices b) of
             Some d \<Rightarrow> d_path d
           | None \<Rightarrow> (case installDevices b of [d] \<Rightarrow> d_path d | _ \<Rightarrow> ''/dev/nvme0n1''))
      | None \<Rightarrow>
          (case find (\<lambda>d. d_kind d = ''nvme'') (installDevices b) of
             Some d \<Rightarrow> d_path d
           | None \<Rightarrow> (case installDevices b of [d] \<Rightarrow> d_path d | _ \<Rightarrow> ''/dev/nvme0n1'')))"

definition checkTarget :: "heads \<Rightarrow> app \<Rightarrow> bview \<Rightarrow> app \<times> err option" where
  "checkTarget head_of a b =
     (let target = installTarget a b; devs = installDevices b
      in if devs = [] then (a, None)
         else case find (\<lambda>d. d_path d = target) devs of
                None \<Rightarrow> (a, Some (ErrNodevice (bladeName b) target))
              | Some d \<Rightarrow>
                  if b_image b = [] then (a, None)
                  else (case get_image (a_images a) (b_image b) of
                          None \<Rightarrow> (a, None)
                        | Some i \<Rightarrow>
                            if i_min_disk i > 0 \<and> d_bytes d > 0 \<and> d_bytes d < i_min_disk i
                            then (a, Some (ErrToosmall (bladeName b) (d_label d)))
                            else if d_kind d = ''emmc'' \<or> d_kind d = ''sd''
                            then (let (a1, t) = imageTable head_of a (b_image b)
                                  in if t = ''gpt'' then (a1, Some (ErrGptoncard (bladeName b) (b_image b))) else (a1, None))
                            else (a, None)))"

section \<open>Reading a boot order\<close>

lemma hex_val_digit: "d < 16 \<Longrightarrow> hex_val (digit d) = Some d"
  by (auto simp: hex_val_def digit_def is_digit_def)

lemma to_lower_digit [simp]: "d < 16 \<Longrightarrow> to_lower (digit d) = digit d"
  by (auto simp: to_lower_def is_upper_def digit_def)

lemma order_steps_digits:
  "\<forall>d\<in>set ds. 1 \<le> d \<and> d \<le> 14 \<Longrightarrow>
   order_steps (map digit ds @ rest) = map_option (\<lambda>r. ds @ r) (order_steps rest)"
  by (induction ds) (cases "order_steps rest"; auto simp: hex_val_digit)+

lemma space_digit: "d < 16 \<Longrightarrow> \<not> is_space (digit d)"
  by (auto simp: is_space_def digit_def)

lemma trim_space_id:
  assumes "s \<noteq> []" and "\<not> is_space (hd s)" and "\<not> is_space (last s)"
  shows "trim_space s = s"
proof -
  have l: "dropWhile is_space s = s" using assms(1,2) by (cases s) auto
  have "dropWhile is_space (rev s) = rev s" using assms(1,3) by (cases s rule: rev_cases) auto
  with l show ?thesis by (simp add: trim_space_def)
qed

lemma steps_of_0x:
  assumes "w \<noteq> [] \<Longrightarrow> \<not> is_space (last w)"
  shows "bootOrderSteps (''0x'' @ w) = (case order_steps (rev (lower w)) of None \<Rightarrow> [] | Some r \<Rightarrow> r)"
proof -
  have "trim_space (''0x'' @ w) = ''0x'' @ w"
    using assms by (intro trim_space_id) (auto simp: is_space_def code_def)
  moreover have "lower (''0x'' @ w) = ''0x'' @ lower w"
    by (simp add: lower_def to_lower_def is_upper_def code_def)
  ultimately show ?thesis
    by (simp add: bootOrderSteps_def trim_prefix_def has_prefix_def)
qed

text \<open>A boot order written down digit by digit from the right is read back as the devices it
  names, first tried first; and behind the digit that starts over nothing is ever read, so
  whatever text stands to the left of it changes nothing.\<close>

theorem bootOrder_roundtrip:
  assumes "\<forall>d\<in>set ds. 1 \<le> d \<and> d \<le> 14"
  shows "bootOrderSteps (''0x'' @ rev (map digit ds)) = ds
     \<and> bootOrderSteps (''0x'' @ p @ ''f'' @ rev (map digit ds)) = ds @ [15]"
proof -
  have low: "lower (rev (map digit ds)) = rev (map digit ds)"
  proof -
    have "to_lower (digit d) = digit d" if "d \<in> set ds" for d
      using assms that by (intro to_lower_digit) auto
    then show ?thesis by (auto simp: lower_def rev_map)
  qed
  have nosp: "\<not> is_space (last (x @ rev (map digit ds)))" if "ds \<noteq> []" for x
    using that assms space_digit by (cases ds) (auto simp: last_append)
  have f: "to_lower CHR ''f'' = CHR ''f''" "hex_val CHR ''f'' = Some 15" "\<not> is_space CHR ''f''"
    by (simp_all add: to_lower_def hex_val_def is_upper_def is_digit_def is_space_def code_def)
  have "bootOrderSteps (''0x'' @ rev (map digit ds)) = ds"
    using order_steps_digits [OF assms, of "[]"] nosp [of "[]"]
    by (subst steps_of_0x) (auto simp: low)
  moreover have "bootOrderSteps (''0x'' @ p @ ''f'' @ rev (map digit ds)) = ds @ [15]"
  proof -
    have tail: "\<not> is_space (last (p @ ''f'' @ rev (map digit ds)))"
      using nosp [of "p @ ''f''"] f(3) by (cases "ds = []") simp_all
    have "rev (lower (p @ ''f'' @ rev (map digit ds))) = map digit ds @ CHR ''f'' # rev (lower p)"
      using low f(1) by (simp add: lower_def rev_map)
    with order_steps_digits [OF assms, of "CHR ''f'' # rev (lower p)"] f(2)
    show ?thesis by (simp only: steps_of_0x [OF tail]) simp
  qed
  ultimately show ?thesis by blast
qed

theorem bootOrder_roundtrip_witness:
  "bootOrderSteps (''0x'' @ rev (map digit [2, 6, 1])) = [2, 6, 1]
   \<and> bootOrderSteps (''0x'' @ ''not hex'' @ ''f'' @ rev (map digit [2, 6, 1])) = [2, 6, 1, 15]"
  using bootOrder_roundtrip [of "[2, 6, 1]" "''not hex''"] by simp


lemma demo_devices:
  "installDevices (view demo demo_blade) = [\<lparr>d_path = ''/dev/nvme0n1'', d_kind = ''nvme'', d_label = ''NVMe'', d_bytes = 500\<rparr>]"
  by (simp add: installDevices_def size_of_def str_of_def labelled_def Let_def demo_blade_def)

lemma demo_target_ok: "checkTarget (\<lambda>_. None) demo (view demo demo_blade) = (demo, None)"
proof -
  have f: "b_facts demo_blade = JObj [(''nvme_bytes'', JNum 500)]" "b_image demo_blade = ''dietpi''"
    by (simp_all add: demo_blade_def)
  have "maps_ok demo" by (simp add: maps_ok_def scope_map_def configFor_def demo_def)
  then have "installSetting demo (view demo demo_blade) ''install_target'' = None"
    by (simp add: installSetting_def map_of_mergedConfig layered_def scope_map_def configFor_def fold_invariant demo_def scopes_def demo_blade_def)
  then have "installTarget demo (view demo demo_blade) = ''/dev/nvme0n1''"
    by (simp add: installTarget_def demo_devices)
  moreover have "get_image (a_images demo) ''dietpi'' = Some demo_image"
    by (simp add: get_image_def demo_def demo_image_def)
  ultimately show ?thesis
    by (simp add: checkTarget_def demo_devices f) (simp add: demo_image_def)
qed


end
