(* ===== verification/Install.thy ===== *)
theory Install
  imports Hardware
begin

text \<open>
  The life of an installation (\<^verbatim>\<open>src/server/db.go\<close>, \<^verbatim>\<open>src/server/api.go\<close>): asking for it or for an
  erase, calling it off, the mini system asking what to do, its reports, reading the firmware,
  switching a blade off, putting it aside and forgetting it; and what an agent and a new blade
  say about themselves. A fresh token and the base URL of the server are parameters. The
  theorems: nothing is written or erased that was not asked for, what is handed out matches
  what is stored, every operation keeps the address plan sound, and what each operation
  leaves behind.
\<close>

section \<open>Arming and disarming\<close>

definition upd_blade :: "app \<Rightarrow> string \<Rightarrow> (blade \<Rightarrow> blade) \<Rightarrow> app" where
  "upd_blade a serial f = a\<lparr>a_blades := upd_where (\<lambda>b. b_serial b = serial) f (a_blades a)\<rparr>"

definition requestWipe :: "app \<Rightarrow> string \<Rightarrow> err + app" where
  "requestWipe a serial =
     (if count_where (\<lambda>b. b_serial b = serial) (a_blades a) = 0 then Inl ErrBladegone
      else Inr (upd_blade a serial (\<lambda>b. b\<lparr>b_install_state := InstallWipe\<rparr>)))"

definition finishWipe :: "app \<Rightarrow> string \<Rightarrow> app" where
  "finishWipe a serial = upd_blade a serial (\<lambda>b. b\<lparr>b_rack_id := None, b_slot := None, b_image := [],
     b_install_state := InstallIdle, b_state := ''new'', b_hostname := [], b_config_applied := [],
     b_facts := JObj [], b_health := JObj []\<rparr>)"

definition cancelInstall :: "app \<Rightarrow> instant \<Rightarrow> string \<Rightarrow> err + app" where
  "cancelInstall a t serial =
     (let P = (\<lambda>b. b_serial b = serial \<and> b_install_state b \<in> {InstallPending, InstallWipe})
      in if count_where P (a_blades a) = 0 then Inl ErrNothingtocancel
         else Inr (logEvent (sync (a\<lparr>a_blades := upd_where P (\<lambda>b. b\<lparr>b_install_state := InstallIdle\<rparr>) (a_blades a)\<rparr>) t)
                     t serial ''info'' ''installation called off''))"

definition requestInstall :: "heads \<Rightarrow> app \<Rightarrow> instant \<Rightarrow> string \<Rightarrow> app \<times> err option" where
  "requestInstall head_of a t serial =
     (let (a1, e) = (case getBlade a serial of None \<Rightarrow> (a, None) | Some b \<Rightarrow> checkTarget head_of a b);
          P = (\<lambda>b. b_serial b = serial \<and> b_image b \<noteq> [])
      in case e of
           Some err \<Rightarrow> (a1, Some err)
         | None \<Rightarrow>
             if count_where P (a_blades a1) = 0 then (a1, Some ErrNeedimage)
             else (sync (a1\<lparr>a_blades := upd_where P (\<lambda>b. b\<lparr>b_install_state := InstallPending\<rparr>) (a_blades a1)\<rparr>) t, None))"

section \<open>Reading the firmware\<close>

definition requestProbe :: "app \<Rightarrow> instant \<Rightarrow> string \<Rightarrow> err + app" where
  "requestProbe a t serial =
     (case getBlade a serial of
        None \<Rightarrow> Inl ErrNosuchblade
      | Some b \<Rightarrow>
          if b_install_state b = InstallPending \<or> b_install_state b = InstallWipe then Inl ErrProbebusy
          else Inr (logEvent (sync (upd_blade a serial (\<lambda>b. b\<lparr>b_probe := stamp_of t, b_probe_sent := None\<rparr>)) t)
                      t serial ''info'' (''firmware read requested '' @ emdash
                         @ '' restarts once the site has the netboot tag'')))"

definition clearProbe :: "app \<Rightarrow> instant \<Rightarrow> string \<Rightarrow> app" where
  "clearProbe a t serial =
     sync (taken_where (upd_blade a serial (\<lambda>b. b\<lparr>b_probe := None, b_probe_sent := None\<rparr>))
             (\<lambda>c. c_serial c = serial \<and> c_kind c = ''reboot'') (TakenAt (t div nsec) '' (firmware read finished)'')) t"

definition probe_ready :: "app \<Rightarrow> instant \<Rightarrow> bview \<Rightarrow> bool" where
  "probe_ready a t b =
     (let fetched = (case getSite a (v_site_id b) of None \<Rightarrow> None | Some st \<Rightarrow> s_desired_at st)
      in stamp_less (b_probe b) fetched
         \<or> (fetched = None \<and> (case b_probe b of None \<Rightarrow> False | Some s \<Rightarrow> since t s > int (minutes 1))))"

definition probe_one :: "app \<Rightarrow> instant \<Rightarrow> string \<Rightarrow> app" where
  "probe_one a t serial =
     (case getBlade a serial of
        None \<Rightarrow> a
      | Some b \<Rightarrow>
          if \<not> probeArmed t b then
            logEvent (clearProbe a t serial) t serial ''warn''
              (''firmware read expired '' @ emdash @ '' the blade never came up in the mini OS'')
          else if \<not> probe_ready a t b then a
          else logEvent (upd_blade (queueCommand a t serial ''reboot'') serial (\<lambda>b. b\<lparr>b_probe_sent := stamp_of t\<rparr>))
                 t serial ''info'' (''the netboot tag is on the wire '' @ emdash @ '' restarting to read the firmware''))"

definition probeStep :: "app \<Rightarrow> instant \<Rightarrow> app" where
  "probeStep a t =
     fold (\<lambda>serial a. probe_one a t serial)
       (map b_serial (filter (\<lambda>b. b_probe b \<noteq> None \<and> b_probe_sent b = None) (a_blades a))) a"

section \<open>Off, aside, gone\<close>

definition requestShutdown :: "app \<Rightarrow> instant \<Rightarrow> string \<Rightarrow> app" where
  "requestShutdown a t serial =
     logEvent (clearAlert (upd_blade (queueCommand a t serial ''shutdown'') serial (\<lambda>b. b\<lparr>b_halted := stamp_of t\<rparr>)) serial)
       t serial ''info'' (''shutdown requested '' @ emdash @ '' this blade is off, not gone'')"

definition put_aside :: "instant \<Rightarrow> json \<Rightarrow> blade \<Rightarrow> blade" where
  "put_aside t facts b = b\<lparr>b_rack_id := None, b_slot := None, b_image := [], b_hostname := [],
     b_config_applied := [], b_facts := facts, b_health := JObj [], b_install_state := InstallIdle,
     b_installed_at := None, b_state := ''new'', b_halted := None, b_probe := None, b_probe_sent := None,
     b_stored := stamp_of t\<rparr>"

definition resetBlade :: "app \<Rightarrow> instant \<Rightarrow> string \<Rightarrow> err + app" where
  "resetBlade a t serial =
     (case getBlade a serial of
        None \<Rightarrow> Inl (ErrBladeunknown serial)
      | Some b \<Rightarrow>
          if b_state b = ''provisioning'' then Inl ErrBusyinstall
          else
            (let a1 = upd_blade a serial (put_aside t (hardwareOnly (b_facts b)));
                 a2 = a1\<lparr>a_configs := AList.delete (''blade:'' @ serial) (a_configs a1)\<rparr>;
                 a3 = clearAlert (taken_where a2 (\<lambda>c. c_serial c = serial) (TakenAt (t div nsec) '' (blade reset)'')) serial
             in Inr (sync (logEvent a3 t serial ''warn'' (''reset and put aside '' @ emdash @ '' was ''
                       @ bladeName b @ '', disk untouched'')) t)))"

definition forgetBlade :: "app \<Rightarrow> instant \<Rightarrow> string \<Rightarrow> err + app" where
  "forgetBlade a t serial =
     (case getBlade a serial of
        None \<Rightarrow> Inl (ErrBladeunknown serial)
      | Some b \<Rightarrow>
          if b_rack_id b \<noteq> None then Inl (ErrStillslotted (v_rack_name b))
          else if b_install_state b = InstallPending \<or> b_install_state b = InstallWipe then Inl ErrBusyinstall
          else if b_state b = ''provisioning'' then Inl ErrBusyinstall
          else if b_state b = ''online'' then Inl (ErrForgetrunning (bladeName b))
          else Inr (sync (logEvent
                 (a\<lparr>a_samples := del_where (\<lambda>m. m_serial m = serial) (a_samples a),
                   a_commands := del_where (\<lambda>c. c_serial c = serial) (a_commands a),
                   a_alerts := del_where (\<lambda>al. al_serial al = serial) (a_alerts a),
                   a_netboot := del_where (\<lambda>n. n_serial n = serial) (a_netboot a),
                   a_blades := del_where (\<lambda>b. b_serial b = serial) (a_blades a),
                   a_configs := AList.delete (''blade:'' @ serial) (a_configs a)\<rparr>)
                 t [] ''warn'' (''blade '' @ bladeName b @ '' ('' @ serial @ '') removed from the inventory'')) t))"

section \<open>What a blade says\<close>

definition short_serial :: "string \<Rightarrow> string" where
  "short_serial s = drop (length s - 8) s"

definition new_blade :: "instant \<Rightarrow> string \<Rightarrow> string \<Rightarrow> string \<Rightarrow> string \<Rightarrow> blade" where
  "new_blade t serial mac variant tok =
     \<lparr>b_serial = serial, b_short_serial = short_serial serial, b_rack_id = None, b_slot = None, b_hostname = [],
      b_mac = mac, b_image = [], b_variant = variant, b_state = ''new'', b_groups = [], b_facts = JObj [],
      b_health = JObj [], b_install_state = InstallIdle, b_installed_at = None, b_config_applied = [],
      b_last_seen = None, b_created = stamp_of t, b_probe = None, b_probe_sent = None, b_halted = None,
      b_stored = None, b_token = tok\<rparr>"

definition insert_blade :: "app \<Rightarrow> blade \<Rightarrow> app" where
  "insert_blade a b = a\<lparr>a_blades := a_blades a @ [b]\<rparr>"

text \<open>The answer carries the token; \<open>None\<close> is the refusal of a request without a serial.\<close>

definition hEnroll :: "app \<Rightarrow> instant \<Rightarrow> string \<Rightarrow> string \<Rightarrow> string \<Rightarrow> string \<Rightarrow> app \<times> string option" where
  "hEnroll a t newtok serial mac variant =
     (if serial = [] then (a, None)
      else case get_row (a_blades a) serial of
             None \<Rightarrow> (logEvent (insert_blade a (new_blade t serial mac variant newtok)) t serial ''info''
                        (''new blade enrolled (MAC '' @ mac @ '')''), Some newtok)
           | Some b \<Rightarrow>
               (if mac \<noteq> [] then upd_blade a serial (\<lambda>b. b\<lparr>b_mac := mac, b_short_serial := short_serial serial\<rparr>) else a,
                Some (b_token b)))"

definition mergeFacts :: "app \<Rightarrow> string \<Rightarrow> jmap \<Rightarrow> app" where
  "mergeFacts a serial add = upd_blade a serial (\<lambda>b. b\<lparr>b_facts := merge_facts (b_facts b) add\<rparr>)"

definition factsOf :: "app \<Rightarrow> string \<Rightarrow> json" where
  "factsOf a serial = (case get_row (a_blades a) serial of None \<Rightarrow> JObj [] | Some b \<Rightarrow> b_facts b)"

fun log_changes :: "app \<Rightarrow> instant \<Rightarrow> string \<Rightarrow> string list \<Rightarrow> app" where
  "log_changes a t serial [] = a"
| "log_changes a t serial (c # cs) =
     log_changes (logEvent a t serial (if has_prefix c ''FAILED'' then ''warn'' else ''info'') (''agent: '' @ c)) t serial cs"

text \<open>The report of an agent; \<open>None\<close> where a field is absent.\<close>

record report =
  rp_facts :: "json option"
  rp_health :: "json option"
  rp_applied :: string
  rp_changes :: "string list"

definition hBladeStatus :: "app \<Rightarrow> instant \<Rightarrow> string \<Rightarrow> string \<Rightarrow> report \<Rightarrow> (app \<times> nat) outcome" where
  "hBladeStatus a t header serial rp =
     (if \<not> requireBlade a header serial then Value (a, 401)
      else
        (case (case rp_facts rp of None \<Rightarrow> Value (JObj []) | Some f \<Rightarrow> keepHardware (factsOf a serial) f) of
           Panic \<Rightarrow> Panic
         | Value facts \<Rightarrow>
             (let health = (case rp_health rp of None \<Rightarrow> JObj [] | Some h \<Rightarrow> h);
                  a1 = upd_blade a serial (\<lambda>b. b\<lparr>b_facts := facts, b_health := health, b_config_applied := rp_applied rp,
                         b_last_seen := stamp_of t, b_halted := None,
                         b_state := (if b_state b = ''provisioning'' then b_state b else ''online'')\<rparr>);
                  a2 = (case health of JObj m \<Rightarrow> recordSample a1 t serial m | JNull \<Rightarrow> recordSample a1 t serial [] | _ \<Rightarrow> a1)
              in Value (log_changes a2 t serial (rp_changes rp), 200))))"

section \<open>The mini system asks\<close>

definition quot :: "int \<Rightarrow> int \<Rightarrow> int" where
  "quot x y = (if x < 0 then - ((- x) div y) else x div y)"

definition worthLogging :: "app \<Rightarrow> string \<Rightarrow> string \<Rightarrow> int \<Rightarrow> app \<times> bool" where
  "worthLogging a serial phase percent =
     (let step = quot percent 25; key = serial @ ''|'' @ phase
      in if map_of (a_logMarks a) key = Some step then (a, False)
         else (a\<lparr>a_logMarks := AList.update key step (a_logMarks a)\<rparr>, True))"

datatype answer =
    Waiting
  | WipeJob string string
  | Idle string string
  | NotInCatalogue string
  | GoJob (g_image: string) (g_url: string) (g_sha: string) (g_seed: string) (g_target: string)
      (g_options: jmap) (g_token: string) (g_hostname: string) (g_keys: "string list")

text \<open>The blade row the answer is decided on: enrolled if it was unknown, its facts merged, an
  armed reading finished, its session linked, an image chosen there adopted.\<close>

definition meet_unknown :: "app \<Rightarrow> instant \<Rightarrow> string \<Rightarrow> string \<Rightarrow> app" where
  "meet_unknown a t newtok serial =
     (case getBlade a serial of
        Some _ \<Rightarrow> a
      | None \<Rightarrow> logEvent (insert_blade a (new_blade t serial [] [] newtok)) t serial ''info''
                  ''unknown blade seen during netboot'')"

definition take_hardware :: "app \<Rightarrow> instant \<Rightarrow> string \<Rightarrow> jmap \<Rightarrow> app" where
  "take_hardware a t serial hw =
     (if hw = [] then a
      else (let a1 = mergeFacts a serial hw
            in case getBlade a1 serial of
                 None \<Rightarrow> a1
               | Some b \<Rightarrow>
                   if b_probe b = None then a1
                   else logEvent (clearProbe a1 t serial) t serial ''info''
                          (''firmware read'' @ (case as_str (map_of hw ''boot_order'') of
                             Some ord \<Rightarrow> if ord \<noteq> [] then '': boot order '' @ ord else [] | None \<Rightarrow> [])))) "

definition take_session :: "app \<Rightarrow> instant \<Rightarrow> string \<Rightarrow> string \<Rightarrow> app" where
  "take_session a t serial mac =
     (if mac = [] then a
      else case getBlade a serial of
             None \<Rightarrow> a
           | Some b \<Rightarrow>
               (let (a1, img) = linkNetboot a t serial mac;
                    a2 = (if b_mac b = [] then upd_blade a1 serial (\<lambda>b. b\<lparr>b_mac := mac\<rparr>) else a1)
                in if img \<noteq> [] \<and> b_image b = [] then upd_blade a2 serial (\<lambda>b. b\<lparr>b_image := img\<rparr>) else a2))"

definition hProvision ::
    "app \<Rightarrow> instant \<Rightarrow> string \<Rightarrow> string \<Rightarrow> string \<Rightarrow> string \<Rightarrow> jmap \<Rightarrow> app \<times> answer" where
  "hProvision a t baseURL newtok serial mac hw =
     (let a0 = take_session (take_hardware (meet_unknown a t newtok serial) t serial hw) t serial mac
      in case getBlade a0 serial of
           None \<Rightarrow> (a0, Waiting)
         | Some b \<Rightarrow>
             if b_image b = [] then (a0, Waiting)
             else if b_install_state b = InstallWipe then
               (let (a1, w) = worthLogging a0 serial ''wipe-handout'' 0;
                    a2 = (if w then logEvent a1 t serial ''warn'' ''erase job handed out'' else a1)
                in (upd_blade a2 serial (\<lambda>b. b\<lparr>b_state := ''provisioning''\<rparr>), WipeJob (installTarget a0 b) (b_token b)))
             else if b_install_state b \<noteq> InstallPending then (a0, Idle (b_image b) (installTarget a0 b))
             else case get_image (a_images a0) (b_image b) of
                    None \<Rightarrow> (a0, NotInCatalogue (b_image b))
                  | Some im \<Rightarrow>
                      (logEvent (resetStage (upd_blade a0 serial (\<lambda>b. b\<lparr>b_state := ''provisioning''\<rparr>)) t serial
                            stageWriting (''schreibt '' @ i_id im)) t serial ''info'' (''provisioning requested: '' @ i_id im),
                       GoJob (i_id im) (if i_local im \<noteq> [] then baseURL @ ''/images/'' @ i_local im else i_url im)
                         (i_sha256 im) (i_seed im) (installTarget a0 b) (installOptions a0 b) (b_token b) (b_hostname b)
                         (stringList (map_of (mergedConfig a0 b) ''ssh_authorized_keys''))))"

section \<open>The mini system reports\<close>

definition b0Hostname :: "app \<Rightarrow> string \<Rightarrow> string" where
  "b0Hostname a serial =
     (case get_row (a_blades a) serial of None \<Rightarrow> serial | Some b \<Rightarrow> if b_hostname b = [] then serial else b_hostname b)"

definition status_effect :: "app \<Rightarrow> instant \<Rightarrow> string \<Rightarrow> string \<Rightarrow> string \<Rightarrow> string \<Rightarrow> app" where
  "status_effect a t serial phase err msg =
     (if err \<noteq> [] then
        netbootStage (upd_blade a serial (\<lambda>b. b\<lparr>b_state := ''error''\<rparr>)) t serial stageError err
      else if phase = ''wiped'' then
        netbootStage (sync (logEvent (finishWipe a serial) t serial ''warn''
           (''NVMe erased '' @ emdash @ '' '' @ b0Hostname a serial @ '' taken out of its slot'')) t) t serial stageDone ''erased''
      else if phase = ''done'' then
        netbootStage (sync (upd_blade a serial (\<lambda>b. b\<lparr>b_state := ''enrolled'', b_install_state := InstallDone,
           b_installed_at := stamp_of t\<rparr>)) t) t serial stageDone ''written''
      else netbootStage a t serial stageWriting msg)"

definition hProvisionStatus :: "app \<Rightarrow> instant \<Rightarrow> string \<Rightarrow> string \<Rightarrow> int \<Rightarrow> string \<Rightarrow> string \<Rightarrow> app" where
  "hProvisionStatus a t serial phase percent err note =
     (if note \<noteq> [] \<and> err = [] then
        logEvent a t serial (if str_contains note ''NOT '' \<or> str_contains note ''not placed'' then ''warn'' else ''info'')
          (''installer: '' @ note)
      else
        (let lvl = (if err \<noteq> [] then ''error'' else ''info'');
             msg0 = ''provisioning: '' @ phase @ '' '' @ show_int percent @ ''%'';
             msg = (if err \<noteq> [] then ''provisioning failed: '' @ err else msg0);
             a1 = status_effect a t serial phase err msg;
             (a2, w) = (if err \<noteq> [] \<or> phase = ''done'' then (a1, True) else worthLogging a1 serial phase percent)
         in if w then logEvent a2 t serial lvl msg else a2))"

section \<open>Actions on a blade\<close>

definition action_kinds :: "string list" where
  "action_kinds = [''identify'', ''identify_off'', ''stealth_on'', ''stealth_off'', ''reboot'', ''shutdown'',
     ''reimage'', ''cancel'', ''probe'', ''reset'']"

definition of_result :: "app \<Rightarrow> err + app \<Rightarrow> nat \<Rightarrow> app \<times> nat" where
  "of_result a r ok = (case r of Inl e \<Rightarrow> (a, 409) | Inr a' \<Rightarrow> (a', ok))"

definition hBladeAction :: "heads \<Rightarrow> app \<Rightarrow> instant \<Rightarrow> string \<Rightarrow> string \<Rightarrow> app \<times> nat" where
  "hBladeAction head_of a t serial kind =
     (if kind \<notin> set action_kinds then (a, 400)
      else if getBlade a serial = None then (a, 404)
      else if kind = ''reset'' then of_result a (resetBlade a t serial) 200
      else if kind = ''shutdown'' then (requestShutdown a t serial, 202)
      else if kind = ''probe'' then of_result a (requestProbe a t serial) 202
      else if kind = ''cancel'' then of_result a (cancelInstall a t serial) 200
      else if kind = ''reimage'' then
        (case requestInstall head_of a t serial of
           (a1, Some e) \<Rightarrow> (a1, 409)
         | (a1, None) \<Rightarrow> (queueCommand a1 t serial kind, 202))
      else (queueCommand a t serial kind, 202))"

definition hBladeDelete :: "app \<Rightarrow> instant \<Rightarrow> string \<Rightarrow> app \<times> nat" where
  "hBladeDelete a t serial = of_result a (forgetBlade a t serial) 200"

definition hUIBladeImage :: "heads \<Rightarrow> app \<Rightarrow> string \<Rightarrow> string \<Rightarrow> app \<times> err option" where
  "hUIBladeImage head_of a serial im =
     (case getBlade a serial of
        None \<Rightarrow> (a, Some ErrBladegone)
      | Some _ \<Rightarrow>
          (let a1 = upd_blade a serial (\<lambda>b. b\<lparr>b_image := im\<rparr>)
           in if im = [] then (a1, None)
              else case getBlade a1 serial of None \<Rightarrow> (a1, None) | Some b \<Rightarrow> checkTarget head_of a1 b))"

text \<open>The form has to repeat the blade's name. \<open>True\<close> when the erase was armed.\<close>

definition hUIBladeWipe :: "app \<Rightarrow> instant \<Rightarrow> string \<Rightarrow> string \<Rightarrow> app \<times> bool" where
  "hUIBladeWipe a t serial confirm =
     (case getBlade a serial of
        None \<Rightarrow> (a, False)
      | Some b \<Rightarrow>
          if p_no_wipe (sitePolicy a (v_site_id b)) then (a, False)
          else if trim_space confirm \<noteq> b_hostname b then (a, False)
          else (case requestWipe a serial of
                  Inl e \<Rightarrow> (a, False)
                | Inr a1 \<Rightarrow>
                    (case syncDHCP a1 t of
                       (a2, Inl e) \<Rightarrow> (a2, False)
                     | (a2, Inr _) \<Rightarrow>
                         (logEvent (queueCommand a2 t serial ''reboot'') t serial ''warn''
                            (''erase requested for '' @ b_hostname b), True))))"

section \<open>What a blade's next netboot is meant to do\<close>

definition intent :: "app \<Rightarrow> string \<Rightarrow> install_state option" where
  "intent a s = map_option b_install_state (get_row (a_blades a) s)"

lemma intent_cong: "a_blades a' = a_blades a \<Longrightarrow> intent a' = intent a"
  by (simp add: fun_eq_iff intent_def)

lemma intent_frame [simp]:
  "intent (logEvent a t s l m) = intent a" "intent (sync a t) = intent a"
  "intent (a\<lparr>a_configs := x\<rparr>) = intent a" "intent (clearAlert a s) = intent a"
  "intent (taken_where a P y) = intent a" "intent (queueCommand a t s k) = intent a"
  "intent (raiseStage a t mac stage) = intent a" "intent (upd_session a Q f) = intent a"
  "intent (a\<lparr>a_images := z\<rparr>) = intent a"
  by (auto simp: fun_eq_iff intent_def keep clearAlert_def taken_where_def queueCommand_def insert_command_def
      raiseStage_def upd_session_def Let_def split: option.split)

lemma get_upd_blade:
  "(\<And>b. b_serial (f b) = b_serial b) \<Longrightarrow>
   get_row (a_blades (upd_blade a s f)) k = (if k = s then map_option f (get_row (a_blades a) s) else get_row (a_blades a) k)"
  by (simp add: upd_blade_def blades.get_upd)

lemma intent_upd_blade:
  "(\<And>b. b_serial (f b) = b_serial b) \<Longrightarrow> (\<And>b. b_install_state (f b) = b_install_state b) \<Longrightarrow>
   intent (upd_blade a s f) = intent a"
  by (auto simp: fun_eq_iff intent_def get_upd_blade option.map_comp comp_def)

lemma intent_set:
  "(\<And>b. b_serial (f b) = b_serial b) \<Longrightarrow> (\<And>b. b_install_state (f b) = x) \<Longrightarrow>
   intent (upd_blade a s f) k = (if k = s then map_option (\<lambda>_. x) (intent a s) else intent a k)"
  by (auto simp: intent_def get_upd_blade option.map_comp comp_def)

lemma intent_insert:
  "get_row (a_blades a) (b_serial b) = None \<Longrightarrow>
   intent (insert_blade a b) k = (if k = b_serial b then Some (b_install_state b) else intent a k)"
  by (auto simp: intent_def insert_blade_def blades.get_append split: option.split)

text \<open>The steps on the way to an answer leave the intent of every blade that is known.\<close>

lemma intent_meet:
  "intent (meet_unknown a t tok serial) k =
     (if k = serial \<and> intent a serial = None then Some InstallIdle else intent a k)"
  by (auto simp: meet_unknown_def getBlade_def new_blade_def intent_insert intent_def [of a] split: option.split)

lemma intent_hardware: "intent (take_hardware a t serial hw) = intent a"
  by (simp add: take_hardware_def mergeFacts_def clearProbe_def intent_upd_blade Let_def split: option.split)

lemma intent_link: "intent (fst (linkNetboot a t serial mac)) = intent a"
  by (simp add: linkNetboot_def Let_def)

lemma intent_session: "intent (take_session a t serial mac) = intent a"
  by (simp add: take_session_def intent_upd_blade intent_link case_prod_beta Let_def split: option.split)

lemma intent_worthLogging: "intent (fst (worthLogging a s p n)) = intent a"
  by (simp add: worthLogging_def intent_def fun_eq_iff Let_def)

definition asked :: "app \<Rightarrow> instant \<Rightarrow> string \<Rightarrow> string \<Rightarrow> string \<Rightarrow> jmap \<Rightarrow> app" where
  "asked a t newtok serial mac hw =
     take_session (take_hardware (meet_unknown a t newtok serial) t serial hw) t serial mac"

lemma intent_asked:
  "intent (asked a t newtok serial mac hw) k =
     (if k = serial \<and> intent a serial = None then Some InstallIdle else intent a k)"
  by (simp add: asked_def intent_session intent_hardware intent_meet)

lemma asked_row:
  obtains b where "get_row (a_blades (asked a t newtok serial mac hw)) serial = Some b"
    and "getBlade (asked a t newtok serial mac hw) serial = Some (view (asked a t newtok serial mac hw) b)"
    and "intent a serial = Some (b_install_state b) \<or> intent a serial = None \<and> b_install_state b = InstallIdle"
proof -
  have "intent (asked a t newtok serial mac hw) serial \<noteq> None"
    by (auto simp: intent_asked)
  then obtain b where "get_row (a_blades (asked a t newtok serial mac hw)) serial = Some b"
    by (auto simp: intent_def)
  moreover have "intent a serial = Some (b_install_state b) \<or> intent a serial = None \<and> b_install_state b = InstallIdle"
    using intent_asked [of a t newtok serial mac hw serial] calculation
    by (auto simp: intent_def [of "asked a t newtok serial mac hw"] split: if_splits)
  ultimately show thesis using that by (simp add: getBlade_def)
qed

lemma intent_provisioning: "intent (upd_blade a serial (\<lambda>b. b\<lparr>b_state := x\<rparr>)) = intent a"
  by (rule intent_upd_blade) simp_all

lemma resetStage_frame:
  "intent (resetStage a t serial st n) = intent a" "a_images (resetStage a t serial st n) = a_images a"
  "a_blades (resetStage a t serial st n) = a_blades a"
  by (simp_all add: resetStage_def upd_session_def intent_def fun_eq_iff)

lemma intent_provision:
  "intent (fst (hProvision a t base newtok serial mac hw)) k =
     (if k = serial \<and> intent a serial = None then Some InstallIdle else intent a k)"
proof -
  obtain b where "getBlade (asked a t newtok serial mac hw) serial = Some (view (asked a t newtok serial mac hw) b)"
    by (rule asked_row)
  then have "intent (fst (hProvision a t base newtok serial mac hw)) k = intent (asked a t newtok serial mac hw) k"
    by (simp add: hProvision_def flip: asked_def)
       (auto simp: intent_provisioning resetStage_frame intent_worthLogging case_prod_beta Let_def split: option.split)
  then show ?thesis by (simp add: intent_asked)
qed

lemma provision_go:
  assumes "hProvision a t base newtok serial mac hw = (a', GoJob im url sha seed tgt opts tok host keys)"
  shows "intent a serial = Some InstallPending
    \<and> (\<exists>i b. get_image (a_images a') im = Some i \<and> i_id i = im \<and> sha = i_sha256 i \<and> seed = i_seed i
         \<and> get_row (a_blades a') serial = Some b \<and> b_image b = im \<and> tok = b_token b \<and> b_state b = ''provisioning'')"
proof -
  let ?a0 = "asked a t newtok serial mac hw"
  obtain b where b: "get_row (a_blades ?a0) serial = Some b" "getBlade ?a0 serial = Some (view ?a0 b)"
    "intent a serial = Some (b_install_state b) \<or> intent a serial = None \<and> b_install_state b = InstallIdle"
    by (rule asked_row)
  from assms b(2) obtain i where g: "b_install_state b = InstallPending" "get_image (a_images ?a0) (b_image b) = Some i"
      "im = i_id i" "sha = i_sha256 i" "seed = i_seed i" "tok = b_token b"
    and a': "a' = logEvent (resetStage (upd_blade ?a0 serial (\<lambda>b. b\<lparr>b_state := ''provisioning''\<rparr>)) t serial
                            stageWriting (''schreibt '' @ i_id i)) t serial ''info'' (''provisioning requested: '' @ i_id i)"
    by (simp add: hProvision_def flip: asked_def)
       (auto simp: Let_def case_prod_beta split: option.splits if_splits)
  have "i_id i = b_image b" using images.get_SomeD [OF g(2)] by simp
  moreover have "a_images a' = a_images ?a0" by (simp add: a' resetStage_frame) (simp add: upd_blade_def)
  ultimately show ?thesis using g b by (auto simp: a' resetStage_frame get_upd_blade)
qed

lemma provision_wipe:
  assumes "hProvision a t base newtok serial mac hw = (a', WipeJob tgt tok)"
  shows "intent a serial = Some InstallWipe"
proof -
  obtain b where "getBlade (asked a t newtok serial mac hw) serial = Some (view (asked a t newtok serial mac hw) b)"
    "intent a serial = Some (b_install_state b) \<or> intent a serial = None \<and> b_install_state b = InstallIdle"
    by (rule asked_row)
  then show ?thesis using assms
    by (simp add: hProvision_def flip: asked_def)
       (auto simp: Let_def case_prod_beta split: option.splits if_splits)
qed


text \<open>A blade nobody knew is entered and told to wait or that nothing is to be done: its first
  netboot never writes and never erases.\<close>

theorem hProvision_unknown_waits:
  assumes "intent a serial = None"
  shows "snd (hProvision a t base newtok serial mac hw) = Waiting
     \<or> (\<exists>im tgt. snd (hProvision a t base newtok serial mac hw) = Idle im tgt)"
proof -
  obtain b where "getBlade (asked a t newtok serial mac hw) serial = Some (view (asked a t newtok serial mac hw) b)"
    "b_install_state b = InstallIdle"
    using asked_row [of a t newtok serial mac hw] assms by (metis option.distinct(1))
  then show ?thesis by (simp add: hProvision_def Let_def flip: asked_def)
qed

definition armed :: app where
  "armed = demo\<lparr>a_blades := [demo_blade\<lparr>b_install_state := InstallPending\<rparr>]\<rparr>"

lemma armed_row: "get_row (a_blades armed) ''c0ffee01'' = Some (demo_blade\<lparr>b_install_state := InstallPending\<rparr>)"
  by (simp add: armed_def get_row_def demo_blade_def)


theorem hProvision_unknown_waits_witness:
  "intent demo ''00000000deadbeef'' = None
   \<and> (snd (hProvision demo 0 ''http://c'' ''tok'' ''00000000deadbeef'' [] []) = Waiting
      \<or> (\<exists>im tgt. snd (hProvision demo 0 ''http://c'' ''tok'' ''00000000deadbeef'' [] []) = Idle im tgt))"
proof -
  have "intent demo ''00000000deadbeef'' = None" by (simp add: intent_def get_row_def demo_def demo_blade_def)
  with hProvision_unknown_waits [OF this] show ?thesis by blast
qed

section \<open>What each operation does to the intent\<close>

lemma intent_upd_where:
  "(\<And>b. b_serial (f b) = b_serial b) \<Longrightarrow> (\<And>b. b_install_state (f b) = x) \<Longrightarrow>
   intent (a\<lparr>a_blades := upd_where P f (a_blades a)\<rparr>) k =
     map_option (\<lambda>b. if P b then x else b_install_state b) (get_row (a_blades a) k)"
  by (auto simp: intent_def blades.get_upd_where option.map_comp comp_def intro: option.map_cong)

lemma count_0_get: "count_where (\<lambda>b. b_serial b = s) t = 0 \<longleftrightarrow> get_row t s = None"
  by (auto simp: count_where_0_iff blades.get_None_iff)

lemma checkTarget_frame:
  "a_blades (fst (checkTarget head_of a b)) = a_blades a" "a_sites (fst (checkTarget head_of a b)) = a_sites a"
  "a_racks (fst (checkTarget head_of a b)) = a_racks a" "a_next_site (fst (checkTarget head_of a b)) = a_next_site a"
  "a_next_rack (fst (checkTarget head_of a b)) = a_next_rack a"
  "a_netCache (fst (checkTarget head_of a b)) = a_netCache a" "a_nameCache (fst (checkTarget head_of a b)) = a_nameCache a"
  "a_settings (fst (checkTarget head_of a b)) = a_settings a"
  by (simp_all add: checkTarget_def imageTable_def Let_def split: option.split)

lemma intent_requestInstall:
  "intent (fst (requestInstall head_of a t serial)) k =
     (if k = serial \<and> snd (requestInstall head_of a t serial) = None
      then map_option (\<lambda>b. if b_image b \<noteq> [] then InstallPending else b_install_state b) (get_row (a_blades a) k)
      else intent a k)"
proof -
  let ?c = "case getBlade a serial of None \<Rightarrow> (a, None) | Some b \<Rightarrow> checkTarget head_of a b"
  have fr: "a_blades (fst ?c) = a_blades a" by (simp add: checkTarget_frame split: option.split)
  then have i: "intent (fst ?c) = intent a" by (rule intent_cong)
  have "intent ((fst ?c)\<lparr>a_blades := upd_where (\<lambda>b. b_serial b = serial \<and> b_image b \<noteq> [])
        (\<lambda>b. b\<lparr>b_install_state := InstallPending\<rparr>) (a_blades (fst ?c))\<rparr>) k =
      (if k = serial then map_option (\<lambda>b. if b_image b \<noteq> [] then InstallPending else b_install_state b) (get_row (a_blades a) k)
       else intent a k)"
    using blades.get_SomeD [of "a_blades a" k]
    by (subst intent_upd_where) (auto simp: fr intent_def intro!: option.map_cong)
  with i show ?thesis
    by (cases ?c) (auto simp: requestInstall_def Let_def split: option.split)
qed

lemma intent_requestWipe:
  "requestWipe a serial = Inr a' \<Longrightarrow> intent a' k = (if k = serial then Some InstallWipe else intent a k)"
  by (auto simp: requestWipe_def intent_set count_0_get intent_def [of a] split: if_splits)

lemma intent_cancel:
  assumes "cancelInstall a t serial = Inr a'"
  shows "intent a' k = (if k = serial \<and> intent a k \<in> {Some InstallPending, Some InstallWipe} then Some InstallIdle else intent a k)"
  using assms blades.get_SomeD [of "a_blades a" k]
  by (cases "get_row (a_blades a) k")
     (auto simp: cancelInstall_def Let_def intent_upd_where intent_def [of a] split: if_splits)

lemma intent_probe: "requestProbe a t serial = Inr a' \<Longrightarrow> intent a' = intent a"
  by (auto simp: requestProbe_def intent_upd_blade split: option.splits if_splits)

lemma intent_clearProbe: "intent (clearProbe a t serial) = intent a"
  by (simp add: clearProbe_def intent_upd_blade)

lemma intent_probeStep: "intent (probeStep a t) = intent a"
proof -
  have one: "intent (probe_one x t s) = intent x" for x s
    by (simp add: probe_one_def intent_clearProbe intent_upd_blade split: option.split)
  have "intent (fold (\<lambda>s x. probe_one x t s) ss x) = intent x" for ss x
    by (induction ss arbitrary: x) (simp_all add: one)
  then show ?thesis by (simp add: probeStep_def)
qed

lemma intent_shutdown: "intent (requestShutdown a t serial) = intent a"
  by (simp add: requestShutdown_def intent_upd_blade)

lemma intent_reset:
  "resetBlade a t serial = Inr a' \<Longrightarrow> intent a' k = (if k = serial then Some InstallIdle else intent a k)"
  by (auto simp: resetBlade_def Let_def intent_set put_aside_def getBlade_def intent_def [of a] split: option.splits if_splits)

lemma intent_netbootStage: "intent (netbootStage a t serial stage note) = intent a"
  by (simp add: netbootStage_def split: option.split)

lemma intent_status_effect:
  "intent (status_effect a t serial phase err msg) k =
     (if k = serial \<and> err = [] \<and> phase = ''wiped'' then map_option (\<lambda>_. InstallIdle) (intent a k)
      else if k = serial \<and> err = [] \<and> phase = ''done'' then map_option (\<lambda>_. InstallDone) (intent a k)
      else intent a k)"
  by (simp add: status_effect_def intent_netbootStage intent_upd_blade intent_set finishWipe_def)

lemma intent_status:
  "intent (hProvisionStatus a t serial phase percent err note) k =
     (if k = serial \<and> err = [] \<and> note = [] \<and> phase = ''wiped'' then map_option (\<lambda>_. InstallIdle) (intent a k)
      else if k = serial \<and> err = [] \<and> note = [] \<and> phase = ''done'' then map_option (\<lambda>_. InstallDone) (intent a k)
      else intent a k)"
  by (auto simp: hProvisionStatus_def Let_def case_prod_beta intent_worthLogging intent_status_effect)

text \<open>After the installer has reported success the blade is no longer armed, and asking again is
  answered with nothing to do, so a machine that boots over the network once more does not
  install itself again; after a failure it stays armed.\<close>

theorem install_spent_after_done:
  assumes "intent a serial = Some InstallPending"
  shows "intent (hProvisionStatus a t serial ''done'' 100 [] []) serial = Some InstallDone
     \<and> (\<forall>t' base tok mac hw. \<nexists>a' im url sha seed tgt opts tk host keys.
          hProvision (hProvisionStatus a t serial ''done'' 100 [] []) t' base tok serial mac hw
            = (a', GoJob im url sha seed tgt opts tk host keys))
     \<and> (err \<noteq> [] \<longrightarrow> intent (hProvisionStatus a t serial phase n err note) serial = Some InstallPending)"
proof -
  have d: "intent (hProvisionStatus a t serial ''done'' 100 [] []) serial = Some InstallDone"
    using assms by (simp add: intent_status)
  then have "\<nexists>a' im url sha seed tgt opts tk host keys.
          hProvision (hProvisionStatus a t serial ''done'' 100 [] []) t' base tok serial mac hw
            = (a', GoJob im url sha seed tgt opts tk host keys)" for t' base tok mac hw
    using provision_go by fastforce
  with d assms show ?thesis by (simp add: intent_status)
qed

theorem install_spent_after_done_witness:
  "intent armed ''c0ffee01'' = Some InstallPending
   \<and> intent (hProvisionStatus armed 0 ''c0ffee01'' ''done'' 100 [] []) ''c0ffee01'' = Some InstallDone"
proof -
  have "intent armed ''c0ffee01'' = Some InstallPending" by (simp add: intent_def armed_row)
  with install_spent_after_done [OF this] show ?thesis by blast
qed

text \<open>An erase armed for a blade that has no image is never carried out: the mini system is told
  to wait for a choice of image, every time it asks.\<close>

theorem wipe_without_image_waits:
  assumes "get_row (a_blades a) serial = Some b" and "b_install_state b = InstallWipe" and "b_image b = []"
  shows "snd (hProvision a t base newtok serial [] []) = Waiting"
  using assms by (simp add: hProvision_def take_session_def take_hardware_def meet_unknown_def getBlade_def Let_def)

theorem wipe_without_image_waits_witness:
  "snd (hProvision (demo\<lparr>a_blades := [demo_blade\<lparr>b_install_state := InstallWipe, b_image := []\<rparr>]\<rparr>)
     0 ''http://c'' ''tok'' ''c0ffee01'' [] []) = Waiting"
  using wipe_without_image_waits [of "demo\<lparr>a_blades := [demo_blade\<lparr>b_install_state := InstallWipe, b_image := []\<rparr>]\<rparr>"
      "''c0ffee01''" "demo_blade\<lparr>b_install_state := InstallWipe, b_image := []\<rparr>" 0 "''http://c''" "''tok''"]
  by (simp add: get_row_def demo_blade_def)

section \<open>The plan stays sound\<close>

lemma plan_ok_upd_blade:
  "plan_ok a \<Longrightarrow> (\<And>b. b_serial (f b) = b_serial b) \<Longrightarrow> (\<And>b. position (f b) = position b) \<Longrightarrow> plan_ok (upd_blade a s f)"
  by (auto simp: plan_ok_def schema_ok_def keys_fresh_def placed_ok_def upd_blade_def set_upd_where getRack_def
      intro!: blades_ok_upd)

lemma plan_ok_clear_blade:
  "plan_ok a \<Longrightarrow> (\<And>b. b_serial (f b) = b_serial b) \<Longrightarrow> (\<And>b. position (f b) = None) \<Longrightarrow> plan_ok (upd_blade a s f)"
  unfolding upd_blade_def by (rule plan_ok_move [where p = None]) simp_all

lemma plan_ok_upd_where:
  "plan_ok a \<Longrightarrow> (\<And>b. b_serial (f b) = b_serial b) \<Longrightarrow> (\<And>b. position (f b) = position b) \<Longrightarrow>
   plan_ok (a\<lparr>a_blades := upd_where P f (a_blades a)\<rparr>)"
  by (auto simp: plan_ok_def schema_ok_def keys_fresh_def placed_ok_def set_upd_where getRack_def
      intro!: blades_ok_upd)

lemma plan_ok_same [simp]:
  "plan_ok (clearAlert a s) = plan_ok a" "plan_ok (taken_where a P y) = plan_ok a"
  "plan_ok (queueCommand a t s k) = plan_ok a" "plan_ok (a\<lparr>a_configs := x\<rparr>) = plan_ok a"
  "plan_ok (upd_session a Q f) = plan_ok a" "plan_ok (raiseStage a t mac st) = plan_ok a"
  "plan_ok (fst (worthLogging a s p n)) = plan_ok a" "plan_ok (fst (checkTarget head_of a v)) = plan_ok a"
  "plan_ok (netbootStage a t s st note) = plan_ok a" "plan_ok (resetStage a t s st note) = plan_ok a"
  "plan_ok (fst (linkNetboot a t s mac)) = plan_ok a" "plan_ok (recordSample a t s h) = plan_ok a"
  by (rule plan_ok_cong; simp add: clearAlert_def taken_where_def queueCommand_def insert_command_def
      upd_session_def raiseStage_def worthLogging_def checkTarget_frame netbootStage_def resetStage_def
      linkNetboot_def recordSample_def Let_def split: option.split)+

lemma position_same [simp]:
  "position (b\<lparr>b_install_state := x\<rparr>) = position b" "position (b\<lparr>b_state := s\<rparr>) = position b"
  "position (b\<lparr>b_probe := p, b_probe_sent := q\<rparr>) = position b" "position (b\<lparr>b_probe_sent := q\<rparr>) = position b"
  "position (b\<lparr>b_probe := p\<rparr>) = position b"
  "position (b\<lparr>b_halted := h\<rparr>) = position b" "position (b\<lparr>b_mac := m\<rparr>) = position b"
  "position (b\<lparr>b_image := m\<rparr>) = position b" "position (b\<lparr>b_facts := f\<rparr>) = position b"
  "position (b\<lparr>b_mac := m, b_short_serial := m'\<rparr>) = position b"
  "position (b\<lparr>b_install_state := x, b_installed_at := q, b_state := s\<rparr>) = position b"
  by (simp_all add: position_def)

lemma plan_ok_insert_blade:
  assumes "plan_ok a" and "get_row (a_blades a) (b_serial b) = None" and "position b = None"
  shows "plan_ok (insert_blade a b)"
proof -
  have "positions (t @ [b]) = positions t" for t
    using assms(3) by (induction t) (simp_all add: positions_Cons positions_def List.map_filter_simps split: option.split)
  then show ?thesis using assms
    by (auto simp: plan_ok_def schema_ok_def keys_fresh_def placed_ok_def insert_blade_def getRack_def blades_ok_def
        blades.get_None_iff)
qed

lemma plan_ok_requestInstall: "plan_ok a \<Longrightarrow> plan_ok (fst (requestInstall head_of a t serial))"
  by (cases "getBlade a serial")
     (auto simp: requestInstall_def Let_def case_prod_beta intro!: plan_ok_upd_where split: option.split)

lemma plan_ok_requestWipe: "plan_ok a \<Longrightarrow> requestWipe a serial = Inr a' \<Longrightarrow> plan_ok a'"
  by (auto simp: requestWipe_def intro!: plan_ok_upd_blade split: if_splits)

lemma plan_ok_cancel: "plan_ok a \<Longrightarrow> cancelInstall a t serial = Inr a' \<Longrightarrow> plan_ok a'"
  by (auto simp: cancelInstall_def Let_def intro!: plan_ok_upd_where split: if_splits)

lemma plan_ok_probe: "plan_ok a \<Longrightarrow> requestProbe a t serial = Inr a' \<Longrightarrow> plan_ok a'"
  by (auto simp: requestProbe_def intro!: plan_ok_upd_blade split: option.splits if_splits)

lemma plan_ok_clearProbe: "plan_ok a \<Longrightarrow> plan_ok (clearProbe a t serial)"
  by (auto simp: clearProbe_def intro!: plan_ok_upd_blade)

lemma plan_ok_probeStep: "plan_ok a \<Longrightarrow> plan_ok (probeStep a t)"
proof -
  have one: "plan_ok x \<Longrightarrow> plan_ok (probe_one x t s)" for x s
    by (auto simp: probe_one_def plan_ok_clearProbe intro!: plan_ok_upd_blade split: option.split)
  have "plan_ok x \<Longrightarrow> plan_ok (fold (\<lambda>s x. probe_one x t s) ss x)" for ss x
    by (induction ss arbitrary: x) (simp_all add: one)
  then show "plan_ok a \<Longrightarrow> ?thesis" by (simp add: probeStep_def)
qed

lemma plan_ok_shutdown: "plan_ok a \<Longrightarrow> plan_ok (requestShutdown a t serial)"
  by (auto simp: requestShutdown_def intro!: plan_ok_upd_blade)

lemma plan_ok_reset: "plan_ok a \<Longrightarrow> resetBlade a t serial = Inr a' \<Longrightarrow> plan_ok a'"
  by (auto simp: resetBlade_def Let_def put_aside_def position_def intro!: plan_ok_clear_blade split: option.splits if_splits)

lemma plan_ok_forget: "plan_ok a \<Longrightarrow> forgetBlade a t serial = Inr a' \<Longrightarrow> plan_ok a'"
  by (auto simp: forgetBlade_def plan_ok_def schema_ok_def keys_fresh_def placed_ok_def getRack_def keep set_del_where
      intro!: blades_ok_del split: option.splits if_splits)

lemma plan_ok_enroll: "plan_ok a \<Longrightarrow> plan_ok (fst (hEnroll a t tok serial mac variant))"
  by (auto simp: hEnroll_def new_blade_def position_def intro!: plan_ok_insert_blade plan_ok_upd_blade split: option.split)

lemma plan_ok_changes [simp]: "plan_ok (log_changes a t serial cs) = plan_ok a"
  by (induction cs arbitrary: a) simp_all

lemma plan_ok_status: "plan_ok a \<Longrightarrow> hBladeStatus a t header serial rp = Value (a', c) \<Longrightarrow> plan_ok a'"
  by (auto simp: hBladeStatus_def Let_def position_def intro!: plan_ok_upd_blade
      split: if_splits outcome.splits json.splits option.splits)

lemma plan_ok_asked: "plan_ok a \<Longrightarrow> plan_ok (asked a t newtok serial mac hw)"
proof -
  assume "plan_ok a"
  then have "plan_ok (meet_unknown a t newtok serial)"
    by (auto simp: meet_unknown_def getBlade_def new_blade_def position_def intro!: plan_ok_insert_blade split: option.split)
  then have "plan_ok (take_hardware (meet_unknown a t newtok serial) t serial hw)"
    by (auto simp: take_hardware_def mergeFacts_def Let_def intro!: plan_ok_clearProbe plan_ok_upd_blade split: option.split)
  then show ?thesis
    by (auto simp: asked_def take_session_def case_prod_beta Let_def intro!: plan_ok_upd_blade split: option.split)
qed

lemma plan_ok_provision: "plan_ok a \<Longrightarrow> plan_ok (fst (hProvision a t base newtok serial mac hw))"
  using plan_ok_asked [of a t newtok serial mac hw]
  by (simp add: hProvision_def flip: asked_def)
     (auto simp: case_prod_beta Let_def intro!: plan_ok_upd_blade split: option.split)

lemma plan_ok_provisionStatus: "plan_ok a \<Longrightarrow> plan_ok (hProvisionStatus a t serial phase n err note)"
proof -
  assume "plan_ok a"
  then have "plan_ok (finishWipe a serial)"
    unfolding finishWipe_def by (rule plan_ok_clear_blade) (simp_all add: position_def)
  moreover from \<open>plan_ok a\<close> have "plan_ok (upd_blade a serial (\<lambda>b. b\<lparr>b_state := ''enrolled'',
      b_install_state := InstallDone, b_installed_at := stamp_of t\<rparr>))"
    by (rule plan_ok_upd_blade) (simp_all add: position_def)
  moreover from \<open>plan_ok a\<close> have "plan_ok (upd_blade a serial (\<lambda>b. b\<lparr>b_state := ''error''\<rparr>))"
    by (rule plan_ok_upd_blade) simp_all
  ultimately have "plan_ok (status_effect a t serial phase e msg)" for e msg
    using \<open>plan_ok a\<close> by (simp add: status_effect_def)
  with \<open>plan_ok a\<close> show ?thesis by (simp add: hProvisionStatus_def Let_def case_prod_beta)
qed

lemma plan_ok_choose: "plan_ok a \<Longrightarrow> plan_ok (chooseImage a t mac im)"
  by (auto simp: chooseImage_def Let_def position_def intro!: plan_ok_upd_where)

lemma plan_ok_of_result: "plan_ok a \<Longrightarrow> (\<And>a'. r = Inr a' \<Longrightarrow> plan_ok a') \<Longrightarrow> plan_ok (fst (of_result a r n))"
  by (cases r) (simp_all add: of_result_def)

lemma plan_ok_action: "plan_ok a \<Longrightarrow> plan_ok (fst (hBladeAction head_of a t serial kind))"
  using plan_ok_requestInstall [of a head_of t serial] plan_ok_of_result [OF _ plan_ok_reset]
    plan_ok_of_result [OF _ plan_ok_probe] plan_ok_of_result [OF _ plan_ok_cancel]
  unfolding hBladeAction_def
  by (cases "requestInstall head_of a t serial") (simp add: plan_ok_shutdown split: option.split)

lemma plan_ok_delete: "plan_ok a \<Longrightarrow> plan_ok (fst (hBladeDelete a t serial))"
  unfolding hBladeDelete_def using plan_ok_of_result plan_ok_forget by blast

lemma plan_ok_bladeImage: "plan_ok a \<Longrightarrow> plan_ok (fst (hUIBladeImage head_of a serial im))"
  by (auto simp: hUIBladeImage_def Let_def intro!: plan_ok_upd_blade split: option.split)

lemma plan_ok_wipe: "plan_ok a \<Longrightarrow> plan_ok (fst (hUIBladeWipe a t serial confirm))"
  by (auto simp: hUIBladeWipe_def dest: plan_ok_requestWipe plan_ok_syncDHCP split: option.split sum.split prod.split)

section \<open>Put aside and forgotten\<close>

lemma untaken_none:
  assumes "c \<in> set (a_commands (taken_where a (\<lambda>c. c_serial c = s) (TakenAt n r)))" and "c_serial c = s"
  shows "c_taken c \<noteq> NotTaken"
proof -
  from assms(1) have "c \<in> c_taken_update (\<lambda>_. TakenAt n r) ` set (a_commands a) \<or> (c_serial c = s \<longrightarrow> c_taken c \<noteq> NotTaken)"
    unfolding taken_where_def by (simp add: set_upd_where) blast
  with assms(2) show ?thesis by (elim disjE imageE) simp_all
qed

lemma resetBlade_Inr:
  assumes "resetBlade a t serial = Inr a'"
  obtains b where "get_row (a_blades a) serial = Some b" "b_state b \<noteq> ''provisioning''"
    "a_blades a' = a_blades (upd_blade a serial (put_aside t (hardwareOnly (b_facts b))))"
    "a_commands a' = a_commands (taken_where a (\<lambda>c. c_serial c = serial) (TakenAt (t div nsec) '' (blade reset)''))"
    "a_configs a' = AList.delete (''blade:'' @ serial) (a_configs a)"
    "a_alerts a' = del_where (\<lambda>al. al_serial al = serial) (a_alerts a)"
    "a_samples a' = a_samples a" "\<exists>e. a_events a' = a_events a @ [e]"
proof -
  from assms obtain b where "get_row (a_blades a) serial = Some b"
    by (auto simp: resetBlade_def getBlade_def split: option.splits)
  with assms show thesis
    by (intro that [of b])
       (auto simp: resetBlade_def getBlade_def Let_def keep upd_blade_def taken_where_def clearAlert_def logEvent_def
         split: if_splits)
qed

text \<open>A blade that is put aside stands nowhere, has nothing armed and no name, keeps its serial
  number, its token, its MAC address, the facts that describe its hardware and nothing else of
  its facts; its configuration and its alert are gone, no command waits for it, its
  measurements and the log stay, and no other blade is touched.\<close>

theorem resetBlade_spec:
  assumes "resetBlade a t serial = Inr a'"
  shows "(\<exists>b b'. get_row (a_blades a) serial = Some b \<and> get_row (a_blades a') serial = Some b'
      \<and> position b' = None \<and> b_hostname b' = [] \<and> b_install_state b' = InstallIdle \<and> b_stored b' = stamp_of t
      \<and> b_serial b' = serial \<and> b_token b' = b_token b \<and> b_mac b' = b_mac b
      \<and> (\<forall>k. map_of (obj_of (b_facts b')) k = (if k \<in> set hardwareKeys then map_of (obj_of (b_facts b)) k else None)))
    \<and> (\<forall>k. k \<noteq> serial \<longrightarrow> get_row (a_blades a') k = get_row (a_blades a) k)
    \<and> map_of (a_configs a') (''blade:'' @ serial) = None \<and> get_alert (a_alerts a') serial = None
    \<and> (\<forall>c\<in>set (a_commands a'). c_serial c = serial \<longrightarrow> c_taken c \<noteq> NotTaken)
    \<and> a_samples a' = a_samples a \<and> (\<exists>e. a_events a' = a_events a @ [e])"
proof -
  from assms obtain b where r: "get_row (a_blades a) serial = Some b" "b_state b \<noteq> ''provisioning''"
    "a_blades a' = a_blades (upd_blade a serial (put_aside t (hardwareOnly (b_facts b))))"
    "a_commands a' = a_commands (taken_where a (\<lambda>c. c_serial c = serial) (TakenAt (t div nsec) '' (blade reset)''))"
    "a_configs a' = AList.delete (''blade:'' @ serial) (a_configs a)"
    "a_alerts a' = del_where (\<lambda>al. al_serial al = serial) (a_alerts a)"
    "a_samples a' = a_samples a" "\<exists>e. a_events a' = a_events a @ [e]"
    by (rule resetBlade_Inr)
  have get: "get_row (a_blades a') k = (if k = serial then Some (put_aside t (hardwareOnly (b_facts b)) b)
      else get_row (a_blades a) k)" for k
    unfolding r(3) using r(1) by (subst get_upd_blade) (simp_all add: put_aside_def)
  have "b_serial b = serial" using blades.get_SomeD [OF r(1)] by simp
  then show ?thesis
    using r(1,7,8) untaken_none [of _ a serial]
    by (simp add: get r(4-6) put_aside_def position_def map_of_hardwareOnly AList.delete_conv alerts.get_None_iff
        set_del_where image_iff) blast
qed

theorem resetBlade_spec_witness:
  "\<exists>a'. resetBlade demo 0 ''c0ffee01'' = Inr a' \<and> get_alert (a_alerts a') ''c0ffee01'' = None"
proof -
  have "\<exists>a'. resetBlade demo 0 ''c0ffee01'' = Inr a'"
    by (simp add: resetBlade_def getBlade_def get_row_def demo_def demo_blade_def Let_def)
  then show ?thesis using resetBlade_spec [of demo 0 "''c0ffee01''"] by blast
qed

text \<open>A blade is forgotten only when it is known, out of its slot, not armed, not being installed
  and not running; then no table holds a row of it any more, every other row and the log stay.\<close>

theorem forgetBlade_spec:
  "case forgetBlade a t serial of
     Inl e \<Rightarrow> (case get_row (a_blades a) serial of None \<Rightarrow> True
        | Some b \<Rightarrow> (\<exists>r. b_rack_id b = Some r) \<or> b_install_state b \<in> {InstallPending, InstallWipe}
            \<or> b_state b \<in> {''provisioning'', ''online''})
   | Inr a' \<Rightarrow> (case get_row (a_blades a) serial of None \<Rightarrow> False
        | Some b \<Rightarrow> b_rack_id b = None \<and> b_install_state b \<in> {InstallIdle, InstallDone, InstallError}
            \<and> b_state b \<notin> {''provisioning'', ''online''})
       \<and> a_blades a' = filter (\<lambda>b. b_serial b \<noteq> serial) (a_blades a)
       \<and> a_samples a' = filter (\<lambda>m. m_serial m \<noteq> serial) (a_samples a)
       \<and> a_commands a' = filter (\<lambda>c. c_serial c \<noteq> serial) (a_commands a)
       \<and> a_alerts a' = filter (\<lambda>al. al_serial al \<noteq> serial) (a_alerts a)
       \<and> a_netboot a' = filter (\<lambda>n. n_serial n \<noteq> serial) (a_netboot a)
       \<and> map_of (a_configs a') = (map_of (a_configs a))(''blade:'' @ serial := None)
       \<and> (\<exists>e. a_events a' = a_events a @ [e])"
proof (cases "get_row (a_blades a) serial")
  case None
  then show ?thesis by (simp add: forgetBlade_def getBlade_def)
next
  case (Some b)
  have st: "x \<noteq> InstallPending \<and> x \<noteq> InstallWipe \<longleftrightarrow> x \<in> {InstallIdle, InstallDone, InstallError}" for x
    by (cases x) simp_all
  from Some show ?thesis
    using st [of "b_install_state b"]
    by (simp add: forgetBlade_def getBlade_def keep logEvent_def del_where_def delete_conv' flip: not_None_eq)
qed

text \<open>Whoever enrols with the serial number of a blade that is known is handed the token of
  that blade, whatever it says about itself; a new serial gets the new token and an idle row
  that stands nowhere. The request without a serial changes nothing.\<close>

theorem hEnroll_spec:
  "case hEnroll a t newtok serial mac variant of
     (a', None) \<Rightarrow> serial = [] \<and> a' = a
   | (a', Some tok) \<Rightarrow> serial \<noteq> [] \<and> (\<exists>b. get_row (a_blades a') serial = Some b \<and> b_token b = tok
       \<and> (case get_row (a_blades a) serial of
            Some b0 \<Rightarrow> tok = b_token b0 \<and> b_install_state b = b_install_state b0 \<and> position b = position b0
          | None \<Rightarrow> tok = newtok \<and> b_install_state b = InstallIdle \<and> position b = None))"
proof (cases "get_row (a_blades a) serial")
  case None
  then show ?thesis
    by (simp add: hEnroll_def insert_blade_def logEvent_def blades.get_append new_blade_def position_def)
next
  case (Some b)
  moreover from this have "b_serial b = serial" by (auto dest: blades.get_SomeD)
  ultimately show ?thesis
    by (simp add: hEnroll_def get_upd_blade)
qed

end
