(* ===== verification/SiteSync.thy ===== *)
theory SiteSync
  imports Install
begin

text \<open>
  The centre's side of a site (\<^verbatim>\<open>src/server/api.go\<close>, \<^verbatim>\<open>src/server/enroll.go\<close>): the document a site
  realises, the observations and the heartbeat it sends, its token, and how it signs itself
  in with a code. The checksums (\<^verbatim>\<open>sha256\<close> over a marshalled document), the netboot payload on
  the disk, random bytes and fresh tokens are parameters. The theorems: the document holds
  exactly the blades of that site with what is armed for them and no credential of anybody
  else, an unchanged document is not sent twice, and a code signs in one site, once, within
  its hour.
\<close>

section \<open>The document\<close>

record siteBlade =
  sb_serial :: string
  sb_mac :: string
  sb_hostname :: string
  sb_ip :: string
  sb_rack :: string
  sb_slot :: int
  sb_netboot :: bool
  sb_image :: string
  sb_token :: string
  sb_config :: jmap
  sb_config_version :: string
  sb_install_state :: install_state

record siteImage =
  sg_id :: string
  sg_url :: string
  sg_sha256 :: string
  sg_bytes :: int
  sg_local :: string

record payloadFile =
  pf_name :: string
  pf_sha256 :: string
  pf_bytes :: int

record siteBoot =
  bt_boot_img :: string
  bt_sha256 :: string
  bt_version :: string
  bt_cmdline_url :: string
  bt_server_url :: string
  bt_files :: "payloadFile list"

record payloadInfo =
  py_sha256 :: string
  py_version :: string
  py_files :: "payloadFile list"

record siteDoc =
  d_site :: site
  d_blades :: "siteBlade list"
  d_images :: "siteImage list"
  d_boot :: siteBoot
  d_version :: string
  d_produced :: stamp

text \<open>What the version is a checksum of.\<close>

record docContent =
  dc_net :: string
  dc_gw :: string
  dc_dns :: string
  dc_domain :: string
  dc_from :: int
  dc_to :: int
  dc_lease :: string
  dc_blades :: "siteBlade list"
  dc_images :: "siteImage list"
  dc_boot :: siteBoot

text \<open>The parameters: the checksum of a configuration, the checksum of the content, the payload
  on the disk and the server's own address.\<close>

record centre =
  ce_cfg_sum :: "jmap \<Rightarrow> string"
  ce_doc_sum :: "docContent \<Rightarrow> string"
  ce_payload :: payloadInfo
  ce_baseURL :: string

definition in_doc :: "int \<Rightarrow> bview \<Rightarrow> bool" where
  "in_doc k b \<longleftrightarrow> v_site_id b = k \<and> b_rack_id b \<noteq> None \<and> b_slot b \<noteq> None \<and> v_ip b \<noteq> []"

definition netboot_armed :: "instant \<Rightarrow> 'v blade_scheme \<Rightarrow> bool" where
  "netboot_armed t b \<longleftrightarrow> b_install_state b = InstallPending \<or> b_install_state b = InstallWipe \<or> probeArmed t b"

definition siteBlade_of :: "centre \<Rightarrow> app \<Rightarrow> instant \<Rightarrow> bview \<Rightarrow> siteBlade" where
  "siteBlade_of ce a t b =
     (let slot = the (b_slot b); cfg = mergedConfig a b
      in \<lparr>sb_serial = b_serial b, sb_mac = res_mac b slot, sb_hostname = res_host a b slot, sb_ip = v_ip b,
          sb_rack = v_rack_name b, sb_slot = slot, sb_netboot = netboot_armed t b, sb_image = b_image b,
          sb_token = (case get_row (a_blades a) (b_serial b) of None \<Rightarrow> [] | Some r \<Rightarrow> b_token r),
          sb_config = cfg, sb_config_version = ce_cfg_sum ce cfg, sb_install_state = b_install_state b\<rparr>)"

definition listImages :: "app \<Rightarrow> image list" where
  "listImages a = sort_key i_id (a_images a)"

definition siteImage_of :: "image \<Rightarrow> siteImage" where
  "siteImage_of i = \<lparr>sg_id = i_id i, sg_url = i_url i, sg_sha256 = i_sha256 i, sg_bytes = i_bytes i, sg_local = i_local i\<rparr>"

definition boot_of :: "centre \<Rightarrow> siteBoot" where
  "boot_of ce = \<lparr>bt_boot_img = ce_baseURL ce @ ''/boot/boot.img'', bt_sha256 = py_sha256 (ce_payload ce),
     bt_version = py_version (ce_payload ce), bt_cmdline_url = ce_baseURL ce @ ''/boot/cmdline.txt'',
     bt_server_url = ce_baseURL ce, bt_files = py_files (ce_payload ce)\<rparr>"

definition content_of :: "site \<Rightarrow> siteBlade list \<Rightarrow> siteImage list \<Rightarrow> siteBoot \<Rightarrow> docContent" where
  "content_of st bs is bt = \<lparr>dc_net = s_net_base st, dc_gw = s_gateway st, dc_dns = s_dns st, dc_domain = s_domain st,
     dc_from = s_pool_from st, dc_to = s_pool_to st, dc_lease = s_lease st, dc_blades = bs, dc_images = is, dc_boot = bt\<rparr>"

definition siteDesired :: "centre \<Rightarrow> app \<Rightarrow> instant \<Rightarrow> int \<Rightarrow> siteDoc option" where
  "siteDesired ce a t k =
     (case getSite a k of
        None \<Rightarrow> None
      | Some st \<Rightarrow>
          (let here = filter (in_doc k) (listBlades a);
               bs = sort_key sb_ip (map (siteBlade_of ce a t) here);
               want = b_image ` {b \<in> set here. b_image b \<noteq> []};
               is = map siteImage_of (filter (\<lambda>i. i_id i \<in> want) (listImages a))
           in Some \<lparr>d_site = st\<lparr>s_token := []\<rparr>, d_blades = bs, d_images = is, d_boot = boot_of ce,
                d_version = ce_doc_sum ce (content_of st bs is (boot_of ce)), d_produced = stamp_of t\<rparr>))"

section \<open>The three endpoints\<close>

datatype 'd reply = Denied nat | NotModified | Answer 'd

definition upd_site :: "app \<Rightarrow> int \<Rightarrow> (site \<Rightarrow> site) \<Rightarrow> app" where
  "upd_site a k f = a\<lparr>a_sites := upd_where (\<lambda>r. s_id r = k) f (a_sites a)\<rparr>"

definition hSiteDesired :: "centre \<Rightarrow> app \<Rightarrow> instant \<Rightarrow> string \<Rightarrow> int \<Rightarrow> string \<Rightarrow> app \<times> siteDoc reply" where
  "hSiteDesired ce a t header k match =
     (if \<not> requireSite a header k then (a, Denied 401)
      else case siteDesired ce a t k of
             None \<Rightarrow> (a, Denied 404)
           | Some d \<Rightarrow>
               if match \<noteq> [] \<and> match = d_version d then (touchSite a t k, NotModified)
               else (upd_site (touchSite a t k) k (\<lambda>r. r\<lparr>s_desired_at := stamp_of t\<rparr>), Answer d))"

record siteEvent =
  ev_ts :: stamp
  ev_serial :: string
  ev_level :: string
  ev_msg :: string
  ev_stage :: string
  ev_mac :: string
  ev_ip :: string

definition take_event :: "int \<Rightarrow> instant \<Rightarrow> siteEvent \<Rightarrow> app \<Rightarrow> app" where
  "take_event k t e a =
     (if ev_stage e \<noteq> [] \<and> ev_mac e \<noteq> [] then
        upd_session (touchNetboot a t (ev_mac e) (ev_ip e) (ev_stage e) (ev_msg e))
          (\<lambda>n. n_mac n = ev_mac e) (\<lambda>n. n\<lparr>n_site_id := k\<rparr>)
      else logEventAt a t (ev_serial e) (if ev_level e = [] then ''info'' else ev_level e)
             (''site: '' @ ev_msg e) (ev_ts e))"

definition hSiteEvents :: "app \<Rightarrow> instant \<Rightarrow> string \<Rightarrow> int \<Rightarrow> siteEvent list \<Rightarrow> app \<times> nat" where
  "hSiteEvents a t header k es =
     (if \<not> requireSite a header k then (a, 401)
      else (touchSite (fold (take_event k t) es a) t k, 200))"

text \<open>The heartbeat; \<open>hs_clock\<close> is the site's own clock where it could be read, the text of the
  difference is the parameter \<open>skew_text\<close>.\<close>

record heartbeat =
  hs_version :: string
  hs_clock :: stamp
  hs_note :: string
  hs_payload :: string
  hs_relay_url :: string
  hs_stock :: "(string \<times> string \<times> int \<times> string) list option"
  hs_trouble :: string

definition clock_off :: "instant \<Rightarrow> stamp \<Rightarrow> bool" where
  "clock_off t c = (case c of None \<Rightarrow> False | Some s \<Rightarrow> since t s > int (minutes 1) \<or> since t s < - int (minutes 1))"

definition hSiteStatus :: "(instant \<Rightarrow> stamp \<Rightarrow> string) \<Rightarrow> app \<Rightarrow> instant \<Rightarrow> string \<Rightarrow> int \<Rightarrow> heartbeat \<Rightarrow> app \<times> nat" where
  "hSiteStatus skew_text a t header k hb =
     (if \<not> requireSite a header k then (a, 401)
      else
        (let a1 = recordSiteTrouble a t k (trim_space (hs_trouble hb));
             a2 = recordSiteSelf a1 k (trim_space (hs_payload hb)) (hs_version hb) (trim_space (hs_relay_url hb));
             a3 = (case hs_stock hb of None \<Rightarrow> a2 | Some ins \<Rightarrow> recordSiteImages a2 t k ins);
             a4 = touchSite a3 t k;
             skew = (if clock_off t (hs_clock hb) then '' (clock off by '' @ skew_text t (hs_clock hb) @ '')'' else [])
         in (if hs_note hb \<noteq> [] \<or> skew \<noteq> []
             then logEvent a4 t [] ''info'' (''site '' @ show_int k @ '': '' @ hs_note hb @ skew) else a4, 200)))"

definition hSiteToken :: "app \<Rightarrow> instant \<Rightarrow> string \<Rightarrow> int \<Rightarrow> app \<times> string" where
  "hSiteToken a t tok k =
     (logEvent (upd_site a k (\<lambda>r. r\<lparr>s_token := tok\<rparr>)) t [] ''warn'' (''site '' @ show_int k @ '': token issued''), tok)"

section \<open>Signing in with a code\<close>

definition enrollWindow :: nat where "enrollWindow = hours 1"

definition enrollAlphabet :: string where
  "enrollAlphabet = ''ABCDEFGHJKLMNPQRSTUVWXYZ23456789''"

text \<open>Three groups of four; the bytes are what the random source gave.\<close>

fun code_chars :: "nat \<Rightarrow> nat list \<Rightarrow> string" where
  "code_chars i [] = []"
| "code_chars i (v # vs) =
     (if i > 0 \<and> i mod 4 = 0 then ''-'' else []) @ [enrollAlphabet ! (v mod length enrollAlphabet)] @ code_chars (Suc i) vs"

definition newEnrollCode :: "nat list \<Rightarrow> string" where
  "newEnrollCode bytes = code_chars 0 bytes"

definition normaliseCode :: "string \<Rightarrow> string" where
  "normaliseCode s = filter (\<lambda>c. is_upper c \<or> is_digit c) (upper (trim_space s))"

definition makeEnrollCode :: "app \<Rightarrow> instant \<Rightarrow> nat list \<Rightarrow> int \<Rightarrow> (app \<times> string) option" where
  "makeEnrollCode a t bytes k =
     (case getSite a k of
        None \<Rightarrow> None
      | Some st \<Rightarrow>
          (let code = newEnrollCode bytes
           in Some (logEvent (upd_site a k (\<lambda>r. r\<lparr>s_enroll_code := code, s_enroll_until := stamp_of (t + enrollWindow)\<rparr>))
                t [] ''warn'' (''site '' @ show_int k @ '' ('' @ s_name st @ ''): enrollment code issued, valid for one hour''),
               code)))"

definition clearEnrollCode :: "app \<Rightarrow> int \<Rightarrow> app" where
  "clearEnrollCode a k = upd_site a k (\<lambda>r. r\<lparr>s_enroll_code := [], s_enroll_until := None\<rparr>)"

definition listSites :: "app \<Rightarrow> site list" where
  "listSites a = sort_key s_id (a_sites a)"

definition code_expired :: "instant \<Rightarrow> site \<Rightarrow> bool" where
  "code_expired t st = (case s_enroll_until st of None \<Rightarrow> True | Some u \<Rightarrow> since t u > 0)"

text \<open>The answer carries the site and its token; the host is what the site calls itself, or
  where the request came from.\<close>

definition hSiteEnroll :: "app \<Rightarrow> instant \<Rightarrow> string \<Rightarrow> string \<Rightarrow> string \<Rightarrow> string \<Rightarrow> app \<times> (int \<times> string) reply" where
  "hSiteEnroll a t newtok code0 host remote =
     (let code = normaliseCode code0
      in if code = [] then (a, Denied 400)
         else case find (\<lambda>st. s_enroll_code st \<noteq> [] \<and> normaliseCode (s_enroll_code st) = code) (listSites a) of
                None \<Rightarrow> (a, Denied 403)
              | Some st \<Rightarrow>
                  if code_expired t st then (clearEnrollCode a (s_id st), Denied 403)
                  else (logEvent (upd_site a (s_id st) (\<lambda>r. r\<lparr>s_token := newtok, s_enroll_code := [], s_enroll_until := None\<rparr>))
                          t [] ''warn'' (''site '' @ show_int (s_id st) @ '' ('' @ s_name st @ '') enrolled from ''
                             @ (if host = [] then hd (split_on CHR '':'' remote) else host)),
                        Answer (s_id st, newtok)))"

section \<open>The document is exactly the site\<close>

lemma b_view [simp]:
  "b_serial (view a b) = b_serial b" "b_image (view a b) = b_image b" "b_install_state (view a b) = b_install_state b"
  "b_probe (view a b) = b_probe b"
  by (simp_all)

lemma netboot_view [simp]: "netboot_armed t (view a b) = netboot_armed t b"
  by (simp add: netboot_armed_def probeArmed_def)

lemma siteDesired_Some:
  assumes "siteDesired ce a t k = Some d"
  shows "set (d_blades d) = (\<lambda>b. siteBlade_of ce a t (view a b)) ` {b \<in> set (a_blades a). in_doc k (view a b)}"
    and "set (d_images d) = siteImage_of ` {i \<in> set (a_images a). i_id i \<noteq> [] \<and>
           (\<exists>b\<in>set (a_blades a). in_doc k (view a b) \<and> b_image b = i_id i)}"
    and "s_token (d_site d) = []"
proof -
  obtain st where st: "getSite a k = Some st" using assms by (auto simp: siteDesired_def split: option.splits)
  have d: "d_blades d = sort_key sb_ip (map (siteBlade_of ce a t) (filter (in_doc k) (listBlades a)))"
    "d_images d = map siteImage_of (filter (\<lambda>i. i_id i \<in> b_image ` {b \<in> set (filter (in_doc k) (listBlades a)). b_image b \<noteq> []}) (listImages a))"
    "s_token (d_site d) = []"
    using assms st by (auto simp: siteDesired_def Let_def)
  show "s_token (d_site d) = []" by (rule d)
  show "set (d_blades d) = (\<lambda>b. siteBlade_of ce a t (view a b)) ` {b \<in> set (a_blades a). in_doc k (view a b)}"
    unfolding d by (auto simp: set_listBlades)
  have mem: "i_id i \<in> b_image ` {b \<in> set (listBlades a). in_doc k b \<and> b_image b \<noteq> []} \<longleftrightarrow>
      i_id i \<noteq> [] \<and> (\<exists>b\<in>set (a_blades a). in_doc k (view a b) \<and> b_image b = i_id i)" for i
    by (force simp: set_listBlades)
  show "set (d_images d) = siteImage_of ` {i \<in> set (a_images a). i_id i \<noteq> [] \<and>
           (\<exists>b\<in>set (a_blades a). in_doc k (view a b) \<and> b_image b = i_id i)}"
    unfolding d(2) by (simp add: listImages_def mem conj_assoc)
qed


section \<open>An unchanged document is not sent twice\<close>

text \<open>What a heartbeat writes into the site row is not content.\<close>

definition same_site :: "site \<Rightarrow> site \<Rightarrow> bool" where
  "same_site s r \<longleftrightarrow> s_id r = s_id s \<and> s_name r = s_name s \<and> s_net_base r = s_net_base s \<and> s_gateway r = s_gateway s
     \<and> s_dns r = s_dns s \<and> s_domain r = s_domain s \<and> s_pool_from r = s_pool_from s \<and> s_pool_to r = s_pool_to s
     \<and> s_offset_base r = s_offset_base s \<and> s_offset_step r = s_offset_step s \<and> s_lease r = s_lease s \<and> s_host_prefix r = s_host_prefix s \<and> s_relay_url r = s_relay_url s \<and> s_token r = s_token s"

lemma getSite_upd_site:
  "(\<And>r. s_id (f r) = s_id r) \<Longrightarrow> getSite (upd_site a k f) j = (if j = k then map_option f (getSite a k) else getSite a j)"
  by (simp add: getSite_def upd_site_def sites.get_upd)

lemma upd_site_frame [simp]:
  "a_blades (upd_site a k f) = a_blades a" "a_racks (upd_site a k f) = a_racks a" "a_images (upd_site a k f) = a_images a"
  "a_configs (upd_site a k f) = a_configs a"
  by (simp_all add: upd_site_def)

lemma touchSite_upd: "touchSite a t k = upd_site a k (\<lambda>r. r\<lparr>s_last_seen := stamp_of t\<rparr>)"
  by (simp add: touchSite_def upd_site_def)

lemma content_same:
  assumes "\<And>r. same_site r (f r)"
  shows "view (upd_site a k f) = view a" and "mergedConfig (upd_site a k f) = mergedConfig a"
    and "hostPrefix (upd_site a k f) = hostPrefix a"
proof -
  have g: "getSite (upd_site a k f) j = (if j = k then map_option f (getSite a k) else getSite a j)" for j
    using assms by (intro getSite_upd_site) (simp add: same_site_def)
  have "siteNets (upd_site a k f) = siteNets a"
    using assms by (intro ext) (auto simp: siteNets_def g option.map_comp comp_def same_site_def cong: map_option_cong)
  moreover have ix: "rackIndex (upd_site a k f) = rackIndex a"
    using assms by (intro ext) (auto simp: rackIndex_def g same_site_def split: option.split)
  ultimately show "view (upd_site a k f) = view a"
    using getRack_cong [of "upd_site a k f" a] ix by (intro ext) (simp add: view_def)
  have u: "siteRelayURL (upd_site a k f) j = siteRelayURL a j" for j
    using assms by (auto simp: siteRelayURL_def g same_site_def split: option.split)
  show "mergedConfig (upd_site a k f) = mergedConfig a"
    by (intro ext) (simp add: mergedConfig_def scope_map_def configFor_def u cong: fold_cong)
  show "hostPrefix (upd_site a k f) = hostPrefix a"
    using assms by (intro ext) (auto simp: hostPrefix_def g same_site_def split: option.split)
qed

lemma siteDesired_upd_site:
  assumes "\<And>r. same_site r (f r)" and "\<And>b. b \<in> set (a_blades a) \<Longrightarrow> probeArmed t' b = probeArmed t b"
    and "siteDesired ce a t k = Some d"
  shows "\<exists>d'. siteDesired ce (upd_site a k f) t' k = Some d' \<and> d_version d' = d_version d"
proof -
  obtain st where st: "getSite a k = Some st" using assms(3) by (auto simp: siteDesired_def split: option.splits)
  note c = content_same [OF assms(1), of a k]
  have st': "getSite (upd_site a k f) k = Some (f st)"
    using assms(1) st by (simp add: getSite_upd_site same_site_def)
  have l: "listBlades (upd_site a k f) = listBlades a" by (simp add: listBlades_def c)
  have "siteBlade_of ce (upd_site a k f) t' b = siteBlade_of ce a t b" if "b \<in> set (listBlades a)" for b
  proof -
    from that obtain b0 where "b0 \<in> set (a_blades a)" "b = view a b0" by (auto simp: set_listBlades)
    then have "netboot_armed t' b = netboot_armed t b"
      using assms(2) [of b0] netboot_armed_def [of _ b0] by (simp only: netboot_view)
    then show ?thesis by (simp add: siteBlade_of_def c res_host_def Let_def)
  qed
  then have m: "map (siteBlade_of ce (upd_site a k f) t') (filter (in_doc k) (listBlades a))
      = map (siteBlade_of ce a t) (filter (in_doc k) (listBlades a))" by simp
  have "content_of (f st) x y z = content_of st x y z" for x y z
    using assms(1) by (simp add: content_of_def same_site_def)
  then show ?thesis using assms(3) st st' by (auto simp: siteDesired_def l m listImages_def Let_def)
qed

text \<open>A site that has a document and asks again is told that nothing changed, as long as nothing
  did: being handed the document and checking in are not themselves a change.\<close>

theorem hSiteDesired_unchanged:
  assumes "hSiteDesired ce a t header k match = (a', Answer d)" and "d_version d \<noteq> []"
    and "\<forall>b\<in>set (a_blades a). b_probe b = None"
  shows "\<exists>a''. hSiteDesired ce a' t' header k (d_version d) = (a'', NotModified)"
proof -
  let ?f = "\<lambda>r. r\<lparr>s_last_seen := stamp_of t, s_desired_at := stamp_of t\<rparr>"
  have twice: "upd_site (upd_site a k f) k g = upd_site a k (\<lambda>r. g (f r))" if "\<And>r. s_id (f r) = s_id r" for f g
    using that by (simp add: upd_site_def upd_where_def)
  from assms(1) have ok: "requireSite a header k" and d: "siteDesired ce a t k = Some d" and a': "a' = upd_site a k ?f"
    by (auto simp: hSiteDesired_def touchSite_upd twice split: if_splits option.splits)
  have same: "same_site r (?f r)" for r by (simp add: same_site_def)
  have "probeArmed t' b = probeArmed t b" if "b \<in> set (a_blades a)" for b
    using assms(3) that by (simp add: probeArmed_def)
  from siteDesired_upd_site [OF same this d] obtain d' where
    "siteDesired ce a' t' k = Some d'" "d_version d' = d_version d" unfolding a' by blast
  moreover have "requireSite a' header k"
    using ok unfolding a' by (simp add: requireSite_def getSite_upd_site split: option.splits)
  ultimately show ?thesis using assms(2) by (simp add: hSiteDesired_def)
qed

text \<open>A centre for the concrete instances.\<close>

definition demo_centre :: centre where
  "demo_centre = \<lparr>ce_cfg_sum = (\<lambda>_. ''c''), ce_doc_sum = (\<lambda>_. ''v''),
     ce_payload = \<lparr>py_sha256 = [], py_version = [], py_files = []\<rparr>, ce_baseURL = ''http://c''\<rparr>"

lemma demo_desired: "\<exists>d. siteDesired demo_centre demo 0 1 = Some d"
  by (simp add: siteDesired_def getSite_def get_site_def demo_def demo_site_def Let_def)


theorem hSiteDesired_unchanged_witness:
  "\<exists>a' d a''. hSiteDesired demo_centre demo 0 ''Bearer tok'' 1 [] = (a', Answer d)
     \<and> hSiteDesired demo_centre a' 5 ''Bearer tok'' 1 (d_version d) = (a'', NotModified)"
proof -
  have "requireSite demo ''Bearer tok'' 1"
    by (simp add: requireSite_def getSite_def get_site_def demo_def demo_site_def trim_prefix_def has_prefix_def)
  moreover obtain d where d: "siteDesired demo_centre demo 0 1 = Some d" using demo_desired by blast
  ultimately obtain a' where h: "hSiteDesired demo_centre demo 0 ''Bearer tok'' 1 [] = (a', Answer d)"
    by (simp add: hSiteDesired_def)
  have "d_version d = ''v''" using d by (auto simp: siteDesired_def demo_centre_def Let_def split: option.splits)
  then have "d_version d \<noteq> []" by simp
  moreover have "\<forall>b\<in>set (a_blades demo). b_probe b = None" by (simp add: demo_def demo_blade_def)
  ultimately show ?thesis using hSiteDesired_unchanged [OF h] h by blast
qed

section \<open>A code signs in one site, once\<close>

lemma find_listSites:
  "find P (listSites a) = Some st \<Longrightarrow> distinct (map s_id (a_sites a)) \<Longrightarrow> P st \<and> getSite a (s_id st) = Some st"
  using find_SomeD [of P "listSites a" st] by (auto simp: listSites_def getSite_def intro: sites.get_mem)

lemma getSite_log [simp]: "getSite (logEvent a t s l m) k = getSite a k"
  by (simp add: getSite_def)

text \<open>Signing in with a code succeeds only for a site whose pending code it is, however it was
  typed, and within the hour; that site then has the new token and no code any more, and no
  other site changes. Used again the code is refused, as long as no other site holds the same.\<close>

theorem hSiteEnroll_once:
  assumes "distinct (map s_id (a_sites a))" and "hSiteEnroll a t newtok typed host remote = (a', Answer (k, tok))"
  shows "tok = newtok \<and> (\<exists>st. getSite a k = Some st \<and> s_enroll_code st \<noteq> []
      \<and> normaliseCode typed = normaliseCode (s_enroll_code st) \<and> \<not> code_expired t st
      \<and> getSite a' k = Some (st\<lparr>s_token := newtok, s_enroll_code := [], s_enroll_until := None\<rparr>))
    \<and> (\<forall>j. j \<noteq> k \<longrightarrow> getSite a' j = getSite a j)
    \<and> ((\<forall>j st. j \<noteq> k \<longrightarrow> getSite a j = Some st \<longrightarrow> normaliseCode (s_enroll_code st) \<noteq> normaliseCode typed) \<longrightarrow>
         snd (hSiteEnroll a' t' newtok' typed host' remote') = Denied 403)"
proof -
  let ?P = "\<lambda>st. s_enroll_code st \<noteq> [] \<and> normaliseCode (s_enroll_code st) = normaliseCode typed"
  from assms(2) obtain st where f: "find ?P (listSites a) = Some st" and ne: "normaliseCode typed \<noteq> []"
    and ex: "\<not> code_expired t st" and k: "k = s_id st" "tok = newtok"
    and a': "a' = logEvent (upd_site a (s_id st) (\<lambda>r. r\<lparr>s_token := newtok, s_enroll_code := [], s_enroll_until := None\<rparr>))
                          t [] ''warn'' (''site '' @ show_int (s_id st) @ '' ('' @ s_name st @ '') enrolled from ''
                             @ (if host = [] then hd (split_on CHR '':'' remote) else host))"
    by (auto simp: hSiteEnroll_def Let_def split: if_splits option.splits)
  from find_listSites [OF f assms(1)] k have st: "?P st" "getSite a k = Some st" by simp_all
  have new: "getSite a' j = (if j = k then Some (st\<lparr>s_token := newtok, s_enroll_code := [], s_enroll_until := None\<rparr>)
      else getSite a j)" for j
    unfolding a' using st(2) k(1) by (simp add: getSite_upd_site)
  have d': "distinct (map s_id (a_sites a'))"
    unfolding a' using assms(1) by (simp add: upd_site_def sites.keys_upd)
  have "snd (hSiteEnroll a' t' newtok' typed host' remote') = Denied 403"
    if oth: "\<forall>j st. j \<noteq> k \<longrightarrow> getSite a j = Some st \<longrightarrow> normaliseCode (s_enroll_code st) \<noteq> normaliseCode typed"
  proof -
    have "find ?P (listSites a') = None"
    proof (rule ccontr)
      assume "find ?P (listSites a') \<noteq> None"
      then obtain x where "find ?P (listSites a') = Some x" by blast
      from find_listSites [OF this d'] have "?P x" "getSite a' (s_id x) = Some x" by simp_all
      with oth new [of "s_id x"] show False by (auto split: if_splits)
    qed
    then show ?thesis using ne by (simp add: hSiteEnroll_def)
  qed
  with k ex st new show ?thesis by auto
qed

text \<open>What a person does to a code between the screen and the terminal.\<close>

definition code_char :: "char \<Rightarrow> bool" where
  "code_char c \<longleftrightarrow> c = CHR ''-'' \<or> is_upper c \<or> is_digit c"

lemma alphabet_char: "v < 32 \<Longrightarrow> is_upper (enrollAlphabet ! v) \<or> is_digit (enrollAlphabet ! v)"
proof -
  have "list_all (\<lambda>c. is_upper c \<or> is_digit c) enrollAlphabet"
    by (simp add: enrollAlphabet_def is_upper_def is_digit_def code_def)
  moreover have "length enrollAlphabet = 32" by (simp add: enrollAlphabet_def)
  ultimately show "v < 32 \<Longrightarrow> ?thesis" by (simp add: list_all_length)
qed

lemma length_alphabet: "length enrollAlphabet = 32"
  by (simp add: enrollAlphabet_def)

lemma code_chars_code: "list_all code_char (code_chars i vs)"
  by (induction vs arbitrary: i) (use alphabet_char in \<open>auto simp: code_char_def length_alphabet\<close>)

lemma code_chars_letter: "vs \<noteq> [] \<Longrightarrow> \<exists>c\<in>set (code_chars i vs). is_upper c \<or> is_digit c"
  using alphabet_char by (cases vs) (auto simp: length_alphabet)

lemma code_char_facts:
  assumes "code_char c"
  shows "\<not> is_space c" "\<not> is_space (to_lower c)" "to_upper c = c" "to_upper (to_lower c) = c"
    "is_upper c \<or> is_digit c \<longleftrightarrow> c \<noteq> CHR ''-''"
proof -
  have "c = CHR ''-'' \<or> (65 \<le> code c \<and> code c \<le> 90) \<or> (48 \<le> code c \<and> code c \<le> 57)"
    using assms by (auto simp: code_char_def is_upper_def is_digit_def)
  then show "\<not> is_space c" "\<not> is_space (to_lower c)" "to_upper c = c" "to_upper (to_lower c) = c"
    "is_upper c \<or> is_digit c \<longleftrightarrow> c \<noteq> CHR ''-''"
    by (auto simp: is_space_def to_lower_def to_upper_def is_upper_def is_lower_def is_digit_def code_def)
qed

lemma trim_space_none:
  assumes "list_all (\<lambda>c. \<not> is_space c) s"
  shows "trim_space s = s"
proof -
  have "takeWhile is_space x = []" if "set x = set s" for x
    using assms that by (cases x) (auto simp: list_all_iff)
  then have "dropWhile is_space x = x" if "set x = set s" for x
    using that takeWhile_dropWhile_id [of is_space x] by simp
  then show ?thesis by (simp add: trim_space_def)
qed

lemma normalise_code:
  assumes "list_all code_char s"
  shows "normaliseCode s = filter (\<lambda>c. c \<noteq> CHR ''-'') s" and "normaliseCode (lower s) = filter (\<lambda>c. c \<noteq> CHR ''-'') s"
proof -
  have "trim_space s = s" "trim_space (lower s) = lower s"
    using assms code_char_facts(1,2) by (auto intro!: trim_space_none simp: list_all_iff lower_def)
  moreover have "upper s = s" "upper (lower s) = s"
    using assms code_char_facts(3,4) by (auto intro!: map_idI simp: list_all_iff upper_def lower_def comp_def)
  moreover have "filter (\<lambda>c. is_upper c \<or> is_digit c) s = filter (\<lambda>c. c \<noteq> CHR ''-'') s"
    using assms code_char_facts(5) by (auto intro!: filter_cong simp: list_all_iff)
  ultimately show "normaliseCode s = filter (\<lambda>c. c \<noteq> CHR ''-'') s" "normaliseCode (lower s) = filter (\<lambda>c. c \<noteq> CHR ''-'') s"
    by (simp_all add: normaliseCode_def)
qed

text \<open>A code that was issued signs its site in when it is typed as shown, in lower case or
  without the dashes, at any moment of the following hour, as long as no other site holds a
  code that reads the same.\<close>

theorem enroll_code_works:
  assumes "distinct (map s_id (a_sites a))" and "makeEnrollCode a t bytes k = Some (a', c)" and "bytes \<noteq> []"
    and "typed \<in> {c, lower c, filter (\<lambda>x. x \<noteq> CHR ''-'') c}" and "t' \<le> t + enrollWindow - nsec"
    and "\<forall>j st. j \<noteq> k \<longrightarrow> getSite a j = Some st \<longrightarrow> normaliseCode (s_enroll_code st) \<noteq> normaliseCode c"
  shows "snd (hSiteEnroll a' t' newtok typed host remote) = Answer (k, newtok)"
proof -
  from assms(2) obtain st where st: "getSite a k = Some st" and c: "c = newEnrollCode bytes"
    and a': "a' = logEvent (upd_site a k (\<lambda>r. r\<lparr>s_enroll_code := c, s_enroll_until := stamp_of (t + enrollWindow)\<rparr>))
                t [] ''warn'' (''site '' @ show_int k @ '' ('' @ s_name st @ ''): enrollment code issued, valid for one hour'')"
    by (auto simp: makeEnrollCode_def Let_def split: option.splits)
  have cc: "list_all code_char c" by (simp add: c newEnrollCode_def code_chars_code)
  have ne: "normaliseCode c \<noteq> []" and cne: "c \<noteq> []"
  proof -
    obtain x where x: "x \<in> set c" "is_upper x \<or> is_digit x"
      using code_chars_letter [OF assms(3), of 0] by (auto simp: c newEnrollCode_def)
    moreover have "code_char x" using cc x(1) by (simp add: list_all_iff)
    ultimately have "x \<in> set (normaliseCode c)" using code_char_facts(5) by (simp add: normalise_code(1) [OF cc])
    then show "normaliseCode c \<noteq> []" by auto
    show "c \<noteq> []" using x(1) by auto
  qed
  have ty: "normaliseCode typed = normaliseCode c"
  proof -
    have "list_all code_char (filter (\<lambda>x. x \<noteq> CHR ''-'') c)" using cc by (auto simp: list_all_iff)
    with assms(4) cc show ?thesis by (auto simp: normalise_code)
  qed
  have new: "getSite a' j = (if j = k then Some (st\<lparr>s_enroll_code := c, s_enroll_until := stamp_of (t + enrollWindow)\<rparr>)
      else getSite a j)" for j
    unfolding a' using st by (simp add: getSite_upd_site)
  let ?P = "\<lambda>st. s_enroll_code st \<noteq> [] \<and> normaliseCode (s_enroll_code st) = normaliseCode typed"
  have d': "distinct (map s_id (a_sites a'))" unfolding a' using assms(1) by (simp add: upd_site_def sites.keys_upd)
  from new [of k] have "st\<lparr>s_enroll_code := c, s_enroll_until := stamp_of (t + enrollWindow)\<rparr> \<in> set (listSites a')"
    using sites.get_SomeD by (auto simp: listSites_def getSite_def)
  then have "find ?P (listSites a') \<noteq> None" 
    using ty cne by (auto simp: find_None_iff_all intro!: bexI [of _ "st\<lparr>s_enroll_code := c, s_enroll_until := stamp_of (t + enrollWindow)\<rparr>"])
  then obtain x where x: "find ?P (listSites a') = Some x" by blast
  from find_listSites [OF x d'] have "?P x" "getSite a' (s_id x) = Some x" by simp_all
  with assms(6) new [of "s_id x"] ty have "s_id x = k" by (auto split: if_splits)
  with \<open>getSite a' (s_id x) = Some x\<close> new [of k]
  have xs: "x = st\<lparr>s_enroll_code := c, s_enroll_until := stamp_of (t + enrollWindow)\<rparr>" by simp
  have "\<not> code_expired t' x"
  proof -
    have "t + enrollWindow < ((t + enrollWindow) div nsec) * nsec + nsec"
      using dividend_less_div_times [of nsec "t + enrollWindow"] by (simp add: add.commute)
    with assms(5) have "t' \<le> ((t + enrollWindow) div nsec) * nsec" by simp
    then have "int t' \<le> int ((t + enrollWindow) div nsec) * int nsec"
      by (metis of_nat_le_iff of_nat_mult)
    then show ?thesis by (simp add: xs code_expired_def since_def stamp_of_def)
  qed
  with x \<open>s_id x = k\<close> ne ty show ?thesis by (simp add: hSiteEnroll_def Let_def)
qed

lemma demo_made: "\<exists>a'. makeEnrollCode demo 0 [0, 1] 1 = Some (a', ''AB'')"
  by (simp add: makeEnrollCode_def getSite_def get_site_def demo_def demo_site_def newEnrollCode_def enrollAlphabet_def Let_def)

lemma demo_one_site: "getSite demo j = Some st \<Longrightarrow> j = 1"
  by (auto simp: getSite_def get_site_def demo_def demo_site_def split: if_splits)

theorem enroll_code_works_witness:
  "\<exists>a'. makeEnrollCode demo 0 [0, 1] 1 = Some (a', ''AB'')
     \<and> snd (hSiteEnroll a' 7 ''new'' (lower ''AB'') ''h'' []) = Answer (1, ''new'')"
proof -
  obtain a' where m: "makeEnrollCode demo 0 [0, 1] 1 = Some (a', ''AB'')" using demo_made by blast
  have "snd (hSiteEnroll a' 7 ''new'' (lower ''AB'') ''h'' []) = Answer (1, ''new'')"
    by (rule enroll_code_works [OF _ m])
       (use demo_one_site in \<open>auto simp: demo_def demo_site_def enrollWindow_def hours_def nsec_def\<close>)
  with m show ?thesis by blast
qed

theorem hSiteEnroll_once_witness:
  "\<exists>a. (\<exists>a' st. hSiteEnroll a 7 ''new'' ''ab'' ''h'' [] = (a', Answer (1, ''new'')) \<and> getSite a' 1 = Some st
        \<and> s_token st = ''new'' \<and> s_enroll_code st = [])"
proof -
  obtain a where m: "makeEnrollCode demo 0 [0, 1] 1 = Some (a, ''AB'')" using demo_made by blast
  then have "snd (hSiteEnroll a 7 ''new'' ''ab'' ''h'' []) = Answer (1, ''new'')"
    by (auto simp: makeEnrollCode_def hSiteEnroll_def listSites_def upd_site_def demo_def demo_site_def normaliseCode_def
        newEnrollCode_def enrollAlphabet_def getSite_def get_site_def upper_def to_upper_def trim_space_def Let_def
        code_expired_def enrollWindow_def stamp_of_def since_def hours_def nsec_def str_simps char_of_def bit_0
        split: option.splits)
  then obtain a' where h: "hSiteEnroll a 7 ''new'' ''ab'' ''h'' [] = (a', Answer (1, ''new''))"
    by (cases "hSiteEnroll a 7 ''new'' ''ab'' ''h'' []") simp
  have "distinct (map s_id (a_sites a))"
    using m by (auto simp: makeEnrollCode_def upd_site_def sites.keys_upd demo_def Let_def split: option.splits)
  from hSiteEnroll_once [OF this h] h show ?thesis by fastforce
qed

end
