(* ===== verification/Buffers.thy ===== *)
theory Buffers
  imports SiteSync "HOL-Library.Sublist" "HOL-Library.Multiset"
begin

text \<open>
  The two buffers of a site (\<^verbatim>\<open>src/site/site.go\<close>, \<^verbatim>\<open>src/site/relay.go\<close>, \<^verbatim>\<open>src/site/spool.go\<close>): what it observed
  itself and what its blades reported while the centre was away, the copy of each on the disk,
  and handing them over. A hand-over takes the buffer, talks to the centre and puts back what
  was not delivered, and the two halves are separate steps, since other goroutines add to the
  buffer, write the copy or start a second hand-over in between. The theorems: what is
  delivered and what waits is what was seen, in order, the oldest being given up only when a
  buffer is full; a restart brings back what the last write of the copy saw; and where the
  interleaving breaks the promise of the comments.
\<close>

section \<open>A buffer that gives up its oldest half\<close>

definition push :: "nat \<Rightarrow> 'e list \<Rightarrow> 'e \<Rightarrow> 'e list" where
  "push cap q e = (if length q \<ge> cap then drop (length q - cap div 2) q else q) @ [e]"

locale bounded_buffer =
  fixes add :: "'e list \<Rightarrow> 'e \<Rightarrow> 'e list" and cap :: nat
  assumes add_suffix: "suffix (add q e) (q @ [e])"
    and add_all: "length q < cap \<Longrightarrow> add q e = q @ [e]"
    and add_bound: "length q \<le> cap \<Longrightarrow> length (add q e) \<le> cap"
begin

lemma fold_bound: "length q \<le> cap \<Longrightarrow> length (fold (\<lambda>e q. add q e) es q) \<le> cap"
  by (induction es arbitrary: q) (simp_all add: add_bound)

lemma fold_all: "length q + length es \<le> cap \<Longrightarrow> fold (\<lambda>e q. add q e) es q = q @ es"
  by (induction es arbitrary: q) (simp_all add: add_all)

lemma add_subseq: "subseq (xs @ q) seen \<Longrightarrow> subseq (xs @ add q e) (seen @ [e])"
proof -
  assume "subseq (xs @ q) seen"
  then have "subseq (xs @ q @ [e]) (seen @ [e])" by (simp flip: append_assoc)
  moreover have "subseq (xs @ add q e) (xs @ q @ [e])"
    by (intro list_emb_append_mono subseq_order.order_refl suffix_imp_subseq add_suffix)
  ultimately show ?thesis by (rule subseq_order.order_trans [rotated])
qed

end

lemma push_laws:
  assumes "2 \<le> cap"
  shows "suffix (push cap q e) (q @ [e])" and "length q < cap \<Longrightarrow> push cap q e = q @ [e]"
    and "length q \<le> cap \<Longrightarrow> length (push cap q e) \<le> cap"
proof -
  show "suffix (push cap q e) (q @ [e])"
    by (auto simp: push_def suffix_def intro: exI [of _ "take (length q - cap div 2) q"])
  show "length q < cap \<Longrightarrow> push cap q e = q @ [e]" by (simp add: push_def)
  show "length q \<le> cap \<Longrightarrow> length (push cap q e) \<le> cap"
    using assms by (auto simp: push_def)
qed

section \<open>The copy on the disk\<close>

text \<open>\<open>q_flying\<close> are the hand-overs under way, \<open>q_sent\<close> is what the centre has taken.\<close>

record 'e buffer =
  q_queue :: "'e list"
  q_flying :: "'e list list"
  q_sent :: "'e list"
  q_dirty :: bool
  q_disk :: "'e list"

definition touch :: "'e buffer \<Rightarrow> 'e buffer" where
  "touch s = s\<lparr>q_dirty := True\<rparr>"

text \<open>The flag says whether the file could be replaced.\<close>

definition writeIfDirty :: "bool \<Rightarrow> 'e buffer \<Rightarrow> 'e buffer" where
  "writeIfDirty ok s =
     (if \<not> q_dirty s then s
      else if ok then s\<lparr>q_dirty := False, q_disk := q_queue s\<rparr>
      else touch (s\<lparr>q_dirty := False\<rparr>))"

text \<open>A restart of the service: what is in memory is gone, the file is read.\<close>

definition restart :: "'e buffer \<Rightarrow> 'e buffer" where
  "restart s = s\<lparr>q_queue := q_disk s, q_flying := [], q_dirty := False\<rparr>"

definition empty_buffer :: "'e buffer" where
  "empty_buffer = \<lparr>q_queue = [], q_flying = [], q_sent = [], q_dirty = False, q_disk = []\<rparr>"

section \<open>What the site saw\<close>

definition maxQueued :: nat where "maxQueued = 2000"

definition note_event :: "siteEvent buffer \<Rightarrow> siteEvent \<Rightarrow> siteEvent buffer" where
  "note_event s e = touch (s\<lparr>q_queue := push maxQueued (q_queue s) e\<rparr>)"

definition stageIP :: "siteEvent buffer \<Rightarrow> siteEvent \<Rightarrow> siteEvent buffer" where
  "stageIP s e = touch (s\<lparr>q_queue := q_queue s @ [e]\<rparr>)"

definition flush_take :: "'e buffer \<Rightarrow> 'e buffer" where
  "flush_take s =
     (if q_queue s = [] then s
      else touch (s\<lparr>q_flying := q_flying s @ [q_queue s], q_queue := []\<rparr>))"

text \<open>The end of a hand-over, with the batch, whether the centre took it and whether the file
  could be written.\<close>

definition settle :: "'e list \<Rightarrow> bool \<Rightarrow> bool \<Rightarrow> 'e buffer \<Rightarrow> 'e buffer" where
  "settle batch ok wok s =
     writeIfDirty wok
       (if ok then s\<lparr>q_sent := q_sent s @ batch\<rparr>
        else touch (s\<lparr>q_queue := batch @ q_queue s\<rparr>))"

definition flush_end :: "nat \<Rightarrow> bool \<Rightarrow> bool \<Rightarrow> 'e buffer \<Rightarrow> 'e buffer" where
  "flush_end i ok wok s =
     (if i < length (q_flying s)
      then settle (q_flying s ! i) ok wok (s\<lparr>q_flying := take i (q_flying s) @ drop (Suc i) (q_flying s)\<rparr>) else s)"

text \<open>A hand-over with nothing in between.\<close>

definition flush :: "bool \<Rightarrow> bool \<Rightarrow> 'e buffer \<Rightarrow> 'e buffer" where
  "flush ok wok s = (if q_queue s = [] then s else flush_end (length (q_flying s)) ok wok (flush_take s))"

section \<open>What the blades reported\<close>

record queued =
  k_method :: string
  k_path :: string
  k_body :: string
  k_auth :: string
  k_when :: instant

definition maxPending :: nat where "maxPending = 5000"
definition maxQueuedBody :: nat where "maxQueuedBody = 256 * 1024"

text \<open>A report the centre could not be reached for: kept, or refused when it is too big.\<close>

definition enqueue :: "queued buffer \<Rightarrow> queued \<Rightarrow> queued buffer \<times> nat" where
  "enqueue s r =
     (if length (k_body r) > maxQueuedBody then (s, 503)
      else (touch (s\<lparr>q_queue := push maxPending (q_queue s) r\<rparr>), 202))"

text \<open>What becomes of one delivery: the request cannot even be made, the centre does not answer,
  or it answers, whatever it says.\<close>

datatype fate = Malformed | Away | Answered

fun deliver :: "(queued \<Rightarrow> fate) \<Rightarrow> queued list \<Rightarrow> queued list \<times> queued list" where
  "deliver f [] = ([], [])"
| "deliver f (r # rs) =
     (case f r of
        Malformed \<Rightarrow> deliver f rs
      | Away \<Rightarrow> ([], r # rs)
      | Answered \<Rightarrow> (let (sent, rest) = deliver f rs in (r # sent, rest)))"

definition drain_end :: "nat \<Rightarrow> (queued \<Rightarrow> fate) \<Rightarrow> bool \<Rightarrow> queued buffer \<Rightarrow> queued buffer" where
  "drain_end i f wok s =
     (if i < length (q_flying s)
      then (let (sent, rest) = deliver f (q_flying s ! i);
                s1 = s\<lparr>q_flying := take i (q_flying s) @ drop (Suc i) (q_flying s), q_sent := q_sent s @ sent\<rparr>;
                s2 = (if rest = [] then s1 else touch (s1\<lparr>q_queue := rest @ q_queue s1\<rparr>))
            in writeIfDirty wok s2)
      else s)"

definition drain :: "(queued \<Rightarrow> fate) \<Rightarrow> bool \<Rightarrow> queued buffer \<Rightarrow> queued buffer" where
  "drain f wok s = (if q_queue s = [] then s else drain_end (length (q_flying s)) f wok (flush_take s))"

interpretation events: bounded_buffer "push maxQueued" maxQueued
  by (unfold_locales; rule push_laws; simp add: maxQueued_def)

interpretation reports: bounded_buffer "push maxPending" maxPending
  by (unfold_locales; rule push_laws; simp add: maxPending_def)

section \<open>One hand-over at a time\<close>

lemma buffer_frame [simp]:
  "q_queue (touch s) = q_queue s" "q_flying (touch s) = q_flying s" "q_sent (touch s) = q_sent s" "q_disk (touch s) = q_disk s"
  "q_dirty (touch s)"
  "q_queue (writeIfDirty ok s) = q_queue s" "q_flying (writeIfDirty ok s) = q_flying s" "q_sent (writeIfDirty ok s) = q_sent s"
  by (simp_all add: touch_def writeIfDirty_def)

lemma flush_effect:
  "q_queue (flush ok wok s) = (if ok then [] else q_queue s)" "q_flying (flush ok wok s) = q_flying s"
  "q_sent (flush ok wok s) = (if ok then q_sent s @ q_queue s else q_sent s)"
  by (auto simp: flush_def flush_take_def flush_end_def settle_def nth_append)

datatype site_op = Noted siteEvent | Staged siteEvent | Flushed bool bool | Ticked bool

fun site_do :: "site_op \<Rightarrow> siteEvent buffer \<Rightarrow> siteEvent buffer" where
  "site_do (Noted e) s = note_event s e"
| "site_do (Staged e) s = stageIP s e"
| "site_do (Flushed ok wok) s = flush ok wok s"
| "site_do (Ticked wok) s = writeIfDirty wok s"

fun seen :: "site_op \<Rightarrow> siteEvent list" where
  "seen (Noted e) = [e]" | "seen (Staged e) = [e]" | "seen _ = []"

lemma empty_buffer_simps [simp]:
  "q_queue empty_buffer = []" "q_flying empty_buffer = []" "q_sent empty_buffer = []" "q_disk empty_buffer = []"
  "\<not> q_dirty empty_buffer"
  by (simp_all add: empty_buffer_def)


section \<open>Hand-overs that overlap\<close>

datatype overlap = AddNote siteEvent | AddStage siteEvent | Begin | End nat bool bool | Write bool

fun site_step :: "overlap \<Rightarrow> siteEvent buffer \<Rightarrow> siteEvent buffer" where
  "site_step (AddNote e) s = note_event s e"
| "site_step (AddStage e) s = stageIP s e"
| "site_step Begin s = flush_take s"
| "site_step (End i ok wok) s = flush_end i ok wok s"
| "site_step (Write wok) s = writeIfDirty wok s"

fun seen_step :: "overlap \<Rightarrow> siteEvent list" where
  "seen_step (AddNote e) = [e]" | "seen_step (AddStage e) = [e]" | "seen_step _ = []"

definition held :: "'e buffer \<Rightarrow> 'e multiset" where
  "held s = mset (q_sent s) + mset (concat (q_flying s)) + mset (q_queue s)"

lemma held_end: "held (flush_end i ok wok s) = held s"
proof (cases "i < length (q_flying s)")
  case True
  then have "mset (concat (q_flying s)) = mset (concat (take i (q_flying s) @ drop (Suc i) (q_flying s))) + mset (q_flying s ! i)"
    by (subst id_take_nth_drop [OF True]) simp
  with True show ?thesis by (simp add: flush_end_def settle_def held_def)
qed (simp add: flush_end_def)

lemma held_take: "held (flush_take s) = held s"
  by (simp add: flush_take_def held_def)

lemma mset_suffix: "suffix xs ys \<Longrightarrow> mset xs \<subseteq># mset ys"
  by (auto simp: suffix_def)

lemma held_note: "held (note_event s e) \<subseteq># held s + {#e#}"
  using mset_suffix [OF events.add_suffix [of "q_queue s" e]] by (simp add: held_def note_event_def add.assoc)

lemma held_note_all: "length (q_queue s) < maxQueued \<Longrightarrow> held (note_event s e) = held s + {#e#}"
  by (simp add: held_def note_event_def events.add_all)

text \<open>However hand-overs, new events and writes of the copy overlap, no event is invented or
  doubled: what was taken by the centre, what is under way and what waits is together part of
  what was seen, and all of it as long as no more than two thousand events were seen.\<close>

theorem overlapping_conserves:
  "held (fold site_step xs empty_buffer) \<subseteq># mset (concat (map seen_step xs))
   \<and> (if length (concat (map seen_step xs)) \<le> maxQueued
      then held (fold site_step xs empty_buffer) = mset (concat (map seen_step xs)) else True)"
proof (induction xs rule: rev_induct)
  case Nil
  then show ?case by (simp add: held_def)
next
  case (snoc x xs)
  let ?s = "fold site_step xs empty_buffer" and ?seen = "concat (map seen_step xs)"
  have sub: "held ?s \<subseteq># mset ?seen" using snoc.IH by blast
  have few: "held ?s = mset ?seen" if "length ?seen \<le> maxQueued" using snoc.IH that by simp
  show ?case
  proof (cases x)
    case (AddNote e)
    have "length (q_queue ?s) \<le> size (held ?s)" by (simp add: held_def)
    also have "\<dots> \<le> length ?seen" using size_mset_mono [OF sub] by simp
    finally have "held (note_event ?s e) = held ?s + {#e#}" if "Suc (length ?seen) \<le> maxQueued"
      using that by (intro held_note_all) simp
    moreover have "held (note_event ?s e) \<subseteq># mset ?seen + {#e#}"
      using held_note [of ?s e] sub by (meson subset_mset.add_right_mono subset_mset.order_trans)
    ultimately show ?thesis using AddNote few by simp
  next
    case (AddStage e)
    then have "held (site_step x ?s) = held ?s + {#e#}" by (simp add: held_def stageIP_def)
    with AddStage sub few show ?thesis by simp
  qed (use sub few in \<open>simp_all add: held_end held_take\<close>, simp_all add: held_def)
qed

text \<open>The copy on the disk is the buffer whenever it is not marked as out of date.\<close>

definition in_step :: "'e buffer \<Rightarrow> bool" where
  "in_step s \<longleftrightarrow> q_dirty s \<or> q_disk s = q_queue s"

lemma in_step_write: "in_step s \<Longrightarrow> in_step (writeIfDirty ok s)"
  by (auto simp: in_step_def writeIfDirty_def touch_def)

interpretation copy: kept_by site_step in_step
proof
  fix s :: "siteEvent buffer" and x :: overlap
  assume "in_step s"
  then show "in_step (site_step x s)"
    by (cases x) (auto simp: note_event_def stageIP_def flush_take_def flush_end_def settle_def in_step_def writeIfDirty_def touch_def)
qed

text \<open>Whatever overlapped before, after a write of the copy that succeeded a restart brings back
  exactly what was waiting in the buffer at the write.\<close>

theorem restart_after_write:
  "q_queue (restart (writeIfDirty True (fold site_step xs empty_buffer))) = q_queue (fold site_step xs empty_buffer)"
  using copy.kept_fold [of empty_buffer xs] by (auto simp: restart_def writeIfDirty_def in_step_def)

text \<open>An event under way is in no copy: when the copy is written while the centre is being
  talked to and the service stops before the answer, the event is in the buffer no longer and
  was not delivered.\<close>

theorem lost_in_flight:
  "let s = restart (fold site_step [AddNote e, Write True, Begin, Write True] empty_buffer)
   in q_queue s = [] \<and> q_sent s = [] \<and> q_flying s = []"
  by (simp add: note_event_def flush_take_def push_def maxQueued_def restart_def writeIfDirty_def touch_def empty_buffer_def)

text \<open>Two hand-overs that overlap and both fail put their events back in the wrong order.\<close>

theorem overlap_reorders:
  "q_queue (fold site_step [AddNote e1, Begin, AddNote e2, Begin, End 0 False True, End 0 False True] empty_buffer) = [e2, e1]"
  by (simp add: note_event_def flush_take_def flush_end_def settle_def push_def maxQueued_def writeIfDirty_def touch_def
      empty_buffer_def)

text \<open>What the site sees on the wire is never given up: the buffer grows with it past its own
  limit, by as many events as there are.\<close>

theorem stage_unbounded:
  "length (q_queue (fold (\<lambda>e s. stageIP s e) es s)) = length (q_queue s) + length es"
  by (induction es arbitrary: s) (simp_all add: stageIP_def)

section \<open>Reports of the blades\<close>

lemma deliver_append: "deliver f rs = (sent, rest) \<Longrightarrow> subseq (sent @ rest) rs"
  by (induction rs arbitrary: sent rest) (auto split: fate.splits prod.splits)

lemma deliver_all: "deliver f rs = (sent, rest) \<Longrightarrow> (\<And>r. r \<in> set rs \<Longrightarrow> f r \<noteq> Malformed) \<Longrightarrow> sent @ rest = rs"
  by (induction rs arbitrary: sent rest) (auto split: fate.splits prod.splits)

lemma drain_effect:
  assumes "deliver f (q_queue s) = (sent, rest)"
  shows "q_queue (drain f wok s) = rest" "q_sent (drain f wok s) = q_sent s @ sent" "q_flying (drain f wok s) = q_flying s"
  using assms by (auto simp: drain_def drain_end_def flush_take_def nth_append Let_def)

datatype relay_op = Report queued | Drained "queued \<Rightarrow> fate" bool | Saved bool

fun relay_do :: "relay_op \<Rightarrow> queued buffer \<Rightarrow> queued buffer" where
  "relay_do (Report r) s = fst (enqueue s r)"
| "relay_do (Drained f wok) s = drain f wok s"
| "relay_do (Saved wok) s = writeIfDirty wok s"

fun reported :: "relay_op \<Rightarrow> queued list" where
  "reported (Report r) = (if length (k_body r) > maxQueuedBody then [] else [r])" | "reported _ = []"

lemma deliver_length: "deliver f rs = (sent, rest) \<Longrightarrow> length rest \<le> length rs"
  using deliver_append [of f rs sent rest] list_emb_length by fastforce

text \<open>Reports the site could not pass on reach the centre oldest first: what was delivered
  followed by what waits is a part of what the blades said, in order, and never more than five
  thousand reports wait. A report the centre answers counts as delivered whatever the answer.\<close>

theorem reports_in_order:
  "subseq (q_sent (fold relay_do ops empty_buffer) @ q_queue (fold relay_do ops empty_buffer)) (concat (map reported ops))
   \<and> length (q_queue (fold relay_do ops empty_buffer)) \<le> maxPending"
proof (induction ops rule: rev_induct)
  case Nil
  then show ?case by simp
next
  case (snoc x ops)
  let ?s = "fold relay_do ops empty_buffer" and ?seen = "concat (map reported ops)"
  have sub: "subseq (q_sent ?s @ q_queue ?s) ?seen" and len: "length (q_queue ?s) \<le> maxPending" using snoc.IH by blast+
  show ?case
  proof (cases x)
    case (Report r)
    with sub len reports.add_subseq [OF sub, of r] reports.add_bound [OF len, of r] show ?thesis
      by (simp add: enqueue_def)
  next
    case (Drained f wok)
    obtain sent rest where d: "deliver f (q_queue ?s) = (sent, rest)" by fastforce
    have "subseq (q_sent ?s @ sent @ rest) (q_sent ?s @ q_queue ?s)"
      by (intro list_emb_append_mono subseq_order.order_refl deliver_append [OF d])
    then have "subseq (q_sent ?s @ sent @ rest) ?seen" using sub by (rule subseq_order.order_trans)
    moreover have "length rest \<le> maxPending" using deliver_length [OF d] len by simp
    ultimately show ?thesis using Drained drain_effect [OF d] by simp
  next
    case (Saved wok)
    with sub len show ?thesis by simp
  qed
qed

end
