(* ===== verification/SiteWire.thy ===== *)
theory SiteWire
  imports Buffers
begin

text \<open>
  The site on the wire (\<^verbatim>\<open>src/site/dhcp.go\<close>, \<^verbatim>\<open>src/site/dhcprange.go\<close>, \<^verbatim>\<open>src/site/netboot.go\<close>,
  \<^verbatim>\<open>src/site/site.go\<close>): writing the reservations of the document, the address range, reading the log
  of dnsmasq, and which document a pass works from. Texts of errors, the host part of a URL
  and the matches of the regular expressions are parameters. The theorems: the directory
  holds exactly the records of the document, every record the centre accepts the site
  accepts, the netboot tag is on the wire exactly when the centre armed it, and a site keeps
  working from the last document it was given, through outages and restarts.
\<close>

section \<open>Reservations\<close>

text \<open>\<^verbatim>\<open>net.ParseMAC\<close>: 6, 8 or 20 bytes in pairs with colons or hyphens, or in fours with dots.\<close>

definition hex_groups :: "char \<Rightarrow> nat \<Rightarrow> nat list \<Rightarrow> string \<Rightarrow> bool" where
  "hex_groups sep n counts s =
     (let ps = split_on sep s in length ps \<in> set counts \<and> list_all (\<lambda>p. length p = n \<and> list_all is_hex p) ps)"

definition parseMAC :: "string \<Rightarrow> bool" where
  "parseMAC s \<longleftrightarrow> hex_groups CHR '':'' 2 [6, 8, 20] s \<or> hex_groups CHR ''-'' 2 [6, 8, 20] s
     \<or> hex_groups CHR ''.'' 4 [3, 4, 10] s"

definition host_char :: "char \<Rightarrow> bool" where
  "host_char c \<longleftrightarrow> is_lower c \<or> is_upper c \<or> is_digit c \<or> c = CHR ''-''"

definition siteReservation :: "string \<Rightarrow> string \<Rightarrow> string \<Rightarrow> bool" where
  "siteReservation mac host ip \<longleftrightarrow> parseMAC mac \<and> parseIPv4 ip \<and> host \<noteq> [] \<and> length host \<le> 63
     \<and> list_all host_char host \<and> hd host \<noteq> CHR ''-'' \<and> last host \<noteq> CHR ''-''"

definition site_body :: "siteBlade \<Rightarrow> string" where
  "site_body b =
     (let (tag, why) = (if sb_netboot b then (bootnet, ''install requested '' @ endash @ '' boots over the network'')
                        else ([], ''boots from the NVMe''))
      in ''# Sheath '' @ endash @ '' generated by sheath-site, do not edit by hand'' @ nl
         @ ''# Blade '' @ sb_serial b @ ''  BladeRunner '' @ sb_rack b @ ''  Slot '' @ show_int (sb_slot b) @ nl
         @ ''# '' @ why @ nl
         @ sb_mac b @ '','' @ tag @ sb_hostname b @ '','' @ sb_ip b @ '',infinite'' @ nl)"

definition incomplete :: "siteBlade \<Rightarrow> bool" where
  "incomplete b \<longleftrightarrow> sb_mac b = [] \<or> sb_ip b = [] \<or> sb_hostname b = []"

definition note_of :: "instant \<Rightarrow> string \<Rightarrow> string \<Rightarrow> string \<Rightarrow> siteEvent" where
  "note_of t serial level msg = \<lparr>ev_ts = stamp_of t, ev_serial = serial, ev_level = level, ev_msg = msg,
     ev_stage = [], ev_mac = [], ev_ip = []\<rparr>"

text \<open>The loop: the directory, the names wanted, the names written, the buffer of notes.\<close>

fun host_loop :: "bool \<Rightarrow> (siteBlade \<Rightarrow> string) \<Rightarrow> instant \<Rightarrow> siteBlade list \<Rightarrow> files \<Rightarrow> string list \<Rightarrow> string list
    \<Rightarrow> siteEvent buffer \<Rightarrow> files \<times> string list \<times> string list \<times> siteEvent buffer" where
  "host_loop dry why t [] fs want written buf = (fs, want, written, buf)"
| "host_loop dry why t (b # bs) fs want written buf =
     (if incomplete b then host_loop dry why t bs fs want written buf
      else if \<not> siteReservation (sb_mac b) (sb_hostname b) (sb_ip b) then
        host_loop dry why t bs fs want written
          (note_event buf (note_of t (sb_serial b) ''warn'' (''reservation rejected: '' @ why b)))
      else (let name = confName (sb_serial b); body = site_body b
            in if map_of fs name = Some body then host_loop dry why t bs fs (want @ [name]) written buf
               else if dry then host_loop dry why t bs fs (want @ [name]) (written @ [name @ '' (dry run)'']) buf
               else host_loop dry why t bs (AList.update name body fs) (want @ [name]) (written @ [name]) buf))"

definition writeReservations ::
    "bool \<Rightarrow> (siteBlade \<Rightarrow> string) \<Rightarrow> instant \<Rightarrow> siteDoc \<Rightarrow> files \<Rightarrow> siteEvent buffer \<Rightarrow> files \<times> siteEvent buffer" where
  "writeReservations dry why t d fs buf =
     (let (fs1, want, written, buf1) = host_loop dry why t (d_blades d) fs [] [] buf;
          gone = filter (\<lambda>n. is_conf n \<and> n \<notin> set want) (map fst fs1);
          fs2 = (if dry then fs1 else prune want fs1)
      in if written = [] \<and> gone = [] then (fs2, buf1)
         else (fs2, note_event buf1 (note_of t [] ''info'' (''reservations: '' @ show_int (int (length written))
                 @ '' written, '' @ show_int (int (length gone)) @ '' removed''))))"

section \<open>The address range\<close>

definition myAddress :: "(string \<Rightarrow> string) \<Rightarrow> string \<Rightarrow> siteDoc \<Rightarrow> string" where
  "myAddress hostname relayURL d =
     (if relayURL \<noteq> [] \<and> hostname relayURL \<noteq> [] then hostname relayURL else s_dns (d_site d))"

definition rangeConfig :: "(string \<Rightarrow> string) \<Rightarrow> string \<Rightarrow> siteDoc \<Rightarrow> string" where
  "rangeConfig hostname relayURL d =
     (let st = d_site d; net = s_net_base st
      in if net = [] \<or> s_pool_from st \<le> 0 \<or> s_pool_to st < s_pool_from st then []
         else (let lease = (if s_lease st = [] then ''1h'' else s_lease st);
                   gw = (if s_gateway st = [] then net @ ''.1'' else s_gateway st);
                   dns = myAddress hostname relayURL d
               in ''# Written by sheath-site from the site's own record. Edit the site in'' @ nl
                  @ ''# the interface, not this file: it is rewritten on the next pass.'' @ nl
                  @ ''dhcp-range='' @ net @ ''.'' @ show_int (s_pool_from st) @ '','' @ net @ ''.'' @ show_int (s_pool_to st)
                  @ '',255.255.255.0,'' @ lease @ nl
                  @ ''dhcp-option=option:router,'' @ gw @ nl
                  @ (if dns \<noteq> [] then ''dhcp-option=option:dns-server,'' @ dns @ nl else [])
                  @ (if s_domain st \<noteq> []
                     then ''dhcp-option=option:domain-name,'' @ s_domain st @ nl
                        @ ''domain='' @ s_domain st @ nl @ ''local=/'' @ s_domain st @ ''/'' @ nl else [])))"

definition firstLineOf :: "string \<Rightarrow> string" where
  "firstLineOf s = (case find (\<lambda>l. has_prefix l ''dhcp-range='') (split_on CHR 0x0A s) of None \<Rightarrow> s | Some l \<Rightarrow> l)"

text \<open>The range file, where one is configured; \<open>accepted\<close> is what dnsmasq says to a file it is asked
  to test. The flag says that dnsmasq is restarted.\<close>

definition ensureRange :: "(string \<Rightarrow> bool) \<Rightarrow> bool \<Rightarrow> bool \<Rightarrow> instant \<Rightarrow> string \<Rightarrow> string option \<Rightarrow> siteEvent buffer
    \<Rightarrow> string option \<times> siteEvent buffer \<times> bool" where
  "ensureRange accepted configured dry t want old buf =
     (if \<not> configured \<or> dry \<or> want = [] \<or> old = Some want \<or> \<not> accepted want then (old, buf, False)
      else (Some want, note_event buf (note_of t [] ''info'' (''DHCP range rewritten: '' @ trim_space (firstLineOf want))), True))"

section \<open>Watching the wire\<close>

text \<open>The matches of one line: the transaction id, a request, an answer with address and MAC, a
  vendor class with its transaction id, a file sent or failed with the address.\<close>

record wireLine =
  wl_xid :: "string option"
  wl_discover :: "string option"
  wl_ack :: "(string \<times> string) option"
  wl_vendor :: "(string \<times> string) option"
  wl_sent :: "(string \<times> string) option"
  wl_fail :: "(string \<times> string) option"

record watch =
  wt_byXID :: "string \<rightharpoonup> string"
  wt_byIP :: "string \<rightharpoonup> string"
  wt_buf :: "siteEvent buffer"

definition stage_of :: "instant \<Rightarrow> string \<Rightarrow> string \<Rightarrow> string \<Rightarrow> string \<Rightarrow> siteEvent" where
  "stage_of t mac ip stage msg = \<lparr>ev_ts = stamp_of t, ev_serial = [], ev_level = [], ev_msg = msg,
     ev_stage = stage, ev_mac = mac, ev_ip = ip\<rparr>"

definition see :: "watch \<Rightarrow> siteEvent \<Rightarrow> watch" where
  "see w e = w\<lparr>wt_buf := stageIP (wt_buf w) e\<rparr>"

definition handleLine :: "watch \<Rightarrow> instant \<Rightarrow> wireLine \<Rightarrow> watch" where
  "handleLine w0 t l =
     (let w = (case (wl_xid l, wl_discover l) of
                 (Some x, Some m) \<Rightarrow> w0\<lparr>wt_byXID := (wt_byXID w0)(x \<mapsto> m)\<rparr> | _ \<Rightarrow> w0)
      in case wl_ack l of
           Some (ip, m) \<Rightarrow>
             see (w\<lparr>wt_byIP := (wt_byIP w)(ip \<mapsto> lower m)\<rparr>) (stage_of t (lower m) ip ''dhcp'' (''address '' @ ip))
         | None \<Rightarrow>
             (case wl_discover l of
                Some m \<Rightarrow> see w (stage_of t (lower m) [] ''dhcp'' ''asking for an address'')
              | None \<Rightarrow>
                  (case wl_vendor l of
                     Some (x, cls) \<Rightarrow>
                       (case wt_byXID w x of
                          Some m \<Rightarrow> if str_contains cls ''PXEClient''
                            then see w (stage_of t m [] ''tftp'' (''bootloader is asking ('' @ trim_space cls @ '')'')) else w
                        | None \<Rightarrow> w)
                   | None \<Rightarrow>
                       (case wl_sent l of
                          Some (p, ip) \<Rightarrow>
                            (case wt_byIP w ip of
                               Some m \<Rightarrow> see w (stage_of t m [] ''ramdisk'' (''delivered '' @ after_last CHR ''/'' p)) | None \<Rightarrow> w)
                        | None \<Rightarrow>
                            (case wl_fail l of
                               Some (p, ip) \<Rightarrow>
                                 (case wt_byIP w ip of
                                    Some m \<Rightarrow> see w (stage_of t m [] ''error'' (''TFTP failed for '' @ after_last CHR ''/'' p))
                                  | None \<Rightarrow> w)
                             | None \<Rightarrow> w)))))"

text \<open>Reading the log: each time the end is reached the bytes that arrived since are taken, the
  lines that are complete are handled, and what is left of an unfinished line is dropped.\<close>

fun complete_lines :: "string \<Rightarrow> string \<Rightarrow> string list" where
  "complete_lines acc [] = []"
| "complete_lines acc (c # s) = (if c = CHR 0x0A then rev acc # complete_lines [] s else complete_lines (c # acc) s)"

definition watchLog :: "string list \<Rightarrow> string list" where
  "watchLog chunks = concat (map (complete_lines []) chunks)"

section \<open>Which document a pass works from\<close>

record siteMem =
  sm_etag :: string
  sm_state :: "siteDoc option"
  sm_online :: bool
  sm_saved :: "siteDoc option"

datatype fetched = Unreachable | Unchanged | Fresh siteDoc

text \<open>The first half of a pass; the flag says whether the document could be written to the disk.
  \<open>None\<close> is a pass that gives up.\<close>

definition pass_doc :: "bool \<Rightarrow> fetched \<Rightarrow> siteMem \<Rightarrow> siteMem \<times> siteDoc option" where
  "pass_doc wok f s =
     (case f of
        Unreachable \<Rightarrow>
          (let s1 = s\<lparr>sm_online := False\<rparr>
           in case sm_state s1 of
                Some d \<Rightarrow> (s1, Some d)
              | None \<Rightarrow> (case sm_saved s1 of
                           None \<Rightarrow> (s1, None) | Some d \<Rightarrow> (s1\<lparr>sm_state := Some d\<rparr>, Some d)))
      | Unchanged \<Rightarrow> (s\<lparr>sm_online := True\<rparr>, sm_state s)
      | Fresh d \<Rightarrow>
          (s\<lparr>sm_online := True, sm_etag := d_version d, sm_state := Some d,
             sm_saved := (if wok then Some d else sm_saved s)\<rparr>, Some d))"

definition reboot :: "siteMem \<Rightarrow> siteMem" where
  "reboot s = s\<lparr>sm_etag := [], sm_state := None, sm_online := False\<rparr>"

section \<open>The directory of the site\<close>

definition accepted_blade :: "siteBlade \<Rightarrow> bool" where
  "accepted_blade b \<longleftrightarrow> \<not> incomplete b \<and> siteReservation (sb_mac b) (sb_hostname b) (sb_ip b)"

definition site_records :: "siteDoc \<Rightarrow> files" where
  "site_records d = map (\<lambda>b. (confName (sb_serial b), site_body b)) (filter accepted_blade (d_blades d))"

lemma host_loop_spec:
  "host_loop False why t bs fs want written buf = (fs', want', written', buf') \<Longrightarrow>
   want' = want @ map (\<lambda>b. confName (sb_serial b)) (filter accepted_blade bs)
     \<and> map_of fs' = map_of (write_all (map (\<lambda>b. (confName (sb_serial b), site_body b)) (filter accepted_blade bs)) fs)"
proof (induction bs arbitrary: fs want written buf)
  case Nil
  then show ?case by (simp add: write_all_def)
next
  case (Cons b bs)
  let ?n = "confName (sb_serial b)" and ?ws = "map (\<lambda>b. (confName (sb_serial b), site_body b)) (filter accepted_blade bs)"
  show ?case
  proof (cases "accepted_blade b")
    case False
    with Cons show ?thesis by (auto simp: accepted_blade_def split: if_splits)
  next
    case True
    obtain fs1 wr where step: "host_loop False why t bs fs1 (want @ [?n]) wr buf = (fs', want', written', buf')"
      and fs1: "map_of fs1 = map_of (AList.update ?n (site_body b) fs)"
    proof (cases "map_of fs ?n = Some (site_body b)")
      case eq: True
      then have "map_of fs = map_of (AList.update ?n (site_body b) fs)" by (simp add: update_conv' fun_upd_idem)
      with that [of fs written] Cons.prems True eq show thesis by (simp add: accepted_blade_def Let_def)
    next
      case neq: False
      with that [of "AList.update ?n (site_body b) fs" "written @ [?n]"] Cons.prems True show thesis
        by (simp add: accepted_blade_def Let_def)
    qed
    from Cons.IH [OF step] map_of_write_all_cong [OF fs1, of ?ws] True show ?thesis
      by (simp add: write_all_def)
  qed
qed

definition site_pass :: "siteDoc \<Rightarrow> files \<Rightarrow> files" where
  "site_pass d fs = fst (writeReservations False (\<lambda>_. []) 0 d fs empty_buffer)"

lemma writeReservations_files:
  "map_of (fst (writeReservations False why t d fs buf)) =
     map_of (prune (map fst (site_records d)) (write_all (site_records d) fs))"
proof -
  obtain fs1 want written buf1 where l: "host_loop False why t (d_blades d) fs [] [] buf = (fs1, want, written, buf1)"
    by (metis prod_cases4)
  from host_loop_spec [OF l] have "want = map fst (site_records d)" "map_of fs1 = map_of (write_all (site_records d) fs)"
    by (simp_all add: site_records_def comp_def)
  then show ?thesis using l by (auto simp: writeReservations_def Let_def map_of_prune fun_eq_iff)
qed

definition doc_ok :: "siteDoc \<Rightarrow> bool" where
  "doc_ok d \<longleftrightarrow> distinct (map sb_serial (d_blades d))"

lemma site_records_mirror:
  assumes "doc_ok d"
  shows "distinct (map fst (site_records d))" and "\<forall>n\<in>fst ` set (site_records d). is_conf n"
proof -
  have "distinct (map sb_serial (filter accepted_blade (d_blades d)))"
    using assms by (simp add: doc_ok_def distinct_map_filter)
  then show "distinct (map fst (site_records d))" by (simp add: site_records_def distinct_map comp_def inj_on_def)
  show "\<forall>n\<in>fst ` set (site_records d). is_conf n" by (auto simp: site_records_def)
qed

interpretation site_dhcp: directory_mirror doc_ok site_records site_pass
proof unfold_locales
  fix d n fs assume "doc_ok d" and "is_conf n"
  then show "map_of (site_pass d fs) n = map_of (site_records d) n"
    using mirror_lookup [OF site_records_mirror] by (simp add: site_pass_def writeReservations_files)
next
  fix d n fs assume "doc_ok d" and "\<not> is_conf n"
  then show "map_of (site_pass d fs) n = map_of fs n"
    using mirror_lookup [OF site_records_mirror] by (simp add: site_pass_def writeReservations_files)
qed

lemma site_pass_files: "map_of (fst (writeReservations False why t d fs buf)) = map_of (site_pass d fs)"
  by (simp add: site_pass_def writeReservations_files)

section \<open>What the centre accepts, the site accepts\<close>

lemma accepts_centre: "validReservation mac host ip = Inr () \<Longrightarrow> siteReservation mac host ip"
proof -
  assume v: "validReservation mac host ip = Inr ()"
  then have m: "macRe mac" and h: "hostRe host" and i: "parseIPv4 ip"
    by (auto simp: validReservation_def split: if_splits)
  have "parseMAC mac" using m by (simp add: macRe_def parseMAC_def hex_groups_def Let_def)
  moreover have "list_all host_char host" "host \<noteq> []" "length host \<le> 63"
    using h by (auto simp: hostRe_def host_char_def is_alnum_def list_all_iff)
  moreover have "\<not> is_alnum CHR ''-''" by (simp add: is_alnum_def is_lower_def is_upper_def is_digit_def code_def)
  then have "hd host \<noteq> CHR ''-''" "last host \<noteq> CHR ''-''" using h by (auto simp: hostRe_def)
  ultimately show ?thesis using i by (simp add: siteReservation_def)
qed

text \<open>C19. Whatever the directory of a site held before, a pass leaves in it exactly the records of the
  document - every blade with an address, a name and a MAC that dnsmasq takes, tagged for
  netboot as the document says - and no record of any other blade, and touches no other file;
  and a record the centre would have written itself is never rejected here.\<close>

theorem site_directory_exact:
  assumes "distinct (map sb_serial (d_blades d))"
  shows "map_of (fst (writeReservations False why t d fs buf)) n =
      (if is_conf n then map_of (site_records d) n else map_of fs n)
    \<and> (validReservation mac host ip = Inr () \<longrightarrow> siteReservation mac host ip)"
proof -
  have ok: "doc_ok d" using assms by (simp add: doc_ok_def)
  then show ?thesis
    using site_dhcp.managed [OF ok, of n fs] site_dhcp.unmanaged [OF ok, of n fs] accepts_centre
    by (simp add: site_pass_files)
qed

definition demo_doc :: siteDoc where
  "demo_doc = \<lparr>d_site = demo_site, d_blades = [\<lparr>sb_serial = ''c0ffee01'', sb_mac = ''02:b1:ad:01:01:03'',
     sb_hostname = ''blade-r1s03'', sb_ip = ''10.0.0.103'', sb_rack = ''R1'', sb_slot = 3, sb_netboot = True,
     sb_image = ''dietpi'', sb_token = ''secret'', sb_config = [], sb_config_version = [],
     sb_install_state = InstallPending\<rparr>],
     d_images = [], d_boot = \<lparr>bt_boot_img = [], bt_sha256 = [], bt_version = [], bt_cmdline_url = [],
     bt_server_url = [], bt_files = []\<rparr>, d_version = ''v1'', d_produced = None\<rparr>"

theorem site_directory_exact_witness:
  "map_of (fst (writeReservations False (\<lambda>_. []) 0 demo_doc [(''blade-gone.conf'', ''x''), (''README'', ''y'')] empty_buffer)) ''blade-gone.conf''
      = None
   \<and> map_of (fst (writeReservations False (\<lambda>_. []) 0 demo_doc [(''blade-gone.conf'', ''x''), (''README'', ''y'')] empty_buffer)) ''README''
      = Some ''y''"
  using site_directory_exact [of demo_doc "\<lambda>_. []" 0 "[(''blade-gone.conf'', ''x''), (''README'', ''y'')]" empty_buffer]
  by (simp add: demo_doc_def is_conf_def has_prefix_def has_suffix_def site_records_def confName_def)

section \<open>Half a line\<close>

lemma complete_lines_append:
  "CHR 0x0A \<notin> set s \<Longrightarrow> complete_lines acc (s @ r) = complete_lines (rev s @ acc) r"
  by (induction s arbitrary: acc) auto

text \<open>A line of the log that had not been written to its end when the reader got there is not
  read again once it is complete: what was there of it is dropped, and the rest is taken for a
  line of its own.\<close>

theorem watchLog_splits_line:
  assumes "CHR 0x0A \<notin> set s" and "CHR 0x0A \<notin> set r"
  shows "watchLog [s, r @ [CHR 0x0A]] = [r] \<and> watchLog [s @ r @ [CHR 0x0A]] = [s @ r]"
  using complete_lines_append [of s "[]" "[]"] complete_lines_append [of r "[]" "[CHR 0x0A]"]
    complete_lines_append [of "s @ r" "[]" "[CHR 0x0A]"] assms
  by (simp add: watchLog_def)

theorem watchLog_splits_line_witness:
  "watchLog [''DHCPACK(eth0) 10.0.0.9 02:b1:'', ''ad:01:01:03'' @ [CHR 0x0A]] = [''ad:01:01:03'']"
  using watchLog_splits_line [of "''DHCPACK(eth0) 10.0.0.9 02:b1:''" "''ad:01:01:03''"] by simp

section \<open>Through outages and restarts\<close>

datatype site_life = Pass fetched | Reboot

fun live :: "site_life \<Rightarrow> siteMem \<Rightarrow> siteMem" where
  "live (Pass f) s = fst (pass_doc True f s)"
| "live Reboot s = reboot s"

fun newest_doc :: "site_life \<Rightarrow> siteDoc option \<Rightarrow> siteDoc option" where
  "newest_doc (Pass (Fresh d)) x = Some d" | "newest_doc _ x = x"

lemma live_holds:
  "sm_saved s = x \<Longrightarrow> sm_state s \<in> {None, x} \<Longrightarrow>
   sm_saved (live l s) = newest_doc l x \<and> sm_state (live l s) \<in> {None, newest_doc l x}"
  by (cases "(l, x)" rule: newest_doc.cases) (auto simp: pass_doc_def reboot_def Let_def split: option.splits)

lemma live_fold:
  "sm_saved s = x \<Longrightarrow> sm_state s \<in> {None, x} \<Longrightarrow>
   sm_saved (fold live ls s) = fold newest_doc ls x \<and> sm_state (fold live ls s) \<in> {None, fold newest_doc ls x}"
proof (induction ls arbitrary: s x)
  case Nil
  then show ?case by simp
next
  case (Cons l ls)
  from live_holds [OF Cons.prems] Cons.IH [of "live l s" "newest_doc l x"] show ?case by simp
qed

text \<open>A site that was ever given a document works from the last one it was given, whatever
  outages and restarts came since: when the centre cannot be reached, the pass goes on with
  that document, and it gives up only when there never was one.\<close>

theorem works_offline:
  "snd (pass_doc True Unreachable (fold live ls \<lparr>sm_etag = [], sm_state = None, sm_online = False, sm_saved = None\<rparr>))
     = fold newest_doc ls None"
  using live_fold [of "\<lparr>sm_etag = [], sm_state = None, sm_online = False, sm_saved = None\<rparr>" None ls]
  by (auto simp: pass_doc_def Let_def split: option.split)

end
