(* ===== verification/Relay.thy ===== *)
theory Relay
  imports SiteWire
begin

text \<open>
  The relay of a site (\<^verbatim>\<open>src/site/relay.go\<close>): what a site answers its blades by itself while the
  centre cannot be reached, and what it changes in the centre's answers while it can. Which
  files the site holds is a parameter, the address under which the blade reached the site
  another. The theorems: alone, a site hands out only what the last document says, a
  configuration only to the blade it belongs to; and the addresses it writes into an answer
  lead to files it holds, everything else in the answer staying as it was.
\<close>

section \<open>Addresses of the site\<close>

definition selfURL :: "string \<Rightarrow> string" where
  "selfURL host = ''http://'' @ (if host = [] then ''127.0.0.1:8081'' else host)"

text \<open>What the centre answers to a forwarded request: nothing when it cannot be reached, otherwise the
  status and the body where that is a JSON object.\<close>

type_synonym response = "nat \<times> jmap option"

section \<open>Answering alone\<close>

definition held_blade :: "siteDoc option \<Rightarrow> string \<Rightarrow> siteBlade option" where
  "held_blade st serial = (case st of None \<Rightarrow> None | Some d \<Rightarrow> find (\<lambda>b. sb_serial b = serial) (d_blades d))"

definition held_image :: "siteDoc option \<Rightarrow> string \<Rightarrow> siteImage option" where
  "held_image st k = (case st of None \<Rightarrow> None | Some d \<Rightarrow> find (\<lambda>i. sg_id i = k) (d_images d))"

datatype relay_answer =
    RWaiting string
  | RWipe (rw_target: string) (rw_token: string)
  | RIdle string
  | RGo (rg_image: string) (rg_url: string) (rg_sha256: string) (rg_token: string) (rg_target: string)

definition image_file :: "siteImage \<Rightarrow> string" where
  "image_file i = (if sg_local i = [] then path_base (sg_url i) else sg_local i)"

definition provision_alone :: "(string \<Rightarrow> bool) \<Rightarrow> string \<Rightarrow> instant \<Rightarrow> siteDoc option \<Rightarrow> string \<Rightarrow> siteEvent buffer
    \<Rightarrow> siteEvent buffer \<times> relay_answer" where
  "provision_alone have_file host t st serial buf =
     (case held_blade st serial of
        None \<Rightarrow> (buf, RWaiting (''site is offline '' @ emdash @ '' waiting for the central server''))
      | Some b \<Rightarrow>
          if sb_install_state b = InstallWipe then
            (note_event buf (note_of t serial ''warn'' (''erase started from the site cache '' @ emdash @ '' centre unreachable'')),
             RWipe ''/dev/nvme0n1'' (sb_token b))
          else if sb_image b = [] \<or> \<not> sb_netboot b then (buf, RIdle (sb_image b))
          else case held_image st (sb_image b) of
                 None \<Rightarrow> (buf, RWaiting (''image '' @ sb_image b @ '' is not in the site cache''))
               | Some i \<Rightarrow>
                   if \<not> have_file (image_file i) then
                     (buf, RWaiting (''image '' @ sb_image b @ '' has not arrived here yet''))
                   else (note_event buf (note_of t serial ''warn''
                           (''install started from the site cache '' @ emdash @ '' centre unreachable'')),
                         RGo (sg_id i) (selfURL host @ ''/images/'' @ image_file i) (sg_sha256 i) (sb_token b) ''/dev/nvme0n1''))"

definition authorised :: "string \<Rightarrow> string \<Rightarrow> bool" where
  "authorised header token \<longleftrightarrow> token \<noteq> [] \<and> trim_prefix header ''Bearer '' = token"

section \<open>Addresses in an answer\<close>

definition aimHere :: "string \<Rightarrow> jmap \<Rightarrow> jmap \<times> bool" where
  "aimHere host cfg =
     (if as_str (map_of cfg ''server_url'') = Some (selfURL host) then (cfg, False)
      else (AList.update ''server_url'' (JStr (selfURL host)) cfg, True))"

text \<open>One entry of the list of binaries: pointed here when the site holds the file.\<close>

definition aim_entry :: "(string \<Rightarrow> bool) \<Rightarrow> string \<Rightarrow> json \<Rightarrow> json \<times> bool" where
  "aim_entry have_file host e =
     (case e of
        JObj m \<Rightarrow>
          (let u = (case as_str (map_of m ''url'') of None \<Rightarrow> [] | Some x \<Rightarrow> x); name = path_base u
           in if u = [] \<or> name = [] \<or> name = ''.'' \<or> str_contains name ''..'' \<or> \<not> have_file name then (e, False)
              else (JObj (AList.update ''url'' (JStr (selfURL host @ ''/agent/'' @ name)) m), True))
      | _ \<Rightarrow> (e, False))"

definition aimBinariesHere :: "(string \<Rightarrow> bool) \<Rightarrow> string \<Rightarrow> jmap \<Rightarrow> jmap \<times> bool" where
  "aimBinariesHere have_file host cfg =
     (case map_of cfg ''binaries'' of
        Some (JArr arr) \<Rightarrow>
          (let out = map (aim_entry have_file host) arr
           in if list_all (\<lambda>r. \<not> snd r) out then (cfg, False)
              else (AList.update ''binaries'' (JArr (map fst out)) cfg, True))
      | _ \<Rightarrow> (cfg, False))"

text \<open>The answer to an agent that asks for its configuration: a refusal with its code, nothing new,
  or the version with the configuration. The centre leaves an empty configuration out of the
  document, so that the site has none.\<close>

datatype config_answer = CRefused nat | CUnchanged | CConfig string jmap

definition config_alone :: "(string \<Rightarrow> bool) \<Rightarrow> string \<Rightarrow> siteDoc option \<Rightarrow> string \<Rightarrow> string \<Rightarrow> string \<Rightarrow> config_answer" where
  "config_alone have_file host st header none_match serial =
     (case held_blade st serial of
        None \<Rightarrow> CRefused 503
      | Some b \<Rightarrow>
          if sb_config b = [] then CRefused 503
          else if \<not> authorised header (sb_token b) then CRefused 401
          else if str_contains none_match (sb_config_version b) then CUnchanged
          else CConfig (sb_config_version b) (fst (aimHere host (fst (aimBinariesHere have_file host (sb_config b))))))"

section \<open>Passing on what the centre says\<close>

text \<open>The centre's answer to the installer, with the site's own addresses.\<close>

definition local_image :: "(string \<Rightarrow> bool) \<Rightarrow> string \<Rightarrow> jmap \<Rightarrow> jmap" where
  "local_image have_file host job =
     (let u = (case as_str (map_of job ''url'') of None \<Rightarrow> [] | Some x \<Rightarrow> x);
          name = after_last CHR ''/'' u;
          job1 = (if u \<noteq> [] \<and> name \<noteq> [] \<and> \<not> str_contains name ''..'' \<and> have_file name
                  then AList.update ''url'' (JStr (selfURL host @ ''/images/'' @ name)) job else job);
          s = (case as_str (map_of job1 ''server_url'') of None \<Rightarrow> [] | Some x \<Rightarrow> x)
      in if s \<noteq> [] \<and> s \<noteq> selfURL host then AList.update ''server_url'' (JStr (selfURL host)) job1 else job1)"

definition answerWithLocalImage :: "(string \<Rightarrow> bool) \<Rightarrow> string \<Rightarrow> response \<Rightarrow> response" where
  "answerWithLocalImage have_file host r = (if fst r \<noteq> 200 then r else (200, map_option (local_image have_file host) (snd r)))"

text \<open>The same for a configuration.\<close>

definition local_binaries :: "(string \<Rightarrow> bool) \<Rightarrow> string \<Rightarrow> jmap \<Rightarrow> jmap" where
  "local_binaries have_file host doc =
     (case map_of doc ''config'' of
        Some (JObj cfg) \<Rightarrow>
          (let (cfg1, x) = aimBinariesHere have_file host cfg; (cfg2, y) = aimHere host cfg1
           in if x \<or> y then AList.update ''config'' (JObj cfg2) doc else doc)
      | _ \<Rightarrow> doc)"

definition answerWithLocalBinaries :: "(string \<Rightarrow> bool) \<Rightarrow> string \<Rightarrow> response \<Rightarrow> response" where
  "answerWithLocalBinaries have_file host r = (if fst r \<noteq> 200 then r else (200, map_option (local_binaries have_file host) (snd r)))"

text \<open>The handlers: the centre's word where there is one, the site's own where there is none. The
  list of commands a site answers with alone is an object with an empty list.\<close>

datatype 'x relayed = Passed response | Alone 'x

definition provision :: "response option \<Rightarrow> (string \<Rightarrow> bool) \<Rightarrow> string \<Rightarrow> instant \<Rightarrow> siteDoc option \<Rightarrow> string
    \<Rightarrow> siteEvent buffer \<Rightarrow> siteEvent buffer \<times> relay_answer relayed" where
  "provision up have_file host t st serial buf =
     (case up of
        Some r \<Rightarrow> (buf, Passed (answerWithLocalImage have_file host r))
      | None \<Rightarrow> (let (buf', x) = provision_alone have_file host t st serial buf in (buf', Alone x)))"

definition bladeConfig :: "response option \<Rightarrow> (string \<Rightarrow> bool) \<Rightarrow> string \<Rightarrow> siteDoc option \<Rightarrow> string \<Rightarrow> string
    \<Rightarrow> string \<Rightarrow> config_answer relayed" where
  "bladeConfig up have_file host st header none_match serial =
     (case up of
        Some r \<Rightarrow> Passed (answerWithLocalBinaries have_file host r)
      | None \<Rightarrow> Alone (config_alone have_file host st header none_match serial))"

definition commands :: "response option \<Rightarrow> response" where
  "commands up = (case up of Some r \<Rightarrow> r | None \<Rightarrow> (200, Some [(''commands'', JArr [])]))"

text \<open>A file under one of the served prefixes: from the site's disk where it is there and its
  name does not climb, from the centre otherwise.\<close>

datatype source = FromHere string | FromCentre

definition serveLocal :: "(string \<Rightarrow> bool) \<Rightarrow> string \<Rightarrow> string \<Rightarrow> source" where
  "serveLocal have_file pref path =
     (let name = trim_prefix path pref
      in if name \<noteq> [] \<and> \<not> str_contains name ''..'' \<and> have_file name then FromHere name else FromCentre)"

section \<open>Alone, the site acts on the last document\<close>

lemma held_blade_Some: "held_blade st serial = Some b \<Longrightarrow> \<exists>d. st = Some d \<and> b \<in> set (d_blades d) \<and> sb_serial b = serial"
  by (auto simp: held_blade_def find_Some_iff split: option.splits)

lemma held_image_Some: "held_image st k = Some i \<Longrightarrow> \<exists>d. st = Some d \<and> i \<in> set (d_images d) \<and> sg_id i = k"
  by (auto simp: held_image_def find_Some_iff split: option.splits)

text \<open>While the centre cannot be reached, a site hands a machine an image only when its last
  document says so: the blade is in it with netboot switched on, the image assigned to it is in it
  too and has arrived, and the answer carries the document's checksum and that blade's own token
  and points at the site itself. It hands out an erase only where the document says erase. In
  both cases, and in no other, it keeps a note for the centre.\<close>

theorem provision_alone_follows_document:
  "case provision None have_file host t st serial buf of
     (buf', Alone (RGo im url sha tok target)) \<Rightarrow>
       (\<exists>d b i. st = Some d \<and> b \<in> set (d_blades d) \<and> sb_serial b = serial \<and> sb_netboot b \<and> sb_install_state b \<noteq> InstallWipe
          \<and> sb_image b = im \<and> im \<noteq> [] \<and> tok = sb_token b
          \<and> i \<in> set (d_images d) \<and> sg_id i = im \<and> sha = sg_sha256 i \<and> have_file (image_file i)
          \<and> url = selfURL host @ ''/images/'' @ image_file i)
       \<and> (\<exists>e. buf' = note_event buf e \<and> ev_serial e = serial \<and> ev_level e = ''warn'')
   | (buf', Alone (RWipe target tok)) \<Rightarrow>
       (\<exists>d b. st = Some d \<and> b \<in> set (d_blades d) \<and> sb_serial b = serial \<and> sb_install_state b = InstallWipe \<and> tok = sb_token b)
       \<and> (\<exists>e. buf' = note_event buf e \<and> ev_serial e = serial \<and> ev_level e = ''warn'')
   | (buf', Alone x) \<Rightarrow> buf' = buf
   | (buf', Passed r) \<Rightarrow> False"
proof -
  have told: "\<exists>e. note_event buf (note_of t serial ''warn'' m) = note_event buf e \<and> ev_serial e = serial \<and> ev_level e = ''warn''" for m
    by (rule exI [of _ "note_of t serial ''warn'' m"]) (simp add: note_of_def)
  show ?thesis
  proof (cases "held_blade st serial")
    case None
    thus ?thesis by (simp add: provision_def provision_alone_def)
  next
    case (Some b)
    then obtain d where d: "st = Some d" "b \<in> set (d_blades d)" "sb_serial b = serial" using held_blade_Some by blast
    show ?thesis
    proof (cases "sb_install_state b = InstallWipe \<or> sb_image b = [] \<or> \<not> sb_netboot b")
      case True
      thus ?thesis using Some d told by (auto simp: provision_def provision_alone_def)
    next
      case False
      show ?thesis
      proof (cases "held_image st (sb_image b)")
        case None
        thus ?thesis using Some False by (simp add: provision_def provision_alone_def)
      next
        case (Some i)
        hence i: "i \<in> set (d_images d)" "sg_id i = sb_image b" using held_image_Some [OF Some] d(1) by auto
        show ?thesis using \<open>held_blade st serial = Some b\<close> Some False i d told
          by (auto simp: provision_def provision_alone_def)
      qed
    qed
  qed
qed

section \<open>Addresses lead to what is held\<close>

lemma has_prefix_append [simp]: "has_prefix (p @ s) p"
  by (simp add: has_prefix_def)

lemma trim_prefix_append [simp]: "trim_prefix (p @ s) p = s"
  by (simp add: trim_prefix_def)

lemma serveLocal_held: "name \<noteq> [] \<Longrightarrow> \<not> str_contains name ''..'' \<Longrightarrow> have_file name \<Longrightarrow>
    serveLocal have_file pref (pref @ name) = FromHere name"
  by (simp add: serveLocal_def)

text \<open>What may happen to the address of an entry: it stays, or it becomes one under which this site
  itself serves a file it holds.\<close>

definition led_here :: "(string \<Rightarrow> bool) \<Rightarrow> string \<Rightarrow> string \<Rightarrow> jmap \<Rightarrow> jmap \<Rightarrow> bool" where
  "led_here have_file host pref m m' \<longleftrightarrow>
     map_of m' ''url'' = map_of m ''url'' \<or>
     (\<exists>name. map_of m' ''url'' = Some (JStr (selfURL host @ pref @ name)) \<and> serveLocal have_file pref (pref @ name) = FromHere name)"

definition same_but :: "string set \<Rightarrow> jmap \<Rightarrow> jmap \<Rightarrow> bool" where
  "same_but ks m m' \<longleftrightarrow> map_of m' |` (- ks) = map_of m |` (- ks)"

lemma same_but_refl [simp]: "same_but ks m m"
  by (simp add: same_but_def)

lemma same_but_update [simp]: "k \<in> ks \<Longrightarrow> same_but ks m (AList.update k v m') = same_but ks m m'"
  by (auto simp: same_but_def update_conv' restrict_map_def fun_eq_iff)

lemma led_here_refl [simp]: "led_here have_file host pref m m"
  by (simp add: led_here_def)

lemma led_here_update: "name \<noteq> [] \<Longrightarrow> \<not> str_contains name ''..'' \<Longrightarrow> have_file name \<Longrightarrow>
    led_here have_file host pref m (AList.update ''url'' (JStr (selfURL host @ pref @ name)) m')"
  by (auto simp: led_here_def update_conv' serveLocal_held)

lemma led_here_other [simp]: "k \<noteq> ''url'' \<Longrightarrow> led_here have_file host pref m (AList.update k v m') = led_here have_file host pref m m'"
  by (simp add: led_here_def update_conv')

lemma as_str_Some: "as_str v = Some w \<Longrightarrow> v = Some (JStr w)"
  by (cases v rule: as_str.cases) auto


text \<open>In the centre's answer to an installer the relay changes nothing but two addresses. The
  image's either stays as the centre said it or becomes an address under which this very site
  serves a file it holds; where the centre names an address to report to, it becomes the site's.\<close>

theorem local_image_leads_here:
  "same_but {''url'', ''server_url''} job (local_image have_file host job)
   \<and> led_here have_file host ''/images/'' job (local_image have_file host job)
   \<and> map_of (local_image have_file host job) ''server_url'' =
       (case as_str (map_of job ''server_url'') of None \<Rightarrow> map_of job ''server_url''
        | Some u \<Rightarrow> if u = [] then map_of job ''server_url'' else Some (JStr (selfURL host)))"
proof -
  define u where "u = (case as_str (map_of job ''url'') of None \<Rightarrow> [] | Some x \<Rightarrow> x)"
  define name where "name = after_last CHR ''/'' u"
  define job1 where "job1 = (if u \<noteq> [] \<and> name \<noteq> [] \<and> \<not> str_contains name ''..'' \<and> have_file name
                  then AList.update ''url'' (JStr (selfURL host @ ''/images/'' @ name)) job else job)"
  define s where "s = (case as_str (map_of job1 ''server_url'') of None \<Rightarrow> [] | Some x \<Rightarrow> x)"
  have eq: "local_image have_file host job =
      (if s \<noteq> [] \<and> s \<noteq> selfURL host then AList.update ''server_url'' (JStr (selfURL host)) job1 else job1)"
    by (simp add: local_image_def Let_def u_def name_def job1_def s_def)
  have srv: "map_of job1 ''server_url'' = map_of job ''server_url''"
    by (simp add: job1_def update_conv')
  have a: "same_but {''url'', ''server_url''} job job1" by (simp add: job1_def)
  have b: "led_here have_file host ''/images/'' job job1"
  proof (cases "u \<noteq> [] \<and> name \<noteq> [] \<and> \<not> str_contains name ''..'' \<and> have_file name")
    case True
    hence "job1 = AList.update ''url'' (JStr (selfURL host @ ''/images/'' @ name)) job" unfolding job1_def by simp
    thus ?thesis using True led_here_update [where name = name and have_file = have_file] by metis
  qed (auto simp: job1_def)
  have "map_of (local_image have_file host job) ''server_url'' =
       (case as_str (map_of job ''server_url'') of None \<Rightarrow> map_of job ''server_url''
        | Some u \<Rightarrow> if u = [] then map_of job ''server_url'' else Some (JStr (selfURL host)))"
    unfolding eq using srv by (auto simp: s_def update_conv' dest: as_str_Some split: option.splits)
  thus ?thesis using a b unfolding eq by simp
qed

lemma aim_entry_leads:
  "fst (aim_entry have_file host e) = e \<or>
    (\<exists>m m'. e = JObj m \<and> fst (aim_entry have_file host e) = JObj m' \<and> same_but {''url''} m m' \<and> led_here have_file host ''/agent/'' m m')"
proof (cases e)
  case (JObj m)
  define u where "u = (case as_str (map_of m ''url'') of None \<Rightarrow> [] | Some x \<Rightarrow> x)"
  define name where "name = path_base u"
  define m' where "m' = AList.update ''url'' (JStr (selfURL host @ ''/agent/'' @ name)) m"
  have eq: "aim_entry have_file host e =
      (if u = [] \<or> name = [] \<or> name = ''.'' \<or> str_contains name ''..'' \<or> \<not> have_file name then (e, False) else (JObj m', True))"
    by (simp add: JObj aim_entry_def Let_def u_def name_def m'_def)
  have "same_but {''url''} m m'" by (simp add: m'_def)
  moreover have "led_here have_file host ''/agent/'' m m'"
    if "name \<noteq> []" "\<not> str_contains name ''..''" "have_file name"
    unfolding m'_def using led_here_update [where name = name and have_file = have_file] that by metis
  ultimately show ?thesis using eq JObj by (auto split: if_splits)
qed (simp_all add: aim_entry_def)

text \<open>A configuration as the relay hands it on: the entries of the list of binaries one by one.\<close>

definition entry_ok :: "(string \<Rightarrow> bool) \<Rightarrow> string \<Rightarrow> json \<Rightarrow> json \<Rightarrow> bool" where
  "entry_ok have_file host e e' \<longleftrightarrow> e' = e \<or>
     (\<exists>m m'. e = JObj m \<and> e' = JObj m' \<and> same_but {''url''} m m' \<and> led_here have_file host ''/agent/'' m m')"

definition config_ok :: "(string \<Rightarrow> bool) \<Rightarrow> string \<Rightarrow> jmap \<Rightarrow> jmap \<Rightarrow> bool" where
  "config_ok have_file host cfg cfg' \<longleftrightarrow>
     same_but {''binaries'', ''server_url''} cfg cfg' \<and> map_of cfg' ''server_url'' = Some (JStr (selfURL host))
     \<and> (map_of cfg' ''binaries'' = map_of cfg ''binaries'' \<or>
        (\<exists>es es'. map_of cfg ''binaries'' = Some (JArr es) \<and> map_of cfg' ''binaries'' = Some (JArr es')
           \<and> list_all2 (entry_ok have_file host) es es'))"

lemma aimed_ok: "config_ok have_file host cfg (fst (aimHere host (fst (aimBinariesHere have_file host cfg))))"
proof -
  define cfg1 where "cfg1 = fst (aimBinariesHere have_file host cfg)"
  have entries: "list_all2 (entry_ok have_file host) es (map (\<lambda>e. fst (aim_entry have_file host e)) es)" for es
    using aim_entry_leads by (simp add: list.rel_map list_all2_same entry_ok_def)
  have one: "same_but {''binaries'', ''server_url''} cfg cfg1 \<and>
      (map_of cfg1 ''binaries'' = map_of cfg ''binaries'' \<or>
        (\<exists>es es'. map_of cfg ''binaries'' = Some (JArr es) \<and> map_of cfg1 ''binaries'' = Some (JArr es')
           \<and> list_all2 (entry_ok have_file host) es es'))"
  proof (cases "\<exists>es. map_of cfg ''binaries'' = Some (JArr es)")
    case True
    then obtain es where es: "map_of cfg ''binaries'' = Some (JArr es)" by blast
    show ?thesis
    proof (cases "list_all (\<lambda>r. \<not> snd r) (map (aim_entry have_file host) es)")
      case True
      hence "cfg1 = cfg" using es unfolding cfg1_def aimBinariesHere_def by (simp add: Let_def)
      thus ?thesis by simp
    next
      case False
      hence "cfg1 = AList.update ''binaries'' (JArr (map fst (map (aim_entry have_file host) es))) cfg"
        using es unfolding cfg1_def aimBinariesHere_def by (simp add: Let_def)
      thus ?thesis using es entries by (simp add: update_conv' o_def)
    qed
  next
    case False
    hence "cfg1 = cfg" unfolding cfg1_def aimBinariesHere_def by (simp split: option.split json.split)
    thus ?thesis by simp
  qed
  show ?thesis
  proof (cases "as_str (map_of cfg1 ''server_url'') = Some (selfURL host)")
    case True
    hence "map_of cfg1 ''server_url'' = Some (JStr (selfURL host))" by (rule as_str_Some)
    thus ?thesis using one True unfolding cfg1_def [symmetric] by (simp add: config_ok_def aimHere_def)
  next
    case False
    thus ?thesis using one unfolding cfg1_def [symmetric] by (simp add: config_ok_def aimHere_def update_conv')
  qed
qed

text \<open>While the centre cannot be reached, the site hands a configuration only to whoever carries
  the token of the blade it belongs to, and never where no token is known: it is the one of the
  last document with its version, in which only the address to report to and the addresses of
  binaries the site itself serves are replaced. Without that token the answer is a refusal.\<close>

theorem bladeConfig_alone_own_only:
  "case bladeConfig None have_file host st header none_match serial of
     Alone (CConfig v cfg) \<Rightarrow>
       (\<exists>d b. st = Some d \<and> b \<in> set (d_blades d) \<and> sb_serial b = serial \<and> sb_token b \<noteq> []
          \<and> trim_prefix header ''Bearer '' = sb_token b \<and> v = sb_config_version b \<and> config_ok have_file host (sb_config b) cfg)
   | Alone CUnchanged \<Rightarrow> (\<exists>b. held_blade st serial = Some b \<and> authorised header (sb_token b))
   | Alone (CRefused c) \<Rightarrow> c = 503 \<or> c = 401 \<and> (\<exists>b. held_blade st serial = Some b \<and> \<not> authorised header (sb_token b))
   | Passed r \<Rightarrow> False"
proof (cases "held_blade st serial")
  case None
  thus ?thesis by (simp add: bladeConfig_def config_alone_def)
next
  case (Some b)
  then obtain d where d: "st = Some d" "b \<in> set (d_blades d)" "sb_serial b = serial" using held_blade_Some by blast
  show ?thesis
  proof (cases "sb_config b = [] \<or> \<not> authorised header (sb_token b) \<or> str_contains none_match (sb_config_version b)")
    case True
    thus ?thesis using Some by (auto simp: bladeConfig_def config_alone_def)
  next
    case False
    thus ?thesis using Some d aimed_ok by (auto simp: bladeConfig_def config_alone_def authorised_def)
  qed
qed

end
