(* ===== verification/Outage.thy ===== *)
theory Outage
  imports Relay
begin

text \<open>
  The centre and a site's relay side by side: what a site that cannot reach the centre tells a
  blade (\<^verbatim>\<open>src/site/relay.go\<close>) from the last document it was handed, against what the centre
  (\<^verbatim>\<open>src/server/api.go\<close>, \<^verbatim>\<open>siteDesired\<close> and \<^verbatim>\<open>hProvision\<close>) would have told it.
\<close>

section \<open>The centre's answer to a blade it knows\<close>

text \<open>The traits of a blade that decide the answer.\<close>

definition order_of :: "blade \<Rightarrow> install_state \<times> string" where
  "order_of b = (b_install_state b, b_token b)"

definition orders :: "app \<Rightarrow> string \<Rightarrow> (install_state \<times> string) option" where
  "orders a k = map_option order_of (get_row (a_blades a) k)"

definition assigned :: "app \<Rightarrow> string \<Rightarrow> string option" where
  "assigned a k = map_option b_image (get_row (a_blades a) k)"

lemma asked_blades_frame:
  "a_blades (fst (linkNetboot a t serial mac)) = a_blades a"
  "a_blades (clearProbe a t serial) = a_blades (upd_blade a serial (\<lambda>b. b\<lparr>b_probe := None, b_probe_sent := None\<rparr>))"
  by (simp_all add: linkNetboot_def raiseStage_def upd_session_def clearProbe_def taken_where_def keep Let_def split: option.split)

lemma asked_images_frame:
  "a_images (upd_blade a serial f) = a_images a"
  "a_images (fst (linkNetboot a t serial mac)) = a_images a"
  "a_images (clearProbe a t serial) = a_images a"
  by (simp_all add: upd_blade_def linkNetboot_def raiseStage_def upd_session_def clearProbe_def taken_where_def keep Let_def
      split: option.split)

lemma orders_upd:
  "(\<And>b. b_serial (f b) = b_serial b) \<Longrightarrow> (\<And>b. order_of (f b) = order_of b) \<Longrightarrow> orders (upd_blade a s f) = orders a"
  by (auto simp: fun_eq_iff orders_def get_upd_blade option.map_comp comp_def)

lemma assigned_upd:
  "(\<And>b. b_serial (f b) = b_serial b) \<Longrightarrow> (\<And>b. b_image (f b) = b_image b) \<Longrightarrow> assigned (upd_blade a s f) = assigned a"
  by (auto simp: fun_eq_iff assigned_def get_upd_blade option.map_comp comp_def)

lemma traits_cong: "a_blades a' = a_blades a \<Longrightarrow> orders a' = orders a \<and> assigned a' = assigned a"
  by (simp add: fun_eq_iff orders_def assigned_def)

lemma hardware_keeps:
  "orders (take_hardware a t serial hw) = orders a \<and> assigned (take_hardware a t serial hw) = assigned a
   \<and> a_images (take_hardware a t serial hw) = a_images a"
proof -
  have log: "a_blades (logEvent x t s l m) = a_blades x" "a_images (logEvent x t s l m) = a_images x" for x s l m
    by (simp_all add: keep)
  have c: "orders (clearProbe x t serial) = orders x \<and> assigned (clearProbe x t serial) = assigned x" for x
    using traits_cong [OF asked_blades_frame(2) [of x t serial]] by (simp add: orders_upd assigned_upd order_of_def)
  have m: "orders (mergeFacts a serial hw) = orders a" "assigned (mergeFacts a serial hw) = assigned a"
    "a_images (mergeFacts a serial hw) = a_images a"
    by (simp_all add: mergeFacts_def orders_upd assigned_upd order_of_def asked_images_frame)
  show ?thesis using c [of "mergeFacts a serial hw"] m traits_cong [OF log(1)] log(2)
    by (simp add: take_hardware_def Let_def asked_images_frame split: option.split)
qed

lemma take_session_keeps:
  assumes "assigned a serial = Some im" and "im \<noteq> []"
  shows "orders (take_session a t serial mac) = orders a \<and> assigned (take_session a t serial mac) serial = Some im
     \<and> a_images (take_session a t serial mac) = a_images a"
proof -
  obtain b where b: "getBlade a serial = Some (view a b)" "b_image b \<noteq> []"
    using assms by (auto simp: assigned_def getBlade_def)
  have l: "orders (fst (linkNetboot a t serial mac)) = orders a \<and> assigned (fst (linkNetboot a t serial mac)) = assigned a"
    by (rule traits_cong) (rule asked_blades_frame)
  show ?thesis using b l assms
    by (auto simp: take_session_def Let_def case_prod_beta orders_upd assigned_upd order_of_def asked_images_frame)
qed

lemma asked_keeps:
  assumes "get_row (a_blades a) serial = Some b" and "b_image b \<noteq> []"
  shows "orders (asked a t newtok serial mac hw) serial = Some (b_install_state b, b_token b)
     \<and> assigned (asked a t newtok serial mac hw) serial = Some (b_image b)
     \<and> a_images (asked a t newtok serial mac hw) = a_images a"
proof -
  have m: "meet_unknown a t newtok serial = a" using assms(1) by (simp add: meet_unknown_def getBlade_def)
  have h: "assigned (take_hardware a t serial hw) serial = Some (b_image b)"
    using hardware_keeps [of a t serial hw] assms by (simp add: assigned_def)
  show ?thesis using take_session_keeps [OF h assms(2), of t mac] hardware_keeps [of a t serial hw] assms
    by (simp add: asked_def m orders_def order_of_def)
qed

lemma centre_answer:
  assumes "get_row (a_blades a) serial = Some b" and "b_image b \<noteq> []" and "get_image (a_images a) (b_image b) = Some i"
  shows "b_install_state b = InstallPending \<Longrightarrow> \<exists>a' seed tgt opts host keys. hProvision a t base newtok serial mac hw
           = (a', GoJob (b_image b) (if i_local i \<noteq> [] then base @ ''/images/'' @ i_local i else i_url i) (i_sha256 i) seed tgt opts (b_token b) host keys)"
    and "b_install_state b = InstallWipe \<Longrightarrow> \<exists>a' tgt. hProvision a t base newtok serial mac hw = (a', WipeJob tgt (b_token b))"
    and "b_install_state b \<noteq> InstallPending \<Longrightarrow> b_install_state b \<noteq> InstallWipe \<Longrightarrow>
           \<exists>a' tgt. hProvision a t base newtok serial mac hw = (a', Idle (b_image b) tgt)"
proof -
  let ?a0 = "asked a t newtok serial mac hw"
  obtain b' where b': "getBlade ?a0 serial = Some (view ?a0 b')" "b_install_state b' = b_install_state b" "b_token b' = b_token b"
      "b_image b' = b_image b" "a_images ?a0 = a_images a"
    using asked_keeps [OF assms(1,2), of t newtok mac hw] by (auto simp: orders_def order_of_def assigned_def getBlade_def)
  have i: "i_id i = b_image b" using images.get_SomeD [OF assms(3)] by simp
  note h = hProvision_def [of a t base newtok serial mac hw, folded asked_def]
  show "\<exists>a' seed tgt opts host keys. hProvision a t base newtok serial mac hw
           = (a', GoJob (b_image b) (if i_local i \<noteq> [] then base @ ''/images/'' @ i_local i else i_url i) (i_sha256 i) seed tgt opts (b_token b) host keys)" if "b_install_state b = InstallPending"
    using that b' assms i by (simp add: h Let_def)
  show "\<exists>a' tgt. hProvision a t base newtok serial mac hw = (a', WipeJob tgt (b_token b))" if "b_install_state b = InstallWipe"
    using that b' assms by (simp add: h Let_def case_prod_beta)
  show "\<exists>a' tgt. hProvision a t base newtok serial mac hw = (a', Idle (b_image b) tgt)"
    if "b_install_state b \<noteq> InstallPending" "b_install_state b \<noteq> InstallWipe"
    using that b' assms by (simp add: h Let_def)
qed

section \<open>The site's answer from a document of that centre\<close>

text \<open>The keys under which the centre's tables are unique.\<close>

definition keyed :: "app \<Rightarrow> bool" where
  "keyed a \<longleftrightarrow> distinct (map b_serial (a_blades a)) \<and> distinct (map i_id (a_images a))"

lemma find_image:
  assumes "set xs = g ` A" and "x \<in> A" and "P (g x)" and "\<And>y. y \<in> A \<Longrightarrow> P (g y) \<Longrightarrow> y = x"
  shows "find P xs = Some (g x)"
proof -
  have "g x \<in> set xs" using assms(1,2) by blast
  then obtain z where z: "find P xs = Some z" using assms(3) by (cases "find P xs") (simp add: find_None_iff, blast)
  have "P z" and "z \<in> g ` A" using find_SomeD [OF z] unfolding assms(1) by simp_all
  then obtain y where y: "y \<in> A" "z = g y" by (elim imageE)
  have "y = x" using assms(4) [OF y(1)] \<open>P z\<close> unfolding y(2) by simp
  thus ?thesis using z unfolding y(2) by simp
qed

lemma held_blade_of_doc:
  assumes "keyed a" and "siteDesired ce a t k = Some d" and "get_row (a_blades a) serial = Some b"
  shows "held_blade (Some d) serial = (if in_doc k (view a b) then Some (siteBlade_of ce a t (view a b)) else None)"
proof -
  have bs: "set (d_blades d) = (\<lambda>b. siteBlade_of ce a t (view a b)) ` {b \<in> set (a_blades a). in_doc k (view a b)}"
    by (rule siteDesired_Some(1) [OF assms(2)])
  have ser: "sb_serial (siteBlade_of ce a t (view a x)) = b_serial x" for x by (simp add: siteBlade_of_def Let_def)
  have b: "b \<in> set (a_blades a)" "b_serial b = serial" using blades.get_SomeD [OF assms(3)] by simp_all
  have one: "x = b" if "x \<in> set (a_blades a)" "b_serial x = serial" for x
    using that b assms(1) by (auto simp: keyed_def distinct_map inj_on_def)
  show ?thesis
  proof (cases "in_doc k (view a b)")
    case True
    have "find (\<lambda>x. sb_serial x = serial) (d_blades d) = Some (siteBlade_of ce a t (view a b))"
      by (rule find_image [OF bs]) (use True b in \<open>simp_all add: ser one\<close>)
    thus ?thesis using True by (simp add: held_blade_def)
  next
    case False
    have "find (\<lambda>x. sb_serial x = serial) (d_blades d) = None"
      using False by (auto simp: find_None_iff bs ser dest: one)
    thus ?thesis using False by (simp add: held_blade_def)
  qed
qed

lemma held_image_of_doc:
  assumes "keyed a" and "siteDesired ce a t k = Some d" and "b \<in> set (a_blades a)" and "in_doc k (view a b)" and "b_image b \<noteq> []"
  shows "held_image (Some d) (b_image b) = map_option siteImage_of (get_image (a_images a) (b_image b))"
proof -
  have ims: "set (d_images d) = siteImage_of ` {i \<in> set (a_images a). i_id i \<noteq> [] \<and>
           (\<exists>b\<in>set (a_blades a). in_doc k (view a b) \<and> b_image b = i_id i)}"
    by (rule siteDesired_Some(2) [OF assms(2)])
  have key: "sg_id (siteImage_of i) = i_id i" for i by (simp add: siteImage_of_def)
  show ?thesis
  proof (cases "get_image (a_images a) (b_image b)")
    case None
    hence "\<forall>i\<in>set (a_images a). i_id i \<noteq> b_image b" by (auto simp: get_image_def find_None_iff)
    hence "find (\<lambda>i. sg_id i = b_image b) (d_images d) = None" by (auto simp: find_None_iff ims key)
    thus ?thesis using None by (simp add: held_image_def)
  next
    case (Some i)
    have i: "i \<in> set (a_images a)" "i_id i = b_image b" using images.get_SomeD [OF Some] by simp_all
    have one: "x = i" if "x \<in> set (a_images a)" "i_id x = b_image b" for x
      using that i assms(1) by (auto simp: keyed_def distinct_map inj_on_def)
    have "find (\<lambda>i. sg_id i = b_image b) (d_images d) = Some (siteImage_of i)"
      by (rule find_image [OF ims]) (use i assms(3-5) in \<open>auto simp: key intro: one\<close>)
    thus ?thesis using Some by (simp add: held_image_def)
  qed
qed

lemma siteBlade_parts:
  assumes "get_row (a_blades a) (b_serial b) = Some b"
  shows "sb_install_state (siteBlade_of ce a t (view a b)) = b_install_state b" "sb_image (siteBlade_of ce a t (view a b)) = b_image b"
    "sb_token (siteBlade_of ce a t (view a b)) = b_token b" "sb_netboot (siteBlade_of ce a t (view a b)) = netboot_armed t b"
  using assms by (simp_all add: siteBlade_of_def Let_def)

lemma site_answer:
  assumes "keyed a" and "siteDesired ce a t k = Some d" and "get_row (a_blades a) serial = Some b" and "in_doc k (view a b)"
    and "b_image b \<noteq> []" and "get_image (a_images a) (b_image b) = Some i" and "have_file (image_file (siteImage_of i))"
  shows "b_install_state b = InstallWipe \<Longrightarrow> snd (provision None have_file host t' (Some d) serial buf) = Alone (RWipe ''/dev/nvme0n1'' (b_token b))"
    and "b_install_state b \<noteq> InstallWipe \<Longrightarrow> netboot_armed t b \<Longrightarrow>
      snd (provision None have_file host t' (Some d) serial buf) = Alone (RGo (b_image b)
        (selfURL host @ ''/images/'' @ image_file (siteImage_of i)) (i_sha256 i) (b_token b) ''/dev/nvme0n1'')"
    and "b_install_state b \<noteq> InstallWipe \<Longrightarrow> \<not> netboot_armed t b \<Longrightarrow>
      snd (provision None have_file host t' (Some d) serial buf) = Alone (RIdle (b_image b))"
proof -
  have b: "b \<in> set (a_blades a)" "b_serial b = serial" using blades.get_SomeD [OF assms(3)] by simp_all
  have h: "held_blade (Some d) serial = Some (siteBlade_of ce a t (view a b))"
    using held_blade_of_doc [OF assms(1-3)] assms(4) by simp
  have g: "held_image (Some d) (b_image b) = Some (siteImage_of i)"
    using held_image_of_doc [OF assms(1,2) b(1) assms(4,5)] assms(6) by simp
  have p: "get_row (a_blades a) (b_serial b) = Some b" using b assms(3) by simp
  have i: "sg_id (siteImage_of i) = b_image b" "sg_sha256 (siteImage_of i) = i_sha256 i"
    using images.get_SomeD [OF assms(6)] by (simp_all add: siteImage_of_def)
  note s = provision_def provision_alone_def Let_def case_prod_beta h g siteBlade_parts [OF p] i
  show "snd (provision None have_file host t' (Some d) serial buf) = Alone (RWipe ''/dev/nvme0n1'' (b_token b))"
    if "b_install_state b = InstallWipe" using that by (simp add: s)
  show "snd (provision None have_file host t' (Some d) serial buf) = Alone (RGo (b_image b)
        (selfURL host @ ''/images/'' @ image_file (siteImage_of i)) (i_sha256 i) (b_token b) ''/dev/nvme0n1'')"
    if "b_install_state b \<noteq> InstallWipe" "netboot_armed t b" using that assms(5,7) by (simp add: s)
  show "snd (provision None have_file host t' (Some d) serial buf) = Alone (RIdle (b_image b))"
    if "b_install_state b \<noteq> InstallWipe" "\<not> netboot_armed t b" using that by (simp add: s)
qed

text \<open>What a blade is told, with the addresses and the target left out.\<close>

datatype verdict = Write string string string | Erase string | Rest string | Hold

fun centre_verdict :: "answer \<Rightarrow> verdict" where
  "centre_verdict (GoJob im url sha seed tgt opts tok host keys) = Write im sha tok"
| "centre_verdict (WipeJob tgt tok) = Erase tok"
| "centre_verdict (Idle im tgt) = Rest im"
| "centre_verdict _ = Hold"

fun site_verdict :: "relay_answer relayed \<Rightarrow> verdict" where
  "site_verdict (Alone (RGo im url sha tok tgt)) = Write im sha tok"
| "site_verdict (Alone (RWipe tgt tok)) = Erase tok"
| "site_verdict (Alone (RIdle im)) = Rest im"
| "site_verdict _ = Hold"


text \<open>C9. Where a firmware reading is armed, the two differ: the centre tells the blade that
  nothing is to be written, and a site cut off from it tells the same blade to write its image.\<close>

theorem probe_reinstalls_in_outage:
  assumes "keyed a" and "siteDesired ce a t k = Some d" and "get_row (a_blades a) serial = Some b" and "in_doc k (view a b)"
    and "b_image b \<noteq> []" and "get_image (a_images a) (b_image b) = Some i" and "have_file (image_file (siteImage_of i))"
    and "probeArmed t b" and "b_install_state b \<notin> {InstallPending, InstallWipe}"
  shows "centre_verdict (snd (hProvision a t base newtok serial mac hw)) = Rest (b_image b)
     \<and> site_verdict (snd (provision None have_file host t' (Some d) serial buf)) = Write (b_image b) (i_sha256 i) (b_token b)"
  using centre_answer(3) [OF assms(3,5,6), of t base newtok mac hw] site_answer(2) [where have_file = have_file and host = host and t' = t' and buf = buf, OF assms(1-7)] assms(8,9)
  by (auto simp: netboot_armed_def)

definition probed :: app where
  "probed = demo\<lparr>a_blades := [demo_blade\<lparr>b_probe := Some 0\<rparr>]\<rparr>"

lemma demo_doc_parts:
  assumes "a = demo\<lparr>a_blades := [b]\<rparr>" and "b_serial b = ''c0ffee01''" and "b_image b = ''dietpi''"
    and "b_rack_id b = Some 1" and "b_slot b = Some 3"
  shows "keyed a" and "\<exists>d. siteDesired demo_centre a 0 1 = Some d" and "get_row (a_blades a) ''c0ffee01'' = Some b"
    and "in_doc 1 (view a b)" and "get_image (a_images a) (b_image b) = Some demo_image"
proof -
  show "keyed a" by (simp add: keyed_def assms(1) demo_def)
  show "\<exists>d. siteDesired demo_centre a 0 1 = Some d"
    by (simp add: siteDesired_def getSite_def get_site_def assms(1) demo_def demo_site_def Let_def)
  show "get_row (a_blades a) ''c0ffee01'' = Some b" by (simp add: get_row_def assms)
  show "in_doc 1 (view a b)"
    using assms(4,5) by (simp add: in_doc_def view_def decorate_def siteNets_def getRack_def get_rack_def assms(1) demo_def demo_rack_def demo_site_def getSite_def get_site_def Let_def)
  show "get_image (a_images a) (b_image b) = Some demo_image"
    by (simp add: get_image_def assms demo_def) (simp add: demo_image_def)
qed


theorem probe_reinstalls_in_outage_witness:
  "\<exists>d. siteDesired demo_centre probed 0 1 = Some d
     \<and> centre_verdict (snd (hProvision probed 0 [] [] ''c0ffee01'' [] [])) = Rest ''dietpi''
     \<and> site_verdict (snd (provision None (\<lambda>_. True) [] 9 (Some d) ''c0ffee01'' empty_buffer)) = Write ''dietpi'' [] ''secret''"
proof -
  let ?b = "demo_blade\<lparr>b_probe := Some 0\<rparr>"
  have p: "b_serial ?b = ''c0ffee01''" "b_image ?b = ''dietpi''" "b_rack_id ?b = Some 1" "b_slot ?b = Some 3" "b_image ?b \<noteq> []"
    "probeArmed 0 ?b" "b_install_state ?b \<notin> {InstallPending, InstallWipe}" "b_token ?b = ''secret''" "i_sha256 demo_image = []"
    by (simp_all add: demo_blade_def demo_image_def probeArmed_def since_def probeFor_def minutes_def nsec_def)
  note parts = demo_doc_parts [OF probed_def p(1-4)]
  from parts(2) obtain d where d: "siteDesired demo_centre probed 0 1 = Some d" by blast
  from probe_reinstalls_in_outage [OF parts(1) d parts(3,4) p(5) parts(5) TrueI p(6,7)] d p(2,8,9) show ?thesis by (simp only:) blast
qed

end
