(* ===== verification/Passwords.thy ===== *)
theory Passwords
  imports Prelude
begin

text \<open>
  Stored passwords (\<^verbatim>\<open>src/server/users.go\<close>): the text form of a hash, with its own cost and salt in
  it, and the check of a password against it. The key derivation (\<^verbatim>\<open>pbkdf2.Key\<close>) is a parameter,
  a function of the password, the salt and the number of rounds that may fail; the unpadded
  base64 of \<^verbatim>\<open>encoding/base64\<close> is written out. The theorem: a stored hash accepts exactly the
  passwords the derivation cannot tell from the one it was made of.
\<close>

section \<open>Unpadded base64\<close>

definition b64_char :: "nat \<Rightarrow> char" where
  "b64_char n = (if n < 26 then char_of (65 + n) else if n < 52 then char_of (71 + n)
     else if n < 62 then char_of (n - 4) else if n = 62 then CHR ''+'' else CHR ''/'')"

definition b64_val :: "char \<Rightarrow> nat option" where
  "b64_val c = (if is_upper c then Some (code c - 65) else if is_lower c then Some (code c - 71)
     else if is_digit c then Some (code c + 4) else if c = CHR ''+'' then Some 62
     else if c = CHR ''/'' then Some 63 else None)"

text \<open>Three bytes are four digits of six bits; one or two bytes at the end are two or three.\<close>

fun b64_digits :: "nat list \<Rightarrow> nat list" where
  "b64_digits [] = []"
| "b64_digits [a] = [a div 4, a mod 4 * 16]"
| "b64_digits [a, b] = [a div 4, a mod 4 * 16 + b div 16, b mod 16 * 4]"
| "b64_digits (a # b # c # r) =
     a div 4 # (a mod 4 * 16 + b div 16) # (b mod 16 * 4 + c div 64) # c mod 64 # b64_digits r"

fun b64_bytes :: "nat list \<Rightarrow> nat list option" where
  "b64_bytes [] = Some []"
| "b64_bytes [w] = None"
| "b64_bytes [w, x] = Some [w * 4 + x div 16]"
| "b64_bytes [w, x, y] = Some [w * 4 + x div 16, x mod 16 * 16 + y div 4]"
| "b64_bytes (w # x # y # z # r) =
     map_option (\<lambda>bs. (w * 4 + x div 16) # (x mod 16 * 16 + y div 4) # (y mod 4 * 64 + z) # bs) (b64_bytes r)"

definition EncodeToString :: "string \<Rightarrow> string" where
  "EncodeToString s = map b64_char (b64_digits (map code s))"

text \<open>Line breaks are skipped; a character outside the alphabet is an error.\<close>

definition DecodeString :: "string \<Rightarrow> string option" where
  "DecodeString s =
     (let vs = map b64_val (filter (\<lambda>c. code c \<noteq> 10 \<and> code c \<noteq> 13) s)
      in if list_all (\<lambda>v. v \<noteq> None) vs then map_option (map char_of) (b64_bytes (map the vs)) else None)"

section \<open>Hashes\<close>

type_synonym kdf = "string \<Rightarrow> string \<Rightarrow> int \<Rightarrow> string option"

definition pbkdf2Iterations :: int where "pbkdf2Iterations = 240000"

definition encodeHash :: "kdf \<Rightarrow> string \<Rightarrow> string \<Rightarrow> int \<Rightarrow> string option" where
  "encodeHash key pw salt iter =
     map_option (\<lambda>k. ''pbkdf2-sha256$'' @ show_int iter @ ''$'' @ EncodeToString salt @ ''$'' @ EncodeToString k)
       (key pw salt iter)"

text \<open>The salt is what the random source gave, \<open>None\<close> when it failed.\<close>

definition hashPassword :: "kdf \<Rightarrow> string option \<Rightarrow> string \<Rightarrow> string option" where
  "hashPassword key salt pw = (case salt of None \<Rightarrow> None | Some s \<Rightarrow> encodeHash key pw s pbkdf2Iterations)"

definition passwordMatches :: "kdf \<Rightarrow> string \<Rightarrow> string \<Rightarrow> bool" where
  "passwordMatches key stored pw =
     (case split_on CHR ''$'' stored of
        [scheme, cost, salt64, key64] \<Rightarrow>
          scheme = ''pbkdf2-sha256''
          \<and> (case atoi cost of None \<Rightarrow> False
             | Some iter \<Rightarrow> iter > 0
                 \<and> (case DecodeString salt64 of None \<Rightarrow> False
                    | Some salt \<Rightarrow> encodeHash key pw salt iter = Some stored))
      | _ \<Rightarrow> False)"

section \<open>Decoding undoes encoding\<close>

lemma code_bound [simp]: "code c < 256"
  by (simp add: code_def)

lemma b64_val_char: "n < 64 \<Longrightarrow> b64_val (b64_char n) = Some n"
proof -
  assume n: "n < 64"
  have "n = 62 \<or> n = 63 \<or> n < 62" using n by arith
  then show ?thesis
    by (elim disjE) (auto simp: b64_char_def b64_val_def is_upper_def is_lower_def is_digit_def code_def)
qed

lemma b64_char_plain:
  "n < 64 \<Longrightarrow> code (b64_char n) \<noteq> 10 \<and> code (b64_char n) \<noteq> 13 \<and> b64_char n \<noteq> CHR ''$''"
proof -
  assume n: "n < 64"
  have "b64_val (CHR ''$'') = None" by (simp add: b64_val_def is_upper_def is_lower_def is_digit_def code_def)
  with b64_val_char [OF n] have "b64_char n \<noteq> CHR ''$''" by force
  then show ?thesis using n by (auto simp: b64_char_def code_def)
qed

text \<open>Two parts of a digit, and how to tell them apart again.\<close>

lemma join_parts:
  fixes x y k :: nat
  assumes "y < k"
  shows "(x * k + y) div k = x" and "(x * k + y) mod k = y"
  using assms by simp_all

lemma join_bound:
  fixes x y k m :: nat
  assumes "x < m" and "y < k"
  shows "x * k + y < m * k"
proof -
  have "x * k + y < Suc x * k" using assms(2) by simp
  also have "\<dots> \<le> m * k" using assms(1) by (intro mult_le_mono1) simp
  finally show ?thesis .
qed

lemma part_bounds:
  "(b::nat) < 256 \<Longrightarrow> b div 4 < 64" "b < 256 \<Longrightarrow> b div 16 < 16" "b < 256 \<Longrightarrow> b div 64 < 4"
  by simp_all

lemmas digit_bounds = part_bounds join_bound [of _ 4 _ 16, simplified] join_bound [of _ 16 _ 4, simplified]
lemmas digit_parts = join_parts [where k = 16] join_parts [where k = 4]

lemma b64_digits_bound: "list_all (\<lambda>b. b < 256) bs \<Longrightarrow> list_all (\<lambda>d. d < 64) (b64_digits bs)"
  by (induction bs rule: b64_digits.induct) (simp_all add: digit_bounds)

lemma b64_bytes_digits: "list_all (\<lambda>b. b < 256) bs \<Longrightarrow> b64_bytes (b64_digits bs) = Some bs"
proof (induction bs rule: b64_digits.induct)
  case (3 a b)
  then show ?case using digit_parts(1,2) [of "b div 16" "a mod 4"] part_bounds(2) [of b] by simp
next
  case (4 a b c r)
  then show ?case
    using digit_parts(1,2) [of "b div 16" "a mod 4"] digit_parts(3,4) [of "c div 64" "b mod 16"]
      part_bounds(2) [of b] part_bounds(3) [of c] by simp
qed simp_all

lemma char_of_code [simp]: "char_of (code c) = c"
  by (simp add: code_def)

lemma digits_of_string: "d \<in> set (b64_digits (map code s)) \<Longrightarrow> d < 64"
  using b64_digits_bound [of "map code s"] by (simp add: list_all_iff)

lemma Decode_Encode [simp]: "DecodeString (EncodeToString s) = Some s"
proof -
  let ?ds = "b64_digits (map code s)"
  have f: "filter (\<lambda>c. code c \<noteq> 10 \<and> code c \<noteq> 13) (map b64_char ?ds) = map b64_char ?ds"
    using digits_of_string b64_char_plain by (intro filter_True) auto
  have v: "map b64_val (map b64_char ?ds) = map Some ?ds"
    using digits_of_string by (simp add: b64_val_char)
  have "b64_bytes ?ds = Some (map code s)" by (rule b64_bytes_digits) (simp add: list_all_iff)
  then show ?thesis
    unfolding DecodeString_def EncodeToString_def f v by (simp add: list_all_iff comp_def)
qed

lemma Encode_inj: "EncodeToString s = EncodeToString s' \<longleftrightarrow> s = s'"
  by (metis Decode_Encode option.inject)

lemma dollar_notin_Encode: "CHR ''$'' \<notin> set (EncodeToString s)"
  using digits_of_string b64_char_plain by (fastforce simp: EncodeToString_def)

lemma split_hash:
  "split_on CHR ''$'' (''pbkdf2-sha256$'' @ show_nat n @ ''$'' @ EncodeToString s @ ''$'' @ EncodeToString k)
     = [''pbkdf2-sha256'', show_nat n, EncodeToString s, EncodeToString k]"
proof -
  have "CHR ''$'' \<notin> set (show_nat n)" by (rule no_digit_in_show) (simp add: is_digit_def code_def)
  then show ?thesis
    using split_on_append [of "CHR ''$''" "''pbkdf2-sha256''"]
    by (simp add: split_on_append split_on_none dollar_notin_Encode)
qed

text \<open>A stored hash, whatever its cost and salt, accepts exactly the passwords from which the
  key derivation gives the key it was made of; in particular the password itself.\<close>

theorem passwordMatches_spec:
  assumes "encodeHash key pw salt iter = Some stored" and "0 < iter" and "iter < 2 ^ 63"
  shows "passwordMatches key stored pw' \<longleftrightarrow> key pw' salt iter = key pw salt iter"
proof -
  from assms(1) obtain k where k: "key pw salt iter = Some k"
    and st: "stored = ''pbkdf2-sha256$'' @ show_nat (nat iter) @ ''$'' @ EncodeToString salt @ ''$'' @ EncodeToString k"
    using assms(2) by (auto simp: encodeHash_def show_int_def)
  have "atoi (show_nat (nat iter)) = Some iter" using assms(2,3) by (simp add: atoi_show_nat)
  then have "passwordMatches key stored pw' \<longleftrightarrow> encodeHash key pw' salt iter = Some stored"
    using assms(2) unfolding passwordMatches_def st split_hash by simp
  also have "\<dots> \<longleftrightarrow> key pw' salt iter = Some k"
    using assms(2) by (auto simp: encodeHash_def st show_int_def Encode_inj)
  finally show ?thesis by (simp add: k)
qed

text \<open>A derivation for the concrete instances: it only repeats the password.\<close>

definition plain_key :: kdf where "plain_key pw salt iter = Some pw"

theorem passwordMatches_spec_witness:
  "\<exists>stored. hashPassword plain_key (Some ''salt'') ''correct horse'' = Some stored
     \<and> passwordMatches plain_key stored ''correct horse'' \<and> \<not> passwordMatches plain_key stored ''wrong''"
proof -
  obtain stored where "encodeHash plain_key ''correct horse'' ''salt'' pbkdf2Iterations = Some stored"
    by (auto simp: encodeHash_def plain_key_def)
  with passwordMatches_spec [OF this] show ?thesis
    by (simp add: hashPassword_def pbkdf2Iterations_def plain_key_def)
qed

end
