(* ===== verification/Accounts.thy ===== *)
theory Accounts
  imports Passwords Sites
begin

text \<open>
  Who may do what (\<^verbatim>\<open>src/server/users.go\<close>, \<^verbatim>\<open>src/server/session.go\<close>, \<^verbatim>\<open>src/server/usersui.go\<close>): the accounts,
  signing in, the sessions in memory, the two roles and what each may ask of a blade. A fresh
  session id, the salt of a new hash and the key derivation are parameters. The theorems: no
  sequence of account changes removes the last administrator who can sign in, a session is
  good only for whoever signed in, for twelve hours and until signing out, and an operator
  may do exactly what the table of actions names.
\<close>

section \<open>Roles\<close>

definition roleAdmin :: string where "roleAdmin = ''admin''"
definition roleOperator :: string where "roleOperator = ''operator''"

definition validRole :: "string \<Rightarrow> bool" where
  "validRole r \<longleftrightarrow> r = roleAdmin \<or> r = roleOperator"

definition atLeast :: "string \<Rightarrow> string \<Rightarrow> bool" where
  "atLeast r need = (if need = roleOperator then r = roleOperator \<or> r = roleAdmin else r = roleAdmin)"

definition actionNeeds :: "(string \<times> string) list" where
  "actionNeeds = [(''reimage'', roleOperator), (''cancel'', roleOperator), (''reset'', roleOperator),
     (''shutdown'', roleOperator), (''reboot'', roleOperator), (''identify'', roleOperator),
     (''identify_off'', roleOperator), (''stealth_on'', roleOperator), (''stealth_off'', roleOperator),
     (''probe'', roleOperator), (''wipe'', roleAdmin)]"

definition mayDo :: "string \<Rightarrow> string \<Rightarrow> bool" where
  "mayDo r kind = atLeast r (case map_of actionNeeds kind of None \<Rightarrow> roleAdmin | Some need \<Rightarrow> need)"

section \<open>Accounts\<close>

record user =
  u_name :: string
  u_pass :: string
  u_role :: string
  u_created :: stamp
  u_last_login :: stamp
  u_disabled :: bool

datatype account_err = ErrUsername | ErrUserrole | ErrUserpw | ErrHash | ErrUsertaken string
  | ErrNosuchuser string | ErrLastadmin

definition get_user :: "user list \<Rightarrow> string \<Rightarrow> user option" where
  "get_user t k = find (\<lambda>r. u_name r = k) t"

interpretation users: keyed_table u_name get_user
  by unfold_locales (rule get_user_def)

definition validUserName :: "string \<Rightarrow> bool" where
  "validUserName name \<longleftrightarrow> 2 \<le> length name \<and> length name \<le> 32
     \<and> list_all (\<lambda>c. is_lower c \<or> is_upper c \<or> is_digit c \<or> c = CHR ''.'' \<or> c = CHR ''-'' \<or> c = CHR ''_'') name"

definition usablePassword :: "string \<Rightarrow> bool" where
  "usablePassword pw \<longleftrightarrow> 10 \<le> length pw"

definition createUser ::
    "kdf \<Rightarrow> string option \<Rightarrow> user list \<Rightarrow> instant \<Rightarrow> string \<Rightarrow> string \<Rightarrow> string \<Rightarrow> account_err + user list" where
  "createUser key salt us t name pw r =
     (if \<not> validUserName name then Inl ErrUsername
      else if \<not> validRole r then Inl ErrUserrole
      else if \<not> usablePassword pw then Inl ErrUserpw
      else case hashPassword key salt pw of
             None \<Rightarrow> Inl ErrHash
           | Some h \<Rightarrow>
               if get_user us name \<noteq> None then Inl (ErrUsertaken name)
               else Inr (us @ [\<lparr>u_name = name, u_pass = h, u_role = r, u_created = stamp_of t,
                                u_last_login = None, u_disabled = False\<rparr>]))"

definition upd_user :: "string \<Rightarrow> (user \<Rightarrow> user) \<Rightarrow> user list \<Rightarrow> user list" where
  "upd_user name f us = upd_where (\<lambda>u. u_name u = name) f us"

definition setUserPassword :: "kdf \<Rightarrow> string option \<Rightarrow> user list \<Rightarrow> string \<Rightarrow> string \<Rightarrow> account_err + user list" where
  "setUserPassword key salt us name pw =
     (if \<not> usablePassword pw then Inl ErrUserpw
      else case hashPassword key salt pw of
             None \<Rightarrow> Inl ErrHash
           | Some h \<Rightarrow>
               if get_user us name = None then Inl (ErrNosuchuser name)
               else Inr (upd_user name (\<lambda>u. u\<lparr>u_pass := h\<rparr>) us))"

definition wouldStrandUs :: "user list \<Rightarrow> string \<Rightarrow> bool" where
  "wouldStrandUs us name \<longleftrightarrow> count_where (\<lambda>u. u_role u = roleAdmin \<and> \<not> u_disabled u \<and> u_name u \<noteq> name) us = 0"

definition setUserRole :: "user list \<Rightarrow> string \<Rightarrow> string \<Rightarrow> account_err + user list" where
  "setUserRole us name r =
     (if \<not> validRole r then Inl ErrUserrole
      else if r \<noteq> roleAdmin \<and> wouldStrandUs us name then Inl ErrLastadmin
      else Inr (upd_user name (\<lambda>u. u\<lparr>u_role := r\<rparr>) us))"

definition setUserDisabled :: "user list \<Rightarrow> string \<Rightarrow> bool \<Rightarrow> account_err + user list" where
  "setUserDisabled us name off =
     (if off \<and> wouldStrandUs us name then Inl ErrLastadmin
      else Inr (upd_user name (\<lambda>u. u\<lparr>u_disabled := off\<rparr>) us))"

definition deleteUser :: "user list \<Rightarrow> string \<Rightarrow> account_err + user list" where
  "deleteUser us name =
     (if wouldStrandUs us name then Inl ErrLastadmin else Inr (del_where (\<lambda>u. u_name u = name) us))"

text \<open>The name and the role of whoever signed in.\<close>

definition authenticate :: "kdf \<Rightarrow> user list \<Rightarrow> instant \<Rightarrow> string \<Rightarrow> string \<Rightarrow> user list \<times> (string \<times> string) option" where
  "authenticate key us t name pw =
     (case get_user us name of
        None \<Rightarrow> (us, None)
      | Some u \<Rightarrow>
          if \<not> passwordMatches key (u_pass u) pw \<or> u_disabled u then (us, None)
          else (upd_user name (\<lambda>u. u\<lparr>u_last_login := stamp_of t\<rparr>) us, Some (name, u_role u)))"

definition anyUsers :: "user list \<Rightarrow> bool" where
  "anyUsers us \<longleftrightarrow> length us > 0"

section \<open>Sessions\<close>

record who =
  w_name :: string
  w_role :: string
  w_exp :: instant

definition sessionTTL :: nat where "sessionTTL = hours 12"

type_synonym sessions = "(string \<times> who) list"

definition create :: "sessions \<Rightarrow> instant \<Rightarrow> string \<Rightarrow> string \<Rightarrow> string \<Rightarrow> sessions" where
  "create s t sid name r = AList.update sid \<lparr>w_name = name, w_role = r, w_exp = t + sessionTTL\<rparr> s"

definition lookup :: "sessions \<Rightarrow> instant \<Rightarrow> string \<Rightarrow> sessions \<times> who option" where
  "lookup s t sid =
     (if sid = [] then (s, None)
      else case map_of s sid of
             None \<Rightarrow> (AList.delete sid s, None)
           | Some w \<Rightarrow> if t > w_exp w then (AList.delete sid s, None) else (s, Some w))"

definition drop_session :: "sessions \<Rightarrow> string \<Rightarrow> sessions" where
  "drop_session s sid = AList.delete sid s"

definition reap :: "sessions \<Rightarrow> instant \<Rightarrow> sessions" where
  "reap s t = filter (\<lambda>(sid, w). \<not> t > w_exp w) s"

text \<open>Who is at the other end; with no admin token everybody is an administrator. The cookie is
  \<open>None\<close> where the request carries none.\<close>

definition caller :: "string \<Rightarrow> sessions \<Rightarrow> instant \<Rightarrow> string option \<Rightarrow> sessions \<times> who option" where
  "caller adminToken s t cookie =
     (if adminToken = [] then (s, Some \<lparr>w_name = [], w_role = roleAdmin, w_exp = 0\<rparr>)
      else case cookie of None \<Rightarrow> (s, None) | Some sid \<Rightarrow> lookup s t sid)"

datatype admission = ToLogin | NotAllowed | Through who

definition requireRole :: "string \<Rightarrow> string \<Rightarrow> sessions \<Rightarrow> instant \<Rightarrow> string option \<Rightarrow> sessions \<times> admission" where
  "requireRole need adminToken s t cookie =
     (case caller adminToken s t cookie of
        (s', None) \<Rightarrow> (s', ToLogin)
      | (s', Some w) \<Rightarrow> (s', if \<not> atLeast (w_role w) need then NotAllowed else Through w))"

definition mayAct :: "string \<Rightarrow> sessions \<Rightarrow> instant \<Rightarrow> string option \<Rightarrow> string \<Rightarrow> sessions \<times> bool" where
  "mayAct adminToken s t cookie kind =
     (case caller adminToken s t cookie of (s', None) \<Rightarrow> (s', False) | (s', Some w) \<Rightarrow> (s', mayDo (w_role w) kind))"

definition login_next :: "string \<Rightarrow> string" where
  "login_next n = (if n = [] \<or> hd n \<noteq> CHR ''/'' then ''/'' else n)"

text \<open>Signing in with a name and a password, or with the admin token alone.\<close>

definition hLoginPost ::
    "kdf \<Rightarrow> string \<Rightarrow> user list \<times> sessions \<Rightarrow> instant \<Rightarrow> string \<Rightarrow> string \<Rightarrow> string \<Rightarrow> (user list \<times> sessions) \<times> bool" where
  "hLoginPost key adminToken st t sid user0 secret =
     (let (us, s) = st; name = trim_space user0
      in if name \<noteq> [] then
           (case authenticate key us t name secret of
              (us', None) \<Rightarrow> ((us', s), False)
            | (us', Some (n, r)) \<Rightarrow> ((us', create s t sid n r), True))
         else if secret = adminToken then ((us, create s t sid [] roleAdmin), True)
         else ((us, s), False))"

definition hLogout :: "sessions \<Rightarrow> string option \<Rightarrow> sessions" where
  "hLogout s cookie = (case cookie of None \<Rightarrow> s | Some sid \<Rightarrow> drop_session s sid)"

section \<open>The accounts page\<close>

text \<open>Each handler with the name of whoever is signed in; the second component is the accounts.\<close>

type_synonym desk = "app \<times> user list"

definition acted :: "desk \<Rightarrow> instant \<Rightarrow> string \<Rightarrow> account_err + user list \<Rightarrow> string \<Rightarrow> string \<Rightarrow> desk" where
  "acted d t actor r level msg =
     (case r of Inl e \<Rightarrow> d | Inr us \<Rightarrow> (logActed (fst d) t actor [] level msg, us))"

definition hUserCreate ::
    "kdf \<Rightarrow> string option \<Rightarrow> desk \<Rightarrow> instant \<Rightarrow> string \<Rightarrow> string \<Rightarrow> string \<Rightarrow> string \<Rightarrow> desk" where
  "hUserCreate key salt d t actor name0 pw r =
     (let name = trim_space name0
      in acted d t actor (createUser key salt (snd d) t name pw r) ''info''
           (''account created: '' @ name @ '' ('' @ r @ '')''))"

definition hUserPassword :: "kdf \<Rightarrow> string option \<Rightarrow> desk \<Rightarrow> instant \<Rightarrow> string \<Rightarrow> string \<Rightarrow> string \<Rightarrow> desk" where
  "hUserPassword key salt d t actor name pw =
     acted d t actor (setUserPassword key salt (snd d) name pw) ''warn'' (''password changed for '' @ name)"

definition hUserRole :: "desk \<Rightarrow> instant \<Rightarrow> string \<Rightarrow> string \<Rightarrow> string \<Rightarrow> desk" where
  "hUserRole d t actor name r =
     acted d t actor (setUserRole (snd d) name r) ''warn'' (''role of '' @ name @ '' set to '' @ r)"

definition hUserDisable :: "desk \<Rightarrow> instant \<Rightarrow> string \<Rightarrow> string \<Rightarrow> string \<Rightarrow> desk" where
  "hUserDisable d t actor name off0 =
     (let off = (off0 \<noteq> ''0'')
      in acted d t actor (setUserDisabled (snd d) name off) ''warn''
           (''account '' @ name @ '' '' @ (if off then ''disabled'' else ''enabled'')))"

definition hUserDelete :: "desk \<Rightarrow> instant \<Rightarrow> string \<Rightarrow> string \<Rightarrow> desk" where
  "hUserDelete d t actor name = acted d t actor (deleteUser (snd d) name) ''warn'' (''account removed: '' @ name)"

section \<open>The last administrator stays\<close>

datatype account_op =
    CreateUser instant string string string string "kdf" "string option"
  | PasswordUser instant string string string "kdf" "string option"
  | RoleUser instant string string string
  | DisableUser instant string string string
  | DeleteUser instant string string
  | SignIn instant string string "kdf"

fun account :: "account_op \<Rightarrow> desk \<Rightarrow> desk" where
  "account (CreateUser t actor name pw r key salt) d = hUserCreate key salt d t actor name pw r"
| "account (PasswordUser t actor name pw key salt) d = hUserPassword key salt d t actor name pw"
| "account (RoleUser t actor name r) d = hUserRole d t actor name r"
| "account (DisableUser t actor name off) d = hUserDisable d t actor name off"
| "account (DeleteUser t actor name) d = hUserDelete d t actor name"
| "account (SignIn t name pw key) d = (fst d, fst (authenticate key (snd d) t name pw))"

definition way_in :: "user list \<Rightarrow> bool" where
  "way_in us \<longleftrightarrow> distinct (map u_name us) \<and> (\<exists>u\<in>set us. u_role u = roleAdmin \<and> \<not> u_disabled u)"

lemma way_in_upd:
  assumes "way_in us" and "\<And>u. u_name (f u) = u_name u"
    and "(\<forall>u. u_role u = roleAdmin \<and> \<not> u_disabled u \<longrightarrow> u_role (f u) = roleAdmin \<and> \<not> u_disabled (f u))
         \<or> \<not> wouldStrandUs us name"
  shows "way_in (upd_user name f us)"
proof -
  have d: "distinct (map u_name (upd_user name f us))"
    using assms(1,2) by (simp add: way_in_def upd_user_def users.keys_upd)
  from assms(1,3) obtain u where u: "u \<in> set us" "u_role u = roleAdmin" "\<not> u_disabled u"
    "u_name u \<noteq> name \<or> u_role (f u) = roleAdmin \<and> \<not> u_disabled (f u)"
    unfolding way_in_def wouldStrandUs_def count_where_0_iff by blast
  let ?u = "if u_name u = name then f u else u"
  have "?u \<in> set (upd_user name f us)" using u(1) by (simp add: upd_user_def set_upd_where image_iff) blast
  moreover have "u_role ?u = roleAdmin \<and> \<not> u_disabled ?u" using u by auto
  ultimately show ?thesis using d unfolding way_in_def by blast
qed

lemma way_in_delete:
  assumes "way_in us" and "\<not> wouldStrandUs us name"
  shows "way_in (del_where (\<lambda>u. u_name u = name) us)"
  using assms unfolding way_in_def wouldStrandUs_def count_where_0_iff
  by (auto simp: set_del_where intro: distinct_del_where)

lemma way_in_acted:
  "way_in (snd d) \<Longrightarrow> (\<And>us. r = Inr us \<Longrightarrow> way_in us) \<Longrightarrow> way_in (snd (acted d t actor r l m))"
  by (cases r) (simp_all add: acted_def)

lemma way_in_create: "way_in us \<Longrightarrow> createUser key salt us t name pw r = Inr us' \<Longrightarrow> way_in us'"
  by (auto simp: createUser_def way_in_def users.get_None_iff split: if_splits option.splits)

lemma way_in_password: "way_in us \<Longrightarrow> setUserPassword key salt us name pw = Inr us' \<Longrightarrow> way_in us'"
  by (auto simp: setUserPassword_def intro!: way_in_upd split: if_splits option.splits)

lemma way_in_role: "way_in us \<Longrightarrow> setUserRole us name r = Inr us' \<Longrightarrow> way_in us'"
  by (auto simp: setUserRole_def intro!: way_in_upd split: if_splits)

lemma way_in_disable: "way_in us \<Longrightarrow> setUserDisabled us name off = Inr us' \<Longrightarrow> way_in us'"
  by (auto simp: setUserDisabled_def intro!: way_in_upd split: if_splits)

lemma way_in_deleteUser: "way_in us \<Longrightarrow> deleteUser us name = Inr us' \<Longrightarrow> way_in us'"
  by (auto simp: deleteUser_def intro: way_in_delete split: if_splits)

lemma way_in_signin: "way_in us \<Longrightarrow> way_in (fst (authenticate key us t name pw))"
  by (auto simp: authenticate_def intro!: way_in_upd split: option.split)

interpretation accounts: kept_by account "\<lambda>d. way_in (snd d)"
proof
  fix d :: desk and x
  assume "way_in (snd d)"
  then show "way_in (snd (account x d))"
    by (cases x)
       (auto simp: hUserCreate_def hUserPassword_def hUserRole_def hUserDisable_def hUserDelete_def Let_def way_in_signin
         intro: way_in_acted way_in_create way_in_password way_in_role way_in_disable way_in_deleteUser)
qed

text \<open>C36. However accounts are created, changed, disabled, deleted and signed in to, in whatever
  order, an installation that has an administrator who can sign in keeps having one.\<close>

theorem last_admin_stays:
  assumes "distinct (map u_name us)" and "u \<in> set us" and "u_role u = roleAdmin" and "\<not> u_disabled u"
  shows "\<exists>u'\<in>set (snd (fold account ops (a, us))). u_role u' = roleAdmin \<and> \<not> u_disabled u'"
proof -
  have "way_in (snd (a, us))" using assms by (auto simp: way_in_def)
  from accounts.kept_fold [OF this, of ops] show ?thesis by (simp add: way_in_def)
qed

theorem last_admin_stays_witness:
  "\<exists>u'\<in>set (snd (fold account [DeleteUser 0 ''anna'' ''anna'', RoleUser 1 ''anna'' ''anna'' ''operator'']
       (demo, [\<lparr>u_name = ''anna'', u_pass = [], u_role = ''admin'', u_created = None, u_last_login = None,
                u_disabled = False\<rparr>]))). u_role u' = roleAdmin \<and> \<not> u_disabled u'"
  by (rule last_admin_stays [where u = "\<lparr>u_name = ''anna'', u_pass = [], u_role = ''admin'', u_created = None,
      u_last_login = None, u_disabled = False\<rparr>"]) (simp_all add: roleAdmin_def)

section \<open>What a session is good for\<close>

datatype session_op = Create instant string string string | Lookup instant string | Drop string | Reap instant

fun session :: "session_op \<Rightarrow> sessions \<Rightarrow> sessions" where
  "session (Create t sid name r) s = create s t sid name r"
| "session (Lookup t sid) s = fst (lookup s t sid)"
| "session (Drop sid) s = drop_session s sid"
| "session (Reap t) s = reap s t"

lemma map_of_filter_pairs: "distinct (map fst s) \<Longrightarrow> map_of (filter P s) k = Some v \<Longrightarrow> map_of s k = Some v"
  by (drule map_of_SomeD) simp

lemma session_distinct: "distinct (map fst s) \<Longrightarrow> distinct (map fst (session x s))"
  by (cases x) (auto simp: create_def lookup_def drop_session_def reap_def distinct_update distinct_delete
      distinct_map_filter split: option.split)

interpretation memory: kept_by session "\<lambda>s. distinct (map fst s)"
  by unfold_locales (rule session_distinct)

lemma session_keeps:
  assumes "distinct (map fst s)" and "map_of (session x s) sid = Some w"
  shows "(\<exists>t. x = Create t sid (w_name w) (w_role w) \<and> w_exp w = t + sessionTTL)
    \<or> map_of s sid = Some w \<and> x \<noteq> Drop sid"
  using assms
  by (cases x) (auto simp: create_def lookup_def drop_session_def reap_def update_conv' delete_conv'
      dest: map_of_filter_pairs [rotated] split: option.splits if_splits)

text \<open>C37. Whatever signing in and out, looking up and clearing out went before, a session answers
  only with the name and the role it was created for, at most twelve hours after, and never
  after it was signed out.\<close>

theorem session_good_for:
  assumes "snd (lookup (fold session ops []) t sid) = Some w"
  shows "\<exists>xs t0 ys. ops = xs @ Create t0 sid (w_name w) (w_role w) # ys \<and> Drop sid \<notin> set ys \<and> t \<le> t0 + sessionTTL"
proof -
  have m: "map_of (fold session ops []) sid = Some w" and t: "t \<le> w_exp w"
    using assms by (auto simp: lookup_def split: if_splits option.splits)
  from m have "\<exists>xs t0 ys. ops = xs @ Create t0 sid (w_name w) (w_role w) # ys \<and> Drop sid \<notin> set ys \<and> w_exp w = t0 + sessionTTL"
  proof (induction ops rule: rev_induct)
    case Nil
    then show ?case by simp
  next
    case (snoc x ops)
    have "distinct (map fst (fold session ops []))" by (rule memory.kept_fold) simp
    from session_keeps [OF this] snoc.prems have
      "(\<exists>t. x = Create t sid (w_name w) (w_role w) \<and> w_exp w = t + sessionTTL)
       \<or> map_of (fold session ops []) sid = Some w \<and> x \<noteq> Drop sid" by simp
    then show ?case
    proof
      assume "\<exists>t. x = Create t sid (w_name w) (w_role w) \<and> w_exp w = t + sessionTTL"
      then show ?thesis by fastforce
    next
      assume x: "map_of (fold session ops []) sid = Some w \<and> x \<noteq> Drop sid"
      with snoc.IH obtain xs t0 ys where "ops = xs @ Create t0 sid (w_name w) (w_role w) # ys"
        "Drop sid \<notin> set ys" "w_exp w = t0 + sessionTTL" by blast
      with x have "ops @ [x] = xs @ Create t0 sid (w_name w) (w_role w) # (ys @ [x])" "Drop sid \<notin> set (ys @ [x])" by auto
      with \<open>w_exp w = t0 + sessionTTL\<close> show ?thesis by blast
    qed
  qed
  with t show ?thesis by metis
qed

theorem session_good_for_witness:
  "\<exists>xs t0 ys. [Create 5 ''id'' ''anna'' ''admin'', Reap 6] = xs @ Create t0 ''id'' ''anna'' ''admin'' # ys
     \<and> Drop ''id'' \<notin> set ys \<and> 7 \<le> t0 + sessionTTL"
  using session_good_for [of "[Create 5 ''id'' ''anna'' ''admin'', Reap 6]" 7 "''id''"
      "\<lparr>w_name = ''anna'', w_role = ''admin'', w_exp = 5 + sessionTTL\<rparr>"]
  by (simp add: lookup_def create_def reap_def sessionTTL_def hours_def nsec_def)

text \<open>Clearing out expired sessions changes no answer: a lookup at that time or later says the
  same with and without it.\<close>

theorem reap_unnoticed:
  assumes "distinct (map fst s)" and "t \<le> t'"
  shows "snd (lookup (reap s t) t' sid) = snd (lookup s t' sid)"
proof -
  have "map_of (reap s t) sid = (case map_of s sid of None \<Rightarrow> None | Some w \<Rightarrow> if t > w_exp w then None else Some w)"
    using assms(1) unfolding reap_def
  proof (induction s)
    case (Cons x s)
    then show ?case by (cases x) (auto simp: map_of_eq_None_iff [THEN iffD2] split: option.split)
  qed simp
  then show ?thesis using assms(2) by (auto simp: lookup_def split: option.split)
qed

theorem reap_unnoticed_witness:
  "snd (lookup (reap [(''id'', \<lparr>w_name = ''anna'', w_role = ''admin'', w_exp = 3\<rparr>)] 4) 5 ''id'')
     = snd (lookup [(''id'', \<lparr>w_name = ''anna'', w_role = ''admin'', w_exp = 3\<rparr>)] 5 ''id'')"
  by (rule reap_unnoticed) simp_all

section \<open>The operator's boundary\<close>

definition rack_actions :: "string set" where
  "rack_actions = {''reimage'', ''cancel'', ''reset'', ''shutdown'', ''reboot'',
       ''identify'', ''identify_off'', ''stealth_on'', ''stealth_off'', ''probe''}"

lemma needs_operator: "map_of actionNeeds kind = Some roleOperator \<longleftrightarrow> kind \<in> rack_actions"
  by (simp add: actionNeeds_def rack_actions_def roleOperator_def roleAdmin_def)

lemma needs_known: "map_of actionNeeds kind \<in> {None, Some roleOperator, Some roleAdmin}"
  by (simp add: actionNeeds_def)

lemma mayDo_iff: "mayDo r kind \<longleftrightarrow> r = roleAdmin \<or> r = roleOperator \<and> kind \<in> rack_actions"
  using needs_known [of kind] needs_operator [of kind]
  by (auto simp: mayDo_def atLeast_def roleOperator_def roleAdmin_def)

text \<open>Of the actions on a blade an operator may ask for exactly the ten that happen at the rack;
  erasing a disk and every action the table does not know need an administrator, and whoever
  is neither may do nothing. A page for administrators lets nobody through but an
  administrator.\<close>

theorem operator_boundary:
  "mayDo r kind = (r = roleAdmin \<or> r = roleOperator \<and> kind \<in> {''reimage'', ''cancel'', ''reset'', ''shutdown'', ''reboot'',
       ''identify'', ''identify_off'', ''stealth_on'', ''stealth_off'', ''probe''})
   \<and> (case snd (requireRole roleAdmin tok s t cookie) of
        Through w \<Rightarrow> w_role w = roleAdmin \<and> (tok = [] \<or> (\<exists>sid. cookie = Some sid \<and> snd (lookup s t sid) = Some w))
      | _ \<Rightarrow> tok \<noteq> [])"
proof
  show "mayDo r kind = (r = roleAdmin \<or> r = roleOperator \<and> kind \<in> {''reimage'', ''cancel'', ''reset'', ''shutdown'',
       ''reboot'', ''identify'', ''identify_off'', ''stealth_on'', ''stealth_off'', ''probe''})"
    unfolding mayDo_iff rack_actions_def by (rule refl)
  show "case snd (requireRole roleAdmin tok s t cookie) of
        Through w \<Rightarrow> w_role w = roleAdmin \<and> (tok = [] \<or> (\<exists>sid. cookie = Some sid \<and> snd (lookup s t sid) = Some w))
      | _ \<Rightarrow> tok \<noteq> []"
    by (auto simp: requireRole_def caller_def atLeast_def roleAdmin_def roleOperator_def
        split: option.split prod.split admission.split)
qed

text \<open>Signing in opens a session for the account of that name, with its role, exactly when the
  account exists, is not disabled and its hash accepts the password; or, where no name is
  given, an administrator's session exactly for the admin token. A refusal changes nothing.\<close>

theorem hLoginPost_spec:
  "case hLoginPost key tok (us, s) t sid user0 secret of
     ((us', s'), ok) \<Rightarrow>
       (if trim_space user0 \<noteq> [] then
          (case get_user us (trim_space user0) of
             None \<Rightarrow> \<not> ok
           | Some u \<Rightarrow> ok = (passwordMatches key (u_pass u) secret \<and> \<not> u_disabled u))
        else ok = (secret = tok))
     \<and> (if ok then map_of s' sid = Some \<lparr>w_name = trim_space user0,
              w_role = (if trim_space user0 = [] then roleAdmin else u_role (the (get_user us (trim_space user0)))),
              w_exp = t + sessionTTL\<rparr>
        else us' = us \<and> s' = s)"
  by (auto simp: hLoginPost_def authenticate_def create_def update_conv' Let_def split: option.split)

text \<open>Whatever stands behind the first slash, the address to go to after signing in is taken
  from the form as it is: an address of another host, written with two slashes, passes.\<close>

theorem login_next_foreign:
  "login_next (''//'' @ host) = ''//'' @ host"
  by (simp add: login_next_def)

end
