(* ===== verification/AgentPolicy.thy ===== *)
theory AgentPolicy
  imports Commands
begin

text \<open>
  What a blade's agent reads out of the section \<^verbatim>\<open>agent\<close> of its configuration
  (\<^verbatim>\<open>src/agent/policy.go\<close>), and the server's check of a maintenance window before it is stored
  (\<^verbatim>\<open>validWindow\<close> of \<^verbatim>\<open>src/server/ui.go\<close>). The theorems: the two readings of a window are the
  same, and a window that ends before it starts runs over midnight.
\<close>

text \<open>\<^verbatim>\<open>strings.Cut\<close> at one character.\<close>

definition cut :: "char \<Rightarrow> string \<Rightarrow> (string \<times> string) option" where
  "cut d s = (case dropWhile (\<lambda>c. c \<noteq> d) s of [] \<Rightarrow> None | _ # r \<Rightarrow> Some (takeWhile (\<lambda>c. c \<noteq> d) s, r))"

definition parseHHMM :: "string \<Rightarrow> int option" where
  "parseHHMM s =
     (case cut CHR '':'' s of
        None \<Rightarrow> None
      | Some (h, m) \<Rightarrow>
          (case (atoi h, atoi m) of
             (Some hh, Some mm) \<Rightarrow> if hh < 0 \<or> hh > 23 \<or> mm < 0 \<or> mm > 59 then None else Some (hh * 60 + mm)
           | _ \<Rightarrow> None))"

definition parseWindow :: "string \<Rightarrow> (int \<times> int) option" where
  "parseWindow s =
     (case cut CHR ''-'' s of
        None \<Rightarrow> None
      | Some (a, b) \<Rightarrow>
          (case (parseHHMM (trim_space a), parseHHMM (trim_space b)) of
             (Some pa, Some pb) \<Rightarrow> Some (pa, pb) | _ \<Rightarrow> None))"

text \<open>The policy; seconds for the two durations.\<close>

record agentPolicy =
  ap_interval :: int
  ap_jitter :: int
  ap_allow :: "string list"
  ap_reboot_on_cfg :: bool
  ap_window :: string

definition readAgentPolicy :: "jmap \<Rightarrow> agentPolicy" where
  "readAgentPolicy cfg =
     (case as_obj (map_of cfg ''agent'') of
        None \<Rightarrow> \<lparr>ap_interval = 0, ap_jitter = 0, ap_allow = [], ap_reboot_on_cfg = False, ap_window = []\<rparr>
      | Some sec \<Rightarrow>
          \<lparr>ap_interval = (case num (map_of sec ''interval'') of Some v \<Rightarrow> if v > 0 then floor v else 0 | None \<Rightarrow> 0),
           ap_jitter = (case num (map_of sec ''jitter'') of Some v \<Rightarrow> if v \<ge> 0 then floor v else 0 | None \<Rightarrow> 0),
           ap_allow = stringList (map_of sec ''allow''),
           ap_reboot_on_cfg = (case as_bool (map_of sec ''reboot_on_boot_config'') of Some v \<Rightarrow> v | None \<Rightarrow> False),
           ap_window = (case as_str (map_of sec ''maintenance'') of Some v \<Rightarrow> trim_space v | None \<Rightarrow> [])\<rparr>)"

text \<open>The time of day is given in minutes since midnight.\<close>

definition inWindow :: "agentPolicy \<Rightarrow> int \<Rightarrow> bool" where
  "inWindow p mins =
     (if ap_window p = [] then True
      else case parseWindow (ap_window p) of
             None \<Rightarrow> True
           | Some (lo, hi) \<Rightarrow> if lo \<le> hi then lo \<le> mins \<and> mins < hi else lo \<le> mins \<or> mins < hi)"

text \<open>The check of the settings page, which looks at each half by itself.\<close>

definition window_part :: "string \<Rightarrow> bool" where
  "window_part part =
     (case cut CHR '':'' (trim_space part) of
        None \<Rightarrow> False
      | Some (h, m) \<Rightarrow>
          (case (atoi h, atoi m) of
             (Some hh, Some mm) \<Rightarrow> hh \<ge> 0 \<and> hh < 24 \<and> mm \<ge> 0 \<and> mm < 60 | _ \<Rightarrow> False))"

definition validWindow :: "string \<Rightarrow> bool" where
  "validWindow s = (case cut CHR ''-'' s of None \<Rightarrow> False | Some (a, b) \<Rightarrow> window_part a \<and> window_part b)"

lemma window_part_iff: "window_part part \<longleftrightarrow> parseHHMM (trim_space part) \<noteq> None"
  by (auto simp: window_part_def parseHHMM_def split: option.split prod.split)

lemma parseHHMM_bounds: "parseHHMM s = Some n \<Longrightarrow> 0 \<le> n \<and> n < 1440"
  by (auto simp: parseHHMM_def split: option.splits prod.splits if_splits)

lemma wrap_day: "- n < x \<Longrightarrow> x < n \<Longrightarrow> x mod n = (if x < 0 then x + n else x)" for x n :: int
  using mod_pos_pos_trivial [of x n] mod_pos_pos_trivial [of "x + n" n] mod_add_self2 [of x n] by (cases "x < 0") simp_all

text \<open>C39. The settings page accepts a maintenance window exactly when the agent will understand it;
  its two ends then are minutes of one day, and the agent is inside the window at exactly the
  minutes from the first to just before the second, counted over midnight when the second is the
  smaller one. Nothing is inside a window whose ends are the same.\<close>

theorem window_means_the_same:
  "(case parseWindow w of
      None \<Rightarrow> \<not> validWindow w
    | Some (lo, hi) \<Rightarrow> validWindow w \<and> lo \<in> {0..<1440} \<and> hi \<in> {0..<1440}
        \<and> {mins \<in> {0..<1440}. inWindow (p\<lparr>ap_window := w\<rparr>) mins}
          = (\<lambda>i. (lo + i) mod 1440) ` {0 ..< (hi - lo) mod 1440})"
proof (cases "parseWindow w")
  case None
  thus ?thesis by (auto simp: parseWindow_def validWindow_def window_part_iff split: option.splits)
next
  case (Some x)
  then obtain lo hi where x: "parseWindow w = Some (lo, hi)" by (cases x) auto
  have valid: "validWindow w" "lo \<in> {0..<1440}" "hi \<in> {0..<1440}"
    using x by (auto simp: parseWindow_def validWindow_def window_part_iff dest!: parseHHMM_bounds split: option.splits)
  have ne: "w \<noteq> []" using x by (auto simp: parseWindow_def cut_def)
  have in_iff: "inWindow (p\<lparr>ap_window := w\<rparr>) m \<longleftrightarrow> (m - lo) mod 1440 < (hi - lo) mod 1440" if "m \<in> {0..<1440}" for m
    using that valid(2,3) wrap_day [of 1440 "m - lo"] wrap_day [of 1440 "hi - lo"]
    by (simp add: inWindow_def x ne)
  have "{mins \<in> {0..<1440}. inWindow (p\<lparr>ap_window := w\<rparr>) mins} = (\<lambda>i. (lo + i) mod 1440) ` {0 ..< (hi - lo) mod 1440}"
  proof (intro set_eqI iffI)
    fix m assume m: "m \<in> {mins \<in> {0..<1440}. inWindow (p\<lparr>ap_window := w\<rparr>) mins}"
    have "m = (lo + (m - lo) mod 1440) mod 1440" using m by (simp add: mod_add_right_eq)
    moreover have "(m - lo) mod 1440 \<in> {0 ..< (hi - lo) mod 1440}" using m in_iff [of m] by simp
    ultimately show "m \<in> (\<lambda>i. (lo + i) mod 1440) ` {0 ..< (hi - lo) mod 1440}" by (rule image_eqI)
  next
    fix m assume "m \<in> (\<lambda>i. (lo + i) mod 1440) ` {0 ..< (hi - lo) mod 1440}"
    then obtain i where i: "m = (lo + i) mod 1440" "0 \<le> i" "i < (hi - lo) mod 1440" by auto
    have "(m - lo) mod 1440 = i mod 1440" by (simp add: i(1) mod_diff_left_eq)
    also have "\<dots> = i" using i(2,3) pos_mod_bound [of 1440 "hi - lo"] by simp
    finally show "m \<in> {mins \<in> {0..<1440}. inWindow (p\<lparr>ap_window := w\<rparr>) mins}"
      using i in_iff [of m] by simp
  qed
  thus ?thesis using x valid by simp
qed

end
