(* ===== verification/Desk.thy ===== *)
theory Desk
  imports SiteSync Accounts AgentPolicy
begin

text \<open>
  What a signed-in person does in the browser (\<^verbatim>\<open>src/server/ui.go\<close>, the routes of
  \<^verbatim>\<open>src/server/main.go\<close>): the handlers that change something and are not part of another component,
  and the requests behind the role they need. A form is a function from field names to texts, an
  absent field reading as the empty text. The theorems: the settings page writes exactly its own
  keys and the agent reads what was typed, an operator can take nothing away and arm no erase,
  and what saving a site's numbers does to the rest of its policy.
\<close>

type_synonym form = "string \<Rightarrow> string"

section \<open>Sites and blades\<close>

text \<open>A section of a scope, empty where it is absent or not an object.\<close>

definition section_of :: "jmap \<Rightarrow> string \<Rightarrow> jmap" where
  "section_of cfg k = (case as_obj (map_of cfg k) of None \<Rightarrow> [] | Some m \<Rightarrow> m)"

definition hUISiteCreate :: "app \<Rightarrow> instant \<Rightarrow> form \<Rightarrow> err + app" where
  "hUISiteCreate a t f =
     (let st = \<lparr>s_id = 0, s_name = trim_space (f ''name''), s_location = trim_space (f ''location''),
            s_net_base = trim_space (f ''net_base''), s_gateway = [], s_dns = [], s_domain = [],
            s_pool_from = 210, s_pool_to = 240, s_offset_base = 100, s_offset_step = 20, s_local = False,
            s_token = [], s_last_seen = None, s_created = None, s_payload = [], s_site_version = [], s_trouble = [],
            s_enroll_code = [], s_enroll_until = None, s_host_prefix = [], s_relay_url = [], s_lease = [],
            s_policy_json = JNull, s_desired_at = None\<rparr>
      in case createSite a t st of
           Inl e \<Rightarrow> Inl e
         | Inr (a1, k) \<Rightarrow> Inr (logEvent a1 t [] ''info'' (''site '' @ s_name st @ '' created ('' @ s_net_base st @ ''.0/24)'')))"

definition hUISiteDelete :: "app \<Rightarrow> instant \<Rightarrow> int \<Rightarrow> err + app" where
  "hUISiteDelete a t k =
     (case deleteSite a k of Inl e \<Rightarrow> Inl e | Inr a1 \<Rightarrow> Inr (logEvent a1 t [] ''warn'' ''site removed''))"

definition hUISiteEnroll :: "app \<Rightarrow> instant \<Rightarrow> nat list \<Rightarrow> int \<Rightarrow> app" where
  "hUISiteEnroll a t bytes k = (case makeEnrollCode a t bytes k of None \<Rightarrow> a | Some (a1, c) \<Rightarrow> a1)"

text \<open>The action with the role of whoever asks. Commands that are not an action of their own are
  entered directly, without replacing an older one of the same kind.\<close>

definition hUIBladeAction ::
    "heads \<Rightarrow> app \<Rightarrow> instant \<Rightarrow> who \<Rightarrow> string \<Rightarrow> string \<Rightarrow> form \<Rightarrow> app" where
  "hUIBladeAction head_of a t w serial kind f =
     (case getBlade a serial of
        None \<Rightarrow> a
      | Some b \<Rightarrow>
          if kind = ''wipe'' then
            (if \<not> mayDo (w_role w) kind then a else fst (hUIBladeWipe a t serial (f ''confirm'')))
          else if kind \<notin> set action_kinds then a
          else if \<not> mayDo (w_role w) kind then a
          else if kind = ''reset'' then (case resetBlade a t serial of Inl e \<Rightarrow> a | Inr a1 \<Rightarrow> a1)
          else if kind = ''shutdown'' then requestShutdown a t serial
          else if kind = ''probe'' then (case requestProbe a t serial of Inl e \<Rightarrow> a | Inr a1 \<Rightarrow> a1)
          else if kind = ''cancel'' then (case cancelInstall a t serial of Inl e \<Rightarrow> a | Inr a1 \<Rightarrow> a1)
          else if kind = ''reimage'' then
            (if b_image b = [] then a
             else case requestInstall head_of a t serial of
                    (a1, Some e) \<Rightarrow> a1
                  | (a1, None) \<Rightarrow> logActed a1 t (w_name w) serial ''info'' ''install requested'')
          else logActed (insert_command a t serial kind) t (w_name w) serial ''info'' (''command queued: '' @ kind))"

definition hUINetbootImage :: "app \<Rightarrow> instant \<Rightarrow> string \<Rightarrow> form \<Rightarrow> app" where
  "hUINetbootImage a t mac f = (if f ''image'' = [] then a else chooseImage a t mac (f ''image''))"

definition hNetbootImage :: "app \<Rightarrow> instant \<Rightarrow> string \<Rightarrow> string \<Rightarrow> app" where
  "hNetbootImage a t mac im = chooseImage a t mac im"

text \<open>The device is written into the blade's own scope. A scope that was stored as null is a nil
  map, and the assignment into it panics.\<close>

definition hUIBladeTarget :: "heads \<Rightarrow> app \<Rightarrow> instant \<Rightarrow> string \<Rightarrow> form \<Rightarrow> app outcome" where
  "hUIBladeTarget head_of a t serial f =
     (case getBlade a serial of
        None \<Rightarrow> Value a
      | Some b \<Rightarrow>
          (let target = trim_space (f ''target''); scope = ''blade:'' @ serial
           in if target \<notin> set (map d_path (installDevices b)) then Value a
              else case configFor a scope of
                     None \<Rightarrow> Panic
                   | Some cfg \<Rightarrow>
                       (let sec = section_of cfg ''install'';
                            cfg' = AList.update ''install'' (JObj (AList.update ''install_target'' (JStr target) sec)) cfg;
                            a1 = logEvent (putConfig a scope (JObj cfg')) t serial ''info'' (''install target set to '' @ target)
                        in Value (case getBlade a1 serial of None \<Rightarrow> a1 | Some b' \<Rightarrow> fst (checkTarget head_of a1 b')))))"

definition hUIBladeForget :: "app \<Rightarrow> instant \<Rightarrow> string \<Rightarrow> app" where
  "hUIBladeForget a t serial = (case forgetBlade a t serial of Inl e \<Rightarrow> a | Inr a1 \<Rightarrow> a1)"

section \<open>A site's numbers\<close>

text \<open>The fields as numbers, \<open>None\<close> where the text is none; a conversion to \<^verbatim>\<open>int\<close> truncates.\<close>

definition trunc :: "rat \<Rightarrow> int" where
  "trunc q = (if q \<ge> 0 then floor q else ceiling q)"

definition num_or_zero :: "rat option \<Rightarrow> rat" where
  "num_or_zero v = (case v of None \<Rightarrow> 0 | Some q \<Rightarrow> q)"

definition page_policy :: "(string \<Rightarrow> rat option) \<Rightarrow> policy" where
  "page_policy f =
     zeroPolicy\<lparr>p_soc_warn := num_or_zero (f ''soc_warn''), p_soc_crit := num_or_zero (f ''soc_crit''),
       p_nvme_warn := num_or_zero (f ''nvme_warn''), p_disk_warn := num_or_zero (f ''disk_warn''),
       p_disk_crit := num_or_zero (f ''disk_crit''), p_offline_min := trunc (num_or_zero (f ''offline_min''))\<rparr>"

definition wrong_order :: "policy \<Rightarrow> bool" where
  "wrong_order p \<longleftrightarrow> p_soc_crit p \<noteq> 0 \<and> p_soc_warn p \<noteq> 0 \<and> p_soc_crit p \<le> p_soc_warn p
     \<or> p_disk_crit p \<noteq> 0 \<and> p_disk_warn p \<noteq> 0 \<and> p_disk_crit p \<le> p_disk_warn p"

definition hUISitePolicy :: "app \<Rightarrow> instant \<Rightarrow> int \<Rightarrow> (string \<Rightarrow> rat option) \<Rightarrow> app" where
  "hUISitePolicy a t k f =
     (if wrong_order (page_policy f) then a
      else (let (name, a1) = siteName (setSitePolicy a k (page_policy f)) k
            in logEvent a1 t [] ''info'' (''policy of site '' @ name @ '' changed'')))"

section \<open>The settings page\<close>

definition numOr :: "string \<Rightarrow> json option" where
  "numOr s = (case atoi (trim_space s) of None \<Rightarrow> None | Some n \<Rightarrow> if n < 0 then None else Some (JNum (of_int n)))"

definition onOff :: "string \<Rightarrow> json option" where
  "onOff s = (if s \<noteq> [] then Some (JBool True) else None)"

definition strOrNil :: "string \<Rightarrow> json option" where
  "strOrNil s = (if trim_space s = [] then None else Some (JStr (trim_space s)))"

text \<open>Where nothing is left of the list between the commas, the stored value is null.\<close>

definition allowList :: "string \<Rightarrow> json option" where
  "allowList s =
     (if trim_space s = [] then None
      else case filter (\<lambda>p. p \<noteq> []) (map trim_space (split_on CHR '','' (trim_space s))) of
             [] \<Rightarrow> Some JNull
           | ps \<Rightarrow> Some (JArr (map JStr ps)))"

fun put_or_drop :: "string \<times> json option \<Rightarrow> jmap \<Rightarrow> jmap" where
  "put_or_drop (k, None) m = AList.delete k m"
| "put_or_drop (k, Some v) m = AList.update k v m"

definition agent_fields :: "form \<Rightarrow> (string \<times> json option) list" where
  "agent_fields f = [(''interval'', numOr (f ''interval'')), (''jitter'', numOr (f ''jitter'')),
     (''reboot_on_boot_config'', onOff (f ''reboot_on_boot_config'')),
     (''maintenance'', strOrNil (f ''maintenance'')), (''allow'', allowList (f ''allow''))]"

definition install_fields :: "form \<Rightarrow> (string \<times> json option) list" where
  "install_fields f = [(''install_target'', strOrNil (f ''install_target'')), (''after'', strOrNil (f ''after'')),
     (''reboot_delay'', numOr (f ''reboot_delay'')), (''no_grow'', onOff (f ''no_grow'')),
     (''require_checksum'', onOff (f ''require_checksum'')), (''no_root_keys'', onOff (f ''no_root_keys'')),
     (''no_cloud_init'', onOff (f ''no_cloud_init'')), (''no_agent'', onOff (f ''no_agent''))]"

definition put_section :: "string \<Rightarrow> jmap \<Rightarrow> jmap \<Rightarrow> jmap" where
  "put_section k sec cfg = (if sec = [] then AList.delete k cfg else AList.update k (JObj sec) cfg)"

definition hSettingsSave :: "app \<Rightarrow> instant \<Rightarrow> form \<Rightarrow> app outcome" where
  "hSettingsSave a t f =
     (let cfg = configFor a ''global''; cur = (case cfg of None \<Rightarrow> [] | Some m \<Rightarrow> m); win = trim_space (f ''maintenance'');
          ag = fold put_or_drop (agent_fields f) (section_of cur ''agent'');
          ins = fold put_or_drop (install_fields f) (section_of cur ''install'')
      in if win \<noteq> [] \<and> \<not> validWindow win then Value a
         else case cfg of
                None \<Rightarrow> Panic
              | Some _ \<Rightarrow> Value (logEvent (putConfig a ''global'' (JObj (put_section ''install'' ins (put_section ''agent'' ag cur))))
                            t [] ''info'' ''configuration changed: global (settings page)''))"

section \<open>The notification settings\<close>

text \<open>The result of the test mail is a parameter, \<open>None\<close> for a mail that went out.\<close>

definition notify_fields :: "form \<Rightarrow> (string \<times> string) list" where
  "notify_fields f = [(''notify_host'', trim_space (f ''host'')), (''notify_port'', trim_space (f ''port'')),
     (''notify_tls'', f ''tls''), (''notify_user'', trim_space (f ''user'')), (''notify_from'', trim_space (f ''from'')),
     (''notify_to'', trim_space (f ''to'')), (''notify_min'', f ''min''), (''notify_hold_min'', trim_space (f ''hold'')),
     (''notify_enabled'', if f ''enabled'' \<noteq> [] then ''1'' else [])]
     @ (if f ''pass'' \<noteq> [] then [(''notify_pass'', f ''pass'')] else [])"

definition hUINotifySave :: "string option \<Rightarrow> app \<Rightarrow> instant \<Rightarrow> form \<Rightarrow> app" where
  "hUINotifySave sent a t f =
     (let a1 = logEvent (fold (\<lambda>(k, v) a. setSetting a k v) (notify_fields f) a) t [] ''info'' ''notification settings changed''
      in if f ''test'' = [] then a1
         else case sent of
                Some e \<Rightarrow> a1
              | None \<Rightarrow> logEvent a1 t [] ''info'' (''test notification sent to '' @ mc_to (Alerts.mailConf a1)))"

section \<open>The settings page writes its own keys\<close>

lemma map_of_put_or_drop: "map_of (put_or_drop e m) k = (if k = fst e then snd e else map_of m k)"
  by (cases "(e, m)" rule: put_or_drop.cases) (auto simp: update_conv' delete_conv')

lemma map_of_fold_put:
  "distinct (map fst es) \<Longrightarrow>
   map_of (fold put_or_drop es m) k = (case map_of es k of None \<Rightarrow> map_of m k | Some v \<Rightarrow> v)"
  by (induction es arbitrary: m)
    (auto simp: map_of_put_or_drop map_of_eq_None_iff [THEN iffD2] split: option.split)

lemma section_put:
  "section_of (put_section k sec cfg) j = (if j = k then sec else section_of cfg j)"
  by (auto simp: section_of_def put_section_def update_conv' delete_conv')

lemma map_of_put_section: "j \<noteq> k \<Longrightarrow> map_of (put_section k sec cfg) j = map_of cfg j"
  by (auto simp: put_section_def update_conv' delete_conv')

lemma fields_distinct: "distinct (map fst (agent_fields f))" "distinct (map fst (install_fields f))"
  by (simp_all add: agent_fields_def install_fields_def)

lemma configFor_put: "configFor (logEvent (putConfig a s (JObj m)) t x l y) s' = (if s' = s then Some m else configFor a s')"
  by (simp add: configFor_def putConfig_def logEvent_def update_conv')

lemma settings_saved:
  assumes "configFor a ''global'' = Some cur" and "trim_space (f ''maintenance'') = [] \<or> validWindow (trim_space (f ''maintenance''))"
  obtains a' g where "hSettingsSave a t f = Value a'" and "\<And>s. configFor a' s = (if s = ''global'' then Some g else configFor a s)"
    and "\<And>k. k \<notin> {''agent'', ''install''} \<Longrightarrow> map_of g k = map_of cur k"
    and "\<And>k. map_of (section_of g ''agent'') k =
          (case map_of (agent_fields f) k of None \<Rightarrow> map_of (section_of cur ''agent'') k | Some v \<Rightarrow> v)"
    and "\<And>k. map_of (section_of g ''install'') k =
          (case map_of (install_fields f) k of None \<Rightarrow> map_of (section_of cur ''install'') k | Some v \<Rightarrow> v)"
    and "a_blades a' = a_blades a" and "a_settings a' = a_settings a"
proof -
  define ag where "ag = fold put_or_drop (agent_fields f) (section_of cur ''agent'')"
  define ins where "ins = fold put_or_drop (install_fields f) (section_of cur ''install'')"
  define g where "g = put_section ''install'' ins (put_section ''agent'' ag cur)"
  define a' where "a' = logEvent (putConfig a ''global'' (JObj g)) t [] ''info'' ''configuration changed: global (settings page)''"
  have "hSettingsSave a t f = Value a'"
    using assms by (auto simp: hSettingsSave_def Let_def ag_def ins_def g_def a'_def)
  moreover have "configFor a' s = (if s = ''global'' then Some g else configFor a s)" for s
    unfolding a'_def by (rule configFor_put)
  moreover have "map_of g k = map_of cur k" if "k \<notin> {''agent'', ''install''}" for k
    using that by (simp add: g_def map_of_put_section)
  moreover have "section_of g ''agent'' = ag" "section_of g ''install'' = ins"
    by (simp_all add: g_def section_put)
  moreover have "a_blades a' = a_blades a" "a_settings a' = a_settings a"
    by (simp_all add: a'_def putConfig_def logEvent_def)
  ultimately show ?thesis
    using that [of a' g] map_of_fold_put [OF fields_distinct(1)] map_of_fold_put [OF fields_distinct(2)]
    by (simp add: ag_def ins_def)
qed

text \<open>Saved with a readable window, the settings page changes the global scope in its two sections
  and nowhere else, and in those exactly the keys it has a field for: each becomes what was typed,
  or goes away where the field was left empty, every other key and every other scope stays.\<close>

theorem hSettingsSave_exact:
  assumes "configFor a ''global'' = Some cur" and "trim_space (f ''maintenance'') = [] \<or> validWindow (trim_space (f ''maintenance''))"
  shows "\<exists>a' g. hSettingsSave a t f = Value a' \<and> configFor a' ''global'' = Some g
    \<and> (\<forall>k. k \<notin> {''agent'', ''install''} \<longrightarrow> map_of g k = map_of cur k)
    \<and> (\<forall>k. map_of (section_of g ''agent'') k =
          (case map_of (agent_fields f) k of None \<Rightarrow> map_of (section_of cur ''agent'') k | Some v \<Rightarrow> v))
    \<and> (\<forall>k. map_of (section_of g ''install'') k =
          (case map_of (install_fields f) k of None \<Rightarrow> map_of (section_of cur ''install'') k | Some v \<Rightarrow> v))
    \<and> (\<forall>s. s \<noteq> ''global'' \<longrightarrow> configFor a' s = configFor a s)
    \<and> a_blades a' = a_blades a \<and> a_settings a' = a_settings a"
proof (rule settings_saved [where t = t, OF assms(1), of f])
  show "trim_space (f ''maintenance'') = [] \<or> validWindow (trim_space (f ''maintenance''))" by (rule assms(2))
qed auto

lemma trim_left: "dropWhile P (rev (dropWhile P (rev (dropWhile P s)))) = rev (dropWhile P (rev (dropWhile P s)))"
proof (cases "dropWhile P s")
  case (Cons c r)
  hence c: "\<not> P c" by (metis dropWhile_eq_Cons_conv)
  have "dropWhile P (rev (c # r)) = dropWhile P (rev r) @ [c] \<or> dropWhile P (rev (c # r)) = [c]"
    using c by (simp add: dropWhile_append)
  thus ?thesis using c Cons by auto
qed (simp only: rev.simps dropWhile.simps)

lemma trim_space_idem [simp]: "trim_space (trim_space s) = trim_space s"
  by (simp add: trim_space_def trim_left)

text \<open>What the agent makes of the stored list of allowed commands.\<close>

lemma stringList_allow:
  "stringList (allowList s) = filter (\<lambda>p. p \<noteq> []) (map trim_space (split_on CHR '','' (trim_space s)))"
proof -
  define ps where "ps = filter (\<lambda>p. p \<noteq> []) (map trim_space (split_on CHR '','' (trim_space s)))"
  have trimmed: "trim_space p = p \<and> p \<noteq> []" if "p \<in> set ps" for p using that by (auto simp: ps_def)
  have mf: "List.map_filter (\<lambda>e. as_str (Some e)) (map JStr xs) = xs" for xs
    by (induction xs) (simp_all add: List.map_filter_simps)
  have "concat (map (\<lambda>p. if trim_space p \<noteq> [] then [trim_space p] else []) xs) = xs"
    if "\<forall>p\<in>set xs. trim_space p = p \<and> p \<noteq> []" for xs
    using that by (induction xs) auto
  hence "stringList (Some (JArr (map JStr ps))) = ps" using trimmed by (simp add: mf)
  moreover have "ps = []" if "trim_space s = []" unfolding ps_def that by (simp add: trim_space_def)
  ultimately show ?thesis by (auto simp: allowList_def ps_def [symmetric] split: list.split)
qed

lemma readAgentPolicy_section:
  "readAgentPolicy g =
     \<lparr>ap_interval = (case num (map_of (section_of g ''agent'') ''interval'') of Some v \<Rightarrow> if v > 0 then floor v else 0 | None \<Rightarrow> 0),
      ap_jitter = (case num (map_of (section_of g ''agent'') ''jitter'') of Some v \<Rightarrow> if v \<ge> 0 then floor v else 0 | None \<Rightarrow> 0),
      ap_allow = stringList (map_of (section_of g ''agent'') ''allow''),
      ap_reboot_on_cfg = (case as_bool (map_of (section_of g ''agent'') ''reboot_on_boot_config'') of Some v \<Rightarrow> v | None \<Rightarrow> False),
      ap_window = (case as_str (map_of (section_of g ''agent'') ''maintenance'') of Some v \<Rightarrow> trim_space v | None \<Rightarrow> [])\<rparr>"
  by (cases "as_obj (map_of g ''agent'')") (simp_all add: readAgentPolicy_def section_of_def)

text \<open>A blade that has only the global scope over it reads back from the settings what was typed:
  the interval in whole seconds where it is positive, the restart switch, the list of commands
  between the commas, and the window. A list of commas alone reads as no list at all, which
  allows everything.\<close>

theorem agent_reads_settings:
  assumes "configFor a ''global'' = Some cur" and "trim_space (f ''maintenance'') = [] \<or> validWindow (trim_space (f ''maintenance''))"
    and "hSettingsSave a t f = Value a'"
  shows "let p = readAgentPolicy (scope_map a' ''global'') in
     ap_interval p = (case atoi (trim_space (f ''interval'')) of Some n \<Rightarrow> max 0 n | None \<Rightarrow> 0)
   \<and> ap_jitter p = (case atoi (trim_space (f ''jitter'')) of Some n \<Rightarrow> max 0 n | None \<Rightarrow> 0)
   \<and> ap_reboot_on_cfg p = (f ''reboot_on_boot_config'' \<noteq> [])
   \<and> ap_window p = trim_space (f ''maintenance'')
   \<and> ap_allow p = filter (\<lambda>x. x \<noteq> []) (map trim_space (split_on CHR '','' (trim_space (f ''allow''))))"
proof -
  obtain a1 g where a1: "hSettingsSave a t f = Value a1" and c: "\<And>s. configFor a1 s = (if s = ''global'' then Some g else configFor a s)"
    and sec: "\<And>k. map_of (section_of g ''agent'') k =
          (case map_of (agent_fields f) k of None \<Rightarrow> map_of (section_of cur ''agent'') k | Some v \<Rightarrow> v)"
    by (rule settings_saved [where t = t and f = f, OF assms(1) assms(2)]) blast
  have g: "configFor a' ''global'' = Some g" using a1 c [of "''global''"] assms(3) by simp
  let ?p = "readAgentPolicy g"
  have keys: "map_of (section_of g ''agent'') ''interval'' = numOr (f ''interval'')"
    "map_of (section_of g ''agent'') ''jitter'' = numOr (f ''jitter'')"
    "map_of (section_of g ''agent'') ''reboot_on_boot_config'' = onOff (f ''reboot_on_boot_config'')"
    "map_of (section_of g ''agent'') ''maintenance'' = strOrNil (f ''maintenance'')"
    "map_of (section_of g ''agent'') ''allow'' = allowList (f ''allow'')"
    by (simp_all add: sec agent_fields_def)
  have numbers: "(case num (numOr s) of Some v \<Rightarrow> if v > 0 then floor v else 0 | None \<Rightarrow> 0)
      = (case atoi (trim_space s) of Some n \<Rightarrow> max 0 n | None \<Rightarrow> 0)"
    "(case num (numOr s) of Some v \<Rightarrow> if v \<ge> 0 then floor v else 0 | None \<Rightarrow> 0)
      = (case atoi (trim_space s) of Some n \<Rightarrow> max 0 n | None \<Rightarrow> 0)" for s
    by (simp_all add: numOr_def split: option.split)
  have "ap_interval ?p = (case atoi (trim_space (f ''interval'')) of Some n \<Rightarrow> max 0 n | None \<Rightarrow> 0)"
    using numbers(1) [of "f ''interval''"] by (simp add: readAgentPolicy_section keys)
  moreover have "ap_jitter ?p = (case atoi (trim_space (f ''jitter'')) of Some n \<Rightarrow> max 0 n | None \<Rightarrow> 0)"
    using numbers(2) [of "f ''jitter''"] by (simp add: readAgentPolicy_section keys)
  moreover have "ap_reboot_on_cfg ?p = (f ''reboot_on_boot_config'' \<noteq> [])"
    by (simp add: readAgentPolicy_section keys onOff_def)
  moreover have "ap_window ?p = trim_space (f ''maintenance'')"
    by (simp add: readAgentPolicy_section keys strOrNil_def)
  moreover have "ap_allow ?p = filter (\<lambda>x. x \<noteq> []) (map trim_space (split_on CHR '','' (trim_space (f ''allow''))))"
    by (simp add: readAgentPolicy_section keys stringList_allow)
  ultimately show ?thesis unfolding Let_def scope_map_def g by simp
qed

text \<open>A filled-in form.\<close>

definition night_form :: form where
  "night_form k = (if k = ''interval'' then ''30'' else if k = ''maintenance'' then '' 22:00-04:00''
     else if k = ''allow'' then ''reboot, identify'' else [])"

lemma night_form_ok:
  "configFor demo ''global'' = Some []"
  "trim_space (night_form ''maintenance'') = [] \<or> validWindow (trim_space (night_form ''maintenance''))"
  "map_of (agent_fields night_form) ''interval'' = Some (Some (JNum 30))"
  "map_of (install_fields night_form) ''after'' = Some None"
  "trim_space (night_form ''maintenance'') = ''22:00-04:00''"
proof -
  have "atoi (trim_space ''30'') = Some 30" by code_simp
  thus "map_of (agent_fields night_form) ''interval'' = Some (Some (JNum 30))"
    by (simp add: agent_fields_def night_form_def numOr_def)
  show "map_of (install_fields night_form) ''after'' = Some None"
    by (simp add: install_fields_def night_form_def strOrNil_def trim_space_def)
  show w: "trim_space (night_form ''maintenance'') = ''22:00-04:00''"
    by (simp add: night_form_def trim_space_def is_space_def code_def)
  have "atoi ''22'' = Some 22" "atoi ''00'' = Some 0" "atoi ''04'' = Some 4" by code_simp+
  hence "validWindow ''22:00-04:00''"
    by (simp add: validWindow_def window_part_def cut_def trim_space_def is_space_def code_def)
  thus "trim_space (night_form ''maintenance'') = [] \<or> validWindow (trim_space (night_form ''maintenance''))" by (simp only: w simp_thms)
  show "configFor demo ''global'' = Some []" by (simp add: configFor_def demo_defs)
qed

theorem hSettingsSave_exact_witness:
  "\<exists>a' g. hSettingsSave demo 0 night_form = Value a' \<and> configFor a' ''global'' = Some g
    \<and> map_of (section_of g ''agent'') ''interval'' = Some (JNum 30) \<and> map_of (section_of g ''install'') ''after'' = None"
proof -
  obtain a' g where r: "hSettingsSave demo 0 night_form = Value a'" "configFor a' ''global'' = Some g"
    and ag: "\<And>k. map_of (section_of g ''agent'') k =
          (case map_of (agent_fields night_form) k of None \<Rightarrow> map_of (section_of [] ''agent'') k | Some v \<Rightarrow> v)"
    and ins: "\<And>k. map_of (section_of g ''install'') k =
          (case map_of (install_fields night_form) k of None \<Rightarrow> map_of (section_of [] ''install'') k | Some v \<Rightarrow> v)"
    using hSettingsSave_exact [of demo "[]" night_form 0, OF night_form_ok(1,2)] by (elim exE conjE) (rule that, (erule spec | assumption)+)
  have "map_of (section_of g ''agent'') ''interval'' = Some (JNum 30)" "map_of (section_of g ''install'') ''after'' = None"
    by (simp_all only: ag ins night_form_ok(3,4) option.case)
  with r show ?thesis by blast
qed

theorem agent_reads_settings_witness:
  "\<exists>a'. hSettingsSave demo 0 night_form = Value a' \<and> ap_window (readAgentPolicy (scope_map a' ''global'')) = ''22:00-04:00''"
proof -
  obtain a' where a': "hSettingsSave demo 0 night_form = Value a'"
    by (rule settings_saved [of demo "[]" night_form, OF night_form_ok(1,2)]) blast
  show ?thesis using agent_reads_settings [of demo "[]" night_form, OF night_form_ok(1,2) a'] a'
    by (simp add: Let_def night_form_ok(5))
qed

section \<open>Saving a site's numbers\<close>

lemma siteOwn_name: "siteOwnPolicy (snd (siteName a k)) j = siteOwnPolicy a j"
  by (simp add: siteName_def siteOwnPolicy_def getSite_def Let_def split: option.split)

lemma own_log [simp]: "siteOwnPolicy (logEvent a t s l m) j = siteOwnPolicy a j"
  by (simp add: siteOwnPolicy_def getSite_def logEvent_def)

text \<open>The page with a site's numbers replaces the site's whole policy by the numbers it shows: in
  particular a site that was closed to erasing is open to it again after somebody saved a
  threshold, unless the installation as a whole forbids it, and the site's own time to live of
  commands and its own measuring interval are gone. A warning above its critical value is
  refused, and no other site is touched.\<close>

theorem site_page_replaces_policy:
  "siteOwnPolicy (hUISitePolicy a t k f) j =
     (if j = k \<and> getSite a k \<noteq> None \<and> \<not> wrong_order (page_policy f) then page_policy f else siteOwnPolicy a j)
   \<and> \<not> p_no_wipe (page_policy f) \<and> p_command_ttl_min (page_policy f) = 0 \<and> p_sample_every_min (page_policy f) = 0"
proof -
  have "siteOwnPolicy (setSitePolicy a k p) j = (if j = k \<and> getSite a k \<noteq> None then p else siteOwnPolicy a j)" for p
    by (auto simp: siteOwnPolicy_def setSitePolicy_def getSite_def sites.get_upd unmarshal_marshal split: option.split)
  hence "siteOwnPolicy (hUISitePolicy a t k f) j =
     (if j = k \<and> getSite a k \<noteq> None \<and> \<not> wrong_order (page_policy f) then page_policy f else siteOwnPolicy a j)"
    by (auto simp: hUISitePolicy_def case_prod_beta siteOwn_name)
  thus ?thesis by (simp add: page_policy_def zeroPolicy_def)
qed

section \<open>Choosing the device\<close>

lemma configs_checkTarget: "a_configs (fst (checkTarget head_of a b)) = a_configs a"
  by (simp add: checkTarget_def imageTable_def Let_def split: option.split prod.split)

text \<open>A blade can be pointed only at a device it reported. Where it is, the blade's own scope says
  so afterwards and keeps everything else it said, no other scope changes, and the device is the
  one the installer will be told. A scope stored as null makes the request fail midway, with
  nothing written.\<close>

theorem hUIBladeTarget_spec:
  "case getBlade a serial of
     None \<Rightarrow> hUIBladeTarget head_of a t serial f = Value a
   | Some b \<Rightarrow>
       if trim_space (f ''target'') \<notin> d_path ` set (installDevices b) then hUIBladeTarget head_of a t serial f = Value a
       else (case configFor a (''blade:'' @ serial) of
               None \<Rightarrow> hUIBladeTarget head_of a t serial f = Panic
             | Some cfg \<Rightarrow> (\<exists>a' cfg'. hUIBladeTarget head_of a t serial f = Value a'
                 \<and> (\<forall>s. configFor a' s = (if s = ''blade:'' @ serial then Some cfg' else configFor a s))
                 \<and> section_of cfg' ''install'' = AList.update ''install_target'' (JStr (trim_space (f ''target''))) (section_of cfg ''install'')
                 \<and> (\<forall>k. map_of cfg' k = (if k = ''install'' then Some (JObj (section_of cfg' ''install'')) else map_of cfg k))))"
proof (cases "getBlade a serial")
  case (Some b)
  define target where "target = trim_space (f ''target'')"
  define sc where "sc = ''blade:'' @ serial"
  show ?thesis
  proof (cases "target \<in> d_path ` set (installDevices b) \<and> configFor a sc \<noteq> None")
    case True
    then obtain cfg where cfg: "configFor a sc = Some cfg" by auto
    define cfg' where "cfg' = AList.update ''install'' (JObj (AList.update ''install_target'' (JStr target) (section_of cfg ''install''))) cfg"
    define a1 where "a1 = logEvent (putConfig a sc (JObj cfg')) t serial ''info'' (''install target set to '' @ target)"
    define a' where "a' = (case getBlade a1 serial of None \<Rightarrow> a1 | Some b' \<Rightarrow> fst (checkTarget head_of a1 b'))"
    have "hUIBladeTarget head_of a t serial f = Value a'"
      using Some True cfg unfolding a'_def a1_def cfg'_def hUIBladeTarget_def Let_def target_def [symmetric] sc_def [symmetric]
      by (simp only: option.case set_map not_True_eq_False if_False)
    moreover have "a_configs a' = a_configs a1" by (simp add: a'_def configs_checkTarget split: option.split)
    hence "configFor a' s = (if s = sc then Some cfg' else configFor a s)" for s
      using configFor_put [of a sc cfg' t serial "''info''" "''install target set to '' @ target" s]
      by (simp add: configFor_def a1_def)
    moreover have "section_of cfg' ''install'' = AList.update ''install_target'' (JStr target) (section_of cfg ''install'')"
      by (simp add: cfg'_def section_of_def update_conv')
    moreover from this have "map_of cfg' k = (if k = ''install'' then Some (JObj (section_of cfg' ''install'')) else map_of cfg k)" for k
      by (simp add: cfg'_def update_conv')
    ultimately show ?thesis using Some True cfg unfolding target_def sc_def by auto
  next
    case False
    thus ?thesis using Some unfolding target_def sc_def by (auto simp: hUIBladeTarget_def Let_def split: option.split)
  qed
qed (simp add: hUIBladeTarget_def)

end
