(* ===== verification/Catalogue.thy ===== *)
theory Catalogue
  imports Install
begin

text \<open>
  Bringing an image into the catalogue and taking it out (\<^verbatim>\<open>src/server/images.go\<close>): the recipes and
  the name an address suggests, the queue with its one worker, the busy mark and the removal.
  What the shell tools answer is a parameter. The worker's loop is split where the program gives
  up its lock, so that other requests can come in between. The theorems: jobs are worked one at
  a time in the order they were asked for and none is lost while the server runs; an entry is
  removed only when nothing refers to it; and two gaps of the busy mark.
\<close>

section \<open>Recipes\<close>

record recipe =
  rp_name :: string
  rp_match :: "string list"
  rp_osid :: string
  rp_kernel :: string
  rp_min_disk :: int
  rp_packages :: "string list"
  rp_id_hint :: string
  rp_release :: bool
  rp_note :: string

definition recipes :: "recipe list" where
  "recipes =
     [\<lparr>rp_name = ''Ubuntu 24.04 (arm64, Raspberry Pi)'', rp_match = [''ubuntu'', ''24.04''], rp_osid = ''ubuntu'',
       rp_kernel = ''downstream'', rp_min_disk = 8 * 2 ^ 30, rp_packages = [], rp_id_hint = [], rp_release = False,
       rp_note = ''Brings cloud-init and SSH; the Raspberry Pi kernel applies device tree overlays, so the smart fan reports.''\<rparr>,
      \<lparr>rp_name = ''DietPi (arm64)'', rp_match = [''dietpi''], rp_osid = ''dietpi'',
       rp_kernel = ''downstream'', rp_min_disk = 4 * 2 ^ 30, rp_packages = [], rp_id_hint = ''dietpi-arm64'', rp_release = True,
       rp_note = ''v10 Trixie supported. Configures itself at first boot '' @ emdash @ '' apt in a chroot would run before that and confuse it, so nothing is installed here.''\<rparr>,
      \<lparr>rp_name = ''Raspberry Pi OS Lite (arm64)'', rp_match = [''raspios''], rp_osid = ''debian'',
       rp_kernel = ''downstream'', rp_min_disk = 4 * 2 ^ 30, rp_packages = [], rp_id_hint = ''raspios-trixie-arm64'', rp_release = False,
       rp_note = ''Debian Trixie with the Raspberry Pi kernel: the fan and the LEDs report, and the boot order can be read without the mini OS. A plain MBR, so it boots from every device a blade has. sshd is on board but switched off '' @ emdash @ '' the installer enables the unit.''\<rparr>,
      \<lparr>rp_name = ''Debian 13 Trixie (arm64)'', rp_match = [''debian'', ''13''], rp_osid = ''debian'',
       rp_kernel = ''upstream'', rp_min_disk = 8 * 2 ^ 30, rp_packages = [''openssh-server''], rp_id_hint = [], rp_release = False,
       rp_note = ''Ships without SSH, so it is installed here. The upstream kernel ignores device tree overlays: no fan telemetry.''\<rparr>,
      \<lparr>rp_name = ''Debian (arm64)'', rp_match = [''debian''], rp_osid = ''debian'',
       rp_kernel = ''upstream'', rp_min_disk = 8 * 2 ^ 30, rp_packages = [''openssh-server''], rp_id_hint = [], rp_release = False,
       rp_note = ''Ships without SSH, so it is installed here.''\<rparr>]"

definition matchRecipe :: "string \<Rightarrow> string \<Rightarrow> recipe option" where
  "matchRecipe k url =
     (let hay = lower (k @ '' '' @ url) in find (\<lambda>r. list_all (str_contains hay) (rp_match r)) recipes)"

definition trim_suffix :: "string \<Rightarrow> string \<Rightarrow> string" where
  "trim_suffix s p = (if has_suffix s p then take (length s - length p) s else s)"

definition releaseIn :: "string \<Rightarrow> string" where
  "releaseIn s = (case find (str_contains s) [''trixie'', ''bookworm'', ''bullseye'', ''forky''] of None \<Rightarrow> [] | Some c \<Rightarrow> c)"

definition in_version :: "char \<Rightarrow> bool" where
  "in_version c \<longleftrightarrow> c = CHR ''.'' \<or> is_digit c"

definition trim_dots :: "string \<Rightarrow> string" where
  "trim_dots s = rev (dropWhile (\<lambda>c. c = CHR ''.'') (rev (dropWhile (\<lambda>c. c = CHR ''.'') s)))"

text \<open>The search for a version: a run of digits and dots, unless it reads as a date.\<close>

lemma version_rest:
  assumes "dropWhile P s = c # r"
  shows "length (dropWhile Q (c # r)) - Suc 0 < length s"
proof -
  have "length (dropWhile Q (c # r)) \<le> length (c # r)" by (rule length_dropWhile_le)
  moreover have "length (c # r) \<le> length s" by (metis assms length_dropWhile_le)
  ultimately show ?thesis by simp
qed

function versionIn :: "string \<Rightarrow> string" where
  "versionIn s =
     (case dropWhile (\<lambda>c. \<not> is_digit c) s of
        [] \<Rightarrow> []
      | c # r \<Rightarrow>
          (let v = trim_dots (takeWhile in_version (c # r)); rest = drop 1 (dropWhile in_version (c # r))
           in if length v \<ge> 8 \<and> CHR ''.'' \<notin> set v then versionIn rest
              else if v \<noteq> [] then v
              else versionIn rest))"
  by pat_completeness auto
termination
  by (relation "measure length") (simp_all del: dropWhile.simps, (erule version_rest)+)

declare versionIn.simps [simp del]

definition suggestID :: "string \<Rightarrow> string" where
  "suggestID url =
     (let base0 = fold (\<lambda>suf b. trim_suffix b suf) [''.xz'', ''.gz'', ''.zst'', ''.tar'', ''.img'', ''.raw''] (lower (after_last CHR ''/'' url));
          base = map (\<lambda>c. if c = CHR ''+'' \<or> c = CHR ''_'' \<or> c = CHR '' '' then CHR ''-'' else c) base0
      in case matchRecipe [] url of
           None \<Rightarrow> base
         | Some r \<Rightarrow>
             if rp_release r \<and> releaseIn base \<noteq> [] then rp_osid r @ ''-'' @ releaseIn base @ ''-arm64''
             else if rp_id_hint r \<noteq> [] then rp_id_hint r
             else if versionIn base \<noteq> [] then rp_osid r @ ''-'' @ versionIn base @ ''-arm64''
             else rp_osid r @ ''-arm64'')"

section \<open>The queue and its worker\<close>

record imageWork =
  iw_id :: string
  iw_url :: string
  iw_osid :: string
  iw_packages :: "string list"

text \<open>Whether a worker runs, and where it is: between two jobs, with a job it has taken, or with its
  tools running.\<close>

datatype phase = Between | Taken imageWork | Fetching imageWork

record imageQueue =
  iq_pending :: "imageWork list"
  iq_running :: bool
  iq_phase :: phase

definition enqueueImage :: "imageQueue \<Rightarrow> imageWork \<Rightarrow> imageQueue" where
  "enqueueImage q w = q\<lparr>iq_pending := iq_pending q @ [w], iq_running := True\<rparr>"

text \<open>One round of the loop under the lock: the worker ends, or takes the first job.\<close>

definition take_job :: "imageQueue \<Rightarrow> imageQueue" where
  "take_job q =
     (if \<not> iq_running q \<or> iq_phase q \<noteq> Between then q
      else case iq_pending q of
             [] \<Rightarrow> q\<lparr>iq_running := False\<rparr>
           | w # ws \<Rightarrow> q\<lparr>iq_pending := ws, iq_phase := Taken w\<rparr>)"

definition setImageState :: "app \<Rightarrow> instant \<Rightarrow> string \<Rightarrow> string \<Rightarrow> string \<Rightarrow> app" where
  "setImageState a t k state note =
     a\<lparr>a_images := upd_where (\<lambda>i. i_id i = k) (\<lambda>i. i\<lparr>i_state := state, i_note := note, i_updated := stamp_of t\<rparr>) (a_images a)\<rparr>"

definition ellipsis :: string where "ellipsis = [char_of (226 :: nat), char_of (128 :: nat), char_of (166 :: nat)]"

definition lastLine :: "string \<Rightarrow> string" where
  "lastLine s =
     (case filter (\<lambda>l. l \<noteq> []) (map trim_space (split_on (char_of (10 :: nat)) s)) of
        [] \<Rightarrow> ''no output''
      | ls \<Rightarrow> (let l = last ls in if length l > 160 then take 160 l @ ellipsis else l))"

definition commas :: "string list \<Rightarrow> string" where
  "commas ps = (case ps of [] \<Rightarrow> [] | p # qs \<Rightarrow> p @ concat (map (\<lambda>x. '', '' @ x) qs))"

text \<open>The two halves of \<^verbatim>\<open>workImage\<close>: what is said before the first tool runs, and what follows from the
  tools' output; \<open>None\<close> for a tool that succeeded.\<close>

definition work_begin :: "app \<Rightarrow> instant \<Rightarrow> imageWork \<Rightarrow> app" where
  "work_begin a t w =
     logEvent (setImageState a t (iw_id w) ''working'' ''fetching'') t [] ''info'' (''image '' @ iw_id w @ '': fetching '' @ iw_url w)"

definition work_end :: "app \<Rightarrow> instant \<Rightarrow> imageWork \<Rightarrow> string option \<Rightarrow> string option \<Rightarrow> app" where
  "work_end a t w mirror prepare =
     (case mirror of
        Some out \<Rightarrow>
          logEvent (setImageState a t (iw_id w) ''error'' (''fetch failed: '' @ lastLine out)) t [] ''warn''
            (''image '' @ iw_id w @ '': fetch failed '' @ emdash @ '' '' @ lastLine out)
      | None \<Rightarrow>
          if iw_packages w = [] then
            logEvent (setImageState a t (iw_id w) ''ready'' []) t [] ''info'' (''image '' @ iw_id w @ '' is ready'')
          else
            (let a1 = logEvent (setImageState a t (iw_id w) ''working'' (''preparing: '' @ commas (iw_packages w))) t [] ''info''
                        (''image '' @ iw_id w @ '': preparing with '' @ commas (iw_packages w))
             in case prepare of
                  Some out \<Rightarrow>
                    logEvent (setImageState a1 t (iw_id w) ''ready'' (''fetched, but not prepared: '' @ lastLine out)) t [] ''warn''
                      (''image '' @ iw_id w @ '': preparation failed '' @ emdash @ '' '' @ lastLine out)
                | None \<Rightarrow>
                    logEvent (setImageState a1 t (iw_id w) ''ready'' []) t [] ''info'' (''image '' @ iw_id w @ '' is ready'')))"

section \<open>Adding and removing\<close>

definition imageBusy :: "app \<Rightarrow> imageQueue \<Rightarrow> string \<Rightarrow> bool" where
  "imageBusy a q k \<longleftrightarrow> k \<in> iw_id ` set (iq_pending q) \<or> map_option i_state (get_image (a_images a) k) = Some ''working''"

datatype image_err = ImgUrl | ImgId | ImgBusy string | ImgUsed nat

record imageFetchReq =
  fr_id :: string
  fr_url :: string
  fr_packages :: string
  fr_no_prep :: bool

definition fields :: "string \<Rightarrow> string list" where
  "fields s = filter (\<lambda>p. p \<noteq> []) (concat (map (split_on CHR '' '') (split_on CHR '','' s)))"

definition requeue :: "instant \<Rightarrow> image \<Rightarrow> image \<Rightarrow> image" where
  "requeue t n i = i\<lparr>i_url := i_url n, i_state := ''queued'', i_note := ''queued'', i_updated := stamp_of t,
     i_os_id := (if i_os_id n \<noteq> [] then i_os_id n else i_os_id i),
     i_kernel := (if i_kernel n \<noteq> [] then i_kernel n else i_kernel i),
     i_min_disk := (if i_min_disk n \<noteq> 0 then i_min_disk n else i_min_disk i),
     i_notes := (if i_notes n \<noteq> [] then i_notes n else i_notes i)\<rparr>"

definition fetch_id :: "imageFetchReq \<Rightarrow> string" where
  "fetch_id req = (if trim_space (fr_id req) = [] then suggestID (trim_space (fr_url req)) else trim_space (fr_id req))"

definition bad_id :: "string \<Rightarrow> bool" where
  "bad_id k \<longleftrightarrow> (\<exists>c\<in>set k. c \<in> set [CHR ''/'', char_of (92 :: nat), CHR '' '', char_of (9 :: nat), char_of (34 :: nat), char_of (39 :: nat)])"

text \<open>The row and the job of a request; the attributes come from the recipe where there is one.\<close>

definition new_entry :: "instant \<Rightarrow> string \<Rightarrow> string \<Rightarrow> recipe option \<Rightarrow> image" where
  "new_entry t k url rec =
     \<lparr>i_id = k, i_url = url, i_sha256 = [], i_seed = ''generic'', i_os_id = (case rec of None \<Rightarrow> [] | Some r \<Rightarrow> rp_osid r),
      i_notes = (case rec of None \<Rightarrow> ''unknown source '' @ emdash @ '' attributes were not derived'' | Some r \<Rightarrow> rp_note r),
      i_local = [], i_bytes = 0, i_created = stamp_of t,
      i_kernel = (case rec of None \<Rightarrow> [] | Some r \<Rightarrow> rp_kernel r),
      i_min_disk = (case rec of None \<Rightarrow> 0 | Some r \<Rightarrow> rp_min_disk r), i_verified = False,
      i_part_table = [], i_state = ''queued'', i_note = ''queued'', i_updated = stamp_of t\<rparr>"

definition job_of :: "imageFetchReq \<Rightarrow> string \<Rightarrow> string \<Rightarrow> recipe option \<Rightarrow> imageWork" where
  "job_of req k url rec =
     \<lparr>iw_id = k, iw_url = url, iw_osid = (case rec of None \<Rightarrow> [] | Some r \<Rightarrow> rp_osid r),
      iw_packages =
        (if fr_no_prep req then []
         else if trim_space (fr_packages req) \<noteq> [] then fields (trim_space (fr_packages req))
         else case rec of None \<Rightarrow> [] | Some r \<Rightarrow> rp_packages r)\<rparr>"

definition startImageFetch :: "app \<Rightarrow> imageQueue \<Rightarrow> instant \<Rightarrow> imageFetchReq \<Rightarrow> image_err + (app \<times> imageQueue \<times> string)" where
  "startImageFetch a q t req =
     (let url = trim_space (fr_url req); k = fetch_id req; rec = matchRecipe k url; n = new_entry t k url rec
      in if \<not> has_prefix url ''http://'' \<and> \<not> has_prefix url ''https://'' then Inl ImgUrl
         else if bad_id k then Inl ImgId
         else if imageBusy a q k then Inl (ImgBusy k)
         else Inr (a\<lparr>a_images := upsert i_id (requeue t n) n (a_images a)\<rparr>, enqueueImage q (job_of req k url rec), k))"

text \<open>The second component of a removal is the list of files that are deleted with the entry.\<close>

definition removeImage :: "app \<Rightarrow> imageQueue \<Rightarrow> instant \<Rightarrow> string \<Rightarrow> image_err + (app \<times> string list)" where
  "removeImage a q t k =
     (let used = count_where (\<lambda>b. b_image b = k) (a_blades a);
          loc = (case get_image (a_images a) k of None \<Rightarrow> [] | Some i \<Rightarrow> i_local i)
      in if imageBusy a q k then Inl (ImgBusy k)
         else if used > 0 then Inl (ImgUsed used)
         else Inr (logEvent (a\<lparr>a_images := del_where (\<lambda>i. i_id i = k) (a_images a)\<rparr>) t [] ''info'' (''image '' @ k @ '' removed''),
                   if loc \<noteq> [] \<and> CHR ''/'' \<notin> set loc \<and> char_of (92 :: nat) \<notin> set loc then [loc, loc @ ''.verified''] else []))"

section \<open>Everything that happens to the catalogue\<close>

datatype image_op = Fetch imageFetchReq | Remove string | Upload image | TakeJob | Begin | Finish "string option" "string option"

fun image_do :: "instant \<Rightarrow> image_op \<Rightarrow> app \<times> imageQueue \<Rightarrow> app \<times> imageQueue" where
  "image_do t (Fetch req) (a, q) = (case startImageFetch a q t req of Inl e \<Rightarrow> (a, q) | Inr (a1, q1, k) \<Rightarrow> (a1, q1))"
| "image_do t (Remove k) (a, q) = (case removeImage a q t k of Inl e \<Rightarrow> (a, q) | Inr (a1, fs) \<Rightarrow> (a1, q))"
| "image_do t (Upload i) (a, q) = (fst (hImagesCreate a t i), q)"
| "image_do t TakeJob (a, q) = (a, take_job q)"
| "image_do t Begin (a, q) = (case iq_phase q of Taken w \<Rightarrow> (work_begin a t w, q\<lparr>iq_phase := Fetching w\<rparr>) | _ \<Rightarrow> (a, q))"
| "image_do t (Finish m p) (a, q) = (case iq_phase q of Fetching w \<Rightarrow> (work_end a t w m p, q\<lparr>iq_phase := Between\<rparr>) | _ \<Rightarrow> (a, q))"

text \<open>The job a request adds and the job a step completes.\<close>

fun asked_job :: "instant \<Rightarrow> image_op \<Rightarrow> app \<times> imageQueue \<Rightarrow> imageWork list" where
  "asked_job t (Fetch req) (a, q) = (case startImageFetch a q t req of Inl e \<Rightarrow> [] | Inr (a1, q1, k) \<Rightarrow> [last (iq_pending q1)])"
| "asked_job t _ st = []"

fun finished_job :: "image_op \<Rightarrow> app \<times> imageQueue \<Rightarrow> imageWork list" where
  "finished_job (Finish m p) (a, q) = (case iq_phase q of Fetching w \<Rightarrow> [w] | _ \<Rightarrow> [])"
| "finished_job _ st = []"

definition in_hand :: "imageQueue \<Rightarrow> imageWork list" where
  "in_hand q = (case iq_phase q of Between \<Rightarrow> [] | Taken w \<Rightarrow> [w] | Fetching w \<Rightarrow> [w])"

fun run_images :: "(instant \<times> image_op) list \<Rightarrow> app \<times> imageQueue \<Rightarrow> (app \<times> imageQueue) \<times> imageWork list \<times> imageWork list" where
  "run_images [] st = (st, [], [])"
| "run_images ((t, op) # ops) st =
     (case run_images ops (image_do t op st) of (st', accepted, completed) \<Rightarrow> (st', asked_job t op st @ accepted, finished_job op st @ completed))"

definition idle_queue :: imageQueue where
  "idle_queue = \<lparr>iq_pending = [], iq_running = False, iq_phase = Between\<rparr>"

definition alive :: "imageQueue \<Rightarrow> bool" where
  "alive q \<longleftrightarrow> iq_running q \<or> iq_pending q = [] \<and> iq_phase q = Between"

lemma job_of_id [simp]: "iw_id (job_of req k url rec) = k"
  by (simp add: job_of_def)

lemma start_Inr:
  "startImageFetch a q t req = Inr (a1, q1, k) \<Longrightarrow>
     k = fetch_id req \<and> \<not> bad_id k \<and> \<not> imageBusy a q k
     \<and> a1 = a\<lparr>a_images := upsert i_id (requeue t (new_entry t k (trim_space (fr_url req)) (matchRecipe k (trim_space (fr_url req)))))
              (new_entry t k (trim_space (fr_url req)) (matchRecipe k (trim_space (fr_url req)))) (a_images a)\<rparr>
     \<and> q1 = enqueueImage q (job_of req k (trim_space (fr_url req)) (matchRecipe k (trim_space (fr_url req))))"
  by (auto simp: startImageFetch_def Let_def split: if_splits)

lemma start_queue:
  "startImageFetch a q t req = Inr (a1, q1, k) \<Longrightarrow> \<exists>w. iw_id w = k \<and> q1 = enqueueImage q w"
  using start_Inr job_of_id by blast

lemma alive_do: "alive q \<Longrightarrow> alive (snd (image_do t op (a, q)))"
  by (cases op) (auto simp: alive_def take_job_def enqueueImage_def dest!: start_queue
      split: sum.split prod.split list.split phase.split)

lemma order_do:
  "finished_job op (a, q) @ in_hand (snd (image_do t op (a, q))) @ iq_pending (snd (image_do t op (a, q)))
     = in_hand q @ iq_pending q @ asked_job t op (a, q)"
  by (cases op) (auto simp: in_hand_def take_job_def enqueueImage_def dest!: start_queue
      split: sum.split prod.split list.split phase.split)

lemma alive_run: "alive (snd st) \<Longrightarrow> alive (snd (fst (run_images ops st)))"
proof (induction ops arbitrary: st)
  case (Cons x ops)
  thus ?case using alive_do [of "snd st" "fst x" "snd x" "fst st"] by (cases x) (simp add: case_prod_beta)
qed simp

lemma order_run:
  "snd (snd (run_images ops st)) @ in_hand (snd (fst (run_images ops st))) @ iq_pending (snd (fst (run_images ops st)))
     = in_hand (snd st) @ iq_pending (snd st) @ fst (snd (run_images ops st))"
proof (induction ops arbitrary: st)
  case (Cons x ops)
  obtain t op where x: "x = (t, op)" by (cases x)
  obtain a q where st: "st = (a, q)" by (cases st)
  have "snd (snd (run_images (x # ops) st)) @ in_hand (snd (fst (run_images (x # ops) st))) @ iq_pending (snd (fst (run_images (x # ops) st)))
      = finished_job op st @ in_hand (snd (image_do t op st)) @ iq_pending (snd (image_do t op st)) @ fst (snd (run_images ops (image_do t op st)))"
    using Cons.IH [of "image_do t op st"] by (simp add: x case_prod_beta)
  also have "\<dots> = in_hand (snd st) @ iq_pending (snd st) @ asked_job t op st @ fst (snd (run_images ops (image_do t op st)))"
    using order_do [of op a q t] by (simp add: st flip: append_assoc)
  finally show ?case by (simp add: x case_prod_beta)
qed simp

text \<open>However requests and the worker interleave, the jobs that were accepted are exactly those that
  were finished, followed by the one in hand, followed by those waiting, in the order they were
  asked for: none is lost, none overtakes another, no two are worked at once. And while anything
  is left to do a worker is running.\<close>

theorem image_jobs_in_order:
  "case run_images ops (a, idle_queue) of
     ((a', q), accepted, finished) \<Rightarrow>
       accepted = finished @ in_hand q @ iq_pending q \<and> length (in_hand q) \<le> 1
       \<and> (iq_running q \<or> in_hand q @ iq_pending q = [])"
proof -
  have "alive (snd (fst (run_images ops (a, idle_queue))))"
    by (rule alive_run) (simp add: alive_def idle_queue_def)
  moreover have "length (in_hand q) \<le> 1" for q by (simp add: in_hand_def split: phase.split)
  ultimately show ?thesis using order_run [of ops "(a, idle_queue)"]
    by (auto simp: alive_def idle_queue_def in_hand_def [of "\<lparr>iq_pending = [], iq_running = False, iq_phase = Between\<rparr>"]
        in_hand_def split: phase.splits)
qed

section \<open>Removing an entry\<close>

text \<open>An entry is removed only when it is neither waiting nor worked on and no blade has it assigned;
  then it is gone, every other entry and every blade is as before, and the files deleted with it
  lie in the directory of images itself. Each refusal says which of the two stood in the way.\<close>

theorem removeImage_spec:
  "case removeImage a q t k of
     Inl (ImgBusy j) \<Rightarrow> j = k \<and> imageBusy a q k
   | Inl (ImgUsed n) \<Rightarrow> \<not> imageBusy a q k \<and> k \<in> b_image ` set (a_blades a) \<and> n = count_where (\<lambda>b. b_image b = k) (a_blades a)
   | Inl _ \<Rightarrow> False
   | Inr (a', fs) \<Rightarrow> \<not> imageBusy a q k \<and> k \<notin> b_image ` set (a_blades a)
       \<and> get_image (a_images a') = (get_image (a_images a))(k := None) \<and> a_blades a' = a_blades a
       \<and> list_all (\<lambda>f. CHR ''/'' \<notin> set f) fs"
proof -
  have get: "get_image (del_where (\<lambda>i. i_id i = k) xs) = (get_image xs)(k := None)" for xs
    by (simp add: fun_eq_iff images.get_del)
  have none: "count_where (\<lambda>b. b_image b = k) xs = 0 \<longleftrightarrow> k \<notin> b_image ` set xs" for xs
    by (auto simp: count_where_0_iff)
  show ?thesis using none [of "a_blades a"]
    by (auto simp: removeImage_def Let_def get logEvent_def split: option.splits)
qed

section \<open>The busy mark\<close>

lemma new_entry_simps [simp]: "i_id (new_entry t k url rec) = k" "i_state (new_entry t k url rec) = ''queued''"
  by (simp_all add: new_entry_def)

lemma requeue_simps [simp]: "i_id (requeue t n i) = i_id i" "i_state (requeue t n i) = ''queued''"
  by (simp_all add: requeue_def)

definition stuck :: "string \<Rightarrow> app \<times> imageQueue \<Rightarrow> bool" where
  "stuck k st \<longleftrightarrow> map_option i_state (get_image (a_images (fst st)) k) = Some ''working''
     \<and> k \<notin> iw_id ` set (in_hand (snd st) @ iq_pending (snd st))"

lemma get_setImageState:
  "get_image (a_images (setImageState a t j st n)) k =
     (if k = j then map_option (\<lambda>i. i\<lparr>i_state := st, i_note := n, i_updated := stamp_of t\<rparr>) (get_image (a_images a) j)
      else get_image (a_images a) k)"
  by (simp add: setImageState_def images.get_upd)

lemma images_log [simp]: "a_images (logEvent a t s l m) = a_images a"
  by (simp add: logEvent_def)

lemma work_other:
  "iw_id w \<noteq> k \<Longrightarrow> get_image (a_images (work_begin a t w)) k = get_image (a_images a) k"
  "iw_id w \<noteq> k \<Longrightarrow> get_image (a_images (work_end a t w m p)) k = get_image (a_images a) k"
  by (simp_all add: work_begin_def work_end_def get_setImageState Let_def split: option.split)

lemma stuck_busy: "stuck k (a, q) \<Longrightarrow> imageBusy a q k"
  by (simp add: stuck_def imageBusy_def)

lemma stuck_do:
  assumes "stuck k (a, q)"
  shows "stuck k (image_do t op (a, q))"
proof (cases op)
  case (Fetch req)
  show ?thesis
  proof (cases "startImageFetch a q t req")
    case (Inr x)
    obtain a1 q1 j where x: "x = (a1, q1, j)" by (cases x)
    note s = start_Inr [OF Inr [unfolded x]]
    hence "j \<noteq> k" using stuck_busy [OF assms] by auto
    thus ?thesis using s assms Inr x Fetch
      by (auto simp: stuck_def images.get_upsert enqueueImage_def in_hand_def)
  qed (use assms Fetch in simp)
next
  case (Remove j)
  thus ?thesis using assms stuck_busy [OF assms]
    by (auto simp: stuck_def removeImage_def Let_def images.get_del split: if_splits sum.split)
next
  case (Upload i)
  have keep: "i_state (merge_image n r) = i_state r" "i_id (merge_image n r) = i_id r" for n r by (simp_all add: merge_image_def)
  show ?thesis using assms Upload
    by (auto simp: stuck_def hImagesCreate_def Let_def images.get_upsert keep)
next
  case TakeJob
  thus ?thesis using assms by (auto simp: stuck_def take_job_def in_hand_def split: list.split phase.splits)
next
  case Begin
  thus ?thesis using assms by (auto simp: stuck_def in_hand_def work_other split: phase.splits)
next
  case (Finish m p)
  thus ?thesis using assms by (auto simp: stuck_def in_hand_def work_other split: phase.splits)
qed

lemma stuck_run: "stuck k st \<Longrightarrow> stuck k (fst (run_images ops st))"
proof (induction ops arbitrary: st)
  case (Cons x ops)
  thus ?case using stuck_do [of k "fst st" "snd st" "fst x" "snd x"] by (cases x) (simp add: case_prod_beta)
qed simp

text \<open>A server that goes down while an image is being fetched leaves its entry marked as worked on,
  and nothing ever takes that mark away: whatever requests come after the restart, the entry
  stays so, and fetching it again and removing it are both refused.\<close>

theorem working_forever:
  assumes "map_option i_state (get_image (a_images a) k) = Some ''working''"
  shows "case fst (run_images ops (a, idle_queue)) of
     (a', q') \<Rightarrow> map_option i_state (get_image (a_images a') k) = Some ''working''
       \<and> removeImage a' q' t k = Inl (ImgBusy k)
       \<and> (case startImageFetch a' q' t req of Inr (a1, q1, j) \<Rightarrow> j \<noteq> k | Inl e \<Rightarrow> True)"
proof -
  have "stuck k (a, idle_queue)" using assms by (simp add: stuck_def idle_queue_def in_hand_def)
  hence s: "stuck k (fst (run_images ops (a, idle_queue)))" by (rule stuck_run)
  obtain a' q' where r: "fst (run_images ops (a, idle_queue)) = (a', q')" by (cases "fst (run_images ops (a, idle_queue))")
  have b: "imageBusy a' q' k" using s r stuck_busy by metis
  have "case startImageFetch a' q' t req of Inr (a1, q1, j) \<Rightarrow> j \<noteq> k | Inl e \<Rightarrow> True"
    using b by (auto dest!: start_Inr split: sum.split)
  thus ?thesis using s b by (simp add: r stuck_def removeImage_def)
qed

text \<open>Between the moment the worker takes a job and the moment it marks the entry, the entry is not
  busy: where no blade has it assigned it can be removed, and the fetch then goes on and finishes for an entry that is no longer there.\<close>

theorem removed_while_taken:
  assumes "startImageFetch a idle_queue t req = Inr (a1, q1, k)" and "k \<notin> b_image ` set (a_blades a)"
  shows "imageBusy a1 q1 k \<and> (\<exists>w a2 fs. iq_phase (take_job q1) = Taken w \<and> iw_id w = k
           \<and> removeImage a1 (take_job q1) t k = Inr (a2, fs)
           \<and> get_image (a_images (work_end (work_begin a2 t w) t w None None)) k = None)"
proof -
  note s = start_Inr [OF assms(1)]
  define w where "w = job_of req k (trim_space (fr_url req)) (matchRecipe k (trim_space (fr_url req)))"
  have q1: "q1 = \<lparr>iq_pending = [w], iq_running = True, iq_phase = Between\<rparr>"
    using s by (simp add: w_def enqueueImage_def idle_queue_def)
  have id: "iw_id w = k" by (simp add: w_def)
  have "map_option i_state (get_image (a_images a1) k) = Some ''queued''"
    using s by (simp add: images.get_upsert split: option.split)
  hence free: "\<not> imageBusy a1 (take_job q1) k" by (auto simp: imageBusy_def q1 take_job_def)
  moreover have "count_where (\<lambda>b. b_image b = k) (a_blades a1) = 0"
    using assms(2) s by (force simp: count_where_0_iff)
  ultimately obtain a2 fs where r: "removeImage a1 (take_job q1) t k = Inr (a2, fs)"
    and "a_images a2 = del_where (\<lambda>i. i_id i = k) (a_images a1)"
    by (simp add: removeImage_def Let_def)
  hence "get_image (a_images a2) k = None" by (simp add: images.get_del)
  hence "get_image (a_images (work_end (work_begin a2 t w) t w None None)) k = None"
    by (simp add: work_end_def work_begin_def get_setImageState id Let_def)
  thus ?thesis using r id by (simp add: q1 take_job_def imageBusy_def)
qed

theorem working_forever_witness:
  "removeImage (fst (fst (run_images [(0, Fetch \<lparr>fr_id = ''dietpi'', fr_url = ''http://x'', fr_packages = [], fr_no_prep = True\<rparr>), (1, TakeJob), (2, Begin)]
      (demo\<lparr>a_images := [demo_image\<lparr>i_state := ''working''\<rparr>]\<rparr>, idle_queue)))) (snd (fst (run_images [(0, Fetch \<lparr>fr_id = ''dietpi'', fr_url = ''http://x'', fr_packages = [], fr_no_prep = True\<rparr>), (1, TakeJob), (2, Begin)]
      (demo\<lparr>a_images := [demo_image\<lparr>i_state := ''working''\<rparr>]\<rparr>, idle_queue)))) 3 ''dietpi'' = Inl (ImgBusy ''dietpi'')"
proof -
  have "map_option i_state (get_image (a_images (demo\<lparr>a_images := [demo_image\<lparr>i_state := ''working''\<rparr>]\<rparr>)) ''dietpi'') = Some ''working''"
    by (simp add: get_image_def demo_image_def)
  from working_forever [OF this] show ?thesis unfolding case_prod_beta by blast
qed

definition ubuntu_req :: imageFetchReq where
  "ubuntu_req = \<lparr>fr_id = ''ubuntu'', fr_url = ''http://x/u.img'', fr_packages = [], fr_no_prep = False\<rparr>"

theorem removed_while_taken_witness:
  "\<exists>a1 q1 a2 fs. startImageFetch demo idle_queue 0 ubuntu_req = Inr (a1, q1, ''ubuntu'')
     \<and> removeImage a1 (take_job q1) 0 ''ubuntu'' = Inr (a2, fs)"
proof -
  have "fetch_id ubuntu_req = ''ubuntu''" "has_prefix (trim_space (fr_url ubuntu_req)) ''http://''"
    by (simp_all add: fetch_id_def ubuntu_req_def trim_space_def has_prefix_def is_space_def code_def)
  moreover have "\<not> bad_id ''ubuntu''" by code_simp
  moreover have "\<not> imageBusy demo idle_queue ''ubuntu''"
    by (simp add: imageBusy_def idle_queue_def get_image_def demo_defs)
  ultimately obtain a1 q1 where r: "startImageFetch demo idle_queue 0 ubuntu_req = Inr (a1, q1, ''ubuntu'')"
    by (simp add: startImageFetch_def Let_def)
  moreover have "''ubuntu'' \<notin> b_image ` set (a_blades demo)" by (simp add: demo_defs)
  ultimately show ?thesis using removed_while_taken by blast
qed

section \<open>Names out of addresses\<close>

lemma version_chars: "set (versionIn s) \<subseteq> {c. in_version c}"
proof (induction s rule: versionIn.induct)
  case (1 s)
  show ?case
  proof (cases "dropWhile (\<lambda>c. \<not> is_digit c) s")
    case Nil
    hence "versionIn s = []" by (subst versionIn.simps) (simp only: list.case)
    thus ?thesis by simp
  next
    case (Cons c r)
    define v where "v = trim_dots (takeWhile in_version (c # r))"
    define rest where "rest = drop 1 (dropWhile in_version (c # r))"
    have v: "set v \<subseteq> {c. in_version c}"
      unfolding v_def trim_dots_def by (auto dest!: set_dropWhileD set_takeWhileD)
    have "versionIn s = (if length v \<ge> 8 \<and> CHR ''.'' \<notin> set v then versionIn rest else if v \<noteq> [] then v else versionIn rest)"
      by (subst versionIn.simps) (simp only: Cons list.case Let_def v_def [symmetric] rest_def [symmetric])
    thus ?thesis using v 1 [OF Cons v_def rest_def] by (auto split: if_splits)
  qed
qed

lemma no_bad_version: "\<not> bad_id (versionIn s)"
proof -
  have "\<not> in_version c" if "c \<in> set [CHR ''/'', char_of (92 :: nat), CHR '' '', char_of (9 :: nat), char_of (34 :: nat), char_of (39 :: nat)]" for c
  proof -
    have "list_all (\<lambda>c. \<not> in_version c) [CHR ''/'', char_of (92 :: nat), CHR '' '', char_of (9 :: nat), char_of (34 :: nat), char_of (39 :: nat)]"
      by code_simp
    thus ?thesis using that unfolding list_all_iff by blast
  qed
  thus ?thesis using version_chars [of s] unfolding bad_id_def by blast
qed

lemma bad_append: "bad_id (x @ y) \<longleftrightarrow> bad_id x \<or> bad_id y"
  by (auto simp: bad_id_def)

lemma fine_names:
  "r \<in> set recipes \<Longrightarrow> \<not> bad_id (rp_osid r) \<and> \<not> bad_id (rp_id_hint r)"
  "\<not> bad_id (releaseIn s)" "\<not> bad_id ''-''" "\<not> bad_id ''-arm64''"
proof -
  show "\<not> bad_id ''-''" "\<not> bad_id ''-arm64''" by code_simp+
  have "list_all (\<lambda>r. \<not> bad_id (rp_osid r) \<and> \<not> bad_id (rp_id_hint r)) recipes" by code_simp
  thus "r \<in> set recipes \<Longrightarrow> \<not> bad_id (rp_osid r) \<and> \<not> bad_id (rp_id_hint r)" by (simp add: list_all_iff)
  have "list_all (\<lambda>c. \<not> bad_id c) [''trixie'', ''bookworm'', ''bullseye'', ''forky'']" "\<not> bad_id []" by code_simp+
  thus "\<not> bad_id (releaseIn s)"
    by (auto simp: releaseIn_def list_all_iff dest!: find_SomeD split: option.split)
qed

text \<open>For an address one of the recipes knows, the suggested name is never refused: it is free of
  slashes, blanks and quotes, whatever the address contains.\<close>

theorem suggestID_usable:
  assumes "matchRecipe [] url = Some r"
  shows "\<not> bad_id (suggestID url)"
proof -
  have "r \<in> set recipes" using assms by (auto simp: matchRecipe_def Let_def dest: find_SomeD)
  hence r: "\<not> bad_id (rp_osid r)" "\<not> bad_id (rp_id_hint r)" using fine_names(1) by blast+
  have "\<not> bad_id (rp_osid r @ ''-'' @ x @ ''-arm64'')" if "\<not> bad_id x" for x
    using r(1) that fine_names(3,4) by (simp only: bad_append simp_thms)
  moreover have "\<not> bad_id (rp_osid r @ ''-arm64'')"
    using r(1) fine_names(4) by (simp only: bad_append simp_thms)
  ultimately show ?thesis using r(2) fine_names(2) no_bad_version
    unfolding suggestID_def Let_def assms option.case by (simp del: append_Cons append.simps)
qed

theorem suggestID_usable_witness: "\<not> bad_id (suggestID ''http://dietpi/x y'')"
  by (rule suggestID_usable [of _ "recipes ! 1"]) code_simp

end
