(* ===== verification/Server.thy ===== *)
theory Server
  imports Desk Catalogue
begin

text \<open>
  The server as a whole: every request that changes something, from the machines, the sites, the
  management interface and the browser (the routes of \<^verbatim>\<open>src/server/main.go\<close>, each behind the guard it
  has there), and what the server does by itself. A request whose handler panics or never
  returns changes nothing, which is how the HTTP server ends it. The theorem: the plan of
  sites, BladeRunners and slots stays sound under every sequence of requests.
\<close>

section \<open>Requests\<close>

datatype machine_req =
    MEnroll string string string string
  | MStatus string string report
  | MCommands string string
  | MProvision string string string jmap
  | MProvisionStatus string string int string string

datatype site_req =
    SDesired string int string
  | SEvents string int "siteEvent list"
  | SStatus string int heartbeat
  | SEnroll string string string string

datatype api_req =
    ASiteCreate site | ASiteUpdate int site | ASiteDelete int | ASiteToken string int
  | APolicy policy | ASitePolicy int policy
  | ARackCreate rackInput | ARackUpdate int string string int | ARackDelete int
  | ABladeUpdate string bladeInput | ABladeDelete string | ABladeAction string string
  | AImage image | AImageFetch imageFetchReq | AImageDelete string
  | AConfigPut string json | AConfigPatch string json | ADHCPSync | ANetbootImage string string
  | AEnrollCode "nat list" int

text \<open>The pages that any signed-in person may use, and those for administrators.\<close>

datatype rack_page =
    PAction string string form | PTarget string form | PImage string string | PNetbootImage string form

datatype admin_page =
    PUserCreate "string option" string string string | PUserPassword "string option" string string
  | PUserRole string string | PUserDisable string string | PUserDelete string
  | PSettings form | PNotify "string option" form | PEnroll "nat list" int | PForget string
  | PImageAdd imageFetchReq | PImageRemove string
  | PSiteCreate form | PSiteUpdate int "site \<Rightarrow> site" | PSiteDelete int | PSitePolicy int "string \<Rightarrow> rat option"
  | PRackCreate rackInput | PRackUpdate int string string int "int option" | PRackDelete int
  | PAssign int int string | PUnassign string

datatype tick =
    TSweep | THealth mailer "reason list \<Rightarrow> string" | TProbe | TLogLine logLine | TReap | TImages image_op

text \<open>The flags of the command line that reach the state.\<close>

record flags =
  f_net_base :: string
  f_base_url :: string
  f_local_dhcp :: bool

datatype request =
    Machine machine_req | FromSite site_req | Api string api_req
  | RackPage "string option" rack_page | AdminPage "string option" admin_page
  | Login string string string | Logout "string option" | Tick tick | Restart flags

section \<open>The state and what surrounds it\<close>

record server =
  sv_app :: app
  sv_users :: "user list"
  sv_sessions :: sessions
  sv_queue :: imageQueue
  sv_xids :: xids

record world =
  w_adminToken :: string
  w_heads :: heads
  w_centre :: centre
  w_skew :: "instant \<Rightarrow> stamp \<Rightarrow> string"
  w_kdf :: kdf

definition or_stay :: "'a \<Rightarrow> 'a outcome \<Rightarrow> 'a" where
  "or_stay x r = (case r of Value y \<Rightarrow> y | Panic \<Rightarrow> x)"

definition or_keep :: "'a \<Rightarrow> 'e + 'a \<Rightarrow> 'a" where
  "or_keep x r = (case r of Inr y \<Rightarrow> y | Inl _ \<Rightarrow> x)"

definition or_same :: "'a \<Rightarrow> 'a option \<Rightarrow> 'a" where
  "or_same x r = (case r of Some y \<Rightarrow> y | None \<Rightarrow> x)"

section \<open>Starting\<close>

text \<open>What the process held in memory is gone at a start; the database and the directory of
  reservations are as they were left.\<close>

definition fresh_process :: "bool \<Rightarrow> app \<Rightarrow> app" where
  "fresh_process local a = a\<lparr>a_netCache := Map.empty, a_nameCache := Map.empty, a_logMarks := [], a_localDHCP := local\<rparr>"

definition discard_orphans :: "app \<Rightarrow> instant \<Rightarrow> app" where
  "discard_orphans a t =
     taken_where a (\<lambda>c. c_serial c \<notin> set (map b_serial (a_blades a))) (TakenAt (t div nsec) '' (verwaist)'')"

definition base_url :: "flags \<Rightarrow> app \<Rightarrow> string" where
  "base_url f a = (if f_base_url f = [] then setting a ''base_url'' (''http://'' @ netBase a @ ''.10:8080'') else f_base_url f)"

definition main :: "flags \<Rightarrow> instant \<Rightarrow> server \<Rightarrow> server" where
  "main f t s =
     (let nb = f_net_base f;
          a0 = fresh_process (f_local_dhcp f) (sv_app s);
          a1 = (if nb \<noteq> [] then setSetting a0 ''net_base'' nb else a0);
          a2 = ensureDefaultSite a1 t nb;
          a3 = setSetting a2 ''base_url'' (base_url f a2)
      in s\<lparr>sv_app := discard_orphans a3 t, sv_sessions := [], sv_queue := idle_queue, sv_xids := []\<rparr>)"

section \<open>Serving\<close>

fun serve_machine :: "world \<Rightarrow> instant \<Rightarrow> machine_req \<Rightarrow> app \<Rightarrow> app" where
  "serve_machine w t (MEnroll tok serial mac variant) a = fst (hEnroll a t tok serial mac variant)"
| "serve_machine w t (MStatus header serial rp) a = fst (or_stay (a, 500) (hBladeStatus a t header serial rp))"
| "serve_machine w t (MCommands header serial) a = fst (hBladeCommands a t header serial)"
| "serve_machine w t (MProvision tok serial mac hw) a = fst (hProvision a t (ce_baseURL (w_centre w)) tok serial mac hw)"
| "serve_machine w t (MProvisionStatus serial phase percent err note) a = hProvisionStatus a t serial phase percent err note"

fun serve_site :: "world \<Rightarrow> instant \<Rightarrow> site_req \<Rightarrow> app \<Rightarrow> app" where
  "serve_site w t (SDesired header k match) a = fst (hSiteDesired (w_centre w) a t header k match)"
| "serve_site w t (SEvents header k es) a = fst (hSiteEvents a t header k es)"
| "serve_site w t (SStatus header k hb) a = fst (hSiteStatus (w_skew w) a t header k hb)"
| "serve_site w t (SEnroll tok c host remote) a = fst (hSiteEnroll a t tok c host remote)"

fun serve_api :: "world \<Rightarrow> instant \<Rightarrow> api_req \<Rightarrow> app \<times> imageQueue \<Rightarrow> app \<times> imageQueue" where
  "serve_api w t (ASiteCreate st) (a, q) = (fst (hSiteCreate a t st), q)"
| "serve_api w t (ASiteUpdate k st) (a, q) = (fst (hSiteUpdate a t k st), q)"
| "serve_api w t (ASiteDelete k) (a, q) = (fst (hSiteDelete a t k), q)"
| "serve_api w t (ASiteToken tok k) (a, q) = (fst (hSiteToken a t tok k), q)"
| "serve_api w t (APolicy p) (a, q) = (hPolicyPut a t p, q)"
| "serve_api w t (ASitePolicy k p) (a, q) = (hSitePolicyPut a t k p, q)"
| "serve_api w t (ARackCreate inp) (a, q) = (fst (or_same (a, 500) (hRacksCreate a t inp)), q)"
| "serve_api w t (ARackUpdate k name loc sz) (a, q) = (fst (hRackUpdate a t k name loc sz), q)"
| "serve_api w t (ARackDelete k) (a, q) = (fst (hRackDelete a t k), q)"
| "serve_api w t (ABladeUpdate serial inp) (a, q) = (fst (hBladeUpdate a t serial inp), q)"
| "serve_api w t (ABladeDelete serial) (a, q) = (fst (hBladeDelete a t serial), q)"
| "serve_api w t (ABladeAction serial kind) (a, q) = (fst (hBladeAction (w_heads w) a t serial kind), q)"
| "serve_api w t (AImage i) (a, q) = image_do t (Upload i) (a, q)"
| "serve_api w t (AImageFetch req) (a, q) = image_do t (Fetch req) (a, q)"
| "serve_api w t (AImageDelete k) (a, q) = image_do t (Remove k) (a, q)"
| "serve_api w t (AConfigPut scope body) (a, q) = (fst (hConfigPut a t scope body), q)"
| "serve_api w t (AConfigPatch scope body) (a, q) = (fst (or_stay (a, 500) (hConfigPatch a t scope body)), q)"
| "serve_api w t ADHCPSync (a, q) = (sync a t, q)"
| "serve_api w t (ANetbootImage mac im) (a, q) = (hNetbootImage a t mac im, q)"
| "serve_api w t (AEnrollCode bytes k) (a, q) = (hUISiteEnroll a t bytes k, q)"

fun serve_rack_page :: "world \<Rightarrow> instant \<Rightarrow> who \<Rightarrow> rack_page \<Rightarrow> app \<Rightarrow> app" where
  "serve_rack_page w t p (PAction serial kind f) a = hUIBladeAction (w_heads w) a t p serial kind f"
| "serve_rack_page w t p (PTarget serial f) a = or_stay a (hUIBladeTarget (w_heads w) a t serial f)"
| "serve_rack_page w t p (PImage serial im) a = fst (hUIBladeImage (w_heads w) a serial im)"
| "serve_rack_page w t p (PNetbootImage mac f) a = hUINetbootImage a t mac f"

text \<open>The accounts are touched by the accounts page alone.\<close>

fun serve_accounts :: "world \<Rightarrow> instant \<Rightarrow> who \<Rightarrow> admin_page \<Rightarrow> desk \<Rightarrow> desk" where
  "serve_accounts w t p (PUserCreate salt name pw r) d = hUserCreate (w_kdf w) salt d t (w_name p) name pw r"
| "serve_accounts w t p (PUserPassword salt name pw) d = hUserPassword (w_kdf w) salt d t (w_name p) name pw"
| "serve_accounts w t p (PUserRole name r) d = hUserRole d t (w_name p) name r"
| "serve_accounts w t p (PUserDisable name off) d = hUserDisable d t (w_name p) name off"
| "serve_accounts w t p (PUserDelete name) d = hUserDelete d t (w_name p) name"
| "serve_accounts w t p _ d = d"

fun serve_admin_page :: "world \<Rightarrow> instant \<Rightarrow> admin_page \<Rightarrow> app \<times> imageQueue \<Rightarrow> app \<times> imageQueue" where
  "serve_admin_page w t (PSettings f) (a, q) = (or_stay a (hSettingsSave a t f), q)"
| "serve_admin_page w t (PNotify sent f) (a, q) = (hUINotifySave sent a t f, q)"
| "serve_admin_page w t (PEnroll bytes k) (a, q) = (hUISiteEnroll a t bytes k, q)"
| "serve_admin_page w t (PForget serial) (a, q) = (hUIBladeForget a t serial, q)"
| "serve_admin_page w t (PImageAdd req) (a, q) = image_do t (Fetch req) (a, q)"
| "serve_admin_page w t (PImageRemove k) (a, q) = image_do t (Remove k) (a, q)"
| "serve_admin_page w t (PSiteCreate f) (a, q) = (or_keep a (hUISiteCreate a t f), q)"
| "serve_admin_page w t (PSiteUpdate k f) (a, q) = (or_keep a (hUISiteUpdate a t k f), q)"
| "serve_admin_page w t (PSiteDelete k) (a, q) = (or_keep a (hUISiteDelete a t k), q)"
| "serve_admin_page w t (PSitePolicy k f) (a, q) = (hUISitePolicy a t k f, q)"
| "serve_admin_page w t (PRackCreate inp) (a, q) = (fst (or_same (a, False) (hUIRackCreate a t inp)), q)"
| "serve_admin_page w t (PRackUpdate k name loc sz st) (a, q) = (fst (or_same (a, None) (hUIRackUpdate a t k name loc sz st)), q)"
| "serve_admin_page w t (PRackDelete k) (a, q) = (fst (hUIRackDelete a t k), q)"
| "serve_admin_page w t (PAssign rid slot serial) (a, q) = (fst (hUIAssign a t rid slot serial), q)"
| "serve_admin_page w t (PUnassign serial) (a, q) = (fst (hUIUnassign a t serial), q)"
| "serve_admin_page w t _ (a, q) = (a, q)"

fun serve_tick :: "world \<Rightarrow> instant \<Rightarrow> tick \<Rightarrow> server \<Rightarrow> server" where
  "serve_tick w t TSweep s = s\<lparr>sv_app := sweepOffline (sv_app s) t\<rparr>"
| "serve_tick w t (THealth mail render) s =
     s\<lparr>sv_app := fst (healthPass (Alerts.mailConf (sv_app s)) mail render (sv_app s) t)\<rparr>"
| "serve_tick w t TProbe s = s\<lparr>sv_app := probeStep (sv_app s) t\<rparr>"
| "serve_tick w t (TLogLine line) s =
     (case handleLogLine (sv_app s, sv_xids s) t line of (a, m) \<Rightarrow> s\<lparr>sv_app := a, sv_xids := m\<rparr>)"
| "serve_tick w t TReap s = s\<lparr>sv_sessions := reap (sv_sessions s) t\<rparr>"
| "serve_tick w t (TImages op) s =
     (case op of
        TakeJob \<Rightarrow> s\<lparr>sv_queue := take_job (sv_queue s)\<rparr>
      | Begin \<Rightarrow> (case image_do t op (sv_app s, sv_queue s) of (a, q) \<Rightarrow> s\<lparr>sv_app := a, sv_queue := q\<rparr>)
      | Finish m p \<Rightarrow> (case image_do t op (sv_app s, sv_queue s) of (a, q) \<Rightarrow> s\<lparr>sv_app := a, sv_queue := q\<rparr>)
      | _ \<Rightarrow> s)"

fun serve :: "world \<Rightarrow> instant \<times> request \<Rightarrow> server \<Rightarrow> server" where
  "serve w (t, Machine r) s = s\<lparr>sv_app := serve_machine w t r (sv_app s)\<rparr>"
| "serve w (t, FromSite r) s = s\<lparr>sv_app := serve_site w t r (sv_app s)\<rparr>"
| "serve w (t, Api header r) s =
     (if \<not> requireAdmin (w_adminToken w) header then s
      else case serve_api w t r (sv_app s, sv_queue s) of (a, q) \<Rightarrow> s\<lparr>sv_app := a, sv_queue := q\<rparr>)"
| "serve w (t, RackPage cookie r) s =
     (case requireRole roleOperator (w_adminToken w) (sv_sessions s) t cookie of
        (ss, Through p) \<Rightarrow> s\<lparr>sv_sessions := ss, sv_app := serve_rack_page w t p r (sv_app s)\<rparr>
      | (ss, _) \<Rightarrow> s\<lparr>sv_sessions := ss\<rparr>)"
| "serve w (t, AdminPage cookie r) s =
     (case requireRole roleAdmin (w_adminToken w) (sv_sessions s) t cookie of
        (ss, Through p) \<Rightarrow>
          (case serve_accounts w t p r (sv_app s, sv_users s) of
             (a1, us) \<Rightarrow> (case serve_admin_page w t r (a1, sv_queue s) of
                           (a2, q) \<Rightarrow> s\<lparr>sv_sessions := ss, sv_users := us, sv_app := a2, sv_queue := q\<rparr>))
      | (ss, _) \<Rightarrow> s\<lparr>sv_sessions := ss\<rparr>)"
| "serve w (t, Login sid user0 secret) s =
     (case hLoginPost (w_kdf w) (w_adminToken w) (sv_users s, sv_sessions s) t sid user0 secret of
        ((us, ss), ok) \<Rightarrow> s\<lparr>sv_users := us, sv_sessions := ss\<rparr>)"
| "serve w (t, Logout cookie) s = s\<lparr>sv_sessions := hLogout (sv_sessions s) cookie\<rparr>"
| "serve w (t, Tick x) s = serve_tick w t x s"
| "serve w (t, Restart f) s = main f t s"

section \<open>The plan stays sound\<close>

lemma plan_ok_upd_site:
  "plan_ok a \<Longrightarrow> (\<And>r. s_id (f r) = s_id r) \<Longrightarrow> (\<And>r. s_name (f r) = s_name r) \<Longrightarrow> plan_ok (upd_site a k f)"
  by (auto simp: plan_ok_def schema_ok_def sites_ok_def keys_fresh_def placed_ok_def getRack_def upd_site_def set_upd_where
      map_upd_where_same)

lemma plan_ok_setSitePolicy: "plan_ok a \<Longrightarrow> plan_ok (setSitePolicy a k p)"
  using plan_ok_upd_site [of a "\<lambda>r. r\<lparr>s_policy_json := marshalPolicy p\<rparr>" k]
  by (simp add: upd_site_def setSitePolicy_def)

lemma plan_ok_site_changes:
  "plan_ok a \<Longrightarrow> createSite a t st = Inr (a', k) \<Longrightarrow> plan_ok a'"
  "plan_ok a \<Longrightarrow> updateSite a k st = Inr a' \<Longrightarrow> plan_ok a'"
  "plan_ok a \<Longrightarrow> deleteSite a k = Inr a' \<Longrightarrow> plan_ok a'"
  using createSite_keeps [of a t st a' k] createSite_Inr [of a t st a' k] updateSite_keeps [of a k st a'] updateSite_Inr [of a k st a']
    deleteSite_keeps [of a k a'] deleteSite_Inr [of a k a']
  by (auto simp: plan_ok_def placed_ok_cong [of a' a])

text \<open>Requests that touch none of the three tables of the plan.\<close>

definition untouched :: "app \<Rightarrow> app \<Rightarrow> bool" where
  "untouched a a' \<longleftrightarrow> a_sites a' = a_sites a \<and> a_racks a' = a_racks a \<and> a_blades a' = a_blades a
     \<and> a_next_site a' = a_next_site a \<and> a_next_rack a' = a_next_rack a"

lemma untouched_plan: "untouched a a' \<Longrightarrow> plan_ok a' = plan_ok a"
  by (rule plan_ok_cong) (simp_all add: untouched_def)

lemma untouched_intent: "untouched a a' \<Longrightarrow> intent a' = intent a"
  by (rule intent_cong) (simp add: untouched_def)

lemma untouched_simps [simp]:
  "untouched a a" "untouched a (logEvent a' t s l m) = untouched a a'" "untouched a (logActed a' t u s l m) = untouched a a'"
  "untouched a (logEventAt a' t s l m ts) = untouched a a'"
  "untouched a (sync a' t) = untouched a a'" "untouched a (queueCommand a' t s k) = untouched a a'"
  "untouched a (insert_command a' t s k) = untouched a a'" "untouched a (taken_where a' P x) = untouched a a'"
  "untouched a (upd_session a' Q f) = untouched a a'" "untouched a (raiseStage a' t mac st) = untouched a a'"
  "untouched a (putConfig a' sc body) = untouched a a'" "untouched a (setSetting a' key v) = untouched a a'"
  "untouched a (clearAlert a' z) = untouched a a'" "untouched a (raiseAlert a' t al) = untouched a a'"
  "untouched a (fst (checkTarget head_of a' bv)) = untouched a a'" "untouched a (snd (siteName a' j)) = untouched a a'"
  "untouched a (a'\<lparr>a_images := ims\<rparr>) = untouched a a'" "untouched a (recordSiteImages a' t j ins) = untouched a a'"
  "untouched a (a'\<lparr>a_policy := po\<rparr>) = untouched a a'" "untouched a (a'\<lparr>a_commands := cs\<rparr>) = untouched a a'"
  by (auto simp: untouched_def keep logActed_def logEventAt_def insert_command_def taken_where_def queueCommand_def upd_session_def raiseStage_def
      putConfig_def setSetting_def clearAlert_def raiseAlert_def checkTarget_frame siteName_def recordSiteImages_def Let_def
      split: option.split)

lemma untouched_trans: "untouched a b \<Longrightarrow> untouched b c \<Longrightarrow> untouched a c"
  by (simp add: untouched_def)

lemma untouched_wire [simp]:
  "untouched a (a'\<lparr>a_netboot := n\<rparr>) = untouched a a'" "untouched a (touchNetboot a' t mac ip stage msg) = untouched a a'"
  "untouched a (setClient a' mac kind) = untouched a a'" "untouched a (touchNetbootByIP a' t ip stage fname msg) = untouched a a'"
  "untouched a (fst (handleLogLine (a', m) t line)) = untouched a a'" "untouched a (netbootStage a' t serial stage msg) = untouched a a'"
proof -
  show one: "untouched a (a'\<lparr>a_netboot := n\<rparr>) = untouched a a'" for a' n by (simp add: untouched_def)
  show two: "untouched a (touchNetboot a' t mac ip stage msg) = untouched a a'" for mac ip stage msg
    by (simp add: touchNetboot_def one)
  show three: "untouched a (setClient a' mac kind) = untouched a a'" for a' mac kind by (simp add: setClient_def)
  show four: "untouched a (touchNetbootByIP a' t ip stage fname msg) = untouched a a'" for ip stage fname msg
    by (simp add: touchNetbootByIP_def Let_def split: option.split)
  show "untouched a (fst (handleLogLine (a', m) t line)) = untouched a a'"
    by (simp add: handleLogLine_def Let_def two three four split: option.split)
  show "untouched a (netbootStage a' t serial stage msg) = untouched a a'"
    by (simp add: netbootStage_def split: option.split)
qed

lemma untouched_health: "untouched a (fst (healthPass conf mail render a t))"
proof -
  have send: "untouched a (fst (sendAlert conf mail a' t b level reason cur)) = untouched a a'" for a a' b level reason cur
    by (simp add: sendAlert_def Let_def split: option.split)
  have one: "untouched a' (fst (watch_blade conf mail render t cur b a'))" for a' cur b
    by (cases cur) (simp_all add: watch_blade_def Let_def case_prod_beta send)
  have loop: "untouched a' (fst (watch_loop conf mail render t opn bs a'))" for opn bs a'
  proof (induction bs arbitrary: opn a')
    case (Cons b bs)
    show ?case using untouched_trans [OF one Cons.IH] by (simp add: case_prod_beta Let_def)
  qed simp
  have clear: "untouched a (fold f xs a')" if "untouched a a'" "\<And>x y. untouched a y \<Longrightarrow> untouched a (f x y)" for f and xs :: "alert list" and a'
    using that by (induction xs arbitrary: a') auto
  show ?thesis using loop [of a "openAlerts a" "listBlades a"]
    by (auto simp: healthPass_def case_prod_beta Let_def intro!: clear)
qed

lemma plan_rename: "plan_ok a \<Longrightarrow> plan_ok (fst (rename_loop a t pre k bs n))"
proof (induction bs arbitrary: a n)
  case (Cons b bs)
  have "plan_ok (logEvent (a\<lparr>a_blades := upd_where (\<lambda>r. b_serial r = b_serial b) (\<lambda>r. r\<lparr>b_hostname := want\<rparr>) (a_blades a)\<rparr>) t s l m)" for want s l m
    using Cons.prems by (simp add: plan_ok_upd_where position_def)
  thus ?case using Cons by (simp add: Let_def split: option.split)
qed simp

lemma plan_sweep: "plan_ok a \<Longrightarrow> plan_ok (sweepOffline a t)"
proof -
  assume a: "plan_ok a"
  have one: "plan_ok (fst st) \<Longrightarrow> plan_ok (fst (flip c P st))" for c P st
    by (auto simp: flip_def position_def intro!: plan_ok_upd_where split: prod.split)
  have "plan_ok (fst st) \<Longrightarrow> plan_ok (fst (fold (\<lambda>s st. flip (c s) (P s) st) ss st))" for c P and ss :: "site list" and st
    by (induction ss arbitrary: st) (simp_all add: one)
  hence "plan_ok (fst (flip (cutoff t (offlineAfter (globalPolicy a))) (in_no_rack a)
      (fold (\<lambda>s st. flip (cutoff t (offlineAfter (sitePolicy a (s_id s)))) (in_site a (s_id s)) st) (sort_key s_id (a_sites a)) (a, 0))))"
    using a by (intro one) simp
  thus ?thesis by (simp add: sweepOffline_def case_prod_beta Let_def)
qed

lemma plan_machine: "plan_ok a \<Longrightarrow> plan_ok (serve_machine w t r a)"
proof (cases r)
  case (MStatus header serial rp)
  assume "plan_ok a"
  thus ?thesis using MStatus plan_ok_status [of a t header serial rp]
    by (cases "hBladeStatus a t header serial rp") (auto simp: or_stay_def)
next
  case (MCommands header serial)
  assume "plan_ok a"
  moreover have "untouched a (fst (hBladeCommands a t header serial))"
    by (simp add: hBladeCommands_def Let_def)
  ultimately show ?thesis using MCommands by (simp add: untouched_plan)
qed (simp_all add: plan_ok_enroll plan_ok_provision plan_ok_provisionStatus)

lemma upd_site_alt: "a\<lparr>a_sites := upd_where (\<lambda>r. s_id r = k) f (a_sites a)\<rparr> = upd_site a k f"
  by (simp add: upd_site_def)

lemma plan_heartbeat:
  "plan_ok a \<Longrightarrow> plan_ok (touchSite a t k)" "plan_ok a \<Longrightarrow> plan_ok (recordSiteSelf a k pl ver relay)"
  "plan_ok a \<Longrightarrow> plan_ok (recordSiteTrouble a t k trouble)"
  by (simp_all add: touchSite_def recordSiteSelf_def recordSiteTrouble_def upd_site_alt plan_ok_upd_site Let_def split: option.split)

lemma untouched_events: "untouched a (fold (take_event k t) es a') = untouched a a'"
  by (induction es arbitrary: a') (simp_all add: take_event_def)

lemma plan_site: "plan_ok a \<Longrightarrow> plan_ok (serve_site w t r a)"
proof (cases r)
  case (SStatus header k hb)
  assume a: "plan_ok a"
  have im: "plan_ok (recordSiteImages x t k ins) = plan_ok x" for x ins by (rule untouched_plan) simp
  show ?thesis using SStatus a
    by (simp add: hSiteStatus_def Let_def plan_heartbeat im split: option.split)
next
  case (SEvents header k es)
  assume "plan_ok a"
  moreover have "plan_ok (fold (take_event k t) es a) = plan_ok a" by (rule untouched_plan) (simp add: untouched_events)
  ultimately show ?thesis using SEvents by (simp add: hSiteEvents_def plan_heartbeat)
qed (auto simp: hSiteDesired_def hSiteEnroll_def clearEnrollCode_def Let_def plan_heartbeat plan_ok_upd_site split: option.split)

lemma plan_image: "plan_ok (fst (image_do t op (a, q))) = plan_ok a"
proof (rule untouched_plan)
  show "untouched a (fst (image_do t op (a, q)))"
  proof (cases op)
    case (Fetch req)
    thus ?thesis by (auto dest!: start_Inr split: sum.split)
  qed (auto simp: removeImage_def hImagesCreate_def work_begin_def work_end_def setImageState_def Let_def
        split: sum.split phase.split option.split)
qed

lemma plan_enroll_code: "plan_ok a \<Longrightarrow> plan_ok (hUISiteEnroll a t bytes k)"
  by (auto simp: hUISiteEnroll_def makeEnrollCode_def Let_def plan_ok_upd_site split: option.split)

lemma plan_site_handlers:
  "plan_ok a \<Longrightarrow> plan_ok (fst (hSiteCreate a t st))" "plan_ok a \<Longrightarrow> plan_ok (fst (hSiteUpdate a t k st))"
  "plan_ok a \<Longrightarrow> plan_ok (fst (hSiteDelete a t k))" "plan_ok a \<Longrightarrow> plan_ok (fst (hSiteToken a t tok k))"
  "plan_ok a \<Longrightarrow> plan_ok (hSitePolicyPut a t k p)"
  by (auto simp: hSiteCreate_def hSiteUpdate_def hSiteDelete_def hSiteToken_def hSitePolicyPut_def Let_def
      plan_ok_upd_site plan_ok_setSitePolicy dest: plan_ok_site_changes split: sum.split)

lemma plan_api: "plan_ok a \<Longrightarrow> plan_ok (fst (serve_api w t r (a, q)))"
proof (cases r)
  case (ARackCreate inp)
  assume "plan_ok a"
  thus ?thesis using ARackCreate plan_ok_hRacksCreate [of a t inp]
    by (cases "hRacksCreate a t inp") (auto simp: or_same_def)
next
  case (AConfigPut scope body)
  assume "plan_ok a"
  moreover have "untouched a (fst (hConfigPut a t scope body))" by (simp add: hConfigPut_def split: json.split)
  ultimately show ?thesis using AConfigPut by (simp add: untouched_plan)
next
  case (AConfigPatch scope body)
  assume "plan_ok a"
  moreover have "untouched a (fst (or_stay (a, 500) (hConfigPatch a t scope body)))"
    by (simp add: hConfigPatch_def or_stay_def split: json.split option.split)
  ultimately show ?thesis using AConfigPatch by (simp add: untouched_plan)
next
  case (APolicy p)
  assume "plan_ok a"
  moreover have "untouched a (hPolicyPut a t p)" by (simp add: hPolicyPut_def setGlobalPolicy_def)
  ultimately show ?thesis using APolicy by (simp add: untouched_plan)
qed (simp_all only: serve_api.simps fst_conv plan_site_handlers plan_ok_hRackUpdate plan_ok_hRackDelete plan_ok_hBladeUpdate
    plan_ok_delete plan_ok_action plan_image plan_ok_choose plan_enroll_code hNetbootImage_def plan_ok_frame)

lemma if_either: "(c \<Longrightarrow> P x) \<Longrightarrow> (\<not> c \<Longrightarrow> P y) \<Longrightarrow> P (if c then x else y)"
  by simp

lemma plan_results:
  "plan_ok a \<Longrightarrow> plan_ok (case resetBlade a t serial of Inl e \<Rightarrow> a | Inr a1 \<Rightarrow> a1)"
  "plan_ok a \<Longrightarrow> plan_ok (case requestProbe a t serial of Inl e \<Rightarrow> a | Inr a1 \<Rightarrow> a1)"
  "plan_ok a \<Longrightarrow> plan_ok (case cancelInstall a t serial of Inl e \<Rightarrow> a | Inr a1 \<Rightarrow> a1)"
  by (auto dest: plan_ok_reset plan_ok_probe plan_ok_cancel split: sum.split)

lemma plan_hUIBladeAction: "plan_ok a \<Longrightarrow> plan_ok (hUIBladeAction head_of a t p serial kind f)"
proof (cases "getBlade a serial")
  case (Some b)
  assume a: "plan_ok a"
  have act: "plan_ok (logActed x t u serial l m) = plan_ok x" "plan_ok (insert_command x t serial k) = plan_ok x" for x u l m k
    by (rule untouched_plan, simp)+
  have "plan_ok (case requestInstall head_of a t serial of (a1, Some e) \<Rightarrow> a1 | (a1, None) \<Rightarrow> logActed a1 t u serial l m)" for u l m
    using plan_ok_requestInstall [OF a, of head_of t serial] act by (auto split: prod.split option.split)
  thus ?thesis unfolding hUIBladeAction_def Some option.case using a act
    by (intro if_either [where P = plan_ok]) (simp_all only: plan_ok_wipe plan_results plan_ok_shutdown)
qed (simp add: hUIBladeAction_def)

lemma untouched_target: "untouched a (or_stay a (hUIBladeTarget head_of a t serial f))"
  by (simp add: hUIBladeTarget_def or_stay_def Let_def split: option.split)

lemma plan_rack_page: "plan_ok a \<Longrightarrow> plan_ok (serve_rack_page w t p r a)"
  by (cases r) (simp_all add: plan_hUIBladeAction untouched_plan [OF untouched_target] plan_ok_bladeImage hUINetbootImage_def plan_ok_choose)

lemma plan_hUISiteUpdate: "plan_ok a \<Longrightarrow> hUISiteUpdate a t k f = Inr a' \<Longrightarrow> plan_ok a'"
  using plan_rename by (fastforce simp: hUISiteUpdate_def renameSiteBlades_def Let_def case_prod_beta dest: plan_ok_site_changes(2)
      split: option.splits sum.splits if_splits)

lemma untouched_admin:
  "untouched a (or_stay a (hSettingsSave a t f))" "untouched a (hUINotifySave sent a t f)"
proof -
  have "untouched a (fold (\<lambda>(k, v) a. setSetting a k v) xs a') = untouched a a'" for xs a'
    by (induction xs arbitrary: a') (simp_all add: case_prod_beta)
  thus "untouched a (hUINotifySave sent a t f)" by (simp add: hUINotifySave_def Let_def split: option.split)
  have "hSettingsSave a t f = Panic \<or> hSettingsSave a t f = Value a \<or>
      (\<exists>j. hSettingsSave a t f = Value (logEvent (putConfig a ''global'' j) t [] ''info'' ''configuration changed: global (settings page)''))"
    unfolding hSettingsSave_def Let_def by (cases "configFor a ''global''") (simp_all only: option.case split: if_split, blast+)
  thus "untouched a (or_stay a (hSettingsSave a t f))" by (elim disjE exE) (simp_all only: or_stay_def outcome.case untouched_simps)
qed

lemma plan_admin_pages:
  "plan_ok a \<Longrightarrow> plan_ok (or_keep a (hUISiteCreate a t f))" "plan_ok a \<Longrightarrow> plan_ok (or_keep a (hUISiteUpdate a t k g))"
  "plan_ok a \<Longrightarrow> plan_ok (or_keep a (hUISiteDelete a t k))" "plan_ok a \<Longrightarrow> plan_ok (hUISitePolicy a t k nums)"
  "plan_ok a \<Longrightarrow> plan_ok (hUIBladeForget a t serial)"
  "plan_ok a \<Longrightarrow> plan_ok (fst (or_same (a, False) (hUIRackCreate a t inp)))"
  "plan_ok a \<Longrightarrow> plan_ok (fst (or_same (a, None) (hUIRackUpdate a t k name loc sz st)))"
proof -
  assume a: "plan_ok a"
  show "plan_ok (or_keep a (hUISiteCreate a t f))" using a
    by (auto simp: or_keep_def hUISiteCreate_def Let_def dest: plan_ok_site_changes(1) split: sum.split)
  show "plan_ok (or_keep a (hUISiteUpdate a t k g))" using a plan_hUISiteUpdate
    by (auto simp: or_keep_def split: sum.split)
  show "plan_ok (or_keep a (hUISiteDelete a t k))" using a
    by (auto simp: or_keep_def hUISiteDelete_def dest: plan_ok_site_changes(3) split: sum.split)
  show "plan_ok (hUISitePolicy a t k nums)" using a
    by (simp add: hUISitePolicy_def case_prod_beta plan_ok_setSitePolicy)
  show "plan_ok (hUIBladeForget a t serial)" using a
    by (auto simp: hUIBladeForget_def dest: plan_ok_forget split: sum.split)
  show "plan_ok (fst (or_same (a, False) (hUIRackCreate a t inp)))" using a plan_ok_hUIRackCreate [of a t inp]
    by (cases "hUIRackCreate a t inp") (auto simp: or_same_def)
  show "plan_ok (fst (or_same (a, None) (hUIRackUpdate a t k name loc sz st)))" using a plan_ok_hUIRackUpdate [of a t k name loc sz st]
    by (cases "hUIRackUpdate a t k name loc sz st") (auto simp: or_same_def)
qed

lemma plan_admin_page: "plan_ok a \<Longrightarrow> plan_ok (fst (serve_admin_page w t r (a, q)))"
  by (cases r) (simp_all only: serve_admin_page.simps fst_conv plan_admin_pages plan_image plan_enroll_code plan_ok_hUIRackDelete
      plan_ok_hUIAssign plan_ok_hUIUnassign untouched_plan [OF untouched_admin(1)] untouched_plan [OF untouched_admin(2)])

lemma untouched_accounts: "untouched a (fst (serve_accounts w t p r (a, us)))"
  by (cases r) (simp_all add: hUserCreate_def hUserPassword_def hUserRole_def hUserDisable_def hUserDelete_def acted_def Let_def
      split: sum.split)

lemma plan_tick: "plan_ok (sv_app s) \<Longrightarrow> plan_ok (sv_app (serve_tick w t x s))"
proof (cases x)
  case (THealth mail render)
  assume "plan_ok (sv_app s)"
  thus ?thesis using THealth by (simp add: untouched_plan [OF untouched_health])
next
  case (TLogLine line)
  assume "plan_ok (sv_app s)"
  moreover have "plan_ok (fst (handleLogLine (sv_app s, sv_xids s) t line)) = plan_ok (sv_app s)" by (rule untouched_plan) simp
  ultimately show ?thesis using TLogLine by (simp add: case_prod_beta)
next
  case (TImages op)
  assume "plan_ok (sv_app s)"
  thus ?thesis using TImages plan_image [of t op "sv_app s" "sv_queue s"] by (cases op) (simp_all add: case_prod_beta)
qed (simp_all add: plan_sweep plan_ok_probeStep)

lemma ensure_default_blades: "a_blades (ensureDefaultSite a t nb) = a_blades a" "a_racks (ensureDefaultSite a t nb) = a_racks a"
  by (simp_all add: ensureDefaultSite_def Let_def)

lemma start_blades: "a_blades (sv_app (main f t s)) = a_blades (sv_app s)"
  by (simp add: main_def Let_def discard_orphans_def taken_where_def setSetting_def ensure_default_blades fresh_process_def)

lemma plan_ensure_default:
  assumes "plan_ok a"
  shows "plan_ok (ensureDefaultSite a t nb)"
proof (cases "a_sites a = []")
  case False
  have "plan_ok (a\<lparr>a_sites := upd_where s_local (\<lambda>r. r\<lparr>s_net_base := nb\<rparr>) (a_sites a)\<rparr>)"
    using assms by (auto simp: plan_ok_def schema_ok_def sites_ok_def keys_fresh_def placed_ok_def getRack_def set_upd_where map_upd_where_same)
  thus ?thesis using assms False by (simp add: ensureDefaultSite_def)
next
  case True
  thus ?thesis using assms
    by (auto simp: ensureDefaultSite_def Let_def plan_ok_def schema_ok_def sites_ok_def keys_fresh_def placed_ok_def getRack_def new_site_def)
qed

lemma plan_start: "plan_ok (sv_app s) \<Longrightarrow> plan_ok (sv_app (main f t s))"
proof -
  assume s: "plan_ok (sv_app s)"
  have "untouched a (if nb \<noteq> [] then setSetting (fresh_process l a) x nb else fresh_process l a)" for l a x nb
    by (simp add: untouched_def fresh_process_def setSetting_def)
  note a2 = plan_ensure_default [OF untouched_plan [OF this, THEN iffD2, OF s]]
  have "untouched a (discard_orphans (setSetting a x y) t)" for a x y
    by (simp add: untouched_def discard_orphans_def taken_where_def setSetting_def)
  note a4 = untouched_plan [OF this, THEN iffD2]
  thus ?thesis using a4 [OF a2] by (simp add: main_def Let_def)
qed

lemma plan_serve: "plan_ok (sv_app s) \<Longrightarrow> plan_ok (sv_app (serve w r s))"
proof -
  assume s: "plan_ok (sv_app s)"
  obtain t x where r: "r = (t, x)" by (cases r)
  show ?thesis
  proof (cases x)
    case (Api header y)
    thus ?thesis using s plan_api [OF s, of w t y "sv_queue s"] by (simp add: r case_prod_beta)
  next
    case (RackPage cookie y)
    thus ?thesis using s by (simp add: r plan_rack_page split: prod.split admission.split)
  next
    case (AdminPage cookie y)
    have "plan_ok (fst (serve_admin_page w t y (fst (serve_accounts w t p y (sv_app s, sv_users s)), sv_queue s)))" for p
      by (rule plan_admin_page) (simp add: untouched_plan [OF untouched_accounts] s)
    thus ?thesis using AdminPage s by (simp add: r case_prod_beta split: admission.split)
  qed (simp_all add: r s plan_machine plan_site plan_tick plan_start case_prod_beta)
qed

interpretation plan: kept_by "serve w" "\<lambda>s. plan_ok (sv_app s)" for w
  by unfold_locales (rule plan_serve)

text \<open>The database as the schema creates it, and the server at its first start.\<close>

definition empty_app :: "bool \<Rightarrow> app" where
  "empty_app local = \<lparr>a_settings = [], a_policy = JNull, a_sites = [], a_racks = [], a_blades = [], a_images = [], a_configs = [],
     a_commands = [], a_events = [], a_samples = [], a_site_images = [], a_netboot = [], a_alerts = [], a_next_site = 1, a_next_rack = 1,
     a_next_cmd = 1, a_netCache = Map.empty, a_nameCache = Map.empty, a_hosts = [], a_localDHCP = local, a_logMarks = []\<rparr>"

definition first_start :: "flags \<Rightarrow> instant \<Rightarrow> server" where
  "first_start f t =
     main f t \<lparr>sv_app = empty_app (f_local_dhcp f), sv_users = [], sv_sessions = [], sv_queue = idle_queue, sv_xids = []\<rparr>"

lemma plan_first_start: "plan_ok (sv_app (first_start f t))"
  unfolding first_start_def by (rule plan_start)
    (simp add: empty_app_def plan_ok_def schema_ok_def sites_ok_def racks_ok_def blades_ok_def positions_def keys_fresh_def placed_ok_def)

text \<open>C7. From the first start on, whatever machines, sites, administrators, operators and strangers
  ask for, in whichever order and however the server's own passes and restarts fall between: serial numbers,
  names and the address blocks of a site's BladeRunners stay unique, every blade that has a
  position stands in a BladeRunner that exists, in one of its slots, and no two blades stand in
  the same one.\<close>

theorem plan_sound_forever:
  "let a = sv_app (fold (serve w) rs (first_start f t)) in
     distinct (map b_serial (a_blades a)) \<and> distinct (map s_id (a_sites a)) \<and> distinct (map r_name (a_racks a))
   \<and> distinct (map (\<lambda>r. (r_site_id r, r_ip_offset r)) (a_racks a))
   \<and> distinct (List.map_filter position (a_blades a))
   \<and> set (List.map_filter position (a_blades a)) \<subseteq> {(rid, slot) |rid slot. \<exists>r\<in>set (a_racks a). r_id r = rid \<and> 1 \<le> slot \<and> slot \<le> r_size r}"
proof -
  define a where "a = sv_app (fold (serve w) rs (first_start f t))"
  have p: "plan_ok a" unfolding a_def by (rule plan.kept_fold [OF plan_first_start])
  have pos: "List.map_filter position (a_blades a) = positions (a_blades a)"
    by (simp add: positions_def)
  have "(rid, slot) \<in> {(rid, slot) |rid slot. \<exists>r\<in>set (a_racks a). r_id r = rid \<and> 1 \<le> slot \<and> slot \<le> r_size r}"
    if m: "(rid, slot) \<in> set (positions (a_blades a))" for rid slot
  proof -
    obtain b where "b \<in> set (a_blades a)" "position b = Some (rid, slot)" using m by (auto simp: positions_def List.map_filter_def)
    thus ?thesis using p placed_okD [of a b rid slot] by (auto simp: plan_ok_def getRack_def dest: racks.get_SomeD)
  qed
  thus ?thesis using p unfolding a_def [symmetric] Let_def pos
    by (auto simp: plan_ok_def schema_ok_def sites_ok_def racks_ok_def blades_ok_def)
qed

end
