(* ===== verification/Orders.thy ===== *)
theory Orders
  imports Server
begin

text \<open>
  What is armed for a blade over all requests to the server: one lemma per kind of request says
  that it leaves the order, calls it off or spends it, and the few that can arm one are listed.
  The theorems: who can arm an erase and an installation, and what somebody who holds nothing
  but an operator's session can do at most.
\<close>

section \<open>Who arms what\<close>

lemma intent_sweep: "intent (sweepOffline a t) = intent a"
proof -
  have one: "intent (fst (flip c P st)) = intent (fst st)" for c P st
    by (auto simp: flip_def fun_eq_iff intent_def blades.get_upd_where option.map_comp comp_def intro: option.map_cong split: prod.split)
  have "intent (fst (fold (\<lambda>s st. flip (c s) (P s) st) ss st)) = intent (fst st)" for c P and ss :: "site list" and st
    by (induction ss arbitrary: st) (simp_all add: one)
  thus ?thesis by (simp add: sweepOffline_def case_prod_beta Let_def one)
qed

lemma intent_rename: "intent (fst (rename_loop a t pre k bs n)) = intent a"
proof (induction bs arbitrary: a n)
  case (Cons b bs)
  have "intent (a\<lparr>a_blades := upd_where (\<lambda>r. b_serial r = b_serial b) (\<lambda>r. r\<lparr>b_hostname := want\<rparr>) (a_blades a)\<rparr>) = intent a" for want
    by (auto simp: fun_eq_iff intent_def blades.get_upd_where option.map_comp comp_def intro: option.map_cong)
  thus ?case using Cons by (simp add: Let_def split: option.split)
qed simp

text \<open>Every request but those of the theorems below leaves what is armed, adds an idle blade, takes one
  away, or spends or calls off an order.\<close>

definition calmer :: "install_state option \<Rightarrow> install_state option \<Rightarrow> bool" where
  "calmer x y \<longleftrightarrow> y = x \<or> y = None \<or> y = Some InstallIdle \<or> y = Some InstallDone"

lemma calmer_same: "intent a' = intent a \<Longrightarrow> calmer (intent a k) (intent a' k)"
  by (simp add: calmer_def)

lemma calmer_machine: "calmer (intent a k) (intent (serve_machine w t r a) k)"
proof (cases r)
  case (MEnroll tok serial mac variant)
  have "intent (fst (hEnroll a t tok serial mac variant)) k = intent a k
      \<or> intent (fst (hEnroll a t tok serial mac variant)) k = Some InstallIdle"
    by (cases "get_row (a_blades a) serial")
      (auto simp: hEnroll_def new_blade_def intent_insert intent_upd_blade split: if_splits option.split)
  thus ?thesis using MEnroll by (auto simp: calmer_def)
next
  case (MStatus header serial rp)
  have "intent (fst (or_stay (a, 500) (hBladeStatus a t header serial rp))) = intent a"
  proof -
    have same: "intent (log_changes x t serial cs) = intent x" for x cs by (induction cs arbitrary: x) simp_all
    have sample: "intent (recordSample x t serial m) = intent x" for x m
      by (rule intent_cong) (simp add: recordSample_def Let_def split: option.split)
    show ?thesis
      by (simp add: hBladeStatus_def or_stay_def Let_def same sample intent_upd_blade split: outcome.split option.split json.split)
  qed
  thus ?thesis using MStatus by (simp add: calmer_same)
next
  case (MCommands header serial)
  have "untouched a (fst (hBladeCommands a t header serial))" by (simp add: hBladeCommands_def Let_def)
  thus ?thesis using MCommands by (simp add: untouched_intent calmer_same)
qed (auto simp: intent_provision intent_status calmer_def)

lemma intent_rows:
  "a_blades a' = upd_where P f (a_blades a) \<Longrightarrow> (\<And>b. b_serial (f b) = b_serial b) \<Longrightarrow> (\<And>b. b_install_state (f b) = b_install_state b) \<Longrightarrow>
   intent a' = intent a"
  by (auto simp: fun_eq_iff intent_def blades.get_upd_where option.map_comp comp_def intro: option.map_cong)

lemma blades_site: "a_blades (serve_site w t r a) = a_blades a"
proof (cases r)
  case (SEvents header k es)
  have "untouched a (fold (take_event k t) es a)" by (simp add: untouched_events)
  thus ?thesis using SEvents by (simp add: hSiteEvents_def touchSite_def untouched_def)
next
  case (SStatus header k hb)
  have "a_blades (recordSiteImages x t k ins) = a_blades x" for x ins by (simp add: recordSiteImages_def Let_def)
  thus ?thesis using SStatus
    by (simp add: hSiteStatus_def recordSiteTrouble_def recordSiteSelf_def touchSite_def Let_def split: option.split)
qed (simp_all add: hSiteDesired_def hSiteEnroll_def clearEnrollCode_def upd_site_def touchSite_def Let_def split: option.split)

lemma intent_place: "placeBlade a serial rid s = Inr a' \<Longrightarrow> intent a' = intent a"
  by (auto simp: placeBlade_def put_in_def take_out_def intro!: intent_rows split: option.splits sum.splits if_splits)

lemma intent_racks:
  "updateRack a k name loc sz = Inr a' \<Longrightarrow> intent a' = intent a"
  "moveRack a k sid = Some (Inr a') \<Longrightarrow> intent a' = intent a"
  by (rule intent_cong, auto dest: updateRack_Inr moveRack_Inr)+

lemma blades_caches [simp]:
  "a_blades (snd (siteNetBase a k)) = a_blades a" "a_blades (snd (siteName a k)) = a_blades a" "a_blades (sync a t) = a_blades a"
  by (simp_all add: siteNetBase_def siteName_def keep Let_def split: option.split)

lemma blades_sync: "syncDHCP a t = (a', r) \<Longrightarrow> a_blades a' = a_blades a"
  using blades_caches(3) [of a t] by (simp add: sync_def)

lemma blades_moved: "moveRack a k sid = Some (Inr a') \<Longrightarrow> a_blades a' = a_blades a"
  by (auto dest!: moveRack_Inr)

lemma blades_updated: "updateRack a k name loc sz = Inr a' \<Longrightarrow> a_blades a' = a_blades a"
  by (auto dest!: updateRack_Inr)

lemma blades_insert_rack: "insert_rack a t sid name sz off loc = Some (a', k) \<Longrightarrow> a_blades a' = a_blades a"
  by (auto simp: insert_rack_def Let_def split: if_splits)

lemma blades_rack_handlers:
  "hRacksCreate a t inp = Some (a1, c) \<Longrightarrow> a_blades a1 = a_blades a"
  "hUIRackCreate a t inp = Some (a2, ok) \<Longrightarrow> a_blades a2 = a_blades a"
  "hUIRackUpdate a t k name loc sz st = Some (a3, e) \<Longrightarrow> a_blades a3 = a_blades a"
  "a_blades (fst (hRackUpdate a t k name loc sz)) = a_blades a" "a_blades (fst (hRackDelete a t k)) = a_blades a"
  "a_blades (fst (hUIRackDelete a t k)) = a_blades a"
proof -
  show "hRacksCreate a t inp = Some (a1, c) \<Longrightarrow> a_blades a1 = a_blades a"
    by (auto simp: hRacksCreate_def dest!: blades_insert_rack split: if_splits option.splits sum.splits)
  show "hUIRackCreate a t inp = Some (a2, ok) \<Longrightarrow> a_blades a2 = a_blades a"
    using blades_caches(1) [of a] by (auto simp: hUIRackCreate_def case_prod_beta Let_def dest!: blades_insert_rack split: if_splits option.splits sum.splits)
  show "hUIRackUpdate a t k name loc sz st = Some (a3, e) \<Longrightarrow> a_blades a3 = a_blades a"
    by (auto simp: hUIRackUpdate_def Let_def dest!: blades_updated blades_moved blades_sync split: if_splits option.splits sum.splits prod.splits)
  show "a_blades (fst (hRackUpdate a t k name loc sz)) = a_blades a"
    by (auto simp: hRackUpdate_def Let_def dest!: blades_updated split: sum.split)
qed (simp_all add: hRackDelete_def hUIRackDelete_def split: option.split)

lemma blades_site_handlers:
  "a_blades (fst (hSiteCreate a t st)) = a_blades a" "a_blades (fst (hSiteUpdate a t k st)) = a_blades a"
  "a_blades (fst (hSiteDelete a t k)) = a_blades a" "a_blades (fst (hSiteToken a t tok k)) = a_blades a"
  "a_blades (hSitePolicyPut a t k p) = a_blades a" "a_blades (hUISitePolicy a t k nums) = a_blades a"
  "a_blades (hUISiteEnroll a t bytes k) = a_blades a"
  by (auto simp: hSiteCreate_def hSiteUpdate_def hSiteDelete_def hSiteToken_def hSitePolicyPut_def hUISitePolicy_def hUISiteEnroll_def
      makeEnrollCode_def setSitePolicy_def upd_site_def case_prod_beta Let_def
      dest: createSite_Inr(5) updateSite_Inr(4) deleteSite_Inr(3) split: sum.split option.split)

lemma untouched_image: "untouched a (fst (image_do t op (a, q)))"
proof (cases op)
  case (Fetch req)
  thus ?thesis by (auto dest!: start_Inr split: sum.split)
qed (auto simp: removeImage_def hImagesCreate_def work_begin_def work_end_def setImageState_def Let_def
      split: sum.split phase.split option.split)

lemma intent_image: "intent (fst (image_do t op (a, q))) = intent a"
  by (rule untouched_intent [OF untouched_image])

lemma intent_hBladeUpdate: "intent (fst (hBladeUpdate a t serial inp)) = intent a"
  by (auto simp: hBladeUpdate_def api_row_def case_prod_beta Let_def intro!: intent_rows split: option.split)

lemma intent_forget: "forgetBlade a t serial = Inr a' \<Longrightarrow> calmer (intent a k) (intent a' k)"
  by (auto simp: forgetBlade_def calmer_def intent_def keep blades.get_del split: option.splits if_splits)

lemma serial_choose: "serial_of_mac (upd_session a (\<lambda>n. n_mac n = mac) (\<lambda>n. n\<lparr>n_image := im\<rparr>)) mac = serial_of_mac a mac"
  by (simp add: serial_of_mac_def upd_session_def sessions.get_upd split: option.split)

lemma intent_choose:
  "intent (chooseImage a t mac im) k = intent a k \<or>
     intent (chooseImage a t mac im) k = Some InstallPending \<and> serial_of_mac a (normMAC mac) = k \<and> k \<noteq> []"
proof -
  define a1 where "a1 = upd_session a (\<lambda>n. n_mac n = normMAC mac) (\<lambda>n. n\<lparr>n_image := im\<rparr>)"
  have b: "a_blades a1 = a_blades a" and s: "serial_of_mac a1 (normMAC mac) = serial_of_mac a (normMAC mac)"
    unfolding a1_def by (simp add: upd_session_def) (rule serial_choose)
  have "intent (a1\<lparr>a_blades := upd_where (\<lambda>b. b_serial b = x) (\<lambda>b. b\<lparr>b_image := im, b_install_state := InstallPending\<rparr>) (a_blades a1)\<rparr>) k
      = (if k = x then map_option (\<lambda>_. InstallPending) (intent a k) else intent a k)" for x
    using intent_set [of "\<lambda>b. b\<lparr>b_image := im, b_install_state := InstallPending\<rparr>" InstallPending a1 x k]
    by (simp add: upd_blade_def intent_def b)
  moreover have "intent a1 = intent a" using b by (rule intent_cong)
  ultimately show ?thesis
    by (cases "intent a k") (auto simp: chooseImage_def Let_def a1_def [symmetric] s)
qed

lemma calmer_or_keep: "calmer x x" "(\<And>a'. r = Inr a' \<Longrightarrow> calmer (intent a k) (intent a' k)) \<Longrightarrow> calmer (intent a k) (intent (or_keep a r) k)"
  by (auto simp: calmer_def or_keep_def split: sum.split)

lemma intent_or_keep: "(\<And>a'. r = Inr a' \<Longrightarrow> intent a' = intent a) \<Longrightarrow> intent (or_keep a r) = intent a"
  by (simp add: or_keep_def split: sum.split)

lemma calmer_admin_page: "calmer (intent a k) (intent (fst (serve_admin_page w t r (a, q))) k)"
proof (cases r)
  case (PSiteCreate f)
  have "intent a' = intent a" if "hUISiteCreate a t f = Inr a'" for a'
    using that by (intro intent_cong) (auto simp: hUISiteCreate_def Let_def dest: createSite_Inr(5) split: sum.splits)
  thus ?thesis using PSiteCreate by (simp add: calmer_same intent_or_keep)
next
  case (PSiteUpdate j f)
  have "intent a' = intent a" if u: "hUISiteUpdate a t j f = Inr a'" for a'
  proof -
    obtain old a1 where a1: "getSite a j = Some old" "updateSite a j (f old) = Inr a1"
      using u by (auto simp: hUISiteUpdate_def Let_def split: option.splits sum.splits)
    have "intent a1 = intent a" using updateSite_Inr(4) [OF a1(2)] by (rule intent_cong)
    thus ?thesis using u a1 intent_rename [of a1 t "hostPrefix a1 j" j "listBlades a1" 0]
      by (auto simp: hUISiteUpdate_def renameSiteBlades_def case_prod_beta Let_def split: if_splits)
  qed
  thus ?thesis using PSiteUpdate by (simp add: calmer_same intent_or_keep)
next
  case (PSiteDelete j)
  have "intent a' = intent a" if "hUISiteDelete a t j = Inr a'" for a'
    using that by (intro intent_cong) (auto simp: hUISiteDelete_def dest: deleteSite_Inr(3) split: sum.splits)
  thus ?thesis using PSiteDelete by (simp add: calmer_same intent_or_keep)
next
  case (PForget serial)
  have "hUIBladeForget a t serial = or_keep a (forgetBlade a t serial)" by (simp add: hUIBladeForget_def or_keep_def)
  thus ?thesis using PForget calmer_or_keep(2) [of "forgetBlade a t serial" a k] intent_forget by simp
next
  case (PRackCreate inp)
  have "intent (fst (or_same (a, False) (hUIRackCreate a t inp))) = intent a"
    by (rule intent_cong) (cases "hUIRackCreate a t inp"; auto simp: or_same_def dest: blades_rack_handlers(2))
  thus ?thesis using PRackCreate by (simp add: calmer_same)
next
  case (PRackUpdate j name loc sz st)
  have "intent (fst (or_same (a, None) (hUIRackUpdate a t j name loc sz st))) = intent a"
    by (rule intent_cong) (cases "hUIRackUpdate a t j name loc sz st"; auto simp: or_same_def dest: blades_rack_handlers(3))
  thus ?thesis using PRackUpdate by (simp add: calmer_same)
next
  case (PAssign rid slot serial)
  have "intent (fst (hUIAssign a t rid slot serial)) = intent a"
    by (auto simp: hUIAssign_def intent_cong [OF blades_sync] dest!: intent_place split: sum.split prod.split)
  thus ?thesis using PAssign by (simp add: calmer_same)
next
  case (PUnassign serial)
  have "intent (fst (hUIUnassign a t serial)) = intent a"
    by (auto simp: hUIUnassign_def dest!: intent_place split: sum.split option.split)
  thus ?thesis using PUnassign by (simp add: calmer_same)
next
  case (PSettings f)
  thus ?thesis using untouched_intent [OF untouched_admin(1)] by (simp add: calmer_same)
next
  case (PNotify sent f)
  thus ?thesis using untouched_intent [OF untouched_admin(2)] by (simp add: calmer_same)
qed (simp_all only: serve_admin_page.simps fst_conv intent_image calmer_or_keep(1) blades_rack_handlers [THEN intent_cong]
    blades_site_handlers [THEN intent_cong])

lemma calmer_reset: "resetBlade a t serial = Inr a' \<Longrightarrow> calmer (intent a k) (intent a' k)"
  by (simp add: intent_reset calmer_def)

lemma calmer_cancel: "cancelInstall a t serial = Inr a' \<Longrightarrow> calmer (intent a k) (intent a' k)"
  by (simp add: intent_cancel calmer_def)

lemma fst_of_result: "fst (of_result a r n) = or_keep a r"
  by (simp add: of_result_def or_keep_def split: sum.split)

lemma intent_request:
  "intent (fst (requestInstall head_of a t serial)) k = intent a k
   \<or> intent (fst (requestInstall head_of a t serial)) k = Some InstallPending \<and> k = serial"
  by (cases "get_row (a_blades a) k") (auto simp: intent_requestInstall intent_def [of a])

lemma calmer_if: "(c \<Longrightarrow> calmer x (intent p k)) \<Longrightarrow> (\<not> c \<Longrightarrow> calmer x (intent q k)) \<Longrightarrow> calmer x (intent (if c then p else q) k)"
  by simp

lemma calmer_actions:
  "calmer (intent a k) (intent (or_keep a (resetBlade a t serial)) k)"
  "calmer (intent a k) (intent (or_keep a (requestProbe a t serial)) k)"
  "calmer (intent a k) (intent (or_keep a (cancelInstall a t serial)) k)"
  "calmer (intent a k) (intent (requestShutdown a t serial) k)"
  "calmer (intent a k) (intent (queueCommand a t serial kind) k)"
proof -
  show "calmer (intent a k) (intent (or_keep a (requestProbe a t serial)) k)"
    by (rule calmer_or_keep(2)) (rule calmer_same [OF intent_probe])
  show "calmer (intent a k) (intent (requestShutdown a t serial) k)" by (rule calmer_same [OF intent_shutdown])
  show "calmer (intent a k) (intent (queueCommand a t serial kind) k)" by (rule calmer_same) simp
qed (rule calmer_or_keep(2), erule calmer_reset, rule calmer_or_keep(2), erule calmer_cancel)

lemma action_api:
  "calmer (intent a k) (intent (fst (hBladeAction head_of a t serial kind)) k)
   \<or> kind = ''reimage'' \<and> serial = k \<and> intent (fst (hBladeAction head_of a t serial kind)) k = Some InstallPending"
proof (cases "kind = ''reimage''")
  case True
  have in_kinds: "''reimage'' \<in> set action_kinds" by (simp add: action_kinds_def)
  have ne: "''reimage'' \<noteq> ''reset''" "''reimage'' \<noteq> ''shutdown''" "''reimage'' \<noteq> ''probe''" "''reimage'' \<noteq> ''cancel''" by simp_all
  have "fst (hBladeAction head_of a t serial kind) = a \<or>
      intent (fst (hBladeAction head_of a t serial kind)) = intent (fst (requestInstall head_of a t serial))"
    unfolding hBladeAction_def True using in_kinds ne
    by (cases "getBlade a serial"; cases "requestInstall head_of a t serial"; cases "snd (requestInstall head_of a t serial)") simp_all
  thus ?thesis using intent_request [of head_of a t serial k] True by (auto simp: calmer_def)
next
  case False
  have "calmer (intent a k) (intent (fst (hBladeAction head_of a t serial kind)) k)"
    unfolding hBladeAction_def if_distrib [of fst] fst_conv fst_of_result
    by (intro calmer_if) (simp_all only: calmer_actions calmer_or_keep(1) False)
  thus ?thesis ..
qed

lemma action_page:
  "calmer (intent a k) (intent (hUIBladeAction head_of a t p serial kind f) k)
   \<or> kind = ''reimage'' \<and> mayDo (w_role p) kind \<and> serial = k \<and> intent (hUIBladeAction head_of a t p serial kind f) k = Some InstallPending
   \<or> kind = ''wipe'' \<and> mayDo (w_role p) kind \<and> serial = k \<and> intent (hUIBladeAction head_of a t p serial kind f) k = Some InstallWipe
     \<and> (\<exists>b. getBlade a k = Some b \<and> \<not> p_no_wipe (sitePolicy a (v_site_id b)) \<and> trim_space (f ''confirm'') = b_hostname b)"
proof (cases "getBlade a serial")
  case None
  thus ?thesis by (simp add: hUIBladeAction_def calmer_def)
next
  case (Some b)
  consider "kind = ''reimage''" | "kind = ''wipe''" | "kind \<noteq> ''reimage''" "kind \<noteq> ''wipe''" by blast
  thus ?thesis
  proof cases
    case 1
    have in_kinds: "''reimage'' \<in> set action_kinds" by (simp add: action_kinds_def)
    have ne: "''reimage'' \<noteq> ''reset''" "''reimage'' \<noteq> ''shutdown''" "''reimage'' \<noteq> ''probe''" "''reimage'' \<noteq> ''cancel''" "''reimage'' \<noteq> ''wipe''" by simp_all
    have act: "intent (logActed x t u s l m) = intent x" for x u s l m by (rule untouched_intent) simp
    have "hUIBladeAction head_of a t p serial kind f = a \<or> mayDo (w_role p) kind
        \<and> intent (hUIBladeAction head_of a t p serial kind f) = intent (fst (requestInstall head_of a t serial))"
      unfolding hUIBladeAction_def 1 Some option.case using in_kinds ne act
      by (cases "requestInstall head_of a t serial"; cases "snd (requestInstall head_of a t serial)") simp_all
    thus ?thesis using intent_request [of head_of a t serial k] 1 by (auto simp: calmer_def)
  next
    case 2
    show ?thesis
    proof (cases "mayDo (w_role p) kind \<and> \<not> p_no_wipe (sitePolicy a (v_site_id b)) \<and> trim_space (f ''confirm'') = b_hostname b")
      case True
      show ?thesis
      proof (cases "requestWipe a serial")
        case (Inl e)
        thus ?thesis using 2 Some True by (simp add: hUIBladeAction_def hUIBladeWipe_def calmer_def)
      next
        case (Inr a1)
        have same: "intent (fst (syncDHCP a1 t)) = intent a1" using intent_frame(2) [of a1 t] by (simp add: sync_def)
        have "intent (hUIBladeAction head_of a t p serial kind f) = intent a1"
          using 2 Some True Inr same by (cases "syncDHCP a1 t"; cases "snd (syncDHCP a1 t)") (simp_all add: hUIBladeAction_def hUIBladeWipe_def)
        thus ?thesis using intent_requestWipe [OF Inr, of k] 2 Some True by (simp add: calmer_def)
      qed
    next
      case False
      thus ?thesis using 2 Some by (auto simp: hUIBladeAction_def hUIBladeWipe_def calmer_def)
    qed
  next
    case 3
    have act: "intent (logActed x t u s l m) = intent x" "intent (insert_command x t s kk) = intent x" for x u s l m kk
      by (rule untouched_intent, simp)+
    have "calmer (intent a k) (intent (hUIBladeAction head_of a t p serial kind f) k)"
      unfolding hUIBladeAction_def Some option.case or_keep_def [symmetric] using 3
      by (intro calmer_if) (simp_all only: calmer_actions calmer_or_keep(1) act)
    thus ?thesis ..
  qed
qed

lemma intent_or_same: "(\<And>a' x. r = Some (a', x) \<Longrightarrow> intent a' = intent a) \<Longrightarrow> intent (fst (or_same (a, c) r)) = intent a"
  by (cases r) (auto simp: or_same_def)

lemma step_api:
  "calmer (intent a k) (intent (fst (serve_api w t r (a, q))) k)
   \<or> intent (fst (serve_api w t r (a, q))) k = Some InstallPending
     \<and> (r = ABladeAction k ''reimage'' \<or> (\<exists>mac im. r = ANetbootImage mac im \<and> serial_of_mac a (normMAC mac) = k))"
proof (cases r)
  case (ABladeAction serial kind)
  thus ?thesis using action_api [of a k "w_heads w" t serial kind] by auto
next
  case (ANetbootImage mac im)
  thus ?thesis using intent_choose [of a t mac im k] by (auto simp: hNetbootImage_def calmer_def)
next
  case (ARackCreate inp)
  have "intent (fst (or_same (a, 500) (hRacksCreate a t inp))) = intent a"
    by (rule intent_or_same) (rule intent_cong, erule blades_rack_handlers(1))
  thus ?thesis using ARackCreate by (simp add: calmer_same)
next
  case (ABladeDelete serial)
  thus ?thesis using calmer_or_keep(2) [of "forgetBlade a t serial" a k] intent_forget
    by (simp add: hBladeDelete_def fst_of_result)
next
  case (AConfigPut scope body)
  have "untouched a (fst (hConfigPut a t scope body))" by (simp add: hConfigPut_def split: json.split)
  thus ?thesis using AConfigPut by (simp add: untouched_intent calmer_same)
next
  case (AConfigPatch scope body)
  have "untouched a (fst (or_stay (a, 500) (hConfigPatch a t scope body)))"
    by (simp add: hConfigPatch_def or_stay_def split: json.split option.split)
  thus ?thesis using AConfigPatch by (simp add: untouched_intent calmer_same)
next
  case (APolicy p)
  have "untouched a (hPolicyPut a t p)" by (simp add: hPolicyPut_def setGlobalPolicy_def)
  thus ?thesis using APolicy by (simp add: untouched_intent calmer_same)
qed (simp_all only: serve_api.simps fst_conv intent_image calmer_or_keep(1) intent_hBladeUpdate intent_frame simp_thms
    blades_rack_handlers [THEN intent_cong] blades_site_handlers [THEN intent_cong])

lemma step_rack_page:
  "calmer (intent a k) (intent (serve_rack_page w t p r a) k)
   \<or> intent (serve_rack_page w t p r a) k = Some InstallPending
     \<and> ((\<exists>f. r = PAction k ''reimage'' f \<and> mayDo (w_role p) ''reimage'') \<or> (\<exists>mac f. r = PNetbootImage mac f \<and> serial_of_mac a (normMAC mac) = k))
   \<or> intent (serve_rack_page w t p r a) k = Some InstallWipe
     \<and> (\<exists>f b. r = PAction k ''wipe'' f \<and> mayDo (w_role p) ''wipe'' \<and> getBlade a k = Some b
          \<and> \<not> p_no_wipe (sitePolicy a (v_site_id b)) \<and> trim_space (f ''confirm'') = b_hostname b)"
proof (cases r)
  case (PAction serial kind f)
  thus ?thesis using action_page [of a k "w_heads w" t p serial kind f] by auto
next
  case (PTarget serial f)
  thus ?thesis using untouched_intent [OF untouched_target] by (simp add: calmer_same)
next
  case (PImage serial im)
  have "intent (fst (hUIBladeImage (w_heads w) a serial im)) = intent a"
    by (auto simp: hUIBladeImage_def Let_def upd_blade_def checkTarget_frame intro!: intent_rows split: option.split)
  thus ?thesis using PImage by (simp add: calmer_same)
next
  case (PNetbootImage mac f)
  thus ?thesis using intent_choose [of a t mac "f ''image''" k] by (auto simp: hUINetbootImage_def calmer_def)
qed

lemma step_tick: "intent (sv_app (serve_tick w t x s)) = intent (sv_app s)"
proof (cases x)
  case (TImages op)
  thus ?thesis using intent_image [of t op "sv_app s" "sv_queue s"] by (cases op) (simp_all add: case_prod_beta)
next
  case (TLogLine line)
  have "intent (fst (handleLogLine (sv_app s, sv_xids s) t line)) = intent (sv_app s)" by (rule untouched_intent) simp
  thus ?thesis using TLogLine by (simp add: case_prod_beta)
qed (simp_all add: intent_sweep intent_probeStep untouched_intent [OF untouched_health])

text \<open>A request that arms an order for a blade, and what it takes.\<close>

definition may_arm :: "world \<Rightarrow> server \<Rightarrow> instant \<Rightarrow> request \<Rightarrow> string \<Rightarrow> install_state \<Rightarrow> bool" where
  "may_arm w s t r k x \<longleftrightarrow>
     (\<exists>header q. r = Api header q \<and> requireAdmin (w_adminToken w) header \<and> x = InstallPending
        \<and> (q = ABladeAction k ''reimage'' \<or> (\<exists>mac im. q = ANetbootImage mac im \<and> serial_of_mac (sv_app s) (normMAC mac) = k)))
   \<or> (\<exists>cookie q p. r = RackPage cookie q \<and> snd (caller (w_adminToken w) (sv_sessions s) t cookie) = Some p
        \<and> (x = InstallPending \<and> ((\<exists>f. q = PAction k ''reimage'' f \<and> mayDo (w_role p) ''reimage'')
              \<or> (\<exists>mac f. q = PNetbootImage mac f \<and> serial_of_mac (sv_app s) (normMAC mac) = k))
         \<or> x = InstallWipe \<and> (\<exists>f b. q = PAction k ''wipe'' f \<and> w_role p = roleAdmin \<and> getBlade (sv_app s) k = Some b
              \<and> \<not> p_no_wipe (sitePolicy (sv_app s) (v_site_id b)) \<and> trim_space (f ''confirm'') = b_hostname b)))"

lemma mayDo_wipe: "mayDo r ''wipe'' \<longleftrightarrow> r = roleAdmin"
  by (auto simp: mayDo_iff rack_actions_def)

lemma step_serve:
  "calmer (intent (sv_app s) k) (intent (sv_app (serve w (t, r) s)) k)
   \<or> (\<exists>x. intent (sv_app (serve w (t, r) s)) k = Some x \<and> may_arm w s t r k x)"
proof (cases r)
  case (Machine m)
  thus ?thesis using calmer_machine [of "sv_app s" k w t m] by simp
next
  case (FromSite m)
  thus ?thesis using intent_cong [OF blades_site, of w t m "sv_app s"] by (simp add: calmer_def)
next
  case (Api header q)
  thus ?thesis using step_api [of "sv_app s" k w t q "sv_queue s"] by (auto simp: may_arm_def calmer_def case_prod_beta)
next
  case (RackPage cookie q)
  show ?thesis
  proof (cases "snd (requireRole roleOperator (w_adminToken w) (sv_sessions s) t cookie)")
    case (Through p)
    hence c: "snd (caller (w_adminToken w) (sv_sessions s) t cookie) = Some p"
      by (auto simp: requireRole_def split: prod.splits option.splits if_splits)
    have "sv_app (serve w (t, r) s) = serve_rack_page w t p q (sv_app s)"
      using RackPage Through by (simp add: case_prod_beta)
    thus ?thesis using step_rack_page [of "sv_app s" k w t p q] c unfolding may_arm_def RackPage mayDo_wipe by fastforce
  qed (use RackPage in \<open>simp_all add: calmer_def case_prod_beta\<close>)
next
  case (AdminPage cookie q)
  have "calmer (intent (sv_app s) k) (intent (fst (serve_admin_page w t q (fst (serve_accounts w t p q (sv_app s, sv_users s)), sv_queue s))) k)" for p
    using calmer_admin_page [of "fst (serve_accounts w t p q (sv_app s, sv_users s))" k w t q "sv_queue s"]
    by (simp add: untouched_intent [OF untouched_accounts])
  thus ?thesis using AdminPage by (simp add: case_prod_beta calmer_or_keep(1) split: admission.split)
next
  case (Restart f)
  thus ?thesis using intent_cong [OF start_blades, of f t s] by (simp add: calmer_def)
qed (simp_all add: step_tick calmer_def case_prod_beta)

text \<open>C4. An erase comes to be armed for a blade in one way only: somebody signed in as administrator
  asks for it on the page of that blade, repeats the blade's name, and neither the site's policy
  nor the installation's forbids erasing. No machine, no site, no operator and no request to the
  management interface can arm one.\<close>

theorem erase_armed_only_by_administrator:
  assumes "intent (sv_app (serve w (t, r) s)) k = Some InstallWipe" and "intent (sv_app s) k \<noteq> Some InstallWipe"
  shows "\<exists>cookie f p b. r = RackPage cookie (PAction k ''wipe'' f)
     \<and> snd (caller (w_adminToken w) (sv_sessions s) t cookie) = Some p \<and> w_role p = roleAdmin
     \<and> getBlade (sv_app s) k = Some b \<and> \<not> p_no_wipe (sitePolicy (sv_app s) (v_site_id b)) \<and> trim_space (f ''confirm'') = b_hostname b"
  using step_serve [of s k w t r] assms by (auto simp: calmer_def may_arm_def)

text \<open>C5. An installation comes to be armed for a blade only when somebody with the admin token or
  signed in asks to reinstall that very blade, or chooses an image for the machine that netboots
  as that blade. Nothing a machine or a site reports arms one.\<close>

theorem install_armed_only_on_request:
  assumes "intent (sv_app (serve w (t, r) s)) k = Some InstallPending" and "intent (sv_app s) k \<noteq> Some InstallPending"
  shows "(\<exists>header q. r = Api header q \<and> requireAdmin (w_adminToken w) header
        \<and> (q = ABladeAction k ''reimage'' \<or> (\<exists>mac im. q = ANetbootImage mac im \<and> serial_of_mac (sv_app s) (normMAC mac) = k)))
   \<or> (\<exists>cookie q p. r = RackPage cookie q \<and> snd (caller (w_adminToken w) (sv_sessions s) t cookie) = Some p
        \<and> ((\<exists>f. q = PAction k ''reimage'' f \<and> mayDo (w_role p) ''reimage'')
            \<or> (\<exists>mac f. q = PNetbootImage mac f \<and> serial_of_mac (sv_app s) (normMAC mac) = k)))"
  using step_serve [of s k w t r] assms by (auto simp: calmer_def may_arm_def)

section \<open>What an operator can do at most\<close>

text \<open>Everything that says what the fleet is: sites, BladeRunners, settings, the installation's policy,
  the blades and images there are.\<close>

definition same_fleet :: "app \<Rightarrow> app \<Rightarrow> bool" where
  "same_fleet a a' \<longleftrightarrow> a_sites a' = a_sites a \<and> a_racks a' = a_racks a \<and> a_settings a' = a_settings a \<and> a_policy a' = a_policy a
     \<and> map b_serial (a_blades a') = map b_serial (a_blades a) \<and> map i_id (a_images a') = map i_id (a_images a)"

lemma fleet_trans: "same_fleet a b \<Longrightarrow> same_fleet b c \<Longrightarrow> same_fleet a c"
  by (simp add: same_fleet_def)

lemma fleet_simps [simp]:
  "same_fleet a a" "same_fleet a (logEvent a' t s l m) = same_fleet a a'" "same_fleet a (logActed a' t u s l m) = same_fleet a a'"
  "same_fleet a (sync a' t) = same_fleet a a'" "same_fleet a (queueCommand a' t s k) = same_fleet a a'"
  "same_fleet a (insert_command a' t s k) = same_fleet a a'" "same_fleet a (taken_where a' P x) = same_fleet a a'"
  "same_fleet a (upd_session a' Q f) = same_fleet a a'" "same_fleet a (putConfig a' sc body) = same_fleet a a'"
  "same_fleet a (clearAlert a' z) = same_fleet a a'" "same_fleet a (a'\<lparr>a_configs := cf\<rparr>) = same_fleet a a'"
  by (auto simp: same_fleet_def keep logActed_def insert_command_def taken_where_def queueCommand_def upd_session_def putConfig_def
      clearAlert_def Let_def)

lemma fleet_blades:
  "(\<And>b. b_serial (f b) = b_serial b) \<Longrightarrow> same_fleet a (a'\<lparr>a_blades := upd_where P f (a_blades a')\<rparr>) = same_fleet a a'"
  "(\<And>b. b_serial (f b) = b_serial b) \<Longrightarrow> same_fleet a (upd_blade a' s f) = same_fleet a a'"
  by (simp_all add: same_fleet_def upd_blade_def map_upd_where_same)

lemma fleet_checkTarget [simp]: "same_fleet a (fst (checkTarget head_of a' b)) = same_fleet a a'"
proof -
  have "map i_id (a_images (fst (checkTarget head_of a' b))) = map i_id (a_images a')"
    "a_policy (fst (checkTarget head_of a' b)) = a_policy a'"
    by (simp_all add: checkTarget_def imageTable_def Let_def map_upd_where_same split: option.split)
  thus ?thesis by (simp add: same_fleet_def checkTarget_frame)
qed

lemma fleet_sync: "same_fleet a (fst (syncDHCP a' t)) = same_fleet a a'"
  using fleet_simps(4) [of a a' t] by (simp add: sync_def)

lemma fleet_requests:
  "same_fleet a (or_keep a (resetBlade a t serial))" "same_fleet a (or_keep a (requestProbe a t serial))"
  "same_fleet a (or_keep a (cancelInstall a t serial))" "same_fleet a (requestShutdown a t serial)"
  "same_fleet a (fst (requestInstall head_of a t serial))" "same_fleet a (chooseImage a t mac im)"
proof -
  show "same_fleet a (fst (requestInstall head_of a t serial))"
    by (cases "getBlade a serial") (auto simp: requestInstall_def Let_def case_prod_beta fleet_blades split: option.split)
qed (auto simp: or_keep_def resetBlade_def requestProbe_def cancelInstall_def requestShutdown_def chooseImage_def put_aside_def Let_def
      fleet_blades split: sum.split option.splits if_splits)

lemma fleet_action:
  assumes "w_role p \<noteq> roleAdmin"
  shows "same_fleet a (hUIBladeAction head_of a t p serial kind f)"
proof (cases "getBlade a serial")
  case (Some b)
  have w: "mayDo (w_role p) ''wipe'' = False" using assms mayDo_wipe by blast
  have "same_fleet a (case requestInstall head_of a t serial of (a1, Some e) \<Rightarrow> a1 | (a1, None) \<Rightarrow> logActed a1 t u serial l m)" for u l m
    using fleet_requests(5) [of a head_of t serial] by (auto split: prod.split option.split)
  thus ?thesis unfolding hUIBladeAction_def Some option.case or_keep_def [symmetric]
    by (intro if_either [where P = "same_fleet a"]) (use w in \<open>simp_all only: fleet_simps fleet_requests simp_thms\<close>)
qed (simp add: hUIBladeAction_def)

lemma fleet_rack_page:
  assumes "w_role p \<noteq> roleAdmin"
  shows "same_fleet a (serve_rack_page w t p r a)"
proof (cases r)
  case (PImage serial im)
  have one: "same_fleet a (upd_blade a serial (\<lambda>b. b\<lparr>b_image := im\<rparr>))" by (simp add: fleet_blades)
  thus ?thesis using PImage by (auto simp: hUIBladeImage_def Let_def split: option.split)
next
  case (PTarget serial f)
  have "hUIBladeTarget (w_heads w) a t serial f = Panic \<or> (\<exists>a'. hUIBladeTarget (w_heads w) a t serial f = Value a' \<and> same_fleet a a')"
    by (auto simp: hUIBladeTarget_def Let_def split: option.split)
  thus ?thesis using PTarget by (auto simp: or_stay_def)
qed (simp_all add: fleet_action [OF assms] hUINetbootImage_def fleet_requests)

text \<open>The requests of somebody who does not hold the admin token and whose sessions are operators'.\<close>

definition operators_only :: "server \<Rightarrow> bool" where
  "operators_only s \<longleftrightarrow> list_all (\<lambda>(sid, p). w_role p = roleOperator) (sv_sessions s)"

fun at_the_desk :: "world \<Rightarrow> request \<Rightarrow> bool" where
  "at_the_desk w (RackPage c q) = True"
| "at_the_desk w (AdminPage c q) = True"
| "at_the_desk w (Logout c) = True"
| "at_the_desk w (Api header q) = (\<not> requireAdmin (w_adminToken w) header)"
| "at_the_desk w _ = False"

lemma caller_operator:
  assumes "w_adminToken w \<noteq> []" and "operators_only s"
  shows "list_all (\<lambda>(sid, p). w_role p = roleOperator) (fst (caller (w_adminToken w) (sv_sessions s) t cookie))"
    and "snd (caller (w_adminToken w) (sv_sessions s) t cookie) = Some p \<Longrightarrow> w_role p = roleOperator"
proof -
  have del: "list_all (\<lambda>(sid, p). w_role p = roleOperator) (AList.delete x (sv_sessions s))" for x
    using assms(2) by (auto simp: operators_only_def list_all_iff AList.delete_eq)
  show "list_all (\<lambda>(sid, p). w_role p = roleOperator) (fst (caller (w_adminToken w) (sv_sessions s) t cookie))"
    using assms del by (auto simp: caller_def lookup_def operators_only_def split: option.split)
  show "snd (caller (w_adminToken w) (sv_sessions s) t cookie) = Some p \<Longrightarrow> w_role p = roleOperator"
    using assms by (auto simp: caller_def lookup_def operators_only_def list_all_iff split: option.splits if_splits dest!: map_of_SomeD)
qed

lemma requireRole_parts:
  "fst (requireRole need tok ss t cookie) = fst (caller tok ss t cookie)"
  "snd (requireRole need tok ss t cookie) = Through p \<Longrightarrow> snd (caller tok ss t cookie) = Some p \<and> atLeast (w_role p) need"
  by (auto simp: requireRole_def split: prod.splits option.splits if_splits)

lemma role_names: "roleOperator \<noteq> roleAdmin"
  by (simp add: roleOperator_def roleAdmin_def)

lemma desk_step:
  assumes "w_adminToken w \<noteq> []" and "operators_only s" and "at_the_desk w r"
  shows "operators_only (serve w (t, r) s) \<and> same_fleet (sv_app s) (sv_app (serve w (t, r) s)) \<and> sv_users (serve w (t, r) s) = sv_users s"
proof (cases r)
  case (RackPage cookie q)
  have o: "operators_only (serve w (t, r) s)"
    using caller_operator(1) [OF assms(1,2)] RackPage
    by (cases "requireRole roleOperator (w_adminToken w) (sv_sessions s) t cookie")
      (use requireRole_parts(1) [of roleOperator "w_adminToken w" "sv_sessions s" t cookie] in
        \<open>auto simp: operators_only_def split: admission.split\<close>)
  have "same_fleet (sv_app s) (sv_app (serve w (t, r) s))"
  proof (cases "snd (requireRole roleOperator (w_adminToken w) (sv_sessions s) t cookie)")
    case (Through p)
    hence "w_role p = roleOperator" using requireRole_parts(2) caller_operator(2) [OF assms(1,2)] by blast
    thus ?thesis using RackPage Through fleet_rack_page role_names by (simp add: case_prod_beta)
  qed (use RackPage in \<open>simp_all add: case_prod_beta\<close>)
  thus ?thesis using o RackPage by (simp add: case_prod_beta split: admission.split)
next
  case (AdminPage cookie q)
  have "snd (requireRole roleAdmin (w_adminToken w) (sv_sessions s) t cookie) \<noteq> Through p" for p
  proof
    assume "snd (requireRole roleAdmin (w_adminToken w) (sv_sessions s) t cookie) = Through p"
    hence "snd (caller (w_adminToken w) (sv_sessions s) t cookie) = Some p" "atLeast (w_role p) roleAdmin"
      using requireRole_parts(2) by blast+
    thus False using caller_operator(2) [OF assms(1,2)] by (auto simp: atLeast_def roleAdmin_def roleOperator_def)
  qed
  hence "serve w (t, r) s = s\<lparr>sv_sessions := fst (caller (w_adminToken w) (sv_sessions s) t cookie)\<rparr>"
    using AdminPage requireRole_parts(1) [of roleAdmin "w_adminToken w" "sv_sessions s" t cookie]
    by (simp add: case_prod_beta split: admission.split)
  thus ?thesis using caller_operator(1) [OF assms(1,2)] by (simp add: operators_only_def)
next
  case (Logout c)
  thus ?thesis using assms(2)
    by (auto simp: operators_only_def hLogout_def drop_session_def list_all_iff AList.delete_eq split: option.split)
qed (use assms in simp_all)

lemma desk_no_erase:
  assumes "w_adminToken w \<noteq> []" and "operators_only s" and "intent (sv_app (serve w (t, r) s)) k = Some InstallWipe"
  shows "intent (sv_app s) k = Some InstallWipe"
proof -
  have "w_role p \<noteq> roleAdmin" if "snd (caller (w_adminToken w) (sv_sessions s) t cookie) = Some p" for p cookie
    using caller_operator(2) [OF assms(1,2) that] role_names by simp
  thus ?thesis using step_serve [of s k w t r] assms(3) by (auto simp: calmer_def may_arm_def)
qed

lemma desk_run:
  assumes "w_adminToken w \<noteq> []" and "operators_only s" and "list_all (at_the_desk w) (map snd rs)"
  shows "operators_only (fold (serve w) rs s) \<and> same_fleet (sv_app s) (sv_app (fold (serve w) rs s))
    \<and> sv_users (fold (serve w) rs s) = sv_users s
    \<and> {k. intent (sv_app (fold (serve w) rs s)) k = Some InstallWipe} \<subseteq> {k. intent (sv_app s) k = Some InstallWipe}"
  using assms(2,3)
proof (induction rs arbitrary: s)
  case (Cons x rs)
  obtain t r where x: "x = (t, r)" by (cases x)
  have d: "operators_only (serve w x s) \<and> same_fleet (sv_app s) (sv_app (serve w x s)) \<and> sv_users (serve w x s) = sv_users s"
    using desk_step [OF assms(1) Cons.prems(1), of r t] Cons.prems(2) x by simp
  have "{k. intent (sv_app (serve w x s)) k = Some InstallWipe} \<subseteq> {k. intent (sv_app s) k = Some InstallWipe}"
    using desk_no_erase [OF assms(1) Cons.prems(1), of t r] x by blast
  thus ?case using Cons.IH [of "serve w x s"] d Cons.prems(2) by (auto intro: fleet_trans)
qed simp

text \<open>C16. On a server with an admin token, somebody who holds only operators' sessions and not that
  token, whatever they send to the pages and to the management interface and in whichever order,
  changes no account, no site, no BladeRunner, no setting and no policy of the installation, adds
  and removes no blade and no image, and arms no erase.\<close>

theorem operator_limits:
  assumes "w_adminToken w \<noteq> []" and "operators_only s" and "list_all (at_the_desk w) (map snd rs)"
  shows "let s' = fold (serve w) rs s; a = sv_app s; a' = sv_app s' in
     sv_users s' = sv_users s \<and> a_sites a' = a_sites a \<and> a_racks a' = a_racks a \<and> a_settings a' = a_settings a \<and> a_policy a' = a_policy a
     \<and> map b_serial (a_blades a') = map b_serial (a_blades a) \<and> map i_id (a_images a') = map i_id (a_images a)
     \<and> {k. intent a' k = Some InstallWipe} \<subseteq> {k. intent a k = Some InstallWipe}"
  using desk_run [OF assms] by (simp add: same_fleet_def Let_def)

section \<open>Instances\<close>

definition demo_world :: world where
  "demo_world = \<lparr>w_adminToken = ''admin'', w_heads = (\<lambda>_. None), w_centre = demo_centre, w_skew = (\<lambda>_ _. []), w_kdf = (\<lambda>_ _ _. None)\<rparr>"

definition demo_server :: server where
  "demo_server = \<lparr>sv_app = demo, sv_users = [], sv_sessions = [(''op'', \<lparr>w_name = ''otto'', w_role = roleOperator, w_exp = 100\<rparr>)],
     sv_queue = idle_queue, sv_xids = []\<rparr>"

definition wipe_form :: form where
  "wipe_form k = (if k = ''confirm'' then ''blade-r1s03'' else [])"

theorem operator_limits_witness:
  "a_racks (sv_app (fold (serve demo_world) [(1, AdminPage (Some ''op'') (PRackDelete 1)),
       (2, RackPage (Some ''op'') (PAction ''c0ffee01'' ''reset'' wipe_form)), (3, AdminPage (Some ''op'') (PRackDelete 1))] demo_server))
     = a_racks (sv_app demo_server)"
proof -
  let ?rs = "[(1, AdminPage (Some ''op'') (PRackDelete 1)),
       (2, RackPage (Some ''op'') (PAction ''c0ffee01'' ''reset'' wipe_form)), (3, AdminPage (Some ''op'') (PRackDelete 1))]"
  have "w_adminToken demo_world \<noteq> []" "operators_only demo_server" "list_all (at_the_desk demo_world) (map snd ?rs)"
    by (simp_all add: demo_world_def demo_server_def operators_only_def)
  from operator_limits [OF this] show ?thesis unfolding Let_def by blast
qed

definition anna :: who where
  "anna = \<lparr>w_name = ''anna'', w_role = roleAdmin, w_exp = 100\<rparr>"

definition admin_server :: server where
  "admin_server = demo_server\<lparr>sv_sessions := [(''ad'', anna)]\<rparr>"

lemma admin_server_parts: "sv_app admin_server = demo" "sv_app demo_server = demo"
  by (simp_all add: admin_server_def demo_server_def)

lemma admin_caller:
  "caller (w_adminToken demo_world) (sv_sessions admin_server) 2 (Some ''ad'') = (sv_sessions admin_server, Some anna)"
  by (simp add: caller_def lookup_def admin_server_def demo_world_def anna_def)

lemma admin_through:
  "sv_app (serve demo_world (2, RackPage (Some ''ad'') q) admin_server) = serve_rack_page demo_world 2 anna q demo"
  by (simp add: requireRole_def admin_caller admin_server_parts atLeast_def anna_def)

lemma demo_wipe:
  "intent (hUIBladeAction h demo 2 anna ''c0ffee01'' ''wipe'' wipe_form) ''c0ffee01'' = Some InstallWipe"
proof -
  have g: "getBlade demo ''c0ffee01'' = Some (view demo demo_blade)" by (simp add: getBlade_def get_row_def demo_defs)
  have ok: "\<not> p_no_wipe (sitePolicy demo k)" for k
    by (simp add: sitePolicy_def globalPolicy_def getSite_def get_site_def demo_defs Let_def unmarshalPolicy_def
        read_bool_def read_num_def read_int_def fill_def or_else_def zeroPolicy_def defaultPolicy_def)
  have c: "trim_space (wipe_form ''confirm'') = b_hostname (view demo demo_blade)"
    by (simp add: wipe_form_def trim_space_def is_space_def code_def demo_blade_def)
  obtain a1 where a1: "requestWipe demo ''c0ffee01'' = Inr a1" by (simp add: requestWipe_def count_where_def demo_defs)
  have same: "intent (fst (syncDHCP a1 2)) = intent a1" using intent_frame(2) [of a1 2] by (simp add: sync_def)
  have m: "mayDo (w_role anna) ''wipe''" by (simp add: mayDo_wipe anna_def)
  have "intent (hUIBladeAction h demo 2 anna ''c0ffee01'' ''wipe'' wipe_form) = intent a1"
    using g ok c a1 same m
    by (cases "syncDHCP a1 2"; cases "snd (syncDHCP a1 2)") (simp_all add: hUIBladeAction_def hUIBladeWipe_def)
  thus ?thesis using intent_requestWipe [OF a1, of "''c0ffee01''"] by simp
qed

theorem erase_armed_only_by_administrator_witness:
  "\<exists>cookie f p b. RackPage (Some ''ad'') (PAction ''c0ffee01'' ''wipe'' wipe_form) = RackPage cookie (PAction ''c0ffee01'' ''wipe'' f)
     \<and> snd (caller (w_adminToken demo_world) (sv_sessions admin_server) 2 cookie) = Some p \<and> w_role p = roleAdmin
     \<and> getBlade (sv_app admin_server) ''c0ffee01'' = Some b \<and> \<not> p_no_wipe (sitePolicy (sv_app admin_server) (v_site_id b))
     \<and> trim_space (f ''confirm'') = b_hostname b"
proof (rule erase_armed_only_by_administrator)
  show "intent (sv_app (serve demo_world (2, RackPage (Some ''ad'') (PAction ''c0ffee01'' ''wipe'' wipe_form)) admin_server)) ''c0ffee01'' = Some InstallWipe"
    by (simp only: admin_through serve_rack_page.simps demo_wipe)
  show "intent (sv_app admin_server) ''c0ffee01'' \<noteq> Some InstallWipe"
    by (simp add: admin_server_parts intent_def get_row_def demo_defs)
qed

theorem install_armed_only_on_request_witness:
  "\<exists>header q. Api ''Bearer admin'' (ABladeAction ''c0ffee01'' ''reimage'') = Api header q \<and> requireAdmin (w_adminToken demo_world) header"
proof -
  have adm: "requireAdmin (w_adminToken demo_world) ''Bearer admin''"
    by (simp add: requireAdmin_def bearer_def demo_world_def has_prefix_def trim_space_def is_space_def code_def)
  have armed: "intent (sv_app (serve demo_world (2, Api ''Bearer admin'' (ABladeAction ''c0ffee01'' ''reimage'')) demo_server)) ''c0ffee01'' = Some InstallPending"
  proof -
    have g: "getBlade demo ''c0ffee01'' = Some (view demo demo_blade)" by (simp add: getBlade_def get_row_def demo_defs)
    have k: "snd (requestInstall (\<lambda>_. None) demo 2 ''c0ffee01'') = None"
      using g demo_target_ok by (simp add: requestInstall_def Let_def count_where_def demo_defs)
    have "intent (fst (hBladeAction (\<lambda>_. None) demo 2 ''c0ffee01'' ''reimage'')) = intent (fst (requestInstall (\<lambda>_. None) demo 2 ''c0ffee01''))"
      using g k by (cases "requestInstall (\<lambda>_. None) demo 2 ''c0ffee01''") (simp add: hBladeAction_def action_kinds_def)
    thus ?thesis using adm k intent_requestInstall [of "\<lambda>_. None" demo 2 "''c0ffee01''" "''c0ffee01''"]
      by (simp add: demo_server_def) (simp add: demo_world_def get_row_def demo_defs)
  qed
  have before: "intent (sv_app demo_server) ''c0ffee01'' \<noteq> Some InstallPending"
    by (simp add: demo_server_def intent_def get_row_def demo_defs)
  from install_armed_only_on_request [OF armed before] show ?thesis by (elim disjE exE conjE) (simp_all only: request.distinct, blast+)
qed

end
