(* ===== verification/Download.thy ===== *)
theory Download
  imports AgentPolicy
begin

text \<open>
  How the installer fetches an image and puts it on the disk (\<^verbatim>\<open>src/installer/main.go\<close>:
  \<^verbatim>\<open>resumingReader\<close>, \<^verbatim>\<open>decompressor\<close>, \<^verbatim>\<open>writeImage\<close>, \<^verbatim>\<open>copyToDisk\<close>; \<^verbatim>\<open>wipe.go\<close>). A connection is
  the list of what its body gives, one entry per read, ending where the list ends; the
  connections a download will get are a list too, and once it is used up every further attempt
  fails. The decompressors and the checksum are parameters. The theorems: a link that drops and
  comes back is not noticed, a link that does not come back ends the image where it is as if it
  were complete, and what an erase leaves at the two ends of a disk.
\<close>

section \<open>A download that survives a dropped link\<close>

type_synonym bytes = "nat list"

datatype chunk = Bytes bytes | Nothing | Broken | Cancelled

datatype conn = Refused | Response nat "chunk list"

record resumingReader =
  rr_offset :: nat
  rr_tries :: nat
  rr_body :: "chunk list"
  rr_next :: "conn list"

definition maxResumes :: nat where "maxResumes = 60"

datatype fail = NoResume | BadStatus nat | Unreachable_source | SourceEmpty | Aborted | Unstable
  | UnknownFormat | BadHeader | NotWritable | NoSpace | BadStream | NotSynced | Mismatch | NoChecksum | NoTarget | NotADevice

definition connect :: "resumingReader \<Rightarrow> resumingReader \<times> fail option" where
  "connect r =
     (case rr_next r of
        [] \<Rightarrow> (r, Some Unreachable_source)
      | Refused # cs \<Rightarrow> (r\<lparr>rr_next := cs\<rparr>, Some Unreachable_source)
      | Response st body # cs \<Rightarrow>
          if rr_offset r = 0 \<and> st = 200 \<or> rr_offset r > 0 \<and> st = 206 then (r\<lparr>rr_next := cs, rr_body := body\<rparr>, None)
          else if rr_offset r > 0 \<and> st = 200 then (r\<lparr>rr_next := cs\<rparr>, Some NoResume)
          else (r\<lparr>rr_next := cs\<rparr>, Some (BadStatus st)))"

datatype got = Data bytes | Over | Failed fail

text \<open>What is left to read, the measure of the loops.\<close>

fun conn_size :: "conn \<Rightarrow> nat" where
  "conn_size Refused = 1"
| "conn_size (Response st body) = 1 + length body"

definition left :: "resumingReader \<Rightarrow> nat" where
  "left r = length (rr_body r) + sum_list (map conn_size (rr_next r))"

lemma left_connect:
  assumes "connect r = (r', e)"
  shows "left (r'\<lparr>rr_body := []\<rparr>) \<le> left (r\<lparr>rr_body := []\<rparr>)" and "e = None \<Longrightarrow> left r' \<le> left (r\<lparr>rr_body := []\<rparr>)"
    and "rr_offset r' = rr_offset r" and "rr_tries r' = rr_tries r"
  using assms by (auto simp: connect_def left_def split: list.splits conn.splits if_splits)

text \<open>One call of \<^verbatim>\<open>Read\<close>: the loop with its count of empty reads. After a failed reconnect the loop
  goes on with an empty body.\<close>

function read_loop :: "nat \<Rightarrow> resumingReader \<Rightarrow> resumingReader \<times> got" where
  "read_loop miss r =
     (case rr_body r of
        [] \<Rightarrow> (r, Over)
      | Bytes b # cs \<Rightarrow>
          if b \<noteq> [] then (r\<lparr>rr_body := cs, rr_offset := rr_offset r + length b, rr_tries := 0\<rparr>, Data b)
          else if miss + 1 > 100 then (r\<lparr>rr_body := cs\<rparr>, Failed SourceEmpty)
          else read_loop (miss + 1) (r\<lparr>rr_body := cs\<rparr>)
      | Nothing # cs \<Rightarrow>
          if miss + 1 > 100 then (r\<lparr>rr_body := cs\<rparr>, Failed SourceEmpty)
          else read_loop (miss + 1) (r\<lparr>rr_body := cs\<rparr>)
      | Cancelled # cs \<Rightarrow> (r, Failed Aborted)
      | Broken # cs \<Rightarrow>
          if rr_tries r + 1 > maxResumes then (r\<lparr>rr_tries := rr_tries r + 1\<rparr>, Failed Unstable)
          else if snd (connect (r\<lparr>rr_tries := rr_tries r + 1\<rparr>)) = None
               then read_loop 0 (fst (connect (r\<lparr>rr_tries := rr_tries r + 1\<rparr>)))
               else read_loop 0 ((fst (connect (r\<lparr>rr_tries := rr_tries r + 1\<rparr>)))\<lparr>rr_body := []\<rparr>))"
  by pat_completeness auto
termination
proof (relation "measure (\<lambda>(e, r). left r)", goal_cases)
  case (4 miss r c cs)
  then show ?case
    using left_connect(2) [of "r\<lparr>rr_tries := rr_tries r + 1\<rparr>"]
    by (cases "connect (r\<lparr>rr_tries := rr_tries r + 1\<rparr>)") (fastforce simp: left_def)
next
  case (5 miss r c cs)
  then show ?case
    using left_connect(1) [of "r\<lparr>rr_tries := rr_tries r + 1\<rparr>"]
    by (cases "connect (r\<lparr>rr_tries := rr_tries r + 1\<rparr>)") (fastforce simp: left_def)
qed (auto simp: left_def)

declare read_loop.simps [simp del]

definition read_once :: "resumingReader \<Rightarrow> resumingReader \<times> got" where
  "read_once = read_loop 0"

lemma read_shrinks: "read_loop e r = (r', Data b) \<Longrightarrow> left r' < left r \<and> b \<noteq> []"
proof (induction e r arbitrary: r' b rule: read_loop.induct)
  case (1 e r)
  let ?r1 = "r\<lparr>rr_tries := rr_tries r + 1\<rparr>"
  obtain r2 x where c: "connect ?r1 = (r2, x)" by (cases "connect ?r1")
  have c1: "left (r2\<lparr>rr_body := []\<rparr>) \<le> left (r\<lparr>rr_body := []\<rparr>)" and c2: "x = None \<Longrightarrow> left r2 \<le> left (r\<lparr>rr_body := []\<rparr>)"
    using left_connect(1,2) [OF c] by (simp_all add: left_def)
  show ?case
  proof (cases "rr_body r")
    case Nil
    thus ?thesis using 1(5) by (simp add: read_loop.simps [of e r])
  next
    case (Cons h cs)
    have l: "left r = Suc (length cs) + left (r\<lparr>rr_body := []\<rparr>)" "left (r\<lparr>rr_body := cs\<rparr>) < left r"
      using Cons by (simp_all add: left_def)
    show ?thesis
    proof (cases h)
      case (Bytes b0)
      thus ?thesis using 1(1) [OF Cons Bytes] 1(5) l(2) Cons
        by (subst (asm) read_loop.simps [of e r]) (force simp: left_def split: if_splits)
    next
      case Nothing
      thus ?thesis using 1(2) [OF Cons Nothing] 1(5) l(2) Cons
        by (subst (asm) read_loop.simps [of e r]) (force split: if_splits)
    next
      case Broken
      thus ?thesis using 1(3,4) [OF Cons Broken] 1(5) l(1) Cons c c1 c2
        by (subst (asm) read_loop.simps [of e r]) (force split: if_splits)
    qed (use 1(5) Cons in \<open>simp add: read_loop.simps [of e r]\<close>)
  qed
qed

text \<open>Reading to the end: everything that came, and why it stopped.\<close>

function pull :: "resumingReader \<Rightarrow> bytes \<times> fail option" where
  "pull r =
     (case read_once r of
        (r', Data b) \<Rightarrow> (let (rest, e) = pull r' in (b @ rest, e))
      | (r', Over) \<Rightarrow> ([], None)
      | (r', Failed e) \<Rightarrow> ([], Some e))"
  by pat_completeness auto
termination
  by (relation "measure left") (auto simp: read_once_def dest: read_shrinks [OF sym])

declare pull.simps [simp del]

definition openResuming :: "conn list \<Rightarrow> resumingReader \<times> fail option" where
  "openResuming cs = connect \<lparr>rr_offset = 0, rr_tries = 0, rr_body = [], rr_next = cs\<rparr>"

section \<open>Decompressing and writing\<close>

datatype codec = Xz | Zst | Gz | Plain

definition decompressor :: "string \<Rightarrow> codec option" where
  "decompressor url =
     (let name = takeWhile (\<lambda>c. c \<noteq> CHR ''?'' \<and> c \<noteq> CHR ''#'') (lower url)
      in if has_suffix name ''.xz'' then Some Xz
         else if has_suffix name ''.zst'' \<or> has_suffix name ''.zstd'' then Some Zst
         else if has_suffix name ''.gz'' then Some Gz
         else if has_suffix name ''.img'' \<or> has_suffix name ''.raw'' then Some Plain
         else None)"

text \<open>The libraries: whether a stream starts like one of the format, and what comes out of it with
  whether it ended the way the format says; told whether the input itself ended without an error.
  The checksum of what went in, in hexadecimal.\<close>

record codecs =
  cd_opens :: "codec \<Rightarrow> bytes \<Rightarrow> bool"
  cd_out :: "codec \<Rightarrow> bytes \<Rightarrow> bytes \<times> bool"
  cd_sha256 :: "bytes \<Rightarrow> string"

definition decode :: "codecs \<Rightarrow> codec \<Rightarrow> bytes \<times> fail option \<Rightarrow> bytes \<times> fail option" where
  "decode cd k src =
     (case k of
        Plain \<Rightarrow> src
      | _ \<Rightarrow> (case snd src of
                Some e \<Rightarrow> (fst (cd_out cd k (fst src)), Some e)
              | None \<Rightarrow> (fst (cd_out cd k (fst src)), if snd (cd_out cd k (fst src)) then None else Some BadStream)))"

text \<open>The disk: its bytes, whether the device is there, a block device and writable, and after how
  many bytes a write fails, if it does, and whether the final flush succeeds.\<close>

record disk =
  dk_bytes :: bytes
  dk_there :: bool
  dk_block :: bool
  dk_writable :: bool
  dk_bad_at :: "nat option"
  dk_flushes :: bool

definition room :: "disk \<Rightarrow> nat" where
  "room d = (case dk_bad_at d of None \<Rightarrow> length (dk_bytes d) | Some n \<Rightarrow> min n (length (dk_bytes d)))"

definition checkTarget_dev :: "disk \<Rightarrow> fail option" where
  "checkTarget_dev d = (if \<not> dk_there d then Some NoTarget else if \<not> dk_block d then Some NotADevice else None)"

definition put :: "bytes \<Rightarrow> disk \<Rightarrow> disk" where
  "put out d = d\<lparr>dk_bytes := take (room d) out @ drop (length (take (room d) out)) (dk_bytes d)\<rparr>"

definition copyToDisk :: "bytes \<times> fail option \<Rightarrow> disk \<Rightarrow> disk \<times> fail option" where
  "copyToDisk src d =
     (put (fst src) d,
      if length (fst src) > room d then Some NoSpace
      else case snd src of Some e \<Rightarrow> Some e | None \<Rightarrow> if dk_flushes d then None else Some NotSynced)"

text \<open>What the job says about the image: its address, its checksum, and whether one is required.\<close>

definition writeImage :: "codecs \<Rightarrow> string \<Rightarrow> string \<Rightarrow> bool \<Rightarrow> conn list \<Rightarrow> disk \<Rightarrow> disk \<times> fail option" where
  "writeImage cd url sha256 require cs d =
     (case openResuming cs of
        (r, Some e) \<Rightarrow> (d, Some e)
      | (r, None) \<Rightarrow>
          (case decompressor url of
             None \<Rightarrow> (d, Some UnknownFormat)
           | Some k \<Rightarrow>
               if k \<noteq> Plain \<and> \<not> cd_opens cd k (fst (pull r)) then (d, Some BadHeader)
               else if \<not> dk_writable d then (d, Some NotWritable)
               else (case copyToDisk (decode cd k (pull r)) d of
                       (d1, Some e) \<Rightarrow> (d1, Some e)
                     | (d1, None) \<Rightarrow>
                         (d1, if sha256 \<noteq> [] then (if lower (cd_sha256 cd (fst (pull r))) = lower sha256 then None else Some Mismatch)
                              else if require then Some NoChecksum else None))))"

section \<open>Erasing\<close>

definition chunkSize :: nat where "chunkSize = 1048576"

definition wipeEnds :: nat where "wipeEnds = 67108864"

text \<open>\<^verbatim>\<open>zeroAt\<close>, chunk by chunk.\<close>

definition zeros :: "nat \<Rightarrow> nat \<Rightarrow> bytes \<Rightarrow> bytes" where
  "zeros off n xs = take off xs @ replicate (min n (length xs - off)) 0 @ drop (off + n) xs"

function zero_loop :: "nat \<Rightarrow> nat \<Rightarrow> nat \<Rightarrow> bytes \<Rightarrow> bytes" where
  "zero_loop off n written xs =
     (if written < n then zero_loop off n (written + min chunkSize (n - written)) (zeros (off + written) (min chunkSize (n - written)) xs)
      else xs)"
  by pat_completeness auto
termination
  by (relation "measure (\<lambda>(off, n, written, xs). n - written)") (auto simp: chunkSize_def)

declare zero_loop.simps [simp del]

definition zeroAt :: "nat \<Rightarrow> nat \<Rightarrow> bytes \<Rightarrow> bytes" where
  "zeroAt off n = zero_loop off n 0"

text \<open>The discard is a request the drive may ignore; what it leaves is a parameter. \<open>None\<close> where the
  size of the device cannot be read.\<close>

definition wipeDisk :: "nat option \<Rightarrow> (bytes \<Rightarrow> bytes) \<Rightarrow> disk \<Rightarrow> disk \<times> fail option" where
  "wipeDisk blockSize discard d =
     (if \<not> dk_writable d then (d, Some NotWritable)
      else case blockSize of
             None \<Rightarrow> (d, Some NotWritable)
           | Some sz \<Rightarrow>
               (let b0 = (if sz > 0 then discard (dk_bytes d) else dk_bytes d); head = min wipeEnds sz;
                    b1 = zeroAt 0 (min head (room d)) b0
                in if room d < head then (d\<lparr>dk_bytes := b1\<rparr>, Some NoSpace)
                   else if sz > 2 * wipeEnds \<and> room d < sz then
                     (d\<lparr>dk_bytes := zeroAt (sz - wipeEnds) (room d - (sz - wipeEnds)) b1\<rparr>, Some NoSpace)
                   else (d\<lparr>dk_bytes := (if sz > 2 * wipeEnds then zeroAt (sz - wipeEnds) wipeEnds b1 else b1)\<rparr>,
                         if dk_flushes d then None else Some NotSynced)))"

section \<open>Reading a stream, one read at a time\<close>

lemma read_end: "rr_body r = [] \<Longrightarrow> read_once r = (r, Over)"
  unfolding read_once_def by (subst read_loop.simps) simp

lemma pull_end [simp]: "rr_body r = [] \<Longrightarrow> pull r = ([], None)"
  by (subst pull.simps) (simp add: read_end)

lemma read_bytes:
  "rr_body r = Bytes b # cs \<Longrightarrow> b \<noteq> [] \<Longrightarrow>
   read_once r = (r\<lparr>rr_body := cs, rr_offset := rr_offset r + length b, rr_tries := 0\<rparr>, Data b)"
  unfolding read_once_def by (subst read_loop.simps) simp

lemma pull_bytes:
  assumes "rr_body r = Bytes b # cs" and "b \<noteq> []"
  shows "pull r = (b @ fst (pull (r\<lparr>rr_body := cs, rr_offset := rr_offset r + length b, rr_tries := 0\<rparr>)),
      snd (pull (r\<lparr>rr_body := cs, rr_offset := rr_offset r + length b, rr_tries := 0\<rparr>)))"
  by (subst pull.simps) (simp add: read_bytes [OF assms] case_prod_beta)

lemma pull_broken:
  assumes "rr_body r = Broken # cs" and "rr_tries r < maxResumes" and "connect (r\<lparr>rr_tries := rr_tries r + 1\<rparr>) = (r', e)"
  shows "pull r = (if e = None then pull r' else ([], None))"
proof -
  have "read_once r = (if e = None then read_once r' else read_once (r'\<lparr>rr_body := []\<rparr>))"
    using assms unfolding read_once_def by (subst read_loop.simps) simp
  hence "read_once r = (if e = None then read_once r' else (r'\<lparr>rr_body := []\<rparr>, Over))" by (simp add: read_end)
  thus ?thesis by (subst (1 2) pull.simps) simp
qed

lemma pull_many:
  assumes "[] \<notin> set c" and "rr_body r = map Bytes c @ cs"
  shows "pull r = (concat c @ fst (pull (r\<lparr>rr_body := cs, rr_offset := rr_offset r + length (concat c), rr_tries := (if c = [] then rr_tries r else 0)\<rparr>)),
      snd (pull (r\<lparr>rr_body := cs, rr_offset := rr_offset r + length (concat c), rr_tries := (if c = [] then rr_tries r else 0)\<rparr>)))"
  using assms
proof (induction c arbitrary: r)
  case Nil
  thus ?case by (cases r) simp
next
  case (Cons b c)
  let ?r = "r\<lparr>rr_body := map Bytes c @ cs, rr_offset := rr_offset r + length b, rr_tries := 0\<rparr>"
  have "pull ?r = (concat c @ fst (pull (?r\<lparr>rr_body := cs, rr_offset := rr_offset ?r + length (concat c), rr_tries := 0\<rparr>)),
      snd (pull (?r\<lparr>rr_body := cs, rr_offset := rr_offset ?r + length (concat c), rr_tries := 0\<rparr>)))"
    using Cons.IH [of ?r] Cons.prems(1) by simp
  moreover have "b \<noteq> []" using Cons.prems(1) by auto
  ultimately show ?case using pull_bytes [of r b "map Bytes c @ cs"] Cons.prems(2) by (simp add: add.assoc)
qed

text \<open>A file handed out over a link that drops: each connection goes on where the one before it
  stopped, gives what it gives in some pieces and breaks, the last one goes on to the end.\<close>

fun over_links :: "nat \<Rightarrow> bytes list list \<Rightarrow> conn list" where
  "over_links off [] = []"
| "over_links off [c] = [Response (if off = 0 then 200 else 206) (map Bytes c)]"
| "over_links off (c # cs) = Response (if off = 0 then 200 else 206) (map Bytes c @ [Broken]) # over_links (off + length (concat c)) cs"

lemma pull_over_links:
  assumes "list_all (\<lambda>c. c \<noteq> [] \<and> [] \<notin> set c) css" and "css \<noteq> []" and "rr_next r = over_links (rr_offset r) css @ after"
  shows "\<exists>r'. connect r = (r', None) \<and> pull r' = (concat (concat css), None)"
  using assms
proof (induction css arbitrary: r rule: induct_list012)
  case (2 c)
  let ?r = "r\<lparr>rr_next := after, rr_body := map Bytes c\<rparr>"
  have "connect r = (?r, None)" using 2 by (simp add: connect_def)
  moreover have "pull ?r = (concat c, None)" using pull_many [of c ?r "[]"] 2 by simp
  ultimately show ?case by simp
next
  case (3 c c1 cs)
  let ?rest = "over_links (rr_offset r + length (concat c)) (c1 # cs) @ after"
  let ?r = "r\<lparr>rr_next := ?rest, rr_body := map Bytes c @ [Broken]\<rparr>"
  let ?q = "?r\<lparr>rr_body := [Broken], rr_offset := rr_offset r + length (concat c), rr_tries := 0\<rparr>"
  have co: "connect r = (?r, None)" using 3 by (simp add: connect_def)
  obtain r' where r': "connect (?q\<lparr>rr_tries := 1\<rparr>) = (r', None)" "pull r' = (concat (concat (c1 # cs)), None)"
    using "3.IH"(2) [of "?q\<lparr>rr_tries := 1\<rparr>"] "3.prems" by auto
  have "pull ?q = (concat (concat (c1 # cs)), None)" using pull_broken [of ?q "[]" r' None] r' by (simp add: maxResumes_def)
  moreover have "pull ?r = (concat c @ fst (pull ?q), snd (pull ?q))" using pull_many [of c ?r "[Broken]"] 3 by simp
  ultimately have "pull ?r = (concat (concat (c # c1 # cs)), None)" by simp
  thus ?case using co by blast
qed simp

lemma over_links_opens:
  assumes "list_all (\<lambda>c. c \<noteq> [] \<and> [] \<notin> set c) css" and "css \<noteq> []"
  shows "\<exists>r. openResuming (over_links 0 css @ after) = (r, None) \<and> pull r = (concat (concat css), None)"
  using pull_over_links [OF assms, of "\<lparr>rr_offset = 0, rr_tries = 0, rr_body = [], rr_next = over_links 0 css @ after\<rparr>" after]
  by (simp add: openResuming_def)

lemma one_link_opens:
  assumes "[] \<notin> set c"
  shows "\<exists>r. openResuming (Response 200 (map Bytes c) # after) = (r, None) \<and> pull r = (concat c, None)"
proof -
  let ?r = "\<lparr>rr_offset = 0, rr_tries = 0, rr_body = map Bytes c, rr_next = after\<rparr>"
  have "pull ?r = (concat c, None)" using pull_many [OF assms, of ?r "[]"] by simp
  thus ?thesis by (simp add: openResuming_def connect_def)
qed

lemma writeImage_cong:
  assumes "openResuming cs = (r, None)" and "openResuming cs' = (r', None)" and "pull r = pull r'"
  shows "writeImage cd url sha256 require cs d = writeImage cd url sha256 require cs' d"
  unfolding writeImage_def assms(1,2) prod.case option.case assms(3) ..


text \<open>A link that drops and cannot be reached at the first attempt after it ends the stream as if the
  image were complete: the disk and the verdict are those of a download of what had come by then.\<close>

theorem lost_link_ends_image:
  assumes "[] \<notin> set c"
  shows "writeImage cd url sha256 require (Response 200 (map Bytes c @ [Broken]) # Refused # after) d
       = writeImage cd url sha256 require [Response 200 (map Bytes c)] d"
proof -
  let ?r = "\<lparr>rr_offset = 0, rr_tries = 0, rr_body = map Bytes c @ [Broken], rr_next = Refused # after\<rparr>"
  let ?q = "?r\<lparr>rr_body := [Broken], rr_offset := length (concat c), rr_tries := 0\<rparr>"
  have "pull ?q = ([], None)" using pull_broken [of ?q "[]"] by (simp add: maxResumes_def connect_def)
  hence "pull ?r = (concat c, None)" using pull_many [OF assms, of ?r "[Broken]"] by (cases "c = []") simp_all
  moreover have "openResuming (Response 200 (map Bytes c @ [Broken]) # Refused # after) = (?r, None)"
    by (simp add: openResuming_def connect_def)
  ultimately show ?thesis using one_link_opens [OF assms, of "[]"] by (auto intro: writeImage_cong)
qed

lemma writeImage_written:
  assumes "writeImage cd url sha256 require cs d = (d', None)"
  obtains r k out where "openResuming cs = (r, None)" "snd (pull r) = None" "decompressor url = Some k"
    "decode cd k (pull r) = (out, None)" "length out \<le> room d" "d' = put out d"
    "if sha256 \<noteq> [] then lower (cd_sha256 cd (fst (pull r))) = lower sha256 else \<not> require"
proof -
  obtain r k where r: "openResuming cs = (r, None)" "decompressor url = Some k"
    using assms by (auto simp: writeImage_def split: prod.splits option.splits)
  obtain out e where o: "decode cd k (pull r) = (out, e)" by (cases "decode cd k (pull r)")
  have c: "copyToDisk (out, e) d = (d', None)" and h: "if sha256 \<noteq> [] then lower (cd_sha256 cd (fst (pull r))) = lower sha256 else \<not> require"
    using assms r o by (auto simp: writeImage_def split: prod.splits option.splits if_splits)
  have e: "e = None" "d' = put out d" "length out \<le> room d" using c by (auto simp: copyToDisk_def split: if_splits option.splits)
  have "snd (pull r) = None" using o e(1) by (auto simp: decode_def split: codec.splits option.splits if_splits)
  with that r o e h show thesis by simp
qed

text \<open>C10. When the catalogue has a checksum, a write that reports no failure put on the disk exactly what
  the decompressor makes of a complete download whose checksum it is, and left the rest as it was.\<close>

theorem writeImage_verified:
  assumes "writeImage cd url sha256 require cs d = (d', None)" and "sha256 \<noteq> []"
  shows "\<exists>r k out. openResuming cs = (r, None) \<and> snd (pull r) = None \<and> lower (cd_sha256 cd (fst (pull r))) = lower sha256
     \<and> decompressor url = Some k \<and> decode cd k (pull r) = (out, None)
     \<and> dk_bytes d' = out @ drop (length out) (dk_bytes d) \<and> length (dk_bytes d') = length (dk_bytes d)"
proof (rule writeImage_written [OF assms(1)])
  fix r k out
  assume a: "openResuming cs = (r, None)" "snd (pull r) = None" "decompressor url = Some k" "decode cd k (pull r) = (out, None)"
    "length out \<le> room d" "d' = put out d" "if sha256 \<noteq> [] then lower (cd_sha256 cd (fst (pull r))) = lower sha256 else \<not> require"
  have "room d \<le> length (dk_bytes d)" by (simp add: room_def split: option.split)
  thus ?thesis using a assms(2) by (auto simp: put_def)
qed

text \<open>An installation that requires a checksum and has none fails, but what it leaves on the disk is
  what an installation that requires none leaves: the refusal comes after the write.\<close>

theorem required_checksum_after_write:
  "writeImage cd url [] True cs d =
     (fst (writeImage cd url [] False cs d),
      Some (case snd (writeImage cd url [] False cs d) of None \<Rightarrow> NoChecksum | Some e \<Rightarrow> e))"
proof -
  obtain r e where r: "openResuming cs = (r, e)" by (cases "openResuming cs")
  show ?thesis
  proof (cases "decompressor url")
    case (Some k)
    obtain d1 x where "copyToDisk (decode cd k (pull r)) d = (d1, x)" by (cases "copyToDisk (decode cd k (pull r)) d")
    thus ?thesis using r Some by (cases e; cases x; cases k) (simp_all add: writeImage_def)
  qed (use r in \<open>cases e; simp add: writeImage_def\<close>)
qed

section \<open>What an erase leaves\<close>

lemma length_zeros [simp]: "length (zeros off n xs) = length xs"
  by (auto simp: zeros_def min_def)

lemma nth_zeros: "i < length xs \<Longrightarrow> zeros off n xs ! i = (if off \<le> i \<and> i < off + n then 0 else xs ! i)"
  by (auto simp: zeros_def nth_append min_def)

lemma zeros_zeros: "zeros (off + m) n (zeros off m xs) = zeros off (m + n) xs"
  by (rule nth_equalityI) (auto simp: nth_zeros)

lemma zero_loop_zeros: "written \<le> n \<Longrightarrow> zero_loop off n written xs = zeros (off + written) (n - written) xs"
proof (induction off n written xs rule: zero_loop.induct)
  case (1 off n written xs)
  define k where "k = min chunkSize (n - written)"
  show ?case
  proof (cases "written < n")
    case True
    have k: "written + k \<le> n" using True by (simp add: k_def)
    have "zero_loop off n written xs = zero_loop off n (written + k) (zeros (off + written) k xs)"
      using True by (subst zero_loop.simps) (simp add: k_def)
    also have "\<dots> = zeros (off + (written + k)) (n - (written + k)) (zeros (off + written) k xs)"
      using "1.IH" [OF True] k by (simp add: k_def)
    also have "\<dots> = zeros (off + written) (k + (n - (written + k))) xs"
      using zeros_zeros [of "off + written" k] by (simp add: add.assoc)
    finally show ?thesis using k by simp
  next
    case False
    thus ?thesis using "1.prems" by (subst zero_loop.simps) (simp add: zeros_def)
  qed
qed

lemma zeroAt_zeros: "zeroAt off n xs = zeros off n xs"
  by (simp add: zeroAt_def zero_loop_zeros)

text \<open>C15. A wipe that succeeds leaves a disk of the same size whose first 64 MiB are zero, and whose last
  64 MiB are zero too when it is larger than 128 MiB; of a disk between 64 and 128 MiB everything
  behind the first 64, the backup partition table with it, is whatever the discard left.\<close>

theorem wipeDisk_ends:
  assumes "wipeDisk (Some (length (dk_bytes d))) discard d = (d', None)" and "\<And>xs. length (discard xs) = length xs"
  shows "length (dk_bytes d') = length (dk_bytes d) \<and>
     (\<forall>i < length (dk_bytes d). dk_bytes d' ! i =
        (if i < wipeEnds \<or> length (dk_bytes d) > 2 * wipeEnds \<and> length (dk_bytes d) \<le> i + wipeEnds then 0
         else discard (dk_bytes d) ! i))"
proof -
  define n where "n = length (dk_bytes d)"
  define b0 where "b0 = (if n > 0 then discard (dk_bytes d) else dk_bytes d)"
  define b1 where "b1 = zeroAt 0 (min (min wipeEnds n) (room d)) b0"
  have w: "wipeDisk (Some n) discard d = (d', None)" using assms(1) by (simp only: n_def)
  have head: "\<not> room d < min wipeEnds n"
    and d': "dk_bytes d' = (if n > 2 * wipeEnds then zeroAt (n - wipeEnds) wipeEnds b1 else b1)"
    using w unfolding wipeDisk_def Let_def option.case b0_def [symmetric] b1_def [symmetric] by (auto split: if_splits)
  have m: "min (min wipeEnds n) (room d) = min wipeEnds n" using head by linarith
  have b0: "length b0 = n" "i < n \<Longrightarrow> b0 ! i = discard (dk_bytes d) ! i" for i using assms(2) by (auto simp: b0_def n_def)
  have b1: "length b1 = n" "i < n \<Longrightarrow> b1 ! i = (if i < wipeEnds then 0 else discard (dk_bytes d) ! i)" for i
    using b0 by (simp_all add: b1_def m zeroAt_zeros nth_zeros)
  show ?thesis unfolding n_def [symmetric] d' using b1 by (auto simp: zeroAt_zeros nth_zeros)
qed

section \<open>Instances\<close>

definition small_disk :: disk where
  "small_disk = \<lparr>dk_bytes = [9, 9, 9, 9, 9], dk_there = True, dk_block = True, dk_writable = True, dk_bad_at = None, dk_flushes = True\<rparr>"

text \<open>Libraries that know no format and give every input the same checksum.\<close>

definition no_codecs :: codecs where
  "no_codecs = \<lparr>cd_opens = (\<lambda>_ _. False), cd_out = (\<lambda>_ _. ([], False)), cd_sha256 = (\<lambda>_. ''ab'')\<rparr>"

lemma plain_url: "decompressor ''http://c/a.img'' = Some Plain"
  by (simp add: decompressor_def Let_def lower_def to_lower_def is_upper_def code_def has_suffix_def has_prefix_def)

lemma written_small:
  "writeImage no_codecs ''http://c/a.img'' sha r [Response 200 [Bytes [1, 2], Bytes [3]]] small_disk
     = (small_disk\<lparr>dk_bytes := [1, 2, 3, 9, 9]\<rparr>, if sha \<noteq> [] then (if lower ''ab'' = lower sha then None else Some Mismatch)
          else if r then Some NoChecksum else None)"
proof -
  obtain q where "openResuming [Response 200 (map Bytes [[1, 2], [3]])] = (q, None)" "pull q = ([1, 2, 3], None)"
    using one_link_opens [of "[[1, 2], [3]]" "[]"] by auto
  thus ?thesis
    by (simp add: writeImage_def plain_url decode_def copyToDisk_def put_def room_def small_disk_def no_codecs_def)
qed


theorem lost_link_ends_image_witness:
  "writeImage no_codecs ''http://c/a.img'' [] False [Response 200 [Bytes [1, 2], Bytes [3], Broken], Refused, Response 206 [Bytes [4, 5]]] small_disk
     = (small_disk\<lparr>dk_bytes := [1, 2, 3, 9, 9]\<rparr>, None)"
  using lost_link_ends_image [of "[[1, 2], [3]]" no_codecs "''http://c/a.img''" "[]" False "[Response 206 [Bytes [4, 5]]]" small_disk]
    written_small [of "[]" False] by simp

theorem writeImage_verified_witness:
  "\<exists>r k out. openResuming [Response 200 [Bytes [1, 2], Bytes [3]]] = (r, None) \<and> decompressor ''http://c/a.img'' = Some k
     \<and> decode no_codecs k (pull r) = (out, None) \<and> [1, 2, 3, 9, 9] = out @ drop (length out) (dk_bytes small_disk)"
proof -
  have low: "lower ''AB'' = lower ''ab''" by code_simp
  have "writeImage no_codecs ''http://c/a.img'' ''AB'' True [Response 200 [Bytes [1, 2], Bytes [3]]] small_disk
      = (small_disk\<lparr>dk_bytes := [1, 2, 3, 9, 9]\<rparr>, None)"
    using written_small [of "''AB''" True] by (simp only: low) simp
  from writeImage_verified [OF this] show ?thesis by auto
qed

theorem wipeDisk_ends_witness:
  "\<exists>d'. wipeDisk (Some 5) (\<lambda>xs. xs) small_disk = (d', None) \<and> length (dk_bytes d') = 5 \<and> dk_bytes d' ! 4 = 0"
proof -
  have n: "length (dk_bytes small_disk) = 5" by (simp add: small_disk_def)
  obtain d' where d': "wipeDisk (Some 5) (\<lambda>xs. xs) small_disk = (d', None)"
    by (simp add: wipeDisk_def small_disk_def room_def wipeEnds_def)
  have "length (dk_bytes d') = 5 \<and> (\<forall>i<5. dk_bytes d' ! i = (if i < wipeEnds \<or> 5 > 2 * wipeEnds \<and> 5 \<le> i + wipeEnds then 0 else dk_bytes small_disk ! i))"
    using wipeDisk_ends [of small_disk "\<lambda>xs. xs" d'] d' unfolding n by simp
  thus ?thesis using d' by (simp add: wipeEnds_def)
qed

end
