(* ===== verification/Installer.thy ===== *)
theory Installer
  imports Download Install
begin

text \<open>
  The program that runs in the mini system (\<^verbatim>\<open>src/installer/main.go\<close>, \<^verbatim>\<open>wipe.go\<close>): it finds out
  what it is, asks the server until there is a job, writes the image or erases the disk, seeds
  the new system and reports. What it finds on the machine is a record of readings; what it sends
  is the list of its reports. The theorems: nothing is written unless the server said so, success
  is reported exactly after a verified write, and centre and installer together spend an order
  exactly when it was carried out.
\<close>

section \<open>Readings\<close>

definition defaultTarget :: string where "defaultTarget = ''/dev/nvme0n1''"

definition trim_right :: "char list \<Rightarrow> string \<Rightarrow> string" where
  "trim_right cs s = rev (dropWhile (\<lambda>c. c \<in> set cs) (rev s))"

fun serial_line :: "string list \<Rightarrow> string option" where
  "serial_line [] = None"
| "serial_line (l # ls) =
     (case (if has_prefix l ''Serial'' then cut CHR '':'' l else None) of
        Some (k, v) \<Rightarrow> Some (trim_space v) | None \<Rightarrow> serial_line ls)"

text \<open>From the device tree, else from \<^verbatim>\<open>/proc/cpuinfo\<close>.\<close>

definition readSerial :: "string option \<Rightarrow> string option \<Rightarrow> string option" where
  "readSerial tree cpuinfo =
     (let s = (case tree of None \<Rightarrow> [] | Some b \<Rightarrow> trim_right [CHR 0x00, CHR 0x0A, CHR '' ''] b)
      in if s \<noteq> [] then Some s
         else case cpuinfo of None \<Rightarrow> None | Some b \<Rightarrow> serial_line (split_on (CHR 0x0A) b))"

fun words :: "string \<Rightarrow> string \<Rightarrow> string list" where
  "words acc [] = (if acc = [] then [] else [rev acc])"
| "words acc (c # s) = (if is_space c then (if acc = [] then words [] s else rev acc # words [] s) else words (c # acc) s)"

fun server_field :: "string list \<Rightarrow> string" where
  "server_field [] = []"
| "server_field (f # fs) =
     (if has_prefix f ''sheath_server='' then drop (length ''sheath_server='') f
      else if has_prefix f ''bm_server='' then drop (length ''bm_server='') f
      else server_field fs)"

definition serverFromCmdline :: "string option \<Rightarrow> string" where
  "serverFromCmdline cmdline = (case cmdline of None \<Rightarrow> [] | Some b \<Rightarrow> server_field (words [] b))"

text \<open>The entries of \<^verbatim>\<open>/sys/class/block\<close> that go by the name of the device and something more.\<close>

definition dev_names :: "string \<Rightarrow> string list \<Rightarrow> string list" where
  "dev_names target es = filter (\<lambda>n. n \<noteq> path_base target \<and> has_prefix n (path_base target)) es"

definition installedLooking :: "string \<Rightarrow> string list option \<Rightarrow> bool" where
  "installedLooking dev es = (case es of None \<Rightarrow> False | Some ns \<Rightarrow> dev_names dev ns \<noteq> [])"

definition partitionsOf :: "string \<Rightarrow> string list option \<Rightarrow> string list option" where
  "partitionsOf target es =
     (case es of
        None \<Rightarrow> None
      | Some ns \<Rightarrow> if dev_names target ns = [] then None else Some (sort (map (\<lambda>n. ''/dev/'' @ n) (dev_names target ns))))"

text \<open>The partition furthest out, of those whose first sector and size can be read.\<close>

fun furthest :: "(string \<times> int option \<times> int option) list \<Rightarrow> (string \<times> int \<times> int) option \<Rightarrow> (string \<times> int \<times> int) option" where
  "furthest [] best = best"
| "furthest ((n, Some st, Some sz) # ps) best =
     furthest ps (if st > (case best of None \<Rightarrow> -1 | Some (_, s, _) \<Rightarrow> s) then Some (n, st, sz) else best)"
| "furthest (_ # ps) best = furthest ps best"

text \<open>\<open>tool\<close> is the run of \<^verbatim>\<open>sfdisk\<close> on a partition number; the result is the bytes gained.\<close>

definition growLastPartition ::
    "(string \<Rightarrow> bool) \<Rightarrow> (string \<Rightarrow> int option \<times> int option) \<Rightarrow> int option \<Rightarrow> string list option \<Rightarrow> string \<Rightarrow> int option" where
  "growLastPartition tool sys sectors es target =
     (case partitionsOf target es of
        None \<Rightarrow> None
      | Some parts \<Rightarrow>
          (case furthest (map (\<lambda>p. (path_base p, sys (path_base p))) parts) None of
             None \<Rightarrow> None
           | Some (n, st, sz) \<Rightarrow>
               (case sectors of
                  None \<Rightarrow> None
                | Some tot \<Rightarrow>
                    (let free = (tot - (st + sz)) * 512
                     in if free < 268435456 then Some 0
                        else if tool (trim_prefix (trim_prefix n (path_base target)) ''p'') then Some free else None))))"

text \<open>The largest partition, the first of those of the same size.\<close>

fun largest :: "(string \<times> nat option) list \<Rightarrow> string \<times> nat \<Rightarrow> string \<times> nat" where
  "largest [] best = best"
| "largest ((n, Some sz) # ps) best = largest ps (if sz > snd best then (n, sz) else best)"
| "largest ((n, None) # ps) best = largest ps best"

definition findRootPartition :: "(string \<Rightarrow> nat option) \<Rightarrow> string list option \<Rightarrow> string \<Rightarrow> string option" where
  "findRootPartition sectors es target =
     (case es of
        None \<Rightarrow> None
      | Some ns \<Rightarrow>
          (let best = fst (largest (map (\<lambda>n. (n, sectors n)) (dev_names target ns)) ([], 0))
           in if best = [] then None else Some (''/dev/'' @ best)))"

text \<open>The first partition that mounts as FAT.\<close>

definition findBootPartition :: "(string \<Rightarrow> bool) \<Rightarrow> string list option \<Rightarrow> string \<Rightarrow> string option" where
  "findBootPartition mounts es target = (case partitionsOf target es of None \<Rightarrow> None | Some ps \<Rightarrow> find mounts ps)"

section \<open>Asking for a job\<close>

record installOpts =
  o_no_grow :: bool
  o_after :: string
  o_require_checksum :: bool
  o_no_root_keys :: bool
  o_no_cloud_init :: bool
  o_no_agent :: bool
  o_reboot_delay :: int

record provisionResp =
  j_status :: string
  j_image :: string
  j_url :: string
  j_sha256 :: string
  j_target :: string
  j_server_url :: string
  j_token :: string
  j_hostname :: string
  j_ssh_keys :: "string list"
  j_opts :: installOpts

datatype poll = Unreachable_server | Unreadable | Reply provisionResp

datatype waited = Job provisionResp | Restarting | Asking

definition target_or_default :: "provisionResp \<Rightarrow> string" where
  "target_or_default j = (if j_target j = [] then defaultTarget else j_target j)"

text \<open>One entry per question: when it was answered, what the machine shows of its disks then, the
  answer. \<open>Asking\<close> when the answers end and there was no job. The moment the first \<^verbatim>\<open>idle\<close> came is kept.\<close>

fun waitForJob :: "instant option \<Rightarrow> (instant \<times> string list option \<times> poll) list \<Rightarrow> waited" where
  "waitForJob idle [] = Asking"
| "waitForJob idle ((t, es, Reply j) # ps) =
     (if j_status j = ''go'' \<or> j_status j = ''wipe'' then Job j
      else if j_status j = ''idle'' then
        (let since0 = (case idle of None \<Rightarrow> t | Some s \<Rightarrow> s)
         in if installedLooking (target_or_default j) es \<and> t - since0 > minutes 1 then Restarting
            else waitForJob (Some since0) ps)
      else waitForJob idle ps)"
| "waitForJob idle ((t, es, _) # ps) = waitForJob idle ps"

section \<open>Seeding\<close>

text \<open>A mounted file system: what stands at each path, a link being its target; and the paths that
  can be written.\<close>

type_synonym tree = "(string \<times> string) list"

record mount =
  mt_tree :: tree
  mt_writable :: "string \<Rightarrow> bool"

definition place :: "string \<Rightarrow> string \<Rightarrow> mount \<Rightarrow> mount \<times> bool" where
  "place path content m =
     (if mt_writable m path then (m\<lparr>mt_tree := AList.update path content (mt_tree m)\<rparr>, True) else (m, False))"

text \<open>One step after another, as long as they succeed.\<close>

definition and_then :: "mount \<times> bool \<Rightarrow> (mount \<Rightarrow> mount \<times> bool) \<Rightarrow> mount \<times> bool" where
  "and_then x f = (if snd x then f (fst x) else x)"

definition line :: string where "line = [CHR 0x0A]"

definition agent_env :: "provisionResp \<Rightarrow> string \<Rightarrow> string \<Rightarrow> string \<Rightarrow> string" where
  "agent_env j base serial stamp =
     ''# placed by sheath-installer during provisioning'' @ line
     @ ''SHEATH_SERVER='' @ (if j_server_url j = [] then base else j_server_url j) @ line @ ''SHEATH_SERIAL='' @ serial @ line
     @ ''SHEATH_TOKEN='' @ j_token j @ line @ ''SHEATH_IMAGE='' @ j_image j @ line @ ''SHEATH_INSTALLED='' @ stamp @ line"

fun joined :: "string list \<Rightarrow> string" where
  "joined [] = []"
| "joined [k] = k"
| "joined (k # ks) = k @ line @ joined ks"

definition seedRootKeys :: "string list \<Rightarrow> mount \<Rightarrow> mount \<times> bool" where
  "seedRootKeys ks m =
     (if ks = [] then (m, True)
      else place ''root/.ssh/authorized_keys'' (''# placed by sheath-installer'' @ line @ joined ks @ line) m)"

definition ssh_units :: "string list" where
  "ssh_units = [''usr/lib/systemd/system/ssh.service'', ''lib/systemd/system/ssh.service'',
     ''usr/lib/systemd/system/sshd.service'', ''lib/systemd/system/sshd.service'']"

definition stands :: "mount \<Rightarrow> string \<Rightarrow> bool" where
  "stands m path \<longleftrightarrow> map_of (mt_tree m) path \<noteq> None"

definition hostKeysIn :: "mount \<Rightarrow> nat" where
  "hostKeysIn m = length (filter (\<lambda>p. has_prefix p ''etc/ssh/ssh_host_'' \<and> has_suffix p ''_key''
     \<and> CHR ''/'' \<notin> set (drop (length ''etc/ssh/'') p)) (map fst (mt_tree m)))"

definition stem :: "string \<Rightarrow> string" where
  "stem u = (if has_suffix u ''.service'' then take (length u - length ''.service'') u else u)"

definition wants_of :: "string \<Rightarrow> string" where
  "wants_of u = ''etc/systemd/system/multi-user.target.wants/'' @ u"

definition socket_of :: "string \<Rightarrow> string" where
  "socket_of u = ''etc/systemd/system/sockets.target.wants/'' @ stem u @ ''.socket''"

text \<open>The file system after it and the message, \<open>None\<close> for a failure.\<close>

definition enableSSH :: "mount \<Rightarrow> mount \<times> string option" where
  "enableSSH m =
     (case find (stands m) ssh_units of
        None \<Rightarrow> (m, None)
      | Some rel \<Rightarrow>
          (let unit = path_base rel; keys = '', '' @ show_int (int (hostKeysIn m)) @ '' host keys''
           in if stands m (socket_of unit) then (m, Some (''left alone, '' @ stem unit @ ''.socket already starts it'' @ keys))
              else if stands m (wants_of unit) then (m, Some (unit @ '' was already enabled'' @ keys))
              else (case place (wants_of unit) (''/'' @ rel) m of
                      (m1, ok) \<Rightarrow> (m1, if ok then Some (unit @ '' enabled'' @ keys) else None))))"

text \<open>What the server publishes as the agent: a status and the file, nothing when it cannot be reached.\<close>

definition agent_unit :: string where
  "agent_unit = ''[Unit]'' @ line @ ''Description=Sheath agent'' @ line @ ''After=network-online.target'' @ line
     @ ''Wants=network-online.target'' @ line @ line @ ''[Service]'' @ line @ ''Type=simple'' @ line
     @ ''EnvironmentFile=/etc/sheath/agent.env'' @ line @ ''ExecStart=/usr/local/bin/sheath-agent'' @ line
     @ ''Restart=always'' @ line @ ''RestartSec=10'' @ line @ line @ ''[Install]'' @ line @ ''WantedBy=multi-user.target'' @ line"

definition installAgent :: "(nat \<times> string) option \<Rightarrow> mount \<Rightarrow> mount \<times> bool" where
  "installAgent published m =
     (case published of
        None \<Rightarrow> (m, False)
      | Some (st, bin) \<Rightarrow>
          if st \<noteq> 200 then (m, False)
          else and_then (and_then (place ''usr/local/bin/sheath-agent'' bin m)
                 (place ''etc/systemd/system/sheath-agent.service'' agent_unit))
                 (place (wants_of ''sheath-agent.service'') ''/etc/systemd/system/sheath-agent.service''))"

definition user_data :: "provisionResp \<Rightarrow> string" where
  "user_data j =
     ''#cloud-config'' @ line @ ''# generated by sheath-installer during provisioning'' @ line
     @ (if j_hostname j = [] then [] else ''hostname: '' @ j_hostname j @ line @ ''manage_etc_hosts: true'' @ line)
     @ ''disable_root: false'' @ line @ ''ssh_pwauth: false'' @ line @ ''users:'' @ line @ ''  - default'' @ line
     @ (if j_ssh_keys j = [] then [] else ''ssh_authorized_keys:'' @ line @ concat (map (\<lambda>k. ''  - '' @ k @ line) (j_ssh_keys j)))"

definition meta_data :: "provisionResp \<Rightarrow> string \<Rightarrow> string" where
  "meta_data j serial = ''instance-id: '' @ serial @ line @ ''local-hostname: '' @ j_hostname j @ line"

definition seedCloudInit :: "provisionResp \<Rightarrow> string \<Rightarrow> mount option \<Rightarrow> mount option \<times> bool" where
  "seedCloudInit j serial boot =
     (if j_ssh_keys j = [] \<and> j_hostname j = [] then (boot, False)
      else case boot of
             None \<Rightarrow> (None, False)
           | Some m \<Rightarrow>
               (case and_then (place ''user-data'' (user_data j) m) (place ''meta-data'' (meta_data j serial)) of
                  (m1, ok) \<Rightarrow> (Some m1, ok)))"

section \<open>The machine\<close>

text \<open>What the installer finds: its serial number, the server's address, the answers to its questions,
  the connections of the download; the devices; after the write the entries of \<^verbatim>\<open>/sys/class/block\<close>
  with first sector and size, what mounts as which file system; the agent the server publishes;
  the clock; the percentages reported while writing; the words for a failure.\<close>

record machine =
  m_serial :: "string option"
  m_server :: string
  m_polls :: "(instant \<times> string list option \<times> poll) list"
  m_conns :: "conn list"
  m_codecs :: codecs
  m_disk :: "string \<Rightarrow> disk"
  m_blockSize :: "string \<Rightarrow> nat option"
  m_discard :: "bytes \<Rightarrow> bytes"
  m_discards :: bool
  m_entries :: "string list option"
  m_sys :: "string \<Rightarrow> int option \<times> int option"
  m_sectors :: "int option"
  m_sfdisk :: "string \<Rightarrow> bool"
  m_ext4 :: "string \<Rightarrow> mount option"
  m_fat :: "string \<Rightarrow> mount option"
  m_agent :: "(nat \<times> string) option"
  m_stamp :: string
  m_progress :: "int list"
  m_text :: "fail \<Rightarrow> string"
  m_why :: string

text \<open>A message to the server: the phase, the percentage, the error and the note.\<close>

type_synonym message = "string \<times> int \<times> string \<times> string"

definition report_of :: "string \<Rightarrow> int \<Rightarrow> string \<Rightarrow> message" where
  "report_of phase percent e = (phase, percent, e, [])"

definition remark :: "string \<Rightarrow> message" where
  "remark s = (''seed'', 100, [], s)"

text \<open>A quotient printed without fraction: rounded to the nearest, a tie to the even one.\<close>

definition rounded :: "int \<Rightarrow> int \<Rightarrow> int" where
  "rounded n d = (let q = n div d; r = n mod d in if 2 * r > d \<or> 2 * r = d \<and> odd q then q + 1 else q)"

definition human :: "int \<Rightarrow> string" where
  "human n =
     (if n \<ge> 1073741824 then (let c = rounded (n * 100) 1073741824 in show_int (c div 100) @ ''.'' @ pad2 (c mod 100) @ '' GB'')
      else if n \<ge> 1048576 then show_int (rounded n 1048576) @ '' MB''
      else show_int n @ '' B'')"

definition grow_notes :: "machine \<Rightarrow> provisionResp \<Rightarrow> string \<Rightarrow> message list" where
  "grow_notes m j target =
     (if o_no_grow (j_opts j) then []
      else case growLastPartition (m_sfdisk m) (m_sys m) (m_sectors m) (m_entries m) target of
             None \<Rightarrow> [remark (''partition not grown: '' @ m_why m)]
           | Some n \<Rightarrow> if n > 0 then [remark (''last partition grown by '' @ human n)] else [])"

definition seed_root :: "machine \<Rightarrow> provisionResp \<Rightarrow> mount \<Rightarrow> mount \<times> message list" where
  "seed_root m j r0 =
     (let (r1, ok1) = (if o_no_root_keys (j_opts j) then (r0, True) else seedRootKeys (j_ssh_keys j) r0);
          n1 = (if o_no_root_keys (j_opts j) then []
                else if \<not> ok1 then [remark (''SSH keys for root not placed: '' @ m_why m)]
                else if j_ssh_keys j \<noteq> [] then [remark (''SSH keys for root placed ('' @ show_int (int (length (j_ssh_keys j))) @ '')'')]
                else []);
          (r2, s) = enableSSH r1;
          n2 = (case s of None \<Rightarrow> [remark (''SSH not enabled: '' @ m_why m)] | Some msg \<Rightarrow> [remark (''SSH: '' @ msg)]);
          (r3, ok3) = (if o_no_agent (j_opts j) then (r2, True) else installAgent (m_agent m) r2);
          n3 = (if o_no_agent (j_opts j) then [remark ''agent skipped as configured'']
                else if \<not> ok3 then [remark (''agent NOT installed: '' @ m_why m)]
                else [remark ''agent installed and enabled''])
      in (r3, n1 @ n2 @ n3))"

text \<open>The root and the boot file system after it, and what was said.\<close>

definition seed :: "machine \<Rightarrow> provisionResp \<Rightarrow> string \<Rightarrow> string \<Rightarrow> mount option \<times> mount option \<times> message list" where
  "seed m j serial target =
     (case findRootPartition (\<lambda>n. map_option nat (snd (m_sys m n))) (m_entries m) target of
        None \<Rightarrow> (None, None, [])
      | Some part \<Rightarrow>
          (case m_ext4 m part of
             None \<Rightarrow> (None, None, [])
           | Some r \<Rightarrow>
               (let (r0, placed) = place ''etc/sheath/agent.env'' (agent_env j (trim_right ''/'' (m_server m)) serial (m_stamp m)) r
                in if \<not> placed then (Some r0, None, [])
                   else
                    (let (r3, notes) = seed_root m j r0;
                         (boot, ok) = seedCloudInit j serial
                            (case findBootPartition (\<lambda>p. m_fat m p \<noteq> None) (m_entries m) target of None \<Rightarrow> None | Some p \<Rightarrow> m_fat m p)
                     in if o_no_cloud_init (j_opts j) then (Some r3, None, notes)
                        else (Some r3, boot, notes @ [if ok then remark ''cloud-init seed placed''
                                                      else remark (''cloud-init seed skipped: '' @ m_why m)])))))"

section \<open>The whole run\<close>

datatype finale = Parked | Stays | Console | Restarts | StillAsking

record outcome =
  oc_finale :: finale
  oc_messages :: "message list"
  oc_written :: "(string \<times> disk) option"
  oc_root :: "mount option"
  oc_boot :: "mount option"

definition untouched_outcome :: "finale \<Rightarrow> outcome" where
  "untouched_outcome f = \<lparr>oc_finale = f, oc_messages = [], oc_written = None, oc_root = None, oc_boot = None\<rparr>"

definition wipe_notes :: "machine \<Rightarrow> string \<Rightarrow> message list" where
  "wipe_notes m target =
     (case (dk_writable (m_disk m target), m_blockSize m target) of
        (True, Some sz) \<Rightarrow>
          [report_of ''wiping'' 10 []]
          @ (if m_discards m \<and> sz > 0 then [] else [remark (''discard not accepted: '' @ m_why m)])
          @ [report_of ''wiping'' 40 []]
          @ (if room (m_disk m target) < min wipeEnds sz then [] else [report_of ''wiping'' 75 []])
      | _ \<Rightarrow> [])"

definition runWipe :: "machine \<Rightarrow> provisionResp \<Rightarrow> string \<Rightarrow> outcome" where
  "runWipe m j target =
     (case checkTarget_dev (m_disk m target) of
        Some e \<Rightarrow> (untouched_outcome Parked)\<lparr>oc_messages := [report_of ''error'' 0 (m_text m e)]\<rparr>
      | None \<Rightarrow>
          (case wipeDisk (m_blockSize m target) (if m_discards m then m_discard m else (\<lambda>xs. xs)) (m_disk m target) of
             (d, Some e) \<Rightarrow> (untouched_outcome Parked)\<lparr>oc_messages := wipe_notes m target @ [report_of ''error'' 0 (m_text m e)],
                                oc_written := Some (target, d)\<rparr>
           | (d, None) \<Rightarrow> (untouched_outcome (if o_after (j_opts j) = ''reboot'' then Restarts else Stays))
                 \<lparr>oc_messages := wipe_notes m target @ [report_of ''wiping'' 95 [], report_of ''wiped'' 100 []], oc_written := Some (target, d)\<rparr>))"

definition install :: "machine \<Rightarrow> string \<Rightarrow> provisionResp \<Rightarrow> string \<Rightarrow> outcome" where
  "install m serial j target =
     (case checkTarget_dev (m_disk m target) of
        Some e \<Rightarrow> untouched_outcome Parked
      | None \<Rightarrow>
          (case writeImage (m_codecs m) (j_url j) (j_sha256 j) (o_require_checksum (j_opts j)) (m_conns m) (m_disk m target) of
             (d, Some e) \<Rightarrow> (untouched_outcome Parked)\<lparr>oc_messages := map (\<lambda>p. report_of ''writing'' p []) (m_progress m)
                                  @ [report_of ''error'' 0 (m_text m e)], oc_written := Some (target, d)\<rparr>
           | (d, None) \<Rightarrow>
               (case seed m j serial target of
                  (rt, boot, notes) \<Rightarrow>
                    \<lparr>oc_finale = (if o_after (j_opts j) = ''halt'' then Stays else if o_after (j_opts j) = ''shell'' then Console else Restarts),
                     oc_messages = map (\<lambda>p. report_of ''writing'' p []) (m_progress m) @ grow_notes m j target @ notes
                       @ [report_of ''done'' 100 []]
                       @ (if o_after (j_opts j) = ''halt'' then [remark ''installation finished, blade halted as configured'']
                          else if o_after (j_opts j) = ''shell'' then [remark ''installation finished, console as configured''] else []),
                     oc_written = Some (target, d), oc_root = rt, oc_boot = boot\<rparr>)))"

definition run :: "machine \<Rightarrow> outcome" where
  "run m =
     (case m_serial m of
        None \<Rightarrow> untouched_outcome Parked
      | Some serial \<Rightarrow>
          if m_server m = [] then untouched_outcome Parked
          else case waitForJob None (m_polls m) of
                 Asking \<Rightarrow> untouched_outcome StillAsking
               | Restarting \<Rightarrow> untouched_outcome Restarts
               | Job j \<Rightarrow> if j_status j = ''wipe'' then runWipe m j (target_or_default j)
                          else install m serial j (target_or_default j))"

section \<open>Nothing is written unless the server said so\<close>

lemma waitForJob_Job:
  "waitForJob idle ps = Job j \<Longrightarrow> (j_status j = ''go'' \<or> j_status j = ''wipe'') \<and> (\<exists>t es. (t, es, Reply j) \<in> set ps)"
  by (induction idle ps rule: waitForJob.induct) (auto simp: Let_def split: if_splits)

text \<open>The first answer that is a job.\<close>

definition first_job :: "(instant \<times> string list option \<times> poll) list \<Rightarrow> provisionResp option" where
  "first_job ps = (case List.map_filter (\<lambda>(t, es, p). case p of
       Reply j \<Rightarrow> if j_status j = ''go'' \<or> j_status j = ''wipe'' then Some j else None | _ \<Rightarrow> None) ps of [] \<Rightarrow> None | j # js \<Rightarrow> Some j)"

lemma first_job_Cons:
  "first_job ((t, es, Reply j) # ps) = (if j_status j = ''go'' \<or> j_status j = ''wipe'' then Some j else first_job ps)"
  "first_job ((t, es, Unreachable_server) # ps) = first_job ps" "first_job ((t, es, Unreadable) # ps) = first_job ps"
  "first_job [] = None"
  by (simp_all add: first_job_def List.map_filter_simps)

lemma waitForJob_first: "waitForJob idle ps = Job j \<Longrightarrow> first_job ps = Some j"
  by (induction idle ps rule: waitForJob.induct) (auto simp: first_job_Cons Let_def split: if_splits)

lemma written_run:
  "oc_written (install m serial j target) = (case checkTarget_dev (m_disk m target) of Some e \<Rightarrow> None | None \<Rightarrow>
     Some (target, fst (writeImage (m_codecs m) (j_url j) (j_sha256 j) (o_require_checksum (j_opts j)) (m_conns m) (m_disk m target))))"
  "oc_written (runWipe m j target) = (case checkTarget_dev (m_disk m target) of Some e \<Rightarrow> None | None \<Rightarrow>
     Some (target, fst (wipeDisk (m_blockSize m target) (if m_discards m then m_discard m else (\<lambda>xs. xs)) (m_disk m target))))"
  by (simp_all add: install_def runWipe_def untouched_outcome_def split: option.split prod.split)


section \<open>Success is reported exactly after a verified write\<close>

text \<open>What the centre makes of the messages of one run, as they arrive.\<close>

fun deliver :: "string \<Rightarrow> (instant \<times> message) list \<Rightarrow> app \<Rightarrow> app" where
  "deliver serial [] a = a"
| "deliver serial ((t, phase, percent, e, n) # ms) a = deliver serial ms (hProvisionStatus a t serial phase percent e n)"

definition settles :: "message \<Rightarrow> install_state option" where
  "settles x = (case x of (phase, percent, e, n) \<Rightarrow>
     if e = [] \<and> n = [] \<and> phase = ''wiped'' then Some InstallIdle
     else if e = [] \<and> n = [] \<and> phase = ''done'' then Some InstallDone else None)"

lemma deliver_messages_append: "deliver serial (xs @ ys) a = deliver serial ys (deliver serial xs a)"
  by (induction serial xs a rule: deliver.induct) simp_all

lemma intent_deliver:
  "intent (deliver serial tms a) k =
     (case List.map_filter (\<lambda>(t, x). settles x) (rev tms) of [] \<Rightarrow> intent a k
      | s # ss \<Rightarrow> if k = serial then map_option (\<lambda>_. s) (intent a k) else intent a k)"
proof (induction tms rule: rev_induct)
  case (snoc x tms)
  obtain t phase percent e n where x: "x = (t, phase, percent, e, n)" by (cases x) auto
  show ?case using snoc
    by (auto simp: x deliver_messages_append intent_status settles_def List.map_filter_simps option.map_comp comp_def split: list.split)
qed (simp add: List.map_filter_simps)

lemma settles_simps [simp]:
  "settles (remark s) = None" "settles (report_of ''writing'' p e) = None" "settles (report_of ''wiping'' p e) = None"
  "settles (report_of ''done'' p []) = Some InstallDone" "settles (report_of ''wiped'' p []) = Some InstallIdle"
  "settles (report_of ''error'' p e) = None"
  by (simp_all add: settles_def remark_def report_of_def)

definition quiet :: "message list \<Rightarrow> bool" where
  "quiet ms \<longleftrightarrow> list_all (\<lambda>x. settles x = None) ms"

lemma quiet_simps [simp]:
  "quiet []" "quiet (x # ms) = (settles x = None \<and> quiet ms)" "quiet (ms @ ns) = (quiet ms \<and> quiet ns)"
  "quiet (map (\<lambda>p. report_of ''writing'' p e) ps)"
  by (auto simp: quiet_def list_all_iff)

lemma quiet_grow: "quiet (grow_notes m j target)"
  unfolding grow_notes_def by (cases "growLastPartition (m_sfdisk m) (m_sys m) (m_sectors m) (m_entries m) target") simp_all

lemma quiet_wipe: "quiet (wipe_notes m target)"
  unfolding wipe_notes_def
  by (cases "m_blockSize m target"; cases "dk_writable (m_disk m target)") (simp_all del: append_Cons)

lemma quiet_seed_root: "quiet (snd (seed_root m j r))"
  unfolding seed_root_def Let_def case_prod_beta by (simp split: option.split del: append_Cons)

lemma quiet_seed: "quiet (snd (snd (seed m j serial target)))"
proof -
  have one: "quiet [if ok then remark x else remark y]" for ok x y by simp
  show ?thesis
  proof (cases "findRootPartition (\<lambda>n. map_option nat (snd (m_sys m n))) (m_entries m) target")
    case (Some part)
    show ?thesis
    proof (cases "m_ext4 m part")
      case (Some r)
      show ?thesis unfolding seed_def \<open>findRootPartition _ _ _ = _\<close> Some option.case Let_def case_prod_beta
        by (simp only: quiet_seed_root quiet_simps(1,3) one snd_conv fst_conv simp_thms split: if_split)
    qed (use Some in \<open>simp add: seed_def\<close>)
  qed (simp add: seed_def)
qed

text \<open>The one message of a run that settles an order, if there is one.\<close>

definition carried_out :: "machine \<Rightarrow> provisionResp \<Rightarrow> bool" where
  "carried_out m j \<longleftrightarrow> checkTarget_dev (m_disk m (target_or_default j)) = None
     \<and> snd (if j_status j = ''wipe''
            then wipeDisk (m_blockSize m (target_or_default j)) (if m_discards m then m_discard m else (\<lambda>xs. xs)) (m_disk m (target_or_default j))
            else writeImage (m_codecs m) (j_url j) (j_sha256 j) (o_require_checksum (j_opts j)) (m_conns m) (m_disk m (target_or_default j))) = None"

definition last_word :: "provisionResp \<Rightarrow> message" where
  "last_word j = (if j_status j = ''wipe'' then report_of ''wiped'' 100 [] else report_of ''done'' 100 [])"

lemma messages_run:
  assumes "m_serial m = Some serial" and "m_server m \<noteq> []" and "waitForJob None (m_polls m) = Job j"
  shows "if carried_out m j then \<exists>xs ys. oc_messages (run m) = xs @ last_word j # ys \<and> quiet xs \<and> quiet ys else quiet (oc_messages (run m))"
proof (cases "j_status j = ''wipe''")
  case True
  have r: "run m = runWipe m j (target_or_default j)" using assms True by (simp add: run_def)
  show ?thesis
  proof (cases "checkTarget_dev (m_disk m (target_or_default j))")
    case None
    obtain d e where w: "wipeDisk (m_blockSize m (target_or_default j)) (if m_discards m then m_discard m else (\<lambda>xs. xs))
        (m_disk m (target_or_default j)) = (d, e)" by (rule prod.exhaust)
    show ?thesis
    proof (cases e)
      case (Some x)
      thus ?thesis using None w True by (simp add: r carried_out_def runWipe_def quiet_wipe)
    next
      case e: None
      have "oc_messages (run m) = (wipe_notes m (target_or_default j) @ [report_of ''wiping'' 95 []]) @ last_word j # []"
        using None w True e by (simp add: r runWipe_def last_word_def)
      moreover have "quiet (wipe_notes m (target_or_default j) @ [report_of ''wiping'' 95 []])" by (simp add: quiet_wipe)
      ultimately show ?thesis using None w True e quiet_simps(1) unfolding carried_out_def by (simp only: snd_conv if_True simp_thms) blast
    qed
  qed (simp add: r carried_out_def runWipe_def)
next
  case False
  let ?T = "target_or_default j"
  have r: "run m = install m serial j ?T" using assms False by (simp add: run_def)
  show ?thesis
  proof (cases "checkTarget_dev (m_disk m ?T)")
    case None
    obtain d e where w: "writeImage (m_codecs m) (j_url j) (j_sha256 j) (o_require_checksum (j_opts j)) (m_conns m) (m_disk m ?T) = (d, e)"
      by (rule prod.exhaust)
    show ?thesis
    proof (cases e)
      case (Some x)
      thus ?thesis using None w False by (simp add: r carried_out_def install_def)
    next
      case e: None
      define ys where "ys = (if o_after (j_opts j) = ''halt'' then [remark ''installation finished, blade halted as configured'']
                          else if o_after (j_opts j) = ''shell'' then [remark ''installation finished, console as configured''] else [])"
      define xs where "xs = map (\<lambda>p. report_of ''writing'' p []) (m_progress m) @ grow_notes m j ?T @ snd (snd (seed m j serial ?T))"
      have "oc_messages (run m) = xs @ last_word j # ys"
        using None w False e unfolding r install_def ys_def xs_def last_word_def
        by (simp only: option.case prod.case case_prod_beta snd_conv outcome.simps append_assoc append.simps if_False)
      moreover have "quiet xs" "quiet ys" by (simp_all add: xs_def ys_def quiet_grow quiet_seed)
      ultimately show ?thesis using None w False e unfolding carried_out_def by (simp only: snd_conv if_True if_False simp_thms) blast
    qed
  qed (simp add: r carried_out_def install_def untouched_outcome_def)
qed

lemma map_filter_only:
  "(\<And>x. x \<in> set xs \<Longrightarrow> f x = (if P x then Some c else None)) \<Longrightarrow> List.map_filter f xs = map (\<lambda>_. c) (filter P xs)"
  by (induction xs) (simp_all add: List.map_filter_simps)

lemma settles_last: "settles (last_word j) = Some (if j_status j = ''wipe'' then InstallIdle else InstallDone)"
  by (simp add: last_word_def)

lemma order_settled:
  assumes "m_serial m = Some serial" and "m_server m \<noteq> []" and "waitForJob None (m_polls m) = Job j"
    and "set (map snd tms) \<subseteq> set (oc_messages (run m))" and "intent a serial = Some x"
  shows "intent (deliver serial tms a) serial
       = Some (if last_word j \<in> set (map snd tms) then (if j_status j = ''wipe'' then InstallIdle else InstallDone) else x)
     \<and> (last_word j \<in> set (oc_messages (run m))) = carried_out m j"
proof -
  have only: "settles y = None \<or> y = last_word j \<and> carried_out m j" if "y \<in> set (oc_messages (run m))" for y
    using messages_run [OF assms(1-3)] that by (auto simp: quiet_def list_all_iff split: if_splits)
  have told: "(last_word j \<in> set (oc_messages (run m))) = carried_out m j"
    using messages_run [OF assms(1-3)] settles_last [of j] by (auto simp: quiet_def list_all_iff split: if_splits)
  have s: "settles y = (if y = last_word j then Some (if j_status j = ''wipe'' then InstallIdle else InstallDone) else None)"
    if "y \<in> set (map snd tms)" for y
    using only [of y] that assms(4) settles_last [of j] by auto
  have m: "List.map_filter (\<lambda>(t, x). settles x) (rev tms)
      = map (\<lambda>_. if j_status j = ''wipe'' then InstallIdle else InstallDone) (filter (\<lambda>(t, y). y = last_word j) (rev tms))"
    using s by (intro map_filter_only) force
  show ?thesis
  proof (cases "filter (\<lambda>(t, y). y = last_word j) (rev tms)")
    case Nil
    hence "last_word j \<notin> set (map snd tms)" by (auto simp: filter_empty_conv)
    thus ?thesis using told assms(5) by (simp add: intent_deliver m Nil)
  next
    case (Cons y ys)
    hence "y \<in> set (filter (\<lambda>(t, y). y = last_word j) (rev tms))" by simp
    hence "last_word j \<in> set (map snd tms)" by force
    thus ?thesis using told assms(5) by (simp add: intent_deliver m Cons)
  qed
qed


section \<open>A card without a system that looks installed\<close>

text \<open>An eMMC brings hardware boot partitions whose names begin with its own, so one that holds no
  system at all counts as holding one: a blade without orders that was pointed at it does not go
  on asking, it restarts a minute later, every time.\<close>

theorem empty_emmc_restarts:
  assumes "j_status j = ''idle''" and "j_target j = ''/dev/mmcblk0''" and "''mmcblk0boot0'' \<in> set es" and "t1 - t0 > minutes 1"
  shows "waitForJob None ((t0, es0, Reply j) # (t1, Some es, Reply j) # ps) = Restarting"
proof -
  have b: "path_base ''/dev/mmcblk0'' = ''mmcblk0''" by (simp add: path_base_def after_last_def Let_def)
  have "installedLooking ''/dev/mmcblk0'' (Some es)" using assms(3) unfolding installedLooking_def option.case dev_names_def b
    by (force simp: filter_empty_conv has_prefix_def)
  moreover have "\<not> t0 - t0 > minutes 1" by (simp add: minutes_def)
  moreover have "target_or_default j = ''/dev/mmcblk0''" using assms(2) by (simp add: target_or_default_def)
  moreover have "j_status j \<noteq> ''go''" "j_status j \<noteq> ''wipe''" using assms(1) by simp_all
  ultimately show ?thesis using assms(1,4) by (simp only: waitForJob.simps Let_def option.case simp_thms if_True if_False)
qed

section \<open>The new system answers on port 22\<close>

lemma stem_service: "stem (x @ ''.service'') = x"
  by (simp add: stem_def has_suffix_def has_prefix_def)

text \<open>Where the image has a unit for it, enabling the secure shell ends with something that starts
  it - the unit linked into the target, or the socket that was there - touches no other file, and
  done again changes nothing.\<close>

theorem enableSSH_starts:
  assumes "enableSSH m = (m', Some msg)"
  shows "\<exists>rel \<in> set ssh_units. stands m rel
       \<and> (stands m' (wants_of (path_base rel)) \<or> stands m' (socket_of (path_base rel)))
       \<and> (\<forall>p. p \<noteq> wants_of (path_base rel) \<longrightarrow> map_of (mt_tree m') p = map_of (mt_tree m) p)
       \<and> (stands m (wants_of (path_base rel)) \<or> stands m (socket_of (path_base rel)) \<or> map_of (mt_tree m') (wants_of (path_base rel)) = Some (''/'' @ rel))"
proof -
  obtain rel where f: "find (stands m) ssh_units = Some rel"
    using assms by (auto simp: enableSSH_def split: option.splits)
  have r: "rel \<in> set ssh_units" "stands m rel" using find_SomeD [OF f] by simp_all
  show ?thesis
  proof (cases "stands m (socket_of (path_base rel)) \<or> stands m (wants_of (path_base rel))")
    case True
    hence "m' = m" using assms f by (auto simp: enableSSH_def Let_def split: if_splits)
    thus ?thesis using True r by blast
  next
    case False
    hence "m' = m\<lparr>mt_tree := AList.update (wants_of (path_base rel)) (''/'' @ rel) (mt_tree m)\<rparr>"
      using assms f by (auto simp: enableSSH_def Let_def place_def split: if_splits)
    thus ?thesis using r by (intro bexI [of _ rel]) (simp_all add: stands_def update_conv')
  qed
qed

section \<open>The centre's answers as the installer reads them\<close>

text \<open>The options are typed as the centre writes them; they come with an installation only.\<close>

definition opts_of :: "jmap \<Rightarrow> installOpts" where
  "opts_of x =
     (let on = (\<lambda>k. as_bool (map_of x k) = Some True)
      in \<lparr>o_no_grow = on ''no_grow'', o_after = (case as_str (map_of x ''after'') of Some v \<Rightarrow> v | None \<Rightarrow> []),
          o_require_checksum = on ''require_checksum'', o_no_root_keys = on ''no_root_keys'', o_no_cloud_init = on ''no_cloud_init'',
          o_no_agent = on ''no_agent'', o_reboot_delay = (case num (map_of x ''reboot_delay'') of Some q \<Rightarrow> floor q | None \<Rightarrow> 0)\<rparr>)"

definition bare_resp :: "string \<Rightarrow> string \<Rightarrow> provisionResp" where
  "bare_resp st base = \<lparr>j_status = st, j_image = [], j_url = [], j_sha256 = [], j_target = [], j_server_url = base, j_token = [],
     j_hostname = [], j_ssh_keys = [], j_opts = opts_of []\<rparr>"

fun resp_of :: "string \<Rightarrow> answer \<Rightarrow> provisionResp" where
  "resp_of base (GoJob im url sha sd tgt x tok host ks) =
     (bare_resp ''go'' base)\<lparr>j_image := im, j_url := url, j_sha256 := sha, j_target := tgt, j_token := tok, j_hostname := host,
        j_ssh_keys := ks, j_opts := opts_of x\<rparr>"
| "resp_of base (WipeJob tgt tok) = (bare_resp ''wipe'' base)\<lparr>j_target := tgt, j_token := tok\<rparr>"
| "resp_of base (Idle im tgt) = (bare_resp ''idle'' [])\<lparr>j_image := im, j_target := tgt\<rparr>"
| "resp_of base Waiting = bare_resp ''waiting'' []"
| "resp_of base (NotInCatalogue im) = bare_resp [] []"

text \<open>The centre sends no options with an erase, so the restart an operator may have configured never
  happens after one: an erase the centre ordered ends with the blade standing still, or parked on
  a failure.\<close>

theorem erased_blade_never_restarts:
  assumes "waitForJob None (m_polls m) = Job (resp_of base (WipeJob tgt tok))"
  shows "oc_finale (run m) \<in> {Stays, Parked}"
proof -
  have j: "j_status (resp_of base (WipeJob tgt tok)) = ''wipe''" "o_after (j_opts (resp_of base (WipeJob tgt tok))) = []"
    by (simp_all add: bare_resp_def opts_of_def)
  show ?thesis unfolding run_def assms waited.case runWipe_def j untouched_outcome_def by (simp split: option.split prod.split)
qed

section \<open>Instances\<close>

definition plain_opts :: installOpts where
  "plain_opts = \<lparr>o_no_grow = False, o_after = [], o_require_checksum = True, o_no_root_keys = False, o_no_cloud_init = False,
     o_no_agent = False, o_reboot_delay = 0\<rparr>"

definition a_job :: "string \<Rightarrow> provisionResp" where
  "a_job st = \<lparr>j_status = st, j_image = ''dietpi'', j_url = ''http://c/a.img'', j_sha256 = ''AB'', j_target = (if st = ''go'' then [] else ''/dev/mmcblk0''),
     j_server_url = [], j_token = ''secret'', j_hostname = [], j_ssh_keys = [], j_opts = plain_opts\<rparr>"

definition a_machine :: machine where
  "a_machine = \<lparr>m_serial = Some ''c0ffee01'', m_server = ''http://c'', m_polls = [(0, None, Unreadable), (5, None, Reply (a_job ''go''))],
     m_conns = [Response 200 [Bytes [1, 2], Bytes [3]]], m_codecs = no_codecs, m_disk = (\<lambda>_. small_disk), m_blockSize = (\<lambda>_. Some 5),
     m_discard = (\<lambda>xs. xs), m_discards = True, m_entries = None, m_sys = (\<lambda>_. (None, None)), m_sectors = None, m_sfdisk = (\<lambda>_. False),
     m_ext4 = (\<lambda>_. None), m_fat = (\<lambda>_. None), m_agent = None, m_stamp = [], m_progress = [50], m_text = (\<lambda>_. ''failed''), m_why = []\<rparr>"

lemma a_job_go: "j_status (a_job ''go'') = ''go''" "j_target (a_job ''go'') = []" "j_url (a_job ''go'') = ''http://c/a.img''"
    "j_sha256 (a_job ''go'') = ''AB''" "o_require_checksum (j_opts (a_job ''go''))"
  by (simp_all add: a_job_def plain_opts_def)

lemma a_machine_parts:
  "m_serial a_machine = Some ''c0ffee01''" "m_server a_machine \<noteq> []" "waitForJob None (m_polls a_machine) = Job (a_job ''go'')"
  "m_disk a_machine t = small_disk" "m_codecs a_machine = no_codecs" "m_conns a_machine = [Response 200 [Bytes [1, 2], Bytes [3]]]"
  by (simp_all add: a_machine_def a_job_go)

lemma a_machine_done: "carried_out a_machine (a_job ''go'')"
proof -
  have low: "lower ''AB'' = lower ''ab''" by code_simp
  have "checkTarget_dev small_disk = None" by (simp add: checkTarget_dev_def small_disk_def)
  thus ?thesis using written_small [of "''AB''" True] low a_job_go(1)
    by (simp add: carried_out_def a_machine_parts a_job_go)
qed


theorem empty_emmc_restarts_witness:
  "waitForJob None [(0, Some [''mmcblk0''], Reply (a_job ''idle'')), (minutes 2, Some [''mmcblk0'', ''mmcblk0boot0'', ''mmcblk0boot1''], Reply (a_job ''idle''))]
     = Restarting"
  by (rule empty_emmc_restarts) (simp_all add: a_job_def minutes_def nsec_def)

definition fresh_root :: mount where
  "fresh_root = \<lparr>mt_tree = [(''usr/lib/systemd/system/ssh.service'', ''[Unit]'')], mt_writable = (\<lambda>_. True)\<rparr>"

theorem enableSSH_starts_witness:
  "snd (enableSSH fresh_root) = Some ''ssh.service enabled, 0 host keys''
   \<and> (\<exists>rel\<in>set ssh_units. stands fresh_root rel
       \<and> (stands (fst (enableSSH fresh_root)) (wants_of (path_base rel)) \<or> stands (fst (enableSSH fresh_root)) (socket_of (path_base rel))))"
proof -
  have s: "snd (enableSSH fresh_root) = Some ''ssh.service enabled, 0 host keys''" by code_simp
  hence "enableSSH fresh_root = (fst (enableSSH fresh_root), Some ''ssh.service enabled, 0 host keys'')" by (metis prod.collapse)
  from enableSSH_starts [OF this] s show ?thesis by blast
qed

theorem erased_blade_never_restarts_witness:
  "oc_finale (run (a_machine\<lparr>m_polls := [(3, None, Reply (resp_of ''http://c'' (WipeJob ''/dev/nvme0n1'' ''secret'')))]\<rparr>)) \<in> {Stays, Parked}"
proof (rule erased_blade_never_restarts)
  have "j_status (resp_of ''http://c'' (WipeJob ''/dev/nvme0n1'' ''secret'')) = ''wipe''" by (simp add: bare_resp_def)
  thus "waitForJob None (m_polls (a_machine\<lparr>m_polls := [(3, None, Reply (resp_of ''http://c'' (WipeJob ''/dev/nvme0n1'' ''secret'')))]\<rparr>))
      = Job (resp_of ''http://c'' (WipeJob ''/dev/nvme0n1'' ''secret''))"
    by (simp del: resp_of.simps)
qed

end
