(* ===== verification/Fat.thy ===== *)
theory Fat
  imports Installer
begin

text \<open>
  Aiming the netboot payload at a site (\<^verbatim>\<open>src/site/fat.go\<close>, \<^verbatim>\<open>replaceServer\<close> and \<^verbatim>\<open>aimPayloadHere\<close> of
  \<^verbatim>\<open>src/site/images.go\<close>): one file inside a FAT16 image is rewritten in place. An image is the list
  of its bytes. The theorems: what was written is what is read, nothing outside the cluster of
  the file and its length changes, and the installer that boots from the payload talks to the
  site - unless the older spelling stands in front of it.
\<close>

section \<open>The image\<close>

definition u16 :: "bytes \<Rightarrow> nat \<Rightarrow> nat" where
  "u16 d i = d ! i + 256 * d ! (i + 1)"

definition u32 :: "bytes \<Rightarrow> nat \<Rightarrow> nat" where
  "u32 d i = u16 d i + 65536 * u16 d (i + 2)"

definition of_u32 :: "nat \<Rightarrow> bytes" where
  "of_u32 n = [n mod 256, n div 256 mod 256, n div 65536 mod 256, n div 16777216 mod 256]"

record fat16 =
  ft_bytesPerSec :: nat
  ft_secPerClus :: nat
  ft_rootOff :: nat
  ft_rootEntries :: nat
  ft_dataOff :: nat

definition openFAT16 :: "bytes \<Rightarrow> fat16 option" where
  "openFAT16 d =
     (if length d < 512 then None
      else (let bps = u16 d 11; spc = d ! 13; reserved = u16 d 14; numFATs = d ! 16; rootEntries = u16 d 17; secPerFAT = u16 d 22
            in if bps = 0 \<or> spc = 0 \<or> numFATs = 0 \<or> secPerFAT = 0 then None
               else (let rootOff = (reserved + numFATs * secPerFAT) * bps;
                         rootSectors = (rootEntries * 32 + bps - 1) div bps;
                         dataOff = rootOff + rootSectors * bps
                     in if dataOff \<ge> length d then None
                        else Some \<lparr>ft_bytesPerSec = bps, ft_secPerClus = spc, ft_rootOff = rootOff, ft_rootEntries = rootEntries,
                               ft_dataOff = dataOff\<rparr>)))"

definition padded :: "string \<Rightarrow> nat \<Rightarrow> bytes" where
  "padded s n = map code (take n s) @ replicate (n - length s) 32"

definition fat83 :: "string \<Rightarrow> bytes" where
  "fat83 name = (case cut CHR ''.'' (upper name) of
     None \<Rightarrow> padded (upper name) 8 @ padded [] 3 | Some (b, e) \<Rightarrow> padded b 8 @ padded e 3)"

text \<open>The directory, entry by entry from the \<open>i\<close>th.\<close>

function find_from :: "bytes \<Rightarrow> fat16 \<Rightarrow> bytes \<Rightarrow> nat \<Rightarrow> nat option" where
  "find_from d f want i =
     (if i \<ge> ft_rootEntries f then None
      else (let off = ft_rootOff f + i * 32; attr = d ! (off + 11)
            in if off + 32 > length d then None
               else if d ! off = 0 then None
               else if d ! off = 229 then find_from d f want (i + 1)
               else if attr mod 16 = 15 \<or> attr div 8 mod 2 \<noteq> 0 then find_from d f want (i + 1)
               else if take 11 (drop off d) = want then Some off
               else find_from d f want (i + 1)))"
  by pat_completeness auto
termination
  by (relation "measure (\<lambda>(d, f, want, i). ft_rootEntries f - i)") auto

declare find_from.simps [simp del]

definition find_file :: "bytes \<Rightarrow> fat16 \<Rightarrow> string \<Rightarrow> nat option" where
  "find_file d f name = find_from d f (fat83 name) 0"

definition overlay :: "nat \<Rightarrow> bytes \<Rightarrow> bytes \<Rightarrow> bytes" where
  "overlay i xs d = take i d @ xs @ drop (i + length xs) d"

definition clusterSize :: "fat16 \<Rightarrow> nat" where
  "clusterSize f = ft_secPerClus f * ft_bytesPerSec f"

definition replace_file :: "bytes \<Rightarrow> fat16 \<Rightarrow> string \<Rightarrow> bytes \<Rightarrow> bytes option" where
  "replace_file d f name content =
     (case find_file d f name of
        None \<Rightarrow> None
      | Some off \<Rightarrow>
          (let cluster = u16 d (off + 26); start = ft_dataOff f + (cluster - 2) * clusterSize f
           in if cluster < 2 then None
              else if length content > clusterSize f then None
              else if start + clusterSize f > length d then None
              else Some (overlay (off + 28) (of_u32 (length content))
                     (overlay start (content @ replicate (clusterSize f - length content) 0) d))))"

text \<open>Reading it back. A first cluster below the second one can reach before the start of the image.\<close>

definition readFATFile :: "bytes \<Rightarrow> string \<Rightarrow> bytes option Json.outcome" where
  "readFATFile d name =
     (case openFAT16 d of
        None \<Rightarrow> Value None
      | Some f \<Rightarrow>
          (case find_file d f name of
             None \<Rightarrow> Value None
           | Some off \<Rightarrow>
               (let cluster = int (u16 d (off + 26)); sz = u32 d (off + 28);
                    start = int (ft_dataOff f) + (cluster - 2) * int (clusterSize f)
                in if sz > clusterSize f \<or> start + int sz > int (length d) then Value None
                   else if start < 0 then Panic
                   else Value (Some (take sz (drop (nat start) d))))))"

definition patchCmdline :: "bytes \<Rightarrow> string \<Rightarrow> bytes option" where
  "patchCmdline d cmd =
     (case openFAT16 d of
        None \<Rightarrow> None
      | Some f \<Rightarrow> replace_file d f ''cmdline.txt'' (map code (trim_right [CHR 0x0A] cmd @ [CHR 0x0A])))"

section \<open>What was written is what is read\<close>

lemma length_overlay: "i + length xs \<le> length d \<Longrightarrow> length (overlay i xs d) = length d"
  by (simp add: overlay_def)

lemma nth_overlay:
  "i + length xs \<le> length d \<Longrightarrow> overlay i xs d ! k = (if k < i then d ! k else if k < i + length xs then xs ! (k - i) else d ! k)"
  by (auto simp: overlay_def nth_append)

definition passed_over :: "bytes \<Rightarrow> bytes \<Rightarrow> nat \<Rightarrow> bool" where
  "passed_over d want off \<longleftrightarrow> d ! off = 229 \<or> d ! (off + 11) mod 16 = 15 \<or> d ! (off + 11) div 8 mod 2 \<noteq> 0 \<or> take 11 (drop off d) \<noteq> want"

lemma find_from_next:
  "find_from d f want i =
     (if ft_rootEntries f \<le> i \<or> length d < ft_rootOff f + i * 32 + 32 \<or> d ! (ft_rootOff f + i * 32) = 0 then None
      else if passed_over d want (ft_rootOff f + i * 32) then find_from d f want (i + 1) else Some (ft_rootOff f + i * 32))"
  by (subst find_from.simps) (simp add: Let_def passed_over_def)

declare find_from_next [code]

lemma find_fromD:
  "find_from d f want i = Some off \<Longrightarrow> \<exists>j. i \<le> j \<and> j < ft_rootEntries f \<and> off = ft_rootOff f + j * 32 \<and> off + 32 \<le> length d"
proof (induction "ft_rootEntries f - i" arbitrary: i)
  case 0
  thus ?case using find_from_next [of d f want i] by simp
next
  case (Suc n)
  from Suc.hyps(2) have "n = ft_rootEntries f - (i + 1)" by simp
  note IH = Suc.hyps(1) [OF this]
  show ?case using Suc.prems IH unfolding find_from_next [of d f want i] by (fastforce simp: not_le split: if_splits dest: Suc_leD)
qed

text \<open>The search looks at the first twelve bytes of the entries only.\<close>

lemma find_from_cong:
  assumes "length d' = length d"
    and "\<And>j k. j < ft_rootEntries f \<Longrightarrow> k < 12 \<Longrightarrow> ft_rootOff f + j * 32 + 32 \<le> length d \<Longrightarrow> d' ! (ft_rootOff f + j * 32 + k) = d ! (ft_rootOff f + j * 32 + k)"
  shows "find_from d' f want i = find_from d f want i"
proof (induction "ft_rootEntries f - i" arbitrary: i)
  case 0
  thus ?case by (subst (1 2) find_from_next) simp
next
  case (Suc n)
  let ?off = "ft_rootOff f + i * 32"
  from Suc.hyps(2) have "n = ft_rootEntries f - (i + 1)" and i: "i < ft_rootEntries f" by simp_all
  note IH = Suc.hyps(1) [OF this(1)]
  show ?case
  proof (cases "?off + 32 \<le> length d")
    case True
    have same: "k < 12 \<Longrightarrow> d' ! (?off + k) = d ! (?off + k)" for k using assms(2) True i by blast
    have "take 11 (drop ?off d') = take 11 (drop ?off d)"
      by (rule nth_equalityI) (use True assms(1) same in simp_all)
    hence "passed_over d' want ?off = passed_over d want ?off" "d' ! ?off = d ! ?off"
      using same [of 0] same [of 11] by (simp_all add: passed_over_def)
    thus ?thesis using IH assms(1) by (subst (1 2) find_from_next) simp
  next
    case False
    thus ?thesis using assms(1) by (subst (1 2) find_from_next) simp
  qed
qed

lemma u32_of_u32:
  assumes "n < 4294967296"
  shows "n mod 256 + 256 * (n div 256 mod 256) + 65536 * (n div 65536 mod 256 + 256 * (n div 16777216 mod 256)) = (n::nat)"
proof -
  have d: "n div 65536 = n div 256 div 256" "n div 16777216 = n div 256 div 256 div 256"
    using div_mult2_eq [of n 256 256] div_mult2_eq [of n 65536 256] by simp_all
  have "n div 16777216 < 256" using assms by (simp add: less_mult_imp_div_less)
  hence "n div 256 div 256 div 256 < 256" by (simp only: d)
  hence small: "n div 256 div 256 div 256 mod 256 = n div 256 div 256 div 256" by (rule mod_less)
  have gen: "r0 + 256 * r1 + 65536 * (r2 + 256 * q3) = n" if "256 * q1 + r0 = n" "256 * q2 + r1 = q1" "256 * q3 + r2 = q2" for q1 q2 q3 r0 r1 r2 :: nat
    unfolding that(1) [symmetric] that(2) [symmetric] that(3) [symmetric] by (simp add: algebra_simps)
  show ?thesis unfolding d small by (rule gen [OF mult_div_mod_eq mult_div_mod_eq mult_div_mod_eq])
qed

lemma open_facts:
  assumes "openFAT16 d = Some f"
  shows "ft_bytesPerSec f = u16 d 11" "ft_secPerClus f = d ! 13" "ft_bytesPerSec f \<le> ft_rootOff f"
    "ft_rootOff f + ft_rootEntries f * 32 \<le> ft_dataOff f" "512 \<le> length d" "0 < ft_bytesPerSec f"
proof -
  have "n * 32 \<le> ((n * 32 + b - 1) div b) * b" if "0 < b" for n b :: nat
  proof -
    have "n * 32 + b - 1 < ((n * 32 + b - 1) div b + 1) * b" using that by (metis add.commute div_mult_mod_eq mod_less_divisor mult.commute nat_add_left_cancel_less Suc_eq_plus1 mult_Suc)
    thus ?thesis using that by simp
  qed
  hence up: "u16 d 17 * 32 \<le> ((u16 d 17 * 32 + u16 d 11 - 1) div u16 d 11) * u16 d 11" if "u16 d 11 \<noteq> 0" using that by blast
  let ?f = "\<lparr>ft_bytesPerSec = u16 d 11, ft_secPerClus = d ! 13, ft_rootOff = (u16 d 14 + d ! 16 * u16 d 22) * u16 d 11,
     ft_rootEntries = u16 d 17, ft_dataOff = (u16 d 14 + d ! 16 * u16 d 22) * u16 d 11 + ((u16 d 17 * 32 + u16 d 11 - 1) div u16 d 11) * u16 d 11\<rparr>"
  have f: "f = ?f" and nz: "u16 d 11 \<noteq> 0" "d ! 16 \<noteq> 0" "u16 d 22 \<noteq> 0" and len: "512 \<le> length d"
    using assms by (simp_all add: openFAT16_def Let_def split: if_splits)
  have "1 \<le> u16 d 14 + d ! 16 * u16 d 22" using nz(2,3) by (simp add: Suc_le_eq)
  hence low: "u16 d 11 \<le> (u16 d 14 + d ! 16 * u16 d 22) * u16 d 11" using mult_le_mono1 by fastforce
  show "ft_bytesPerSec f = u16 d 11" "ft_secPerClus f = d ! 13" "ft_bytesPerSec f \<le> ft_rootOff f"
    "ft_rootOff f + ft_rootEntries f * 32 \<le> ft_dataOff f" "512 \<le> length d" "0 < ft_bytesPerSec f"
    using low up [OF nz(1)] len nz(1) by (simp_all add: f)
qed

lemma open_cong:
  assumes "openFAT16 d = Some f" and "length d' = length d" and "\<And>i. i < 24 \<Longrightarrow> d' ! i = d ! i"
  shows "openFAT16 d' = Some f"
proof -
  have "u16 d' 11 = u16 d 11" "d' ! 13 = d ! 13" "u16 d' 14 = u16 d 14" "d' ! 16 = d ! 16" "u16 d' 17 = u16 d 17" "u16 d' 22 = u16 d 22"
    by (simp_all add: u16_def assms(3))
  thus ?thesis using assms(1) by (simp only: openFAT16_def assms(2))
qed


definition in_window :: "nat \<Rightarrow> nat \<Rightarrow> nat \<Rightarrow> bool" where
  "in_window i n k \<longleftrightarrow> i \<le> k \<and> k < i + n"

lemma length_of_u32 [simp]: "length (of_u32 n) = 4"
  by (simp add: of_u32_def)

lemma replace_fileD:
  assumes "openFAT16 d = Some f" and "replace_file d f name content = Some d'"
  obtains off start where "find_file d f name = Some off" "start = ft_dataOff f + (u16 d (off + 26) - 2) * clusterSize f"
    "2 \<le> u16 d (off + 26)" "length content \<le> clusterSize f" "start + clusterSize f \<le> length d" "off + 32 \<le> start" "1 \<le> off"
    "length d' = length d"
    "\<And>k. d' ! k = (if in_window (off + 28) 4 k then of_u32 (length content) ! (k - (off + 28))
        else if in_window start (clusterSize f) k then (content @ replicate (clusterSize f - length content) 0) ! (k - start) else d ! k)"
proof -
  from assms(2) obtain off where off: "find_file d f name = Some off" by (auto simp: replace_file_def split: option.splits)
  let ?start = "ft_dataOff f + (u16 d (off + 26) - 2) * clusterSize f"
  let ?blk = "content @ replicate (clusterSize f - length content) 0"
  from assms(2) off have c: "2 \<le> u16 d (off + 26)" "length content \<le> clusterSize f" "?start + clusterSize f \<le> length d"
    and d': "d' = overlay (off + 28) (of_u32 (length content)) (overlay ?start ?blk d)"
    by (auto simp: replace_file_def Let_def split: if_splits)
  obtain j where j: "j < ft_rootEntries f" "off = ft_rootOff f + j * 32" "off + 32 \<le> length d"
    using find_fromD off unfolding find_file_def by blast
  have "off + 32 \<le> ft_rootOff f + ft_rootEntries f * 32" using j(1,2) by simp
  hence lo: "off + 32 \<le> ?start" using open_facts(4) [OF assms(1)] by linarith
  have "1 \<le> off" using open_facts(3,6) [OF assms(1)] j(2) by linarith
  have len: "?start + length ?blk \<le> length d" using c by simp
  hence len': "off + 28 + length (of_u32 (length content)) \<le> length (overlay ?start ?blk d)"
    using lo by (simp add: length_overlay)
  show thesis
  proof (rule that [OF off refl c(1,2,3) lo \<open>1 \<le> off\<close>])
    show "length d' = length d" using d' len len' by (simp add: length_overlay)
  next
    fix k
    show "d' ! k = (if in_window (off + 28) 4 k then of_u32 (length content) ! (k - (off + 28))
        else if in_window ?start (clusterSize f) k then ?blk ! (k - ?start) else d ! k)"
      unfolding d' nth_overlay [OF len'] nth_overlay [OF len] using c(2) lo by (simp add: in_window_def)
  qed
qed

lemma replaced_facts:
  assumes "openFAT16 d = Some f" and "replace_file d f name content = Some d'" and "length content < 4294967296"
  shows "length d' = length d" "openFAT16 d' = Some f" "find_file d' f name = find_file d f name"
    "readFATFile d' name = Value (Some content)"
    "\<exists>off start. find_file d f name = Some off \<and> off + 32 \<le> start \<and>
       (\<forall>k. \<not> in_window (off + 28) 4 k \<and> \<not> in_window start (clusterSize f) k \<longrightarrow> d' ! k = d ! k)"
proof -
  obtain off start where r: "find_file d f name = Some off" "start = ft_dataOff f + (u16 d (off + 26) - 2) * clusterSize f"
    "2 \<le> u16 d (off + 26)" "length content \<le> clusterSize f" "start + clusterSize f \<le> length d" "off + 32 \<le> start" "1 \<le> off"
    "length d' = length d"
    and nth: "\<And>k. d' ! k = (if in_window (off + 28) 4 k then of_u32 (length content) ! (k - (off + 28))
        else if in_window start (clusterSize f) k then (content @ replicate (clusterSize f - length content) 0) ! (k - start) else d ! k)"
    by (rule replace_fileD [OF assms(1,2)]) blast
  show "length d' = length d" by (rule r(8))
  show op: "openFAT16 d' = Some f"
    by (rule open_cong [OF assms(1) r(8)]) (use r(6,7) in \<open>simp add: nth in_window_def\<close>)
  obtain j where j: "j < ft_rootEntries f" "off = ft_rootOff f + j * 32"
    using find_fromD r(1) unfolding find_file_def by blast
  show fd: "find_file d' f name = find_file d f name" unfolding find_file_def
  proof (rule find_from_cong [OF r(8)])
    fix i k assume i: "i < ft_rootEntries f" "k < (12::nat)"
    have "\<not> in_window (off + 28) 4 (ft_rootOff f + i * 32 + k)"
      using i(2) unfolding j(2) in_window_def by presburger
    moreover have "i * 32 + 32 \<le> ft_rootEntries f * 32" using i(1) by simp
    hence "ft_rootOff f + i * 32 + k < start" using i open_facts(4) [OF assms(1)] r(2) by linarith
    hence "\<not> in_window start (clusterSize f) (ft_rootOff f + i * 32 + k)" by (simp add: in_window_def)
    ultimately show "d' ! (ft_rootOff f + i * 32 + k) = d ! (ft_rootOff f + i * 32 + k)" by (simp only: nth if_False)
  qed
  have u16: "u16 d' (off + 26) = u16 d (off + 26)" using r(6) by (simp add: u16_def nth in_window_def)
  have "d' ! (off + 28) = length content mod 256" "d' ! (off + 28 + 1) = length content div 256 mod 256"
    "d' ! (off + 28 + 2) = length content div 65536 mod 256" "d' ! (off + 28 + 2 + 1) = length content div 16777216 mod 256"
    by (simp_all add: nth in_window_def of_u32_def numeral_2_eq_2 numeral_3_eq_3)
  hence u32: "u32 d' (off + 28) = length content" unfolding u32_def u16_def
    by (simp only: u32_of_u32 [OF assms(3)])
  have at: "int (ft_dataOff f) + (int (u16 d (off + 26)) - 2) * int (clusterSize f) = int start"
    using r(2,3) by (simp add: of_nat_diff)
  have "take (length content) (drop start d') = content"
    by (rule nth_equalityI) (use r(4,5,6,8) in \<open>auto simp: nth in_window_def nth_append\<close>)
  thus "readFATFile d' name = Value (Some content)"
    using op fd r(1,4,5,8) u16 u32 at by (simp add: readFATFile_def Let_def)
  show "\<exists>off start. find_file d f name = Some off \<and> off + 32 \<le> start \<and>
       (\<forall>k. \<not> in_window (off + 28) 4 k \<and> \<not> in_window start (clusterSize f) k \<longrightarrow> d' ! k = d ! k)"
    using r(1,6) nth by metis
qed

lemma cluster_small:
  assumes "openFAT16 d = Some f" and "list_all (\<lambda>b. b < 256) d"
  shows "clusterSize f < 4294967296"
proof -
  have b: "i < length d \<Longrightarrow> d ! i \<le> 255" for i using assms(2) by (fastforce simp: list_all_length)
  have "u16 d 11 \<le> 65535" "d ! 13 \<le> 255" using b [of 11] b [of 12] b [of 13] open_facts(5) [OF assms(1)] by (simp_all add: u16_def)
  hence "clusterSize f \<le> 255 * 65535" unfolding clusterSize_def open_facts(1,2) [OF assms(1)] by (rule mult_le_mono [rotated])
  thus ?thesis by simp
qed

lemma content_small:
  assumes "openFAT16 d = Some f" and "list_all (\<lambda>b. b < 256) d" and "replace_file d f name content = Some d'"
  shows "length content < 4294967296"
proof -
  have "length content \<le> clusterSize f" using assms(3) by (auto simp: replace_file_def Let_def split: option.splits if_splits)
  thus ?thesis using cluster_small [OF assms(1,2)] by linarith
qed

text \<open>A FAT16 image of 512 bytes with one file in it, in the second cluster.\<close>

definition demo_payload :: bytes where
  "demo_payload = replicate 11 0 @ [32, 0, 2, 1, 0, 1, 1, 0] @ replicate 3 0 @ [1, 0] @ replicate 40 0
     @ map code ''CMDLINE TXT'' @ [32] @ replicate 14 0 @ [3, 0, 14, 0, 0, 0]
     @ replicate 64 0 @ map code ''bm_server=http'' @ replicate 338 0"

text \<open>C32. A file put back into an image is what is read from it; the image keeps its size and its
  layout, and nothing outside the cluster of the file and its length changes.\<close>

theorem replace_file_roundtrip:
  assumes "openFAT16 d = Some f" and "list_all (\<lambda>b. b < 256) d" and "replace_file d f name content = Some d'"
  shows "readFATFile d' name = Value (Some content) \<and> length d' = length d \<and> openFAT16 d' = Some f
    \<and> (\<exists>off start. find_file d f name = Some off \<and> off + 32 \<le> start \<and>
       (\<forall>k. in_window (off + 28) 4 k \<or> in_window start (clusterSize f) k \<or> d' ! k = d ! k))"
  using replaced_facts [OF assms(1,3) content_small [OF assms]] by blast

definition demo_layout :: fat16 where
  "demo_layout = \<lparr>ft_bytesPerSec = 32, ft_secPerClus = 2, ft_rootOff = 64, ft_rootEntries = 1, ft_dataOff = 96\<rparr>"

lemma demo_image:
  "openFAT16 demo_payload = Some demo_layout" "list_all (\<lambda>b. b < 256) demo_payload"
  by code_simp+

lemma demo_cells:
  "length demo_payload = 512" "demo_payload ! 64 = 67" "u16 demo_payload 90 = 3" "u32 demo_payload 92 = 14"
  "take 14 (drop 160 demo_payload) = map code ''bm_server=http''"
  by (simp_all add: u32_def u16_def demo_payload_def nth_append code_def)

lemma demo_entry: "passed_over demo_payload (fat83 ''cmdline.txt'') 64 = False"
  by (simp add: passed_over_def demo_payload_def nth_append code_def) code_simp

lemma demo_sizes:
  "clusterSize demo_layout = 64" "ft_dataOff demo_layout = 96" "ft_rootOff demo_layout = 64" "ft_rootEntries demo_layout = 1"
  by (simp_all add: demo_layout_def clusterSize_def)

lemma demo_found: "find_file demo_payload demo_layout ''cmdline.txt'' = Some 64"
  unfolding find_file_def by (subst find_from_next) (simp add: demo_cells demo_entry demo_sizes)

lemma demo_replaces: "length content \<le> 64 \<Longrightarrow> \<exists>d'. replace_file demo_payload demo_layout ''cmdline.txt'' content = Some d'"
  unfolding replace_file_def demo_found by (simp add: demo_cells demo_entry demo_sizes)

lemma replace_file_roundtrip_witness:
  "\<exists>f d'. openFAT16 demo_payload = Some f \<and> replace_file demo_payload f ''cmdline.txt'' [104, 105] = Some d'
     \<and> readFATFile d' ''cmdline.txt'' = Value (Some [104, 105])"
proof -
  obtain d' where d': "replace_file demo_payload demo_layout ''cmdline.txt'' [104, 105] = Some d'"
    using demo_replaces [of "[104, 105]"] by auto
  from replace_file_roundtrip [OF demo_image d'] demo_image d' show ?thesis by blast
qed

section \<open>Aiming the payload\<close>

definition text_of :: "bytes \<Rightarrow> string" where
  "text_of d = map char_of d"

fun spaced :: "string list \<Rightarrow> string" where
  "spaced [] = []"
| "spaced [f] = f"
| "spaced (f # fs) = f @ '' '' @ spaced fs"

definition replaceServer :: "string \<Rightarrow> string \<Rightarrow> string" where
  "replaceServer cmd url =
     (let fl = words [] (trim_space cmd); ours = (\<lambda>f. has_prefix f ''sheath_server='')
      in spaced (if list_ex ours fl then map (\<lambda>f. if ours f then ''sheath_server='' @ url else f) fl
                 else fl @ [''sheath_server='' @ url]))"

text \<open>The plain file in the TFTP root and the one inside the image; whether there was no error.\<close>

definition aimPayloadHere :: "string \<Rightarrow> string option \<Rightarrow> bytes \<Rightarrow> (string option \<times> bytes \<times> bool) Json.outcome" where
  "aimPayloadHere relayURL plain img =
     (if relayURL = [] then Value (plain, img, True)
      else (let plain' = (case plain of
                  None \<Rightarrow> None
                | Some b \<Rightarrow> (let out = replaceServer b relayURL
                             in Some (if trim_space out \<noteq> trim_space b then out @ [CHR 0x0A] else b)))
            in case readFATFile img ''cmdline.txt'' of
                 Panic \<Rightarrow> Panic
               | Value None \<Rightarrow> Value (plain', img, False)
               | Value (Some b) \<Rightarrow>
                   (let out = replaceServer (text_of b) relayURL
                    in if trim_space out = trim_space (text_of b) then Value (plain', img, True)
                       else case patchCmdline img out of
                              None \<Rightarrow> Value (plain', img, False)
                            | Some img' \<Rightarrow> Value (plain', img', True))))"

definition aimedHere :: "string \<Rightarrow> string option \<Rightarrow> bool" where
  "aimedHere relayURL plain \<longleftrightarrow>
     relayURL = [] \<or> (case plain of None \<Rightarrow> False | Some b \<Rightarrow> str_contains b (''sheath_server='' @ trim_right ''/'' relayURL))"

subsection \<open>Fields of a line\<close>

abbreviation "a_field f \<equiv> f \<noteq> [] \<and> list_all (\<lambda>c. \<not> is_space c) f"

lemma words_run: "list_all (\<lambda>c. \<not> is_space c) w \<Longrightarrow> words acc (w @ r) = words (rev w @ acc) r"
  by (induction w arbitrary: acc) auto

lemma words_fields: "list_all (\<lambda>c. \<not> is_space c) acc \<Longrightarrow> list_all (\<lambda>f. a_field f) (words acc s)"
  by (induction acc s rule: words.induct) auto

lemma words_blank: "list_all is_space b \<Longrightarrow> words acc (s @ b) = words acc s"
proof (induction s arbitrary: acc)
  case Nil
  thus ?case by (induction b arbitrary: acc) auto
qed simp

lemma words_lead: "list_all is_space b \<Longrightarrow> words [] (b @ s) = words [] s"
  by (induction b) auto

lemma words_spaced: "list_all (\<lambda>f. a_field f) fs \<Longrightarrow> words [] (spaced fs) = fs"
proof (induction fs rule: spaced.induct)
  case (2 f)
  thus ?case using words_run [of f "[]" "[]"] by simp
next
  case (3 f g fs)
  have "is_space CHR '' ''" by (simp add: is_space_def code_def)
  thus ?case using 3 words_run [of f "[]" "'' '' @ spaced (g # fs)"] by simp
qed simp

lemma words_trim: "words [] (trim_space s) = words [] s"
proof -
  have drop: "words [] (dropWhile is_space t) = words [] t" for t
    using words_lead [of "takeWhile is_space t" "dropWhile is_space t"] by (simp add: list_all_iff) (metis set_takeWhileD takeWhile_dropWhile_id)
  have "words [] (rev (dropWhile is_space (rev t))) = words [] t" for t
    using words_blank [of "rev (takeWhile is_space (rev t))" "[]" "rev (dropWhile is_space (rev t))"]
    by (simp add: list_all_iff) (metis rev_append rev_rev_ident set_takeWhileD takeWhile_dropWhile_id)
  thus ?thesis by (simp add: trim_space_def drop)
qed

lemma words_line: "words [] (trim_right [CHR 0x0A] s @ [CHR 0x0A]) = words [] s"
proof -
  have sp: "is_space CHR 0x0A" by (simp add: is_space_def code_def)
  obtain t where t: "s = trim_right [CHR 0x0A] s @ t" "list_all is_space t"
  proof
    let ?p = "\<lambda>c. c \<in> set [CHR 0x0A]"
    show "s = trim_right [CHR 0x0A] s @ rev (takeWhile ?p (rev s))"
      by (simp add: trim_right_def) (metis rev_append rev_rev_ident takeWhile_dropWhile_id)
    show "list_all is_space (rev (takeWhile ?p (rev s)))" using sp by (auto simp: list_all_iff dest: set_takeWhileD)
  qed
  show ?thesis using words_blank [OF t(2), of "[]" "trim_right [CHR 0x0A] s"] words_blank [of "[CHR 0x0A]" "[]" "trim_right [CHR 0x0A] s"] sp t(1) by simp
qed

subsection \<open>The installer on an aimed line\<close>

definition names_server :: "string \<Rightarrow> bool" where
  "names_server f \<longleftrightarrow> has_prefix f ''sheath_server='' \<or> has_prefix f ''bm_server=''"

definition new_spelling :: "string \<Rightarrow> bool" where
  "new_spelling f \<longleftrightarrow> has_prefix f ''sheath_server=''"

definition spelled :: "string \<Rightarrow> string" where
  "spelled url = ''sheath_server='' @ url"

lemma spelling_lengths: "length ''sheath_server='' = 14" "length ''bm_server='' = 10"
  by simp_all

lemma server_field_find:
  "server_field fs = (case find names_server fs of None \<Rightarrow> []
     | Some f \<Rightarrow> if new_spelling f then drop 14 f else drop 10 f)"
proof (induction fs)
  case (Cons f fs)
  thus ?case by (simp only: server_field.simps find.simps names_server_def new_spelling_def spelling_lengths option.case split: if_split) blast
qed simp

definition aimed_fields :: "string \<Rightarrow> string list \<Rightarrow> string list" where
  "aimed_fields url fl = (if list_ex new_spelling fl then map (\<lambda>f. if new_spelling f then spelled url else f) fl else fl @ [spelled url])"

lemma replaceServer_fields: "replaceServer cmd url = spaced (aimed_fields url (words [] cmd))"
  by (simp only: replaceServer_def aimed_fields_def new_spelling_def [abs_def] words_trim spelled_def Let_def)

lemma put_spelling [simp]: "new_spelling (spelled url)" "names_server (spelled url)" "drop 14 (spelled url) = url"
  by (simp_all add: new_spelling_def names_server_def has_prefix_def spelled_def)

lemma new_names: "new_spelling f \<Longrightarrow> names_server f"
  by (simp add: new_spelling_def names_server_def)

lemma aimed_fields_ok:
  assumes "list_all (\<lambda>c. \<not> is_space c) url"
  shows "list_all (\<lambda>f. a_field f) (aimed_fields url (words [] cmd))"
proof -
  have "a_field (spelled url)" using assms by (simp add: spelled_def is_space_def code_def)
  thus ?thesis using words_fields [of "[]" cmd] by (auto simp: aimed_fields_def list_all_iff)
qed

lemma words_aimed: "list_all (\<lambda>c. \<not> is_space c) url \<Longrightarrow> words [] (replaceServer cmd url) = aimed_fields url (words [] cmd)"
  by (simp only: replaceServer_fields words_spaced aimed_fields_ok)

lemma server_field_aimed:
  "server_field (aimed_fields url fl) =
     (case find names_server fl of None \<Rightarrow> url | Some f \<Rightarrow> if new_spelling f then url else drop 10 f)"
proof (cases "list_ex new_spelling fl")
  case True
  have "server_field (map (\<lambda>f. if new_spelling f then spelled url else f) fs) =
     (case find names_server fs of None \<Rightarrow> [] | Some f \<Rightarrow> if new_spelling f then url else drop 10 f)" for fs
    unfolding server_field_find by (induction fs) (auto simp: new_names)
  moreover have "find names_server fl \<noteq> None" using True new_names by (auto simp: find_None_iff_all list_ex_iff)
  ultimately show ?thesis using True by (auto simp: aimed_fields_def)
next
  case False
  have "find names_server (fs @ [spelled url]) = (case find names_server fs of None \<Rightarrow> Some (spelled url) | Some f \<Rightarrow> Some f)" for fs
    by (induction fs) auto
  moreover have "find names_server fl = Some f \<Longrightarrow> \<not> new_spelling f" for f using False find_SomeD by (fastforce simp: list_ex_iff)
  ultimately show ?thesis using False
    by (simp add: aimed_fields_def server_field_find split: option.split)
qed

lemma trim_blank: "list_all is_space b \<Longrightarrow> trim_space (s @ b) = trim_space s"
proof -
  assume b: "list_all is_space b"
  have tail: "dropWhile is_space (rev (t @ b)) = dropWhile is_space (rev t)" for t
    using b by (simp add: list_all_iff dropWhile_append)
  show ?thesis
  proof (cases "list_all is_space s")
    case True
    hence "dropWhile is_space (s @ b) = []" "dropWhile is_space s = []" using b by (simp_all add: dropWhile_eq_Nil_conv list_all_iff)
    thus ?thesis by (simp only: trim_space_def)
  next
    case False
    hence "dropWhile is_space (s @ b) = dropWhile is_space s @ b" by (auto simp: list_all_iff dropWhile_append1)
    thus ?thesis by (simp only: trim_space_def tail)
  qed
qed

lemma newline_space: "list_all is_space [CHR 0x0A]"
  by (simp add: is_space_def code_def)

lemma trim_line: "trim_space (trim_right [CHR 0x0A] s @ [CHR 0x0A]) = trim_space s"
proof -
  have "list_all is_space (rev (takeWhile (\<lambda>c. c \<in> set [CHR 0x0A]) (rev s)))"
    using newline_space by (auto simp: list_all_iff dest: set_takeWhileD)
  from trim_blank [OF this, of "trim_right [CHR 0x0A] s"]
  have "trim_space s = trim_space (trim_right [CHR 0x0A] s)"
    unfolding trim_right_def by (metis rev_append rev_rev_ident takeWhile_dropWhile_id)
  thus ?thesis by (simp only: trim_blank [OF newline_space])
qed

lemma spelled_in_aimed: "spelled url \<in> set (aimed_fields url fl)"
proof (cases "list_ex new_spelling fl")
  case True
  then obtain f where "f \<in> set fl" "new_spelling f" unfolding list_ex_iff by blast
  hence "spelled url \<in> set (map (\<lambda>f. if new_spelling f then spelled url else f) fl)" by force
  thus ?thesis by (simp only: aimed_fields_def True if_True)
qed (simp add: aimed_fields_def)

lemma aimed_fields_again: "aimed_fields url (aimed_fields url fl) = aimed_fields url fl"
proof -
  have ex: "list_ex new_spelling (aimed_fields url fl)"
    using spelled_in_aimed put_spelling(1) unfolding list_ex_iff by blast
  have "f = spelled url" if "f \<in> set (aimed_fields url fl)" "new_spelling f" for f
    using that unfolding aimed_fields_def by (cases "list_ex new_spelling fl") (auto simp: list_ex_iff split: if_splits)
  hence "map (\<lambda>f. if new_spelling f then spelled url else f) (aimed_fields url fl) = aimed_fields url fl"
    by (intro map_idI) auto
  thus ?thesis by (subst aimed_fields_def) (simp only: ex if_True)
qed

lemma words_contained: "f \<in> set (words acc s) \<Longrightarrow> \<exists>a b. rev acc @ s = a @ f @ b"
proof (induction acc s rule: words.induct)
  case (2 acc c s)
  show ?case
  proof (cases "is_space c \<and> f \<in> set (words [] s)")
    case True
    then obtain a b where "s = a @ f @ b" using 2(1,2) by (cases "acc = []") auto
    hence "rev acc @ c # s = (rev acc @ [c] @ a) @ f @ b" by simp
    thus ?thesis by blast
  next
    case False
    thus ?thesis using 2(3,4) by (auto split: if_splits)
  qed
next
  case (1 acc)
  hence "rev acc @ [] = [] @ f @ []" by (simp split: if_splits)
  thus ?case by blast
qed

lemma str_contains_iff: "str_contains s p \<longleftrightarrow> (\<exists>a b. s = a @ p @ b)"
proof (induction s)
  case (Cons c s)
  have "has_prefix (c # s) p \<longleftrightarrow> (\<exists>b. c # s = p @ b)"
    unfolding has_prefix_def by (metis append_eq_conv_conj append_take_drop_id)
  moreover have "(\<exists>a b. c # s = a @ p @ b) \<longleftrightarrow> (\<exists>b. c # s = p @ b) \<or> (\<exists>a b. s = a @ p @ b)"
    by (metis append_Cons append_eq_Cons_conv append_self_conv2)
  ultimately show ?case using Cons by simp
qed auto

lemma spelled_here: "url \<noteq> [] \<Longrightarrow> spelled url \<in> set (words [] b) \<Longrightarrow> aimedHere url (Some b)"
proof -
  assume "spelled url \<in> set (words [] b)"
  then obtain x y where b: "b = x @ spelled url @ y" using words_contained [of _ "[]"] by fastforce
  have "url = trim_right ''/'' url @ rev (takeWhile (\<lambda>c. c \<in> set ''/'') (rev url))"
    unfolding trim_right_def by (metis rev_append rev_rev_ident takeWhile_dropWhile_id)
  then obtain z where "url = trim_right ''/'' url @ z" by blast
  hence "b = x @ (''sheath_server='' @ trim_right ''/'' url) @ z @ y" using b unfolding spelled_def by (metis append.assoc)
  hence "str_contains b (''sheath_server='' @ trim_right ''/'' url)" unfolding str_contains_iff by blast
  thus "aimedHere url (Some b)" unfolding aimedHere_def option.case by blast
qed

lemma text_of_codes [simp]: "text_of (map code s) = s"
  by (induction s) (simp_all add: text_of_def code_def)

section \<open>Site and installer together\<close>

lemma patch_reads:
  assumes "patchCmdline d cmd = Some d'" and "list_all (\<lambda>b. b < 256) d"
  shows "readFATFile d' ''cmdline.txt'' = Value (Some (map code (trim_right [CHR 0x0A] cmd @ [CHR 0x0A])))"
proof -
  obtain f where f: "openFAT16 d = Some f"
    and r: "replace_file d f ''cmdline.txt'' (map code (trim_right [CHR 0x0A] cmd @ [CHR 0x0A])) = Some d'"
    using assms(1) unfolding patchCmdline_def by (auto split: option.splits)
  show ?thesis by (rule replaced_facts(4) [OF f r content_small [OF f assms(2) r]])
qed

lemma aim_plain:
  assumes "list_all (\<lambda>c. \<not> is_space c) url" and "url \<noteq> []"
    and "b' = (if trim_space (replaceServer b url) \<noteq> trim_space b then replaceServer b url @ [CHR 0x0A] else b)"
  shows "words [] b' = aimed_fields url (words [] b)" "trim_space (replaceServer b' url) = trim_space b'" "aimedHere url (Some b')"
proof -
  show w: "words [] b' = aimed_fields url (words [] b)"
  proof (cases "trim_space (replaceServer b url) = trim_space b")
    case True
    hence "words [] b' = words [] (replaceServer b url)" using assms(3) by (metis words_trim)
    thus ?thesis by (simp only: words_aimed [OF assms(1)])
  next
    case False
    thus ?thesis using assms(3) by (simp add: words_blank [OF newline_space] words_aimed [OF assms(1)])
  qed
  have again: "replaceServer b' url = replaceServer b url"
    by (simp only: replaceServer_fields w aimed_fields_again)
  show "trim_space (replaceServer b' url) = trim_space b'" unfolding again using assms(3) by (simp add: trim_blank [OF newline_space])
  show "aimedHere url (Some b')" by (rule spelled_here [OF assms(2)]) (simp only: w spelled_in_aimed)
qed

lemma aimPayloadHere_plain:
  assumes "aimPayloadHere url plain img = Value (plain', img', ok)" and "url \<noteq> []"
  shows "plain' = map_option (\<lambda>b. if trim_space (replaceServer b url) \<noteq> trim_space b then replaceServer b url @ [CHR 0x0A] else b) plain"
    and "\<not> ok \<Longrightarrow> img' = img"
  using assms by (cases plain; auto simp: aimPayloadHere_def Let_def split: Json.outcome.splits option.splits if_splits)+

text \<open>C22. Where a payload was aimed without an error, the installer that boots from it talks to the
  site - unless the older spelling stands in front of the newer one or alone, which aiming leaves
  as it is; aiming once more changes nothing, and the plain file counts as aimed.\<close>

theorem aimed_payload_read:
  assumes "aimPayloadHere url plain img = Value (plain', img', True)" and "url \<noteq> []" and "list_all (\<lambda>c. \<not> is_space c) url"
    and "list_all (\<lambda>b. b < 256) img"
  shows "(\<exists>b b'. readFATFile img ''cmdline.txt'' = Value (Some b) \<and> readFATFile img' ''cmdline.txt'' = Value (Some b')
       \<and> serverFromCmdline (Some (text_of b')) =
           (case find names_server (words [] (text_of b)) of None \<Rightarrow> url | Some f \<Rightarrow> if new_spelling f then url else drop 10 f))
    \<and> aimPayloadHere url plain' img' = Value (plain', img', True) \<and> (aimedHere url plain' \<longleftrightarrow> plain \<noteq> None)"
proof -
  obtain b where b: "readFATFile img ''cmdline.txt'' = Value (Some b)"
    using assms(1,2) by (auto simp: aimPayloadHere_def Let_def split: Json.outcome.splits option.splits)
  let ?out = "replaceServer (text_of b) url"
  have img': "(trim_space ?out = trim_space (text_of b) \<and> img' = img) \<or> (trim_space ?out \<noteq> trim_space (text_of b) \<and> patchCmdline img ?out = Some img')"
    using assms(1,2) b by (auto simp: aimPayloadHere_def Let_def split: option.splits if_splits)
  obtain b' where b': "readFATFile img' ''cmdline.txt'' = Value (Some b')"
    and w: "words [] (text_of b') = aimed_fields url (words [] (text_of b))" and t: "trim_space ?out = trim_space (text_of b')"
  proof (cases "trim_space ?out = trim_space (text_of b)")
    case True
    hence "words [] (text_of b) = words [] ?out" by (metis words_trim)
    thus thesis using that [of b] b img' True by (simp only: words_aimed [OF assms(3)]) blast
  next
    case False
    hence p: "patchCmdline img ?out = Some img'" using img' by blast
    show thesis by (rule that [OF patch_reads [OF p assms(4)]])
        (simp_all only: text_of_codes words_line words_aimed [OF assms(3)] trim_line)
  qed
  have x: "\<exists>b b'. readFATFile img ''cmdline.txt'' = Value (Some b) \<and> readFATFile img' ''cmdline.txt'' = Value (Some b')
       \<and> serverFromCmdline (Some (text_of b')) =
           (case find names_server (words [] (text_of b)) of None \<Rightarrow> url | Some f \<Rightarrow> if new_spelling f then url else drop 10 f)"
    using b b' by (simp add: serverFromCmdline_def w server_field_aimed)
  have out: "replaceServer (text_of b') url = ?out" by (simp only: replaceServer_fields w aimed_fields_again)
  have plain: "plain' = map_option (\<lambda>b. if trim_space (replaceServer b url) \<noteq> trim_space b then replaceServer b url @ [CHR 0x0A] else b) plain"
    by (rule aimPayloadHere_plain(1) [OF assms(1,2)])
  have y: "aimPayloadHere url plain' img' = Value (plain', img', True)"
  proof (cases plain)
    case None
    thus ?thesis using plain b' out t assms(2) by (simp add: aimPayloadHere_def)
  next
    case (Some p)
    with plain obtain p' where p': "plain' = Some p'"
      "p' = (if trim_space (replaceServer p url) \<noteq> trim_space p then replaceServer p url @ [CHR 0x0A] else p)" by simp
    show ?thesis using aim_plain(2) [OF assms(3,2) p'(2)] p'(1) b' out t assms(2) by (simp add: aimPayloadHere_def)
  qed
  have z: "aimedHere url plain' \<longleftrightarrow> plain \<noteq> None"
    using plain aim_plain(3) [OF assms(3,2) refl] assms(2) by (cases plain) (simp_all add: aimedHere_def)
  show ?thesis using x y z by blast
qed

lemma aimed_payload_read_witness:
  "\<exists>img b. aimPayloadHere ''http://s'' None demo_payload = Value (None, img, True)
     \<and> readFATFile img ''cmdline.txt'' = Value (Some b) \<and> serverFromCmdline (Some (text_of b)) = ''http''"
proof -
  have u: "''http://s'' \<noteq> []" "list_all (\<lambda>c. \<not> is_space c) ''http://s''" by code_simp+
  have r: "readFATFile demo_payload ''cmdline.txt'' = Value (Some (map code ''bm_server=http''))"
    unfolding readFATFile_def demo_image option.case demo_found by (simp add: demo_cells demo_sizes del: list.map)
  let ?out = "replaceServer ''bm_server=http'' ''http://s''"
  have o: "trim_space ?out \<noteq> trim_space ''bm_server=http''" "length (trim_right [CHR 0x0A] ?out @ [CHR 0x0A]) \<le> 64" by code_simp+
  have "\<exists>d'. patchCmdline demo_payload ?out = Some d'"
    unfolding patchCmdline_def demo_image option.case by (rule demo_replaces) (use o(2) in \<open>simp only: length_map\<close>)
  hence "(case aimPayloadHere ''http://s'' None demo_payload of Value (p, i, e) \<Rightarrow> p = None \<and> e | Panic \<Rightarrow> False)"
    using o(1) u(1) unfolding aimPayloadHere_def r by (auto simp only: text_of_codes Let_def if_False Json.outcome.case option.case prod.case)
  then obtain i where i: "aimPayloadHere ''http://s'' None demo_payload = Value (None, i, True)" by (auto split: Json.outcome.splits)
  have f: "find names_server (words [] (text_of (map code ''bm_server=http''))) = Some ''bm_server=http''"
    "\<not> new_spelling ''bm_server=http''" "drop 10 ''bm_server=http'' = ''http''" by code_simp+
  from conjunct1 [OF aimed_payload_read [OF i u demo_image(2)]] r f obtain b' where "readFATFile i ''cmdline.txt'' = Value (Some b')"
    "serverFromCmdline (Some (text_of b')) = ''http''" by auto
  thus ?thesis using i by blast
qed

end
