(* ===== verification/SiteFiles.thy ===== *)
theory SiteFiles
  imports Fat SiteWire
begin

text \<open>
  What a site keeps on its disk (\<^verbatim>\<open>src/site/images.go\<close>): the cache of images, the netboot payload in
  the TFTP root, the programs the blades install. A directory is a map from names to contents;
  the centre's answer to a download is a parameter, and so are the checksum and the path of a
  URL. Operations of the file system succeed, and the notes that pruning and the payload write into
  the log of the site are left out. The theorems: what a download leaves behind, that
  a broken one is continued where it stopped - and never again once all of it has arrived -,
  what a stamp is worth, and what a pass leaves of images, payload and programs.
\<close>

section \<open>One file\<close>

type_synonym store = "string \<Rightarrow> bytes option"

datatype dl_reply = No_answer string | Answered nat bytes "string option"

type_synonym dl = "string \<Rightarrow> nat \<Rightarrow> dl_reply"

definition verified_of :: "string \<Rightarrow> string" where "verified_of p = p @ ''.verified''"

definition part_of :: "string \<Rightarrow> string" where "part_of p = p @ ''.part''"

definition haveImage :: "(bytes \<Rightarrow> string) \<Rightarrow> string \<Rightarrow> string \<Rightarrow> int \<Rightarrow> store \<Rightarrow> bool \<times> store" where
  "haveImage sha p chk sz fs =
     (case fs p of
        None \<Rightarrow> (False, fs)
      | Some d \<Rightarrow>
          (if sz > 0 \<and> int (length d) \<noteq> sz then (False, fs)
           else if (case fs (verified_of p) of Some v \<Rightarrow> trim_space (text_of v) = chk | None \<Rightarrow> False) then (True, fs)
           else if chk \<noteq> [] \<and> lower (sha d) \<noteq> lower chk then (False, fs)
           else (True, fs(verified_of p \<mapsto> map code (sha d)))))"

text \<open>A fetch: its error, and the directory after each of its writes.\<close>

definition fetch_trace :: "(bytes \<Rightarrow> string) \<Rightarrow> dl \<Rightarrow> string \<Rightarrow> string \<Rightarrow> string \<Rightarrow> store \<Rightarrow> string option \<times> store list" where
  "fetch_trace sha net url p chk fs =
     (let part = part_of p; from = (case fs part of None \<Rightarrow> 0 | Some d \<Rightarrow> length d)
      in case net url from of
           No_answer e \<Rightarrow> (Some e, [])
         | Answered st body err \<Rightarrow>
             (if st \<noteq> 206 \<and> st \<noteq> 200 then (Some (''HTTP '' @ show_nat st), [])
              else (let d = (if st = 206 then (case fs part of None \<Rightarrow> [] | Some b \<Rightarrow> b) else []) @ body;
                        f1 = fs(part \<mapsto> d)
                    in case err of
                         Some e \<Rightarrow> (Some e, [f1])
                       | None \<Rightarrow>
                           (if chk \<noteq> [] \<and> lower (sha d) \<noteq> lower chk
                            then (Some (''checksum mismatch: expected '' @ chk @ '', got '' @ sha d), [f1, f1(part := None)])
                            else (let f2 = (if chk \<noteq> [] then f1(verified_of p \<mapsto> map code (sha d)) else f1)
                                  in (None, [f1, f2, f2(p \<mapsto> d, part := None)]))))))"

definition fetchImage :: "(bytes \<Rightarrow> string) \<Rightarrow> dl \<Rightarrow> string \<Rightarrow> string \<Rightarrow> string \<Rightarrow> store \<Rightarrow> string option \<times> store" where
  "fetchImage sha net url p chk fs = (let (e, tr) = fetch_trace sha net url p chk fs in (e, last (fs # tr)))"

section \<open>Images\<close>

definition im_name :: "siteImage \<Rightarrow> string" where
  "im_name i = (if sg_local i = [] then path_base (sg_url i) else sg_local i)"

record stockItem =
  sk_image :: string
  sk_state :: string
  sk_bytes :: int
  sk_note :: string

text \<open>The directory, the stock so far, the stock as it was shown, the notes.\<close>

record pass =
  ps_fs :: store
  ps_stock :: "stockItem list"
  ps_shown :: "stockItem list list"
  ps_notes :: "(string \<times> string) list"

definition stock_item :: "siteImage \<Rightarrow> string \<Rightarrow> int \<Rightarrow> string \<Rightarrow> stockItem" where
  "stock_item i st n why = \<lparr>sk_image = sg_id i, sk_state = st, sk_bytes = n, sk_note = why\<rparr>"

definition size_in :: "store \<Rightarrow> string \<Rightarrow> int" where
  "size_in fs p = (case fs p of None \<Rightarrow> 0 | Some d \<Rightarrow> int (length d))"

definition image_source :: "string \<Rightarrow> siteImage \<Rightarrow> string" where
  "image_source server i = (if sg_local i = [] then sg_url i else trim_right ''/'' server @ ''/images/'' @ sg_local i)"

definition ensureImage :: "(bytes \<Rightarrow> string) \<Rightarrow> dl \<Rightarrow> bool \<Rightarrow> string \<Rightarrow> siteImage \<Rightarrow> pass \<Rightarrow> pass" where
  "ensureImage sha net dry server i s =
     (let p = im_name i; (ok, fs) = haveImage sha p (sg_sha256 i) (sg_bytes i) (ps_fs s)
      in if ok then s\<lparr>ps_fs := fs, ps_stock := ps_stock s @ [stock_item i ''ready'' (size_in fs p) []]\<rparr>
         else (let notes = ps_notes s @ [(''info'', ''fetching image '' @ sg_id i)]
               in if dry then s\<lparr>ps_fs := fs, ps_stock := ps_stock s @ [stock_item i ''absent'' 0 []], ps_notes := notes\<rparr>
                  else (let shown = ps_shown s @ [ps_stock s @ [stock_item i ''fetching'' 0 []]];
                            (err, fs') = fetchImage sha net (image_source server i) p (sg_sha256 i) fs
                        in case err of
                             Some e \<Rightarrow> \<lparr>ps_fs = fs', ps_stock = ps_stock s @ [stock_item i ''error'' 0 e], ps_shown = shown,
                                ps_notes = notes @ [(''warn'', ''image '' @ sg_id i @ '' not fetched: '' @ e)]\<rparr>
                           | None \<Rightarrow> \<lparr>ps_fs = fs', ps_stock = ps_stock s @ [stock_item i ''ready'' (size_in fs' p) []], ps_shown = shown,
                                ps_notes = notes @ [(''info'', ''image '' @ sg_id i @ '' ready'')]\<rparr>)))"

definition looksLikeImage :: "string \<Rightarrow> bool" where
  "looksLikeImage name \<longleftrightarrow> list_ex (has_suffix name) [''.img.xz'', ''.img.gz'', ''.img.zst'', ''.img'', ''.raw'', ''.raw.xz'', ''.tar.xz'']"

definition trim_suffix :: "string \<Rightarrow> string \<Rightarrow> string" where
  "trim_suffix s x = (if has_suffix s x then take (length s - length x) s else s)"

definition base_of :: "string \<Rightarrow> string" where
  "base_of name = trim_suffix (trim_suffix name ''.verified'') ''.part''"

text \<open>The files of the directory; subdirectories are left alone and not part of it. The note about
  each file removed is left out.\<close>

definition pruneImages :: "bool \<Rightarrow> string set \<Rightarrow> store \<Rightarrow> store" where
  "pruneImages dry wanted fs =
     (if wanted = {} \<or> dry then fs
      else (\<lambda>name. if base_of name \<in> wanted \<or> \<not> looksLikeImage (base_of name) then fs name else None))"

text \<open>Pruned first, shown last: the deferred calls run in reverse order.\<close>

definition ensureImages :: "(bytes \<Rightarrow> string) \<Rightarrow> dl \<Rightarrow> bool \<Rightarrow> siteDoc \<Rightarrow> store \<Rightarrow> pass" where
  "ensureImages sha net dry d fs =
     (let s = fold (ensureImage sha net dry (bt_server_url (d_boot d))) (d_images d)
                \<lparr>ps_fs = fs, ps_stock = [], ps_shown = [], ps_notes = []\<rparr>
      in s\<lparr>ps_fs := pruneImages dry (im_name ` set (d_images d)) (ps_fs s), ps_shown := ps_shown s @ [ps_stock s]\<rparr>)"

section \<open>Payload and programs\<close>

definition payloadHeld :: "store \<Rightarrow> string" where
  "payloadHeld fs =
     (let v = (\<lambda>name. case fs name of None \<Rightarrow> [] | Some b \<Rightarrow> trim_space (text_of b))
      in if v ''.payload'' \<noteq> [] then v ''.payload'' else v ''boot.img.upstream'')"

definition plain_cmdline :: "store \<Rightarrow> string option" where
  "plain_cmdline fs = map_option text_of (fs ''cmdline.txt'')"

definition want_of :: "siteBoot \<Rightarrow> string" where
  "want_of bt = (if bt_version bt = [] then bt_sha256 bt else bt_version bt)"

definition files_of :: "siteBoot \<Rightarrow> payloadFile list" where
  "files_of bt = (if bt_files bt = [] then [\<lparr>pf_name = ''boot.img'', pf_sha256 = bt_sha256 bt, pf_bytes = 0\<rparr>] else bt_files bt)"

definition refused_name :: "string \<Rightarrow> bool" where
  "refused_name n \<longleftrightarrow> str_contains n ''..'' \<or> has_prefix n ''/''"

text \<open>The files one after another, up to the first that fails; how many were fetched.\<close>

fun fetch_files :: "(bytes \<Rightarrow> string) \<Rightarrow> dl \<Rightarrow> string \<Rightarrow> payloadFile list \<Rightarrow> store \<Rightarrow> nat \<Rightarrow> string option \<times> store \<times> nat" where
  "fetch_files sha net base [] fs n = (None, fs, n)"
| "fetch_files sha net base (f # fl) fs n =
     (if refused_name (pf_name f) then fetch_files sha net base fl fs n
      else (let (ok, fs1) = haveImage sha (pf_name f) (pf_sha256 f) (pf_bytes f) fs
            in if ok then fetch_files sha net base fl fs1 n
               else (case fetchImage sha net (base @ pf_name f) (pf_name f) (pf_sha256 f) fs1 of
                       (Some e, fs2) \<Rightarrow> (Some (pf_name f @ '': '' @ e), fs2, n)
                     | (None, fs2) \<Rightarrow> fetch_files sha net base fl fs2 (n + 1))))"

text \<open>Aiming what lies in the directory; a missing image is one that cannot be read.\<close>

definition aim_store :: "string \<Rightarrow> store \<Rightarrow> (store \<times> bool) Json.outcome" where
  "aim_store relayURL fs =
     (case aimPayloadHere relayURL (plain_cmdline fs) (case fs ''boot.img'' of None \<Rightarrow> [] | Some b \<Rightarrow> b) of
        Panic \<Rightarrow> Panic
      | Value (p, img, ok) \<Rightarrow>
          (let f1 = (if p = plain_cmdline fs then fs else fs(''cmdline.txt'' := map_option (map code) p))
           in Value (if fs ''boot.img'' = None then f1 else f1(''boot.img'' \<mapsto> img), ok)))"

definition boot_current :: "string \<Rightarrow> siteBoot \<Rightarrow> store \<Rightarrow> bool" where
  "boot_current relayURL bt fs \<longleftrightarrow> want_of bt \<noteq> [] \<and> payloadHeld fs = want_of bt \<and> aimedHere relayURL (plain_cmdline fs)"

definition ensureBoot :: "(bytes \<Rightarrow> string) \<Rightarrow> dl \<Rightarrow> bool \<Rightarrow> string \<Rightarrow> siteBoot \<Rightarrow> store \<Rightarrow> (string option \<times> store) Json.outcome" where
  "ensureBoot sha net dry relayURL bt fs =
     (if bt_boot_img bt = [] \<and> bt_files bt = [] then Value (None, fs)
      else if boot_current relayURL bt fs then Value (None, fs)
      else if dry then Value (None, fs)
      else (case fetch_files sha net (trim_right ''/'' (bt_server_url bt) @ ''/boot/'') (files_of bt) fs 0 of
              (Some e, f1, n) \<Rightarrow> Value (Some e, f1)
            | (None, f1, n) \<Rightarrow>
                (case aim_store relayURL f1 of
                   Panic \<Rightarrow> Panic
                 | Value (f2, _) \<Rightarrow> Value (None, f2(''.payload'' \<mapsto> map code (want_of bt @ [CHR 0x0A]))))))"

definition binariesIn :: "jmap \<Rightarrow> (string \<times> string) list" where
  "binariesIn cfg =
     (case map_of cfg ''binaries'' of
        Some (JArr es) \<Rightarrow>
          concat (map (\<lambda>e. case e of
              JObj m \<Rightarrow> (let u = (case as_str (map_of m ''url'') of Some x \<Rightarrow> x | None \<Rightarrow> [])
                         in if u = [] then [] else [(u, case as_str (map_of m ''sha256'') of Some x \<Rightarrow> x | None \<Rightarrow> [])])
            | _ \<Rightarrow> []) es)
      | _ \<Rightarrow> [])"

definition fromCentre :: "(string \<Rightarrow> string option) \<Rightarrow> string \<Rightarrow> string \<Rightarrow> string" where
  "fromCentre url_path raw centre =
     (if centre = [] then raw
      else case url_path raw of
             None \<Rightarrow> raw
           | Some p \<Rightarrow> if has_prefix p ''/agent/'' then trim_right ''/'' centre @ p else raw)"

text \<open>What is wanted, by name: the checksum and the source; a later blade decides.\<close>

definition binaries_wanted :: "(string \<Rightarrow> string option) \<Rightarrow> siteDoc \<Rightarrow> (string \<times> string \<times> string) list" where
  "binaries_wanted url_path d =
     fold (\<lambda>(u, c) w. let name = path_base u
             in if name = [] \<or> name = ''.'' \<or> str_contains name ''..'' then w
                else AList.update name (c, fromCentre url_path u (bt_server_url (d_boot d))) w)
       (concat (map (\<lambda>b. binariesIn (sb_config b)) (d_blades d))) []"

text \<open>In the order of the list, where the Go code takes the map in any order.\<close>

definition ensureBinary :: "(bytes \<Rightarrow> string) \<Rightarrow> dl \<Rightarrow> string \<times> string \<times> string \<Rightarrow> store \<times> (string \<times> string) list \<Rightarrow> store \<times> (string \<times> string) list" where
  "ensureBinary sha net w s =
     (case (w, s) of
        ((name, c, src), (fs, notes)) \<Rightarrow>
          (let (ok, f1) = haveImage sha name c 0 fs
           in if ok then (f1, notes)
              else (case fetchImage sha net src name c f1 of
                      (Some e, f2) \<Rightarrow> (f2, notes @ [(''warn'', ''binary '' @ name @ '' not fetched: '' @ e)])
                    | (None, f2) \<Rightarrow> (f2, notes @ [(''info'', ''binary '' @ name @ '' is here'')]))))"

definition ensureBinaries :: "(bytes \<Rightarrow> string) \<Rightarrow> dl \<Rightarrow> (string \<Rightarrow> string option) \<Rightarrow> bool \<Rightarrow> siteDoc \<Rightarrow> store \<Rightarrow> store \<times> (string \<times> string) list" where
  "ensureBinaries sha net url_path dry d fs = (if dry then (fs, []) else fold (ensureBinary sha net) (binaries_wanted url_path d) (fs, []))"

section \<open>What one download leaves\<close>

definition plain_name :: "string \<Rightarrow> bool" where
  "plain_name p \<longleftrightarrow> \<not> has_suffix p ''.verified'' \<and> \<not> has_suffix p ''.part''"

lemma suffix_append: "has_suffix (s @ x) x"
  by (simp add: has_suffix_def has_prefix_def)

lemma side_names [simp]:
  "part_of p \<noteq> p" "p \<noteq> part_of p" "verified_of p \<noteq> p" "p \<noteq> verified_of p" "verified_of p = verified_of q \<longleftrightarrow> p = q"
  "part_of p \<noteq> verified_of q" "verified_of q \<noteq> part_of p"
proof -
  have "last (part_of p) \<noteq> last (verified_of q)" by (simp add: part_of_def verified_of_def)
  thus "part_of p \<noteq> verified_of q" "verified_of q \<noteq> part_of p" by metis+
qed (simp_all add: part_of_def verified_of_def)

lemma side_not_plain [simp]: "\<not> plain_name (verified_of p)" "\<not> plain_name (part_of p)"
  using suffix_append by (simp_all add: plain_name_def verified_of_def part_of_def)

lemma plain_not_side: "plain_name q \<Longrightarrow> q \<noteq> verified_of p" "plain_name q \<Longrightarrow> q \<noteq> part_of p"
  using suffix_append by (auto simp: plain_name_def verified_of_def part_of_def)

definition matches :: "(bytes \<Rightarrow> string) \<Rightarrow> string \<Rightarrow> bytes \<Rightarrow> bool" where
  "matches sha chk d \<longleftrightarrow> chk = [] \<or> lower (sha d) = lower chk"

definition stamped :: "(bytes \<Rightarrow> string) \<Rightarrow> string \<Rightarrow> string \<Rightarrow> bytes \<Rightarrow> store \<Rightarrow> store" where
  "stamped sha p chk d fs = (if chk = [] then fs else fs(verified_of p \<mapsto> map code (sha d)))"

text \<open>The bytes in the part once an answer with this status has been read.\<close>

definition joined_part :: "store \<Rightarrow> string \<Rightarrow> nat \<Rightarrow> bytes \<Rightarrow> bytes" where
  "joined_part fs p st body = (if st = 206 then (case fs (part_of p) of None \<Rightarrow> [] | Some b \<Rightarrow> b) else []) @ body"

lemma fetch_trace_eq:
  "fetch_trace sha net url p chk fs =
     (case net url (case fs (part_of p) of None \<Rightarrow> 0 | Some d \<Rightarrow> length d) of
        No_answer e \<Rightarrow> (Some e, [])
      | Answered st body err \<Rightarrow>
          (if st \<noteq> 206 \<and> st \<noteq> 200 then (Some (''HTTP '' @ show_nat st), [])
           else let d = joined_part fs p st body; f1 = fs(part_of p \<mapsto> d)
                in case err of
                     Some e \<Rightarrow> (Some e, [f1])
                   | None \<Rightarrow> if matches sha chk d then (None, [f1, stamped sha p chk d f1, (stamped sha p chk d f1)(p \<mapsto> d, part_of p := None)])
                       else (Some (''checksum mismatch: expected '' @ chk @ '', got '' @ sha d), [f1, f1(part_of p := None)])))"
  unfolding fetch_trace_def joined_part_def [symmetric] Let_def
  by (rule arg_cong2 [where f = case_dl_reply, THEN fun_cong]) (auto simp: fun_eq_iff matches_def stamped_def split: option.split)

lemma fetch_trace_ok:
  assumes "fetch_trace sha net url p chk fs = (None, tr)"
  obtains d where "matches sha chk d"
    "tr = [fs(part_of p \<mapsto> d), stamped sha p chk d (fs(part_of p \<mapsto> d)), (stamped sha p chk d (fs(part_of p \<mapsto> d)))(p \<mapsto> d, part_of p := None)]"
proof -
  obtain st body where n: "net url (case fs (part_of p) of None \<Rightarrow> 0 | Some d \<Rightarrow> length d) = Answered st body None"
    using assms unfolding fetch_trace_eq Let_def by (simp split: dl_reply.splits if_splits option.splits)
  show thesis
    by (rule that [of "joined_part fs p st body"]) (use assms n in \<open>simp_all add: fetch_trace_eq Let_def split: if_splits\<close>)
qed

lemma fetchImage_ok:
  assumes "fetchImage sha net url p chk fs = (None, fs')"
  obtains d where "matches sha chk d" "fs' = (stamped sha p chk d fs)(p \<mapsto> d, part_of p := None)"
proof -
  obtain e tr where t: "fetch_trace sha net url p chk fs = (e, tr)" by force
  with assms have e: "e = None" and fs': "fs' = last (fs # tr)" by (simp_all add: fetchImage_def)
  from t e obtain d where d: "matches sha chk d" "tr = [fs(part_of p \<mapsto> d), stamped sha p chk d (fs(part_of p \<mapsto> d)), (stamped sha p chk d (fs(part_of p \<mapsto> d)))(p \<mapsto> d, part_of p := None)]"
    using fetch_trace_ok by metis
  show thesis by (rule that [OF d(1)]) (auto simp: fs' d(2) stamped_def fun_eq_iff)
qed

lemma fetchImage_err:
  assumes "fetchImage sha net url p chk fs = (Some e, fs')"
  obtains x where "fs' = fs(part_of p := x)"
proof -
  obtain tr where "fetch_trace sha net url p chk fs = (Some e, tr)" "fs' = last (fs # tr)"
    using assms by (auto simp: fetchImage_def split: prod.splits)
  hence "fs' = fs(part_of p := fs' (part_of p))"
    unfolding fetch_trace_eq Let_def by (auto split: dl_reply.splits if_splits option.splits)
  thus thesis by (rule that)
qed

text \<open>A download that succeeds replaces the file whole by one with the checksum asked for, and
  leaves no part behind; one that fails touches nothing but the part.\<close>

theorem fetchImage_spec:
  "case fetchImage sha net url p chk fs of
     (None, fs') \<Rightarrow> \<exists>d. fs' p = Some d \<and> (chk = [] \<or> lower (sha d) = lower chk) \<and> fs' (part_of p) = None
        \<and> (\<forall>q. q = p \<or> q = part_of p \<or> q = verified_of p \<or> fs' q = fs q)
   | (Some e, fs') \<Rightarrow> fs' p = fs p \<and> (\<forall>q. q = part_of p \<or> fs' q = fs q)"
proof (cases "fetchImage sha net url p chk fs")
  case (Pair e fs')
  show ?thesis
  proof (cases e)
    case None
    from Pair None obtain d where "matches sha chk d" "fs' = (stamped sha p chk d fs)(p \<mapsto> d, part_of p := None)"
      using fetchImage_ok by metis
    hence "fs' p = Some d \<and> (chk = [] \<or> lower (sha d) = lower chk) \<and> fs' (part_of p) = None
        \<and> (\<forall>q. q = p \<or> q = part_of p \<or> q = verified_of p \<or> fs' q = fs q)" by (auto simp: matches_def stamped_def)
    thus ?thesis using Pair None by auto
  next
    case (Some x)
    from Pair Some obtain y where "fs' = fs(part_of p := y)" using fetchImage_err by metis
    thus ?thesis using Pair Some by simp
  qed
qed

section \<open>Over a link that breaks\<close>

text \<open>A server of files (\<^verbatim>\<open>http.FileServer\<close>) that has \<open>d\<close> under the address, and a link that carries
  so many bytes of an answer or all of them.\<close>

definition serves :: "bytes \<Rightarrow> nat option \<Rightarrow> dl" where
  "serves d stop url from =
     (if from \<noteq> 0 \<and> length d \<le> from then Answered 416 [] None
      else (let rest = drop from d; st = (if from = 0 then 200 else 206)
            in case stop of None \<Rightarrow> Answered st rest None | Some n \<Rightarrow> Answered st (take n rest) (Some ''unexpected EOF'')))"

fun attempts :: "(bytes \<Rightarrow> string) \<Rightarrow> bytes \<Rightarrow> string \<Rightarrow> string \<Rightarrow> string \<Rightarrow> nat list \<Rightarrow> store \<Rightarrow> string option \<times> store" where
  "attempts sha d url p chk [] fs = fetchImage sha (serves d None) url p chk fs"
| "attempts sha d url p chk (n # ns) fs =
     (case fetchImage sha (serves d (Some n)) url p chk fs of
        (None, fs') \<Rightarrow> (None, fs') | (Some _, fs') \<Rightarrow> attempts sha d url p chk ns fs')"

definition holds_part :: "store \<Rightarrow> string \<Rightarrow> bytes \<Rightarrow> nat \<Rightarrow> bool" where
  "holds_part fs p d k \<longleftrightarrow> fs (part_of p) = Some (take k d) \<or> k = 0 \<and> fs (part_of p) = None"

lemma part_length: "holds_part fs p d k \<Longrightarrow> k \<le> length d \<Longrightarrow> (case fs (part_of p) of None \<Rightarrow> 0 | Some b \<Rightarrow> length b) = k"
  by (auto simp: holds_part_def)

lemma part_content: "holds_part fs p d k \<Longrightarrow> k \<noteq> 0 \<Longrightarrow> (case fs (part_of p) of None \<Rightarrow> [] | Some b \<Rightarrow> b) = take k d"
  by (simp add: holds_part_def)

lemma serves_next: "k < length d \<Longrightarrow> serves d (Some n) url k = Answered (if k = 0 then 200 else 206) (take n (drop k d)) (Some ''unexpected EOF'')"
  "k < length d \<Longrightarrow> serves d None url k = Answered (if k = 0 then 200 else 206) (drop k d) None"
  by (simp_all add: serves_def)

lemma put_together: "take k d @ take n (drop k d) = take (k + n) d"
  by (simp add: take_add)

lemma broken_attempt:
  assumes "holds_part fs p d k" and "k < length d"
  shows "\<exists>fs'. fetchImage sha (serves d (Some n)) url p chk fs = (Some ''unexpected EOF'', fs') \<and> holds_part fs' p d (k + n)"
proof -
  note len = part_length [OF assms(1) less_imp_le [OF assms(2)]]
  have "fetch_trace sha (serves d (Some n)) url p chk fs = (Some ''unexpected EOF'', [fs(part_of p \<mapsto> take (k + n) d)])"
    unfolding fetch_trace_def Let_def len serves_next [OF assms(2)]
    by (cases "k = 0") (simp_all add: part_content [OF assms(1)] put_together)
  thus ?thesis by (simp add: fetchImage_def holds_part_def)
qed

lemma whole_attempt:
  assumes "holds_part fs p d k" and "k < length d" and "matches sha chk d"
  shows "fetch_trace sha (serves d None) url p chk fs = (None, [fs(part_of p \<mapsto> d), stamped sha p chk d (fs(part_of p \<mapsto> d)),
     (stamped sha p chk d (fs(part_of p \<mapsto> d)))(p \<mapsto> d, part_of p := None)])"
proof -
  note len = part_length [OF assms(1) less_imp_le [OF assms(2)]]
  have ok: "\<not> (chk \<noteq> [] \<and> lower (sha d) \<noteq> lower chk)" using assms(3) by (simp add: matches_def)
  show ?thesis
  proof (cases "k = 0")
    case True
    thus ?thesis unfolding fetch_trace_def Let_def len serves_next [OF assms(2)] using ok by (simp add: stamped_def)
  next
    case False
    thus ?thesis unfolding fetch_trace_def Let_def len serves_next [OF assms(2)] part_content [OF assms(1) False]
      using ok by (simp add: stamped_def)
  qed
qed

lemma attempts_arrive:
  "holds_part fs p d k \<Longrightarrow> k + sum_list ns < length d \<Longrightarrow> matches sha chk d \<Longrightarrow>
   \<exists>fs'. attempts sha d url p chk ns fs = (None, fs') \<and> fs' p = Some d \<and> fs' (part_of p) = None"
proof (induction ns arbitrary: fs k)
  case Nil
  thus ?case by (simp add: fetchImage_def whole_attempt)
next
  case (Cons n ns)
  have "k < length d" using Cons.prems(2) by simp
  from broken_attempt [OF Cons.prems(1) this] obtain fs' where f: "fetchImage sha (serves d (Some n)) url p chk fs = (Some ''unexpected EOF'', fs')"
    "holds_part fs' p d (k + n)" by blast
  from Cons.IH [OF f(2)] Cons.prems(2,3) show ?case using f(1) by (simp add: add.assoc)
qed

text \<open>A download over a link that breaks any number of times before the last byte ends, at the
  first unbroken attempt, with the whole file in its place; the bytes that had arrived are not
  asked for again.\<close>

theorem broken_downloads_continue:
  assumes "fs (part_of p) = None" and "sum_list ns < length d" and "chk = [] \<or> lower (sha d) = lower chk"
  shows "\<exists>fs'. attempts sha d url p chk ns fs = (None, fs') \<and> fs' p = Some d \<and> fs' (part_of p) = None"
  using attempts_arrive [of fs p d 0] assms by (simp add: holds_part_def matches_def)

lemma broken_downloads_continue_witness:
  "\<exists>fs'. attempts (\<lambda>_. ''ab'') [1, 2, 3] ''u'' ''a.img'' ''AB'' [1, 1] (\<lambda>_. None) = (None, fs') \<and> fs' ''a.img'' = Some [1, 2, 3]"
proof -
  have "lower ''ab'' = lower ''AB''" by code_simp
  thus ?thesis using broken_downloads_continue [of "\<lambda>_. None" "''a.img''" "[1, 1]" "[1, 2, 3]" "''AB''" "\<lambda>_. ''ab''" "''u''"] by auto
qed

lemma full_part_refused:
  assumes "fs (part_of p) = Some d" and "d \<noteq> []"
  shows "fetchImage sha (serves d stop) url p chk fs = (Some ''HTTP 416'', fs)"
proof -
  have "show_nat 416 = ''416''" by code_simp
  moreover have "serves d stop url (length d) = Answered 416 [] None" using assms(2) by (simp add: serves_def)
  ultimately show ?thesis using assms by (simp add: fetchImage_def fetch_trace_def)
qed

text \<open>C33. A site stopped after the last byte of a file arrived and before the file was put in its
  place never gets it: every later attempt asks for what comes after the end, is answered 416,
  and leaves the directory as it is.\<close>

theorem stopped_after_last_byte:
  assumes "fs (part_of p) = None" and "d \<noteq> []" and "chk = [] \<or> lower (sha d) = lower chk"
    and "fetch_trace sha (serves d None) url p chk fs = (None, f1 # rest)"
  shows "f1 p = fs p \<and> (\<forall>stop. fetchImage sha (serves d stop) url p chk f1 = (Some ''HTTP 416'', f1))"
proof -
  have "f1 = fs(part_of p \<mapsto> d)"
    using whole_attempt [of fs p d 0 sha chk url] assms by (simp add: holds_part_def matches_def)
  thus ?thesis using full_part_refused [of f1 p d] assms(2) by simp
qed

lemma stopped_after_last_byte_witness:
  "\<exists>f1. f1 ''a.img'' = None \<and> fetchImage (\<lambda>_. ''ab'') (serves [1, 2] None) ''u'' ''a.img'' ''ab'' f1 = (Some ''HTTP 416'', f1)"
proof -
  obtain f1 rest where t: "fetch_trace (\<lambda>_. ''ab'') (serves [1, 2] None) ''u'' ''a.img'' ''ab'' (\<lambda>_. None) = (None, f1 # rest)"
    using whole_attempt [of "\<lambda>_. None" "''a.img''" "[1, 2]" 0 "\<lambda>_. ''ab''" "''ab''" "''u''"] by (simp add: holds_part_def matches_def)
  from stopped_after_last_byte [OF _ _ _ t] show ?thesis by auto
qed

section \<open>What a stamp is worth\<close>

definition stamps_true :: "(bytes \<Rightarrow> string) \<Rightarrow> store \<Rightarrow> bool" where
  "stamps_true sha fs \<longleftrightarrow> (\<forall>p v d. plain_name p \<and> fs (verified_of p) = Some v \<and> fs p = Some d \<longrightarrow> v = map code (sha d))"

text \<open>Checksums are written in lower-case digits.\<close>

definition hex_sums :: "(bytes \<Rightarrow> string) \<Rightarrow> bool" where
  "hex_sums sha \<longleftrightarrow> (\<forall>d. list_all (\<lambda>c. \<not> is_space c) (sha d) \<and> lower (sha d) = sha d)"

definition is_wanted :: "(bytes \<Rightarrow> string) \<Rightarrow> string \<Rightarrow> int \<Rightarrow> bytes \<Rightarrow> bool" where
  "is_wanted sha chk sz d \<longleftrightarrow> (sz \<le> 0 \<or> int (length d) = sz) \<and> (chk = [] \<or> lower (sha d) = lower chk)"

lemma trim_no_blanks: "list_all (\<lambda>c. \<not> is_space c) s \<Longrightarrow> trim_space s = s"
proof -
  assume a: "list_all (\<lambda>c. \<not> is_space c) s"
  have "dropWhile is_space t = t" if "list_all (\<lambda>c. \<not> is_space c) t" for t using that by (cases t) auto
  from this [OF a] this [of "rev s"] a show ?thesis by (simp add: trim_space_def list_all_iff)
qed

lemma haveImage_frame: "q \<noteq> verified_of p \<Longrightarrow> snd (haveImage sha p chk sz fs) q = fs q"
  by (simp add: haveImage_def split: option.splits)

lemma haveImage_exact:
  assumes "stamps_true sha fs" and "hex_sums sha" and "plain_name p"
  shows "fst (haveImage sha p chk sz fs) \<longleftrightarrow> (case fs p of None \<Rightarrow> False | Some d \<Rightarrow> is_wanted sha chk sz d)"
proof (cases "fs p")
  case (Some d)
  have "trim_space (sha d) = sha d" using assms(2) trim_no_blanks by (simp add: hex_sums_def)
  hence "trim_space (text_of v) = sha d" if "fs (verified_of p) = Some v" for v
  proof -
    have "v = map code (sha d)" using assms(1,3) Some that unfolding stamps_true_def by blast
    thus ?thesis using \<open>trim_space (sha d) = sha d\<close> by simp
  qed
  thus ?thesis using Some by (auto simp: haveImage_def is_wanted_def split: option.splits)
qed (simp add: haveImage_def)

lemma stamp_keeps:
  assumes "stamps_true sha fs" and "plain_name p" and "fs p = Some d"
  shows "stamps_true sha (fs(verified_of p \<mapsto> map code (sha d)))"
  using assms plain_not_side(1) by (auto simp: stamps_true_def)

lemma haveImage_keeps: "stamps_true sha fs \<Longrightarrow> plain_name p \<Longrightarrow> stamps_true sha (snd (haveImage sha p chk sz fs))"
  using stamp_keeps by (auto simp: haveImage_def split: option.splits)

lemma stored_keeps:
  assumes "stamps_true sha fs" and "plain_name p" and "chk \<noteq> []"
  shows "stamps_true sha ((stamped sha p chk d fs)(p \<mapsto> d, part_of p := None))"
  using assms plain_not_side by (auto simp: stamps_true_def stamped_def)

lemma part_keeps: "stamps_true sha fs \<Longrightarrow> stamps_true sha (fs(part_of p := x))"
  using plain_not_side(2) by (auto simp: stamps_true_def)

lemma fetchImage_keeps:
  assumes "stamps_true sha fs" and "plain_name p" and "chk \<noteq> []"
  shows "stamps_true sha (snd (fetchImage sha net url p chk fs))"
proof (cases "fetchImage sha net url p chk fs")
  case (Pair e fs')
  show ?thesis
  proof (cases e)
    case None
    with Pair fetchImage_ok obtain d where "fs' = (stamped sha p chk d fs)(p \<mapsto> d, part_of p := None)" by metis
    thus ?thesis using stored_keeps [OF assms] Pair by simp
  next
    case (Some x)
    with Pair fetchImage_err obtain y where "fs' = fs(part_of p := y)" by metis
    thus ?thesis using part_keeps [OF assms(1)] Pair by simp
  qed
qed

text \<open>Stopped between writing the stamp and putting the file in its place, a site holds the old
  file under the stamp of the new one: a program, whose size nobody states, is taken for the new
  one from then on and never fetched again.\<close>

theorem stopped_before_rename:
  assumes "fetch_trace sha net url name chk fs = (None, [f1, f2, f3])" and "chk \<noteq> []" and "hex_sums sha"
    and "fs name = Some old" and "lower chk = chk"
  shows "f2 name = Some old \<and> ensureBinary sha net' (name, chk, src) (f2, notes) = (f2, notes)"
proof -
  obtain d where d: "matches sha chk d" "f2 = stamped sha name chk d (fs(part_of name \<mapsto> d))"
    using assms(1) fetch_trace_ok by (metis list.inject)
  hence "sha d = chk" using assms(2,3,5) by (simp add: matches_def hex_sums_def)
  moreover have "trim_space (sha d) = sha d" using assms(3) trim_no_blanks by (simp add: hex_sums_def)
  ultimately have "f2 name = Some old" "haveImage sha name chk 0 f2 = (True, f2)"
    using d(2) assms(2,4) by (simp_all add: stamped_def haveImage_def)
  thus ?thesis by (simp add: ensureBinary_def)
qed

lemma stopped_before_rename_witness:
  "\<exists>f2. f2 ''agent'' = Some [9] \<and> ensureBinary (\<lambda>_. ''ab'') (serves [1, 2] None) (''agent'', ''ab'', ''u'') (f2, []) = (f2, [])"
proof -
  let ?fs = "\<lambda>q. if q = ''agent'' then Some [9] else None"
  have "?fs (part_of ''agent'') = None" by (simp add: part_of_def)
  then obtain f1 f2 f3 where t: "fetch_trace (\<lambda>_. ''ab'') (serves [1, 2] None) ''u'' ''agent'' ''ab'' ?fs = (None, [f1, f2, f3])"
    using whole_attempt [of ?fs "''agent''" "[1, 2]" 0 "\<lambda>_. ''ab''" "''ab''" "''u''"] by (simp add: holds_part_def matches_def)
  have "hex_sums (\<lambda>_. ''ab'')" "lower ''ab'' = ''ab''" by (simp_all add: hex_sums_def is_space_def code_def lower_def to_lower_def is_upper_def)
  from stopped_before_rename [OF t _ this(1) _ this(2), of "[9]"] show ?thesis by auto
qed

section \<open>A pass over the images\<close>

definition own_names :: "string \<Rightarrow> string set" where
  "own_names p = {p, part_of p, verified_of p}"

lemma fetchImage_frame: "q \<notin> own_names p \<Longrightarrow> snd (fetchImage sha net url p chk fs) q = fs q"
proof (cases "fetchImage sha net url p chk fs")
  case (Pair e fs')
  assume q: "q \<notin> own_names p"
  show ?thesis
  proof (cases e)
    case None
    with Pair fetchImage_ok obtain d where "fs' = (stamped sha p chk d fs)(p \<mapsto> d, part_of p := None)" by metis
    thus ?thesis using q Pair by (simp add: own_names_def stamped_def)
  next
    case (Some x)
    with Pair fetchImage_err obtain y where "fs' = fs(part_of p := y)" by metis
    thus ?thesis using q Pair by (simp add: own_names_def)
  qed
qed

definition good_image :: "siteImage \<Rightarrow> bool" where
  "good_image i \<longleftrightarrow> plain_name (im_name i) \<and> sg_sha256 i \<noteq> []"

definition told_right :: "(bytes \<Rightarrow> string) \<Rightarrow> store \<Rightarrow> siteImage \<Rightarrow> stockItem \<Rightarrow> bool" where
  "told_right sha fs i k \<longleftrightarrow> sk_image k = sg_id i \<and> (sk_state k \<noteq> ''ready'' \<or>
     (\<exists>b. fs (im_name i) = Some b \<and> lower (sha b) = lower (sg_sha256 i) \<and> sk_bytes k = int (length b)))"

lemma ensureImage_step:
  assumes "stamps_true sha (ps_fs s)" and "hex_sums sha" and "good_image i"
  shows "stamps_true sha (ps_fs (ensureImage sha net dry server i s))"
    and "q \<notin> own_names (im_name i) \<Longrightarrow> ps_fs (ensureImage sha net dry server i s) q = ps_fs s q"
    and "\<exists>k. ps_stock (ensureImage sha net dry server i s) = ps_stock s @ [k] \<and> told_right sha (ps_fs (ensureImage sha net dry server i s)) i k"
proof -
  let ?p = "im_name i" and ?fs = "ps_fs s"
  have p: "plain_name ?p" "sg_sha256 i \<noteq> []" using assms(3) by (simp_all add: good_image_def)
  obtain ok fs where h: "haveImage sha ?p (sg_sha256 i) (sg_bytes i) ?fs = (ok, fs)" by force
  have fs: "stamps_true sha fs" "fs ?p = ?fs ?p" using haveImage_keeps [OF assms(1) p(1)] haveImage_frame h by (metis snd_conv, metis snd_conv side_names(4))
  have frame: "q \<notin> own_names ?p \<Longrightarrow> fs q = ?fs q" for q using haveImage_frame h by (metis snd_conv own_names_def insertCI)
  obtain err fs' where f: "fetchImage sha net (image_source server i) ?p (sg_sha256 i) fs = (err, fs')" by force
  have fs': "stamps_true sha fs'" "q \<notin> own_names ?p \<Longrightarrow> fs' q = fs q" for q
    using fetchImage_keeps [OF fs(1) p] fetchImage_frame f by (metis snd_conv, metis snd_conv)
  have ready: "ok \<Longrightarrow> \<exists>b. fs ?p = Some b \<and> lower (sha b) = lower (sg_sha256 i)"
    using haveImage_exact [OF assms(1,2) p(1), of "sg_sha256 i" "sg_bytes i"] h fs(2) p(2) by (auto simp: is_wanted_def split: option.splits)
  have fetched: "err = None \<Longrightarrow> \<exists>b. fs' ?p = Some b \<and> lower (sha b) = lower (sg_sha256 i)"
    using f fetchImage_ok [of sha net _ ?p "sg_sha256 i" fs fs'] p(2) by (metis fun_upd_apply matches_def side_names(2))
  show "stamps_true sha (ps_fs (ensureImage sha net dry server i s))"
    "q \<notin> own_names (im_name i) \<Longrightarrow> ps_fs (ensureImage sha net dry server i s) q = ps_fs s q"
    using fs(1) fs' frame by (simp_all add: ensureImage_def Let_def h f split: option.split)
  show "\<exists>k. ps_stock (ensureImage sha net dry server i s) = ps_stock s @ [k] \<and> told_right sha (ps_fs (ensureImage sha net dry server i s)) i k"
    using ready fetched by (auto simp: ensureImage_def Let_def h f told_right_def stock_item_def size_in_def split: option.split)
qed

lemma own_apart: "plain_name q \<Longrightarrow> q \<noteq> p \<Longrightarrow> q \<notin> own_names p"
  using plain_not_side by (auto simp: own_names_def)

lemma told_right_cong: "fs' (im_name i) = fs (im_name i) \<Longrightarrow> told_right sha fs' i k = told_right sha fs i k"
  by (simp add: told_right_def)

lemma ensureImages_fold:
  assumes "hex_sums sha"
  shows "stamps_true sha (ps_fs s) \<Longrightarrow> list_all good_image ims \<Longrightarrow> distinct (map im_name ims) \<Longrightarrow>
    stamps_true sha (ps_fs (fold (ensureImage sha net dry server) ims s))
    \<and> (\<forall>q. (\<forall>i\<in>set ims. q \<notin> own_names (im_name i)) \<longrightarrow> ps_fs (fold (ensureImage sha net dry server) ims s) q = ps_fs s q)
    \<and> (\<exists>ks. ps_stock (fold (ensureImage sha net dry server) ims s) = ps_stock s @ ks
         \<and> list_all2 (told_right sha (ps_fs (fold (ensureImage sha net dry server) ims s))) ims ks)"
proof (induction ims arbitrary: s)
  case (Cons i ims)
  let ?s1 = "ensureImage sha net dry server i s" and ?s2 = "fold (ensureImage sha net dry server) ims (ensureImage sha net dry server i s)"
  from Cons.prems have g: "good_image i" and gs: "list_all good_image ims" and d: "distinct (map im_name ims)" "im_name i \<notin> im_name ` set ims" by auto
  note step = ensureImage_step [OF Cons.prems(1) assms g, where net = net and dry = dry and server = server]
  from Cons.IH [OF step(1) gs d(1)] obtain ks where st: "stamps_true sha (ps_fs ?s2)"
    and fr: "\<And>q. \<forall>j\<in>set ims. q \<notin> own_names (im_name j) \<Longrightarrow> ps_fs ?s2 q = ps_fs ?s1 q"
    and ks: "ps_stock ?s2 = ps_stock ?s1 @ ks" "list_all2 (told_right sha (ps_fs ?s2)) ims ks" by blast
  obtain k where k: "ps_stock ?s1 = ps_stock s @ [k]" "told_right sha (ps_fs ?s1) i k" using step(3) by blast
  have "\<forall>j\<in>set ims. im_name i \<notin> own_names (im_name j)"
  proof
    fix j assume "j \<in> set ims"
    hence "im_name i \<noteq> im_name j" using d(2) by auto
    thus "im_name i \<notin> own_names (im_name j)" using g own_apart by (simp add: good_image_def)
  qed
  hence "told_right sha (ps_fs ?s2) i k" using k(2) fr told_right_cong by metis
  moreover have "\<forall>q. (\<forall>j\<in>set (i # ims). q \<notin> own_names (im_name j)) \<longrightarrow> ps_fs ?s2 q = ps_fs s q" using fr step(2) by simp
  ultimately show ?case using st k(1) ks by auto
qed simp

lemma base_of_plain: "plain_name p \<Longrightarrow> base_of p = p"
  by (simp add: plain_name_def base_of_def trim_suffix_def)

lemma pruneImages_frame: "looksLikeImage (base_of q) \<or> pruneImages dry wanted fs q = fs q"
  by (simp add: pruneImages_def)

text \<open>C21. What a pass reports as ready is there, whole and with the checksum of the catalogue, and
  is still there after the pruning; every image of the document is reported, in its order; the
  stamps go on telling the truth; and of other images nothing is left, while what does not look
  like one stays.\<close>

theorem ensureImages_spec:
  assumes "stamps_true sha fs" and "hex_sums sha" and "list_all good_image (d_images d)" and "distinct (map im_name (d_images d))"
    and "s = ensureImages sha net dry d fs"
  shows "list_all2 (told_right sha (ps_fs s)) (d_images d) (ps_stock s) \<and> last (ps_shown s) = ps_stock s \<and> stamps_true sha (ps_fs s)
    \<and> (d_images d = [] \<or> dry \<or> (\<forall>q. ps_fs s q = None \<or> base_of q \<in> im_name ` set (d_images d) \<or> \<not> looksLikeImage (base_of q)))
    \<and> (\<forall>q. (\<exists>i\<in>set (d_images d). q \<in> own_names (im_name i)) \<or> looksLikeImage (base_of q) \<or> ps_fs s q = fs q)"
proof (intro conjI)
  let ?s0 = "\<lparr>ps_fs = fs, ps_stock = [], ps_shown = [], ps_notes = []\<rparr>"
  let ?f = "fold (ensureImage sha net dry (bt_server_url (d_boot d))) (d_images d) ?s0"
  let ?names = "im_name ` set (d_images d)"
  have s: "ps_fs s = pruneImages dry ?names (ps_fs ?f)" "ps_stock s = ps_stock ?f" "ps_shown s = ps_shown ?f @ [ps_stock ?f]"
    by (simp_all add: assms(5) ensureImages_def Let_def)
  have "stamps_true sha (ps_fs ?s0)" using assms(1) by simp
  from ensureImages_fold [OF assms(2) this assms(3,4), where net = net and dry = dry and server = "bt_server_url (d_boot d)"]
  have f: "stamps_true sha (ps_fs ?f)" "list_all2 (told_right sha (ps_fs ?f)) (d_images d) (ps_stock ?f)"
    "\<And>q. \<forall>i\<in>set (d_images d). q \<notin> own_names (im_name i) \<Longrightarrow> ps_fs ?f q = fs q" by auto
  have kept: "ps_fs s (im_name i) = ps_fs ?f (im_name i)" if "i \<in> set (d_images d)" for i
    using that assms(3) by (simp add: s(1) pruneImages_def list_all_iff good_image_def base_of_plain)
  show "list_all2 (told_right sha (ps_fs s)) (d_images d) (ps_stock s)"
    using f(2) kept told_right_cong unfolding s(2) list_all2_conv_all_nth by (metis nth_mem)
  show "last (ps_shown s) = ps_stock s" by (simp add: s)
  show "stamps_true sha (ps_fs s)" using f(1) by (auto simp: s(1) pruneImages_def stamps_true_def)
  show "d_images d = [] \<or> dry \<or> (\<forall>q. ps_fs s q = None \<or> base_of q \<in> ?names \<or> \<not> looksLikeImage (base_of q))"
    by (auto simp: s(1) pruneImages_def)
  show "\<forall>q. (\<exists>i\<in>set (d_images d). q \<in> own_names (im_name i)) \<or> looksLikeImage (base_of q) \<or> ps_fs s q = fs q"
  proof (intro allI)
    fix q
    show "(\<exists>i\<in>set (d_images d). q \<in> own_names (im_name i)) \<or> looksLikeImage (base_of q) \<or> ps_fs s q = fs q"
      using f(3) [of q] pruneImages_frame [of q dry ?names "ps_fs ?f"] unfolding s(1) by metis
  qed
qed

definition demo_doc_image :: siteImage where
  "demo_doc_image = \<lparr>sg_id = ''deb'', sg_url = ''http://x/deb.img'', sg_sha256 = ''ab'', sg_bytes = 2, sg_local = ''deb.img''\<rparr>"

lemma demo_image_good: "good_image demo_doc_image" "im_name demo_doc_image = ''deb.img''"
  by (simp_all add: good_image_def demo_doc_image_def im_name_def plain_name_def has_suffix_def has_prefix_def)

lemma demo_sums: "hex_sums (\<lambda>_. ''ab'')"
  by (simp add: hex_sums_def is_space_def code_def lower_def to_lower_def is_upper_def)

lemma ensureImages_spec_witness:
  "\<forall>d. list_all2 (told_right (\<lambda>_. ''ab'') (ps_fs (ensureImages (\<lambda>_. ''ab'') (serves [1, 2] None) False (d\<lparr>d_images := [demo_doc_image]\<rparr>) (\<lambda>_. None))))
     [demo_doc_image] (ps_stock (ensureImages (\<lambda>_. ''ab'') (serves [1, 2] None) False (d\<lparr>d_images := [demo_doc_image]\<rparr>) (\<lambda>_. None)))"
proof
  fix d :: siteDoc
  have "stamps_true (\<lambda>_. ''ab'') (\<lambda>_. None)" by (simp add: stamps_true_def)
  from ensureImages_spec [OF this demo_sums, of "d\<lparr>d_images := [demo_doc_image]\<rparr>", OF _ _ refl, where net = "serves [1, 2] None" and dry = False]
  show "list_all2 (told_right (\<lambda>_. ''ab'') (ps_fs (ensureImages (\<lambda>_. ''ab'') (serves [1, 2] None) False (d\<lparr>d_images := [demo_doc_image]\<rparr>) (\<lambda>_. None))))
     [demo_doc_image] (ps_stock (ensureImages (\<lambda>_. ''ab'') (serves [1, 2] None) False (d\<lparr>d_images := [demo_doc_image]\<rparr>) (\<lambda>_. None)))"
    by (simp add: demo_image_good)
qed

section \<open>The netboot payload\<close>

lemma payload_stamp:
  assumes "trim_space w = w" and "w \<noteq> []"
  shows "payloadHeld (fs(''.payload'' \<mapsto> map code (w @ [CHR 0x0A]))) = w"
proof -
  have "trim_space (w @ [CHR 0x0A]) = w" using trim_blank [OF newline_space, of w] assms(1) by simp
  thus ?thesis using assms(2) by (simp add: payloadHeld_def Let_def del: map_append)
qed

text \<open>After a pass without an error the site states the centre's payload as its own; and as long
  as its plain line still names it, the next pass does nothing, whatever the centre would answer.\<close>

theorem ensureBoot_settles:
  assumes "ensureBoot sha net False relayURL bt fs = Value (None, fs')" and "\<not> (bt_boot_img bt = [] \<and> bt_files bt = [])"
    and "trim_space (want_of bt) = want_of bt" and "want_of bt \<noteq> []"
  shows "payloadHeld fs' = want_of bt"
    and "aimedHere relayURL (plain_cmdline fs') \<Longrightarrow> ensureBoot sha net' False relayURL bt fs' = Value (None, fs')"
proof -
  show held: "payloadHeld fs' = want_of bt"
  proof (cases "boot_current relayURL bt fs")
    case True
    thus ?thesis using assms(1,2) by (simp add: ensureBoot_def) (simp add: boot_current_def)
  next
    case False
    obtain f2 where "fs' = f2(''.payload'' \<mapsto> map code (want_of bt @ [CHR 0x0A]))"
      using assms(1,2) False by (auto simp: ensureBoot_def simp del: map_append split: prod.splits option.splits Json.outcome.splits)
    thus ?thesis using payload_stamp [OF assms(3,4)] by blast
  qed
  show "aimedHere relayURL (plain_cmdline fs') \<Longrightarrow> ensureBoot sha net' False relayURL bt fs' = Value (None, fs')"
    using held assms(4) by (simp add: ensureBoot_def boot_current_def)
qed

lemma ensureBoot_settles_witness:
  "\<exists>fs'. ensureBoot (\<lambda>_. ''ab'') (serves [1] None) False [] \<lparr>bt_boot_img = ''b'', bt_sha256 = ''ab'', bt_version = ''v1'',
     bt_cmdline_url = [], bt_server_url = ''http://c'', bt_files = []\<rparr> (\<lambda>_. None) = Value (None, fs') \<and> payloadHeld fs' = ''v1''"
proof -
  let ?bt = "\<lparr>bt_boot_img = ''b'', bt_sha256 = ''ab'', bt_version = ''v1'', bt_cmdline_url = [], bt_server_url = ''http://c'', bt_files = []\<rparr>"
  obtain f1 where f: "fetchImage (\<lambda>_. ''ab'') (serves [1] None) (trim_right ''/'' ''http://c'' @ ''/boot/'' @ ''boot.img'') ''boot.img'' ''ab'' (\<lambda>_. None) = (None, f1)"
    using whole_attempt [of "\<lambda>_. None" "''boot.img''" "[1]" 0 "\<lambda>_. ''ab''" "''ab''"] by (simp add: holds_part_def matches_def fetchImage_def)
  have "\<not> refused_name ''boot.img''" "haveImage (\<lambda>_. ''ab'') ''boot.img'' ''ab'' 0 (\<lambda>_. None) = (False, \<lambda>_. None)"
    by code_simp (simp add: haveImage_def)
  hence "fetch_files (\<lambda>_. ''ab'') (serves [1] None) (trim_right ''/'' ''http://c'' @ ''/boot/'') (files_of ?bt) (\<lambda>_. None) 0 = (None, f1, 1)"
    using f by (simp add: files_of_def)
  moreover have "\<not> boot_current [] ?bt (\<lambda>_. None)" by (simp add: boot_current_def payloadHeld_def want_of_def)
  moreover obtain f2 ok where "aim_store [] f1 = Value (f2, ok)" by (simp add: aim_store_def aimPayloadHere_def Let_def)
  ultimately obtain fs' where fs': "ensureBoot (\<lambda>_. ''ab'') (serves [1] None) False [] ?bt (\<lambda>_. None) = Value (None, fs')"
    by (simp add: ensureBoot_def)
  have "trim_space (want_of ?bt) = want_of ?bt" by (simp add: want_of_def trim_space_def is_space_def code_def)
  from ensureBoot_settles(1) [OF fs' _ this] fs' show ?thesis by (auto simp: want_of_def)
qed

lemma plain_put: "plain_cmdline (fs(''cmdline.txt'' := map_option (map code) p)) = p"
  by (cases p) (simp_all add: plain_cmdline_def)

text \<open>Where the line inside the image could not be rewritten and the plain one could, the site takes
  its payload for aimed from then on: no later pass touches the image again.\<close>

theorem failed_aim_forgotten:
  assumes "bt_boot_img bt \<noteq> []" and "\<not> boot_current relayURL bt fs" and "trim_space (want_of bt) = want_of bt" and "want_of bt \<noteq> []"
    and "fetch_files sha net (trim_right ''/'' (bt_server_url bt) @ ''/boot/'') (files_of bt) fs 0 = (None, f1, n)"
    and "f1 ''boot.img'' = Some img" and "f1 ''cmdline.txt'' \<noteq> None" and "relayURL \<noteq> []" and "list_all (\<lambda>c. \<not> is_space c) relayURL"
    and "aimPayloadHere relayURL (plain_cmdline f1) img = Value (p, img', False)"
  shows "\<exists>fs'. ensureBoot sha net False relayURL bt fs = Value (None, fs') \<and> fs' ''boot.img'' = Some img
     \<and> (\<forall>net'. ensureBoot sha net' False relayURL bt fs' = Value (None, fs'))"
proof -
  obtain b where b: "plain_cmdline f1 = Some b" using assms(7) by (auto simp: plain_cmdline_def)
  note plain = aimPayloadHere_plain [OF assms(10,8)]
  have img: "img' = img" using plain(2) by simp
  let ?b = "if trim_space (replaceServer b relayURL) \<noteq> trim_space b then replaceServer b relayURL @ [CHR 0x0A] else b"
  have p: "p = Some ?b" using plain(1) b by simp
  let ?f2 = "(if p = plain_cmdline f1 then f1 else f1(''cmdline.txt'' := map_option (map code) p))(''boot.img'' \<mapsto> img)"
  let ?fs' = "?f2(''.payload'' \<mapsto> map code (want_of bt @ [CHR 0x0A]))"
  have aim: "aim_store relayURL f1 = Value (?f2, False)"
    using assms(6,10) img by (simp add: aim_store_def Let_def)
  have e: "ensureBoot sha net False relayURL bt fs = Value (None, ?fs')"
    unfolding ensureBoot_def by (simp only: assms(1,2,5) aim simp_thms if_False prod.case option.case Json.outcome.case)
  have "plain_cmdline ?fs' = plain_cmdline (if p = plain_cmdline f1 then f1 else f1(''cmdline.txt'' := map_option (map code) p))"
    by (simp only: plain_cmdline_def fun_upd_apply) simp
  hence "plain_cmdline ?fs' = p" by (cases "p = plain_cmdline f1") (simp_all only: if_True if_False simp_thms plain_put)
  hence "aimedHere relayURL (plain_cmdline ?fs')" using aim_plain(3) [OF assms(9,8) refl, of b] p by simp
  moreover have "payloadHeld ?fs' = want_of bt" by (rule payload_stamp [OF assms(3,4)])
  ultimately have "boot_current relayURL bt ?fs'" using assms(4) by (simp only: boot_current_def simp_thms)
  hence "\<forall>net'. ensureBoot sha net' False relayURL bt ?fs' = Value (None, ?fs')"
    unfolding ensureBoot_def by (simp only: if_True assms(1) simp_thms if_False)
  moreover have "?fs' ''boot.img'' = Some img" by simp
  ultimately show ?thesis using e by blast
qed

lemma failed_aim_forgotten_witness:
  "\<exists>fs'. ensureBoot (\<lambda>_. ''ab'') (serves [] None) False ''u'' \<lparr>bt_boot_img = ''b'', bt_sha256 = [], bt_version = ''v1'', bt_cmdline_url = [],
       bt_server_url = [], bt_files = [\<lparr>pf_name = ''boot.img'', pf_sha256 = [], pf_bytes = 0\<rparr>]\<rparr> [''boot.img'' \<mapsto> [1], ''cmdline.txt'' \<mapsto> [120]]
     = Value (None, fs') \<and> fs' ''boot.img'' = Some [1]"
proof -
  let ?bt = "\<lparr>bt_boot_img = ''b'', bt_sha256 = [], bt_version = ''v1'', bt_cmdline_url = [], bt_server_url = [],
     bt_files = [\<lparr>pf_name = ''boot.img'', pf_sha256 = [], pf_bytes = 0\<rparr>]\<rparr>"
  let ?fs = "[''boot.img'' \<mapsto> [1], ''cmdline.txt'' \<mapsto> [120]] :: store"
  let ?f1 = "?fs(verified_of ''boot.img'' \<mapsto> map code ''ab'')"
  have "verified_of ''boot.img'' \<noteq> ''cmdline.txt''" "verified_of ''boot.img'' \<noteq> ''.payload''" "verified_of ''boot.img'' \<noteq> ''boot.img.upstream''"
    by (simp_all add: verified_of_def)
  moreover have "?fs (verified_of ''boot.img'') = None" by (simp add: verified_of_def)
  ultimately have h: "haveImage (\<lambda>_. ''ab'') ''boot.img'' [] 0 ?fs = (True, ?f1)" and cmd: "?f1 ''cmdline.txt'' = Some [120]" "?f1 ''boot.img'' = Some [1]"
    by (simp_all add: haveImage_def del: list.map)
  have "\<not> refused_name ''boot.img''" by code_simp
  hence files: "fetch_files (\<lambda>_. ''ab'') (serves [] None) (trim_right ''/'' (bt_server_url ?bt) @ ''/boot/'') (files_of ?bt) ?fs 0 = (None, ?f1, 0)"
    using h by (simp add: files_of_def del: list.map)
  have cur: "\<not> boot_current ''u'' ?bt ?fs" by (simp add: boot_current_def payloadHeld_def want_of_def)
  have w: "trim_space (want_of ?bt) = want_of ?bt" "want_of ?bt \<noteq> []" "bt_boot_img ?bt \<noteq> []" by (simp_all add: want_of_def trim_space_def is_space_def code_def)
  have "readFATFile [1] ''cmdline.txt'' = Value None" by (simp add: readFATFile_def openFAT16_def)
  then obtain p where a: "aimPayloadHere ''u'' (plain_cmdline ?f1) [1] = Value (p, [1], False)" by (simp add: aimPayloadHere_def Let_def)
  have u: "''u'' \<noteq> []" "list_all (\<lambda>c. \<not> is_space c) ''u''" by (simp_all add: is_space_def code_def)
  have c: "?f1 ''cmdline.txt'' \<noteq> None" using cmd(1) by simp
  from failed_aim_forgotten [OF w(3) cur w(1,2) files cmd(2) c u a] show ?thesis by blast
qed

end
