(* ===== verification/Apply.thy ===== *)
theory Apply
  imports Fat
begin

text \<open>
  Applying the desired state on a blade (\<^verbatim>\<open>src/agent/apply.go\<close>). A machine is its host name, its time
  zone, its files with their permissions, its units and its packages. The programs the agent calls
  (\<^verbatim>\<open>systemctl\<close>, \<^verbatim>\<open>apt-get\<close>, \<^verbatim>\<open>hostnamectl\<close> and the like) are a parameter: what they print, whether they
  fail and what they leave of the machine; so are checksums and downloads. Reading and writing
  files succeeds, and a path is a name. The theorem: the agent's block in a file leaves every
  other line alone and is written once.
\<close>

section \<open>Texts\<close>

text \<open>\<^verbatim>\<open>strings.Index\<close>, \<^verbatim>\<open>strings.Join\<close>; the newline.\<close>

fun index_of :: "string \<Rightarrow> string \<Rightarrow> nat option" where
  "index_of [] p = (if p = [] then Some 0 else None)"
| "index_of (c # s) p = (if has_prefix (c # s) p then Some 0 else map_option Suc (index_of s p))"

fun join :: "string \<Rightarrow> string list \<Rightarrow> string" where
  "join sep [] = []"
| "join sep [w] = w"
| "join sep (w # ws) = w @ sep @ join sep ws"

abbreviation LF :: char where "LF \<equiv> CHR 0x0A"

abbreviation split_lines :: "string \<Rightarrow> string list" where "split_lines \<equiv> split_on LF"

abbreviation join_lines :: "string list \<Rightarrow> string" where "join_lines \<equiv> join [LF]"

definition lastLines :: "string \<Rightarrow> nat \<Rightarrow> string" where
  "lastLines s n = (let ls = split_lines (trim_space s) in join '' | '' (drop (length ls - n) ls))"

section \<open>The machine\<close>

record os =
  os_host :: string
  os_zone :: string
  os_files :: "string \<Rightarrow> (string \<times> nat) option"
  os_enabled :: "string set"
  os_active :: "string set"
  os_packages :: "string set"

text \<open>A call: what it printed, the error if it failed, the machine afterwards. A download: the error,
  or the status and the body with the error it ended in.\<close>

datatype download = Get_error string | Got nat string "string option"

record tools =
  tl_run :: "string list \<Rightarrow> os \<Rightarrow> string \<times> string option \<times> os"
  tl_has :: "string \<Rightarrow> bool"
  tl_sha :: "string \<Rightarrow> string"
  tl_get :: "string \<Rightarrow> download"

definition content :: "os \<Rightarrow> string \<Rightarrow> string option" where
  "content w p = map_option fst (os_files w p)"

definition readFileStr :: "os \<Rightarrow> string \<Rightarrow> string" where
  "readFileStr w p = (case content w p of None \<Rightarrow> [] | Some s \<Rightarrow> s)"

text \<open>\<^verbatim>\<open>os.WriteFile\<close> keeps the mode of a file that is there.\<close>

definition write_file :: "string \<Rightarrow> string \<Rightarrow> nat \<Rightarrow> os \<Rightarrow> os" where
  "write_file p s m w = w\<lparr>os_files := (os_files w)(p \<mapsto> (s, case os_files w p of Some (_, n) \<Rightarrow> n | None \<Rightarrow> m))\<rparr>"

definition put_file :: "string \<Rightarrow> string \<Rightarrow> nat \<Rightarrow> os \<Rightarrow> os" where
  "put_file p s m w = w\<lparr>os_files := (os_files w)(p \<mapsto> (s, m))\<rparr>"

text \<open>A step: whether something changed, or its error; and the machine.\<close>

type_synonym step = "(string + bool) \<times> os"

section \<open>Host name and time zone\<close>

definition hosts_lines :: "string \<Rightarrow> string list \<Rightarrow> string list" where
  "hosts_lines host ls =
     (let mine = (\<lambda>l. has_prefix (trim_space l) ''127.0.1.1''); entry = ''127.0.1.1'' @ [CHR 0x09] @ host
      in if list_ex mine ls then takeWhile (\<lambda>l. \<not> mine l) ls @ entry # tl (dropWhile (\<lambda>l. \<not> mine l) ls)
         else ls @ [entry])"

definition ensureHostsEntry :: "string \<Rightarrow> os \<Rightarrow> os" where
  "ensureHostsEntry host w =
     (case content w ''/etc/hosts'' of
        None \<Rightarrow> w | Some b \<Rightarrow> write_file ''/etc/hosts'' (join_lines (hosts_lines host (split_lines b))) 420 w)"

definition setHostname :: "tools \<Rightarrow> string \<Rightarrow> os \<Rightarrow> step" where
  "setHostname k want w =
     (if os_host w = want then (Inr False, ensureHostsEntry want w)
      else case tl_run k [''hostnamectl'', ''set-hostname'', want] w of
             (out, None, w1) \<Rightarrow> (Inr True, ensureHostsEntry want w1)
           | (out, Some _, w1) \<Rightarrow>
               (case tl_run k [''hostname'', want] (write_file ''/etc/hostname'' (want @ [LF]) 420 w1) of
                  (out2, None, w2) \<Rightarrow> (Inr True, ensureHostsEntry want w2)
                | (out2, Some e2, w2) \<Rightarrow> (Inl (e2 @ '': '' @ lastLines out2 1), w2)))"

definition setTimezone :: "tools \<Rightarrow> string \<Rightarrow> os \<Rightarrow> step" where
  "setTimezone k want w =
     (let by_hand = (\<lambda>w. let zone = ''/usr/share/zoneinfo/'' @ want
                in if os_files w zone = None then (Inl (''time zone '' @ want @ '' not on this system''), w)
                   else (Inr True, write_file ''/etc/timezone'' (want @ [LF]) 420 (w\<lparr>os_zone := zone\<rparr>)))
      in if has_suffix (os_zone w) (''/'' @ want) then (Inr False, w)
         else if tl_has k ''timedatectl'' then
           (case tl_run k [''timedatectl'', ''set-timezone'', want] w of
              (out, None, w1) \<Rightarrow> (Inr True, w1)
            | (out, Some e, w1) \<Rightarrow> if str_contains out ''bus'' then by_hand w1 else (Inl (e @ '': '' @ trim_space out), w1))
         else by_hand w)"

section \<open>Keys\<close>

record keyTarget =
  kt_name :: string
  kt_home :: string

fun first_user :: "string list \<Rightarrow> keyTarget list" where
  "first_user [] = []"
| "first_user (l # ls) =
     (let f = split_on CHR '':'' l
      in if length f < 7 \<or> atoi (f ! 2) \<noteq> Some 1000 \<or> f ! 5 = [] \<or> has_suffix (f ! 6) ''nologin'' \<or> has_suffix (f ! 6) ''false''
         then first_user ls else [\<lparr>kt_name = f ! 0, kt_home = f ! 5\<rparr>])"

definition keyTargets :: "os \<Rightarrow> keyTarget list" where
  "keyTargets w = \<lparr>kt_name = ''root'', kt_home = ''/root''\<rparr> # first_user (split_lines (readFileStr w ''/etc/passwd''))"

definition keys_path :: "keyTarget \<Rightarrow> string" where
  "keys_path t = trim_right ''/'' (kt_home t) @ ''/.ssh/authorized_keys''"

definition writeAuthorizedKeys :: "keyTarget \<Rightarrow> string list \<Rightarrow> os \<Rightarrow> step" where
  "writeAuthorizedKeys t keys w =
     (let want = ''# managed by sheath-agent'' @ [LF] @ join_lines keys @ [LF]
      in if content w (keys_path t) = Some want then (Inr False, w) else (Inr True, write_file (keys_path t) want 384 w))"

section \<open>Files\<close>

record managedFile =
  mf_path :: string
  mf_content :: string
  mf_mode :: nat

text \<open>\<^verbatim>\<open>strconv.ParseUint\<close> in base 8 and 32 bits; a mode given as a number is cut to an integer.\<close>

definition parse_octal :: "string \<Rightarrow> nat option" where
  "parse_octal s =
     (let n = foldl (\<lambda>a c. a * 8 + digit_val c) 0 s
      in if s = [] \<or> \<not> list_all (\<lambda>c. is_digit c \<and> digit_val c < 8) s \<or> n \<ge> 2 ^ 32 then None else Some n)"

definition mode_of :: "json option \<Rightarrow> nat" where
  "mode_of v =
     (case v of
        Some (JStr t) \<Rightarrow> (case parse_octal t of Some n \<Rightarrow> n | None \<Rightarrow> 420)
      | Some (JNum q) \<Rightarrow> nat ((if q < 0 then - floor (- q) else floor q) mod 2 ^ 32)
      | _ \<Rightarrow> 420)"

definition str_of :: "json option \<Rightarrow> string" where
  "str_of v = (case as_str v of Some s \<Rightarrow> s | None \<Rightarrow> [])"

definition objects :: "json option \<Rightarrow> jmap list" where
  "objects v = (case v of Some (JArr es) \<Rightarrow> List.map_filter (\<lambda>e. as_obj (Some e)) es | _ \<Rightarrow> [])"

definition fileList :: "json option \<Rightarrow> managedFile list" where
  "fileList v =
     map (\<lambda>m. \<lparr>mf_path = str_of (map_of m ''path''), mf_content = str_of (map_of m ''content''), mf_mode = mode_of (map_of m ''mode'')\<rparr>)
       (filter (\<lambda>m. str_of (map_of m ''path'') \<noteq> []) (objects v))"

definition perm :: "nat \<Rightarrow> nat" where "perm m = m mod 512"

definition writeManagedFile :: "managedFile \<Rightarrow> os \<Rightarrow> step" where
  "writeManagedFile f w =
     (if (case os_files w (mf_path f) of None \<Rightarrow> False | Some (s, m) \<Rightarrow> s = mf_content f \<and> m = perm (mf_mode f)) then (Inr False, w)
      else (Inr True, put_file (mf_path f) (mf_content f) (perm (mf_mode f)) w))"

section \<open>Programs\<close>

record binarySpec =
  bn_path :: string
  bn_url :: string
  bn_sha :: string

definition binaryList :: "json option \<Rightarrow> binarySpec list" where
  "binaryList v =
     filter (\<lambda>b. bn_path b \<noteq> [] \<and> bn_url b \<noteq> [])
       (map (\<lambda>m. \<lparr>bn_path = str_of (map_of m ''path''), bn_url = str_of (map_of m ''url''), bn_sha = str_of (map_of m ''sha256'')\<rparr>) (objects v))"

definition installBinary :: "tools \<Rightarrow> binarySpec \<Rightarrow> os \<Rightarrow> step" where
  "installBinary k b w =
     (if (case content w (bn_path b) of None \<Rightarrow> False | Some s \<Rightarrow> bn_sha b = [] \<or> lower (tl_sha k s) = lower (bn_sha b)) then (Inr False, w)
      else case tl_get k (bn_url b) of
             Get_error e \<Rightarrow> (Inl e, w)
           | Got st body err \<Rightarrow>
               (if st \<noteq> 200 then (Inl (''HTTP '' @ show_nat st @ '' for '' @ bn_url b), w)
                else case err of
                       Some e \<Rightarrow> (Inl e, w)
                     | None \<Rightarrow>
                         (if bn_sha b \<noteq> [] \<and> lower (tl_sha k body) \<noteq> lower (bn_sha b)
                          then (Inl (''checksum mismatch: expected '' @ bn_sha b @ '', got '' @ tl_sha k body), w)
                          else (Inr True, put_file (bn_path b) body 493 w))))"

section \<open>Boot configuration\<close>

definition bootConfigStart :: string where "bootConfigStart = ''# >>> sheath managed >>>''"

definition bootConfigEnd :: string where "bootConfigEnd = ''# <<< sheath managed <<<''"

definition rebootMarker :: string where "rebootMarker = ''/run/sheath-agent.reboot-required''"

definition markRebootPending :: "os \<Rightarrow> os" where
  "markRebootPending w = write_file rebootMarker (''boot config changed'' @ [LF]) 420 w"

definition rebootRequired :: "os \<Rightarrow> bool" where
  "rebootRequired w \<longleftrightarrow> os_files w rebootMarker \<noteq> None"

definition raspiFirmwareCustom :: string where "raspiFirmwareCustom = ''/etc/default/raspi-firmware-custom''"

definition bootConfigPath :: "os \<Rightarrow> string option" where
  "bootConfigPath w = find (\<lambda>p. os_files w p \<noteq> None) [''/boot/firmware/config.txt'', ''/boot/config.txt'']"

definition stripBlock :: "string \<Rightarrow> string" where
  "stripBlock s =
     (case index_of s bootConfigStart of
        None \<Rightarrow> s
      | Some i \<Rightarrow> (case index_of (drop i s) bootConfigEnd of
                    None \<Rightarrow> take i s | Some j \<Rightarrow> take i s @ drop (i + j + length bootConfigEnd) s))"

definition replaceBlock :: "string \<Rightarrow> string \<Rightarrow> string" where
  "replaceBlock s block =
     (let rest = trim_right [LF] (stripBlock s)
      in if block = [] then rest @ [LF] else rest @ [LF, LF] @ block @ [LF])"

definition hasLine :: "string \<Rightarrow> string \<Rightarrow> bool" where
  "hasLine body want \<longleftrightarrow>
     list_ex (\<lambda>l. trim_space l \<noteq> [] \<and> \<not> has_prefix (trim_space l) ''#'' \<and> trim_space l = trim_space want) (split_lines body)"

definition is_section :: "string \<Rightarrow> bool" where "is_section l \<longleftrightarrow> has_prefix (trim_space l) ''[''"

definition onlySections :: "string list \<Rightarrow> bool" where
  "onlySections ls \<longleftrightarrow> list_all (\<lambda>l. trim_space l = [] \<or> is_section l) ls"

definition missing_lines :: "string \<Rightarrow> string list \<Rightarrow> string list" where
  "missing_lines body ls =
     (let m = filter (\<lambda>l. is_section l \<or> \<not> hasLine body l) ls in if onlySections m then [] else m)"

definition block_of :: "string list \<Rightarrow> string" where
  "block_of ls = bootConfigStart @ [LF] @ join_lines ls @ [LF] @ bootConfigEnd"

definition applyBlockTo :: "string \<Rightarrow> string list \<Rightarrow> bool \<Rightarrow> os \<Rightarrow> step" where
  "applyBlockTo path ls create w =
     (if content w path = None \<and> \<not> create then (Inl (''no '' @ path), w)
      else (let old = readFileStr w path; missing = missing_lines (stripBlock old) ls
            in if missing = [] \<and> \<not> str_contains old bootConfigStart then (Inr False, w)
               else (let new = replaceBlock old (if missing = [] then [] else block_of missing)
                     in if new = old then (Inr False, w) else (Inr True, put_file path new 420 w))))"

definition applyBootConfig :: "string list \<Rightarrow> os \<Rightarrow> step" where
  "applyBootConfig ls w =
     (case (if os_files w ''/etc/default/raspi-firmware'' \<noteq> None then applyBlockTo raspiFirmwareCustom ls True w else (Inr False, w)) of
        (Inl e, w1) \<Rightarrow> (Inl e, w1)
      | (Inr c, w1) \<Rightarrow>
          (case bootConfigPath w1 of
             None \<Rightarrow> (if c then Inr True else Inl ''no config.txt found (neither /boot/firmware nor /boot)'', w1)
           | Some p \<Rightarrow> (case applyBlockTo p ls False w1 of
                          (Inl e, w2) \<Rightarrow> (Inl e, w2) | (Inr c2, w2) \<Rightarrow> (Inr (c \<or> c2), w2))))"

section \<open>What the system calls itself\<close>

text \<open>\<^verbatim>\<open>parseKV\<close>: later lines win.\<close>

definition trim_chars :: "char list \<Rightarrow> string \<Rightarrow> string" where
  "trim_chars cs s = trim_right cs (dropWhile (\<lambda>c. c \<in> set cs) s)"

definition parseKV :: "string \<Rightarrow> (string \<times> string) list" where
  "parseKV s = fold (\<lambda>l m. case cut CHR ''='' (trim_space l) of
       None \<Rightarrow> m | Some (k, v) \<Rightarrow> AList.update k (trim_chars [CHR 0x22, CHR 0x27] v) m) (split_lines s) []"

definition kv :: "(string \<times> string) list \<Rightarrow> string \<Rightarrow> string" where
  "kv m k = (case map_of m k of None \<Rightarrow> [] | Some v \<Rightarrow> v)"

text \<open>The id, the name and the version.\<close>

definition dietPi :: "os \<Rightarrow> (string \<times> string \<times> string) option" where
  "dietPi w =
     (let v0 = parseKV (readFileStr w ''/boot/dietpi/.version'');
          v = (if v0 = [] then parseKV (readFileStr w ''/var/lib/dietpi/.version'') else v0);
          core = kv v ''G_DIETPI_VERSION_CORE''; ssub = kv v ''G_DIETPI_VERSION_SUB''; rc = kv v ''G_DIETPI_VERSION_RC'';
          version = core @ (if ssub = [] then [] else ''.'' @ ssub) @ (if rc = [] then [] else ''.'' @ rc)
      in if core = [] then None else Some (''dietpi'', ''DietPi '' @ version, version))"

definition osIdentity :: "os \<Rightarrow> string" where
  "osIdentity w = (case dietPi w of Some (id', _) \<Rightarrow> id' | None \<Rightarrow> kv (parseKV (readFileStr w ''/etc/os-release'')) ''ID'')"

section \<open>Packages\<close>

definition package_name :: "string \<Rightarrow> json \<Rightarrow> string" where
  "package_name osID e =
     (case e of
        JStr s \<Rightarrow> s
      | JObj m \<Rightarrow> (case (case as_obj (map_of m ''per_os'') of Some per \<Rightarrow> str_of (map_of per osID) | None \<Rightarrow> []) of
                     [] \<Rightarrow> str_of (map_of m ''name'') | v \<Rightarrow> v)
      | _ \<Rightarrow> [])"

definition packageList :: "string \<Rightarrow> json option \<Rightarrow> string list" where
  "packageList osID v = (case v of Some (JArr es) \<Rightarrow> filter (\<lambda>p. p \<noteq> []) (map (package_name osID) es) | _ \<Rightarrow> [])"

definition lacks :: "tools \<Rightarrow> os \<Rightarrow> string \<Rightarrow> bool" where
  "lacks k w p \<longleftrightarrow> (case tl_run k [''dpkg-query'', ''-W'', ''-f=${Status}'', p] w of
     (out, err, _) \<Rightarrow> err \<noteq> None \<or> \<not> str_contains out ''install ok installed'')"

definition missingPackages :: "tools \<Rightarrow> string list \<Rightarrow> os \<Rightarrow> string list" where
  "missingPackages k pkgs w = filter (lacks k w) pkgs"

definition installPackages :: "tools \<Rightarrow> string list \<Rightarrow> os \<Rightarrow> string option \<times> os" where
  "installPackages k pkgs w =
     (if \<not> tl_has k ''apt-get'' then (Some ''tool not present'', w)
      else (case tl_run k [''apt-get'', ''update'', ''-qq''] w of
              (_, _, w1) \<Rightarrow>
                (case tl_run k ([''apt-get'', ''install'', ''-y'', ''-qq'', ''--no-install-recommends''] @ pkgs) w1 of
                   (out, Some e, w2) \<Rightarrow> (Some (e @ '': '' @ lastLines out 3), w2) | (_, None, w2) \<Rightarrow> (None, w2))))"

section \<open>Units\<close>

record unitSpec =
  us_name :: string
  us_enabled :: bool
  us_restart :: bool

definition unit_entry :: "string \<Rightarrow> json \<Rightarrow> unitSpec list" where
  "unit_entry osID e =
     (case e of
        JStr s \<Rightarrow> [\<lparr>us_name = s, us_enabled = True, us_restart = False\<rparr>]
      | JObj m \<Rightarrow>
          (let n = (case as_obj (map_of m ''per_os'') of
                      Some per \<Rightarrow> (case map_of per osID of Some v \<Rightarrow> str_of (Some v) | None \<Rightarrow> str_of (map_of m ''name''))
                    | None \<Rightarrow> str_of (map_of m ''name''))
           in if n = [] then []
              else [\<lparr>us_name = n, us_enabled = (case as_bool (map_of m ''enabled'') of Some b \<Rightarrow> b | None \<Rightarrow> True),
                     us_restart = (case as_bool (map_of m ''restart'') of Some b \<Rightarrow> b | None \<Rightarrow> False)\<rparr>])
      | _ \<Rightarrow> [])"

definition unitList :: "string \<Rightarrow> json option \<Rightarrow> unitSpec list" where
  "unitList osID v = (case v of Some (JArr es) \<Rightarrow> concat (map (unit_entry osID) es) | _ \<Rightarrow> [])"

definition systemctlIs :: "tools \<Rightarrow> string \<Rightarrow> string \<Rightarrow> os \<Rightarrow> string" where
  "systemctlIs k verb u w = trim_space (fst (tl_run k [''systemctl'', verb, u] w))"

definition systemctl :: "tools \<Rightarrow> string list \<Rightarrow> os \<Rightarrow> step" where
  "systemctl k args w = (case tl_run k (''systemctl'' # args) w of
     (out, Some e, w1) \<Rightarrow> (Inl (e @ '': '' @ lastLines out 2), w1) | (_, None, w1) \<Rightarrow> (Inr True, w1))"

definition applyUnit :: "tools \<Rightarrow> unitSpec \<Rightarrow> os \<Rightarrow> step" where
  "applyUnit k u w =
     (let isEnabled = systemctlIs k ''is-enabled'' (us_name u) w = ''enabled''; isActive = systemctlIs k ''is-active'' (us_name u) w = ''active''
      in if \<not> us_enabled u then
           (if \<not> isEnabled \<and> \<not> isActive then (Inr False, w) else systemctl k [''disable'', ''--now'', us_name u] w)
         else if isEnabled \<and> isActive \<and> \<not> us_restart u then (Inr False, w)
         else if \<not> isEnabled \<or> \<not> isActive then systemctl k [''enable'', ''--now'', us_name u] w
         else systemctl k [''restart'', us_name u] w)"

section \<open>The whole configuration\<close>

record applied =
  ac_os :: os
  ac_changes :: "string list"
  ac_err :: "string option"
  ac_units :: bool

definition note_change :: "string \<Rightarrow> applied \<Rightarrow> applied" where
  "note_change s a = a\<lparr>ac_changes := ac_changes a @ [s]\<rparr>"

definition fail_at :: "string \<Rightarrow> string \<Rightarrow> applied \<Rightarrow> applied" where
  "fail_at what e a =
     (note_change (''FAILED at '' @ what @ '': '' @ e) a)\<lparr>ac_err := (case ac_err a of None \<Rightarrow> Some (what @ '': '' @ e) | Some x \<Rightarrow> Some x)\<rparr>"

text \<open>One step: an error is noted under its name, a change under its text; some changes concern units.\<close>

definition take_step :: "string \<Rightarrow> string \<Rightarrow> bool \<Rightarrow> (os \<Rightarrow> step) \<Rightarrow> applied \<Rightarrow> applied" where
  "take_step what txt concerns f a =
     (case f (ac_os a) of
        (Inl e, w) \<Rightarrow> fail_at what e (a\<lparr>ac_os := w\<rparr>)
      | (Inr c, w) \<Rightarrow>
          if c then (note_change txt (a\<lparr>ac_os := w\<rparr>))\<lparr>ac_units := ac_units a \<or> concerns\<rparr> else a\<lparr>ac_os := w\<rparr>)"

definition apply_name :: "tools \<Rightarrow> jmap \<Rightarrow> applied \<Rightarrow> applied" where
  "apply_name k cfg a =
     (let v = str_of (map_of cfg ''hostname'')
      in if v = [] then a else take_step ''hostname'' (''hostname set to '' @ v) False (setHostname k v) a)"

definition apply_zone :: "tools \<Rightarrow> jmap \<Rightarrow> applied \<Rightarrow> applied" where
  "apply_zone k cfg a =
     (let v = str_of (map_of cfg ''timezone'')
      in if v = [] then a else take_step ''timezone'' (''timezone set to '' @ v) False (setTimezone k v) a)"

definition apply_keys :: "jmap \<Rightarrow> applied \<Rightarrow> applied" where
  "apply_keys cfg a =
     (let keys = stringList (map_of cfg ''ssh_authorized_keys'')
      in if keys = [] then a
         else fold (\<lambda>t. take_step (''SSH keys for '' @ kt_name t) (''SSH keys for '' @ kt_name t @ '' updated ('' @ show_nat (length keys) @ '')'') False
                     (writeAuthorizedKeys t keys)) (keyTargets (ac_os a)) a)"

definition apply_files :: "jmap \<Rightarrow> applied \<Rightarrow> applied" where
  "apply_files cfg a =
     fold (\<lambda>f. take_step (''file '' @ mf_path f) (''file '' @ mf_path f @ '' written'')
              (has_suffix (mf_path f) ''.service'' \<or> has_suffix (mf_path f) ''.timer'') (writeManagedFile f))
       (fileList (map_of cfg ''files'')) a"

definition apply_binaries :: "tools \<Rightarrow> jmap \<Rightarrow> applied \<Rightarrow> applied" where
  "apply_binaries k cfg a =
     fold (\<lambda>b. take_step (''binary '' @ bn_path b) (''binary '' @ bn_path b @ '' installed'') True (installBinary k b))
       (binaryList (map_of cfg ''binaries'')) a"

definition boot_step :: "string list \<Rightarrow> os \<Rightarrow> step" where
  "boot_step ls w = (case applyBootConfig ls w of (Inr True, w1) \<Rightarrow> (Inr True, markRebootPending w1) | r \<Rightarrow> r)"

definition apply_boot :: "jmap \<Rightarrow> applied \<Rightarrow> applied" where
  "apply_boot cfg a =
     (let ls = stringList (map_of cfg ''boot_config'')
      in if ls = [] then a
         else take_step ''boot config'' (''boot config updated ('' @ join '', '' ls @ '') '' @ endash @ '' takes effect after a restart'') False (boot_step ls) a)"

definition package_step :: "tools \<Rightarrow> string list \<Rightarrow> os \<Rightarrow> step" where
  "package_step k pkgs w =
     (let m = missingPackages k pkgs w
      in if m = [] then (Inr False, w)
         else case installPackages k m w of (Some e, w1) \<Rightarrow> (Inl e, w1) | (None, w1) \<Rightarrow> (Inr True, w1))"

definition apply_packages :: "tools \<Rightarrow> jmap \<Rightarrow> applied \<Rightarrow> applied" where
  "apply_packages k cfg a =
     (let pkgs = packageList (osIdentity (ac_os a)) (map_of cfg ''packages'')
      in if pkgs = [] then a
         else take_step ''packages'' (''packages installed: '' @ join '', '' (missingPackages k pkgs (ac_os a))) False (package_step k pkgs) a)"

text \<open>A reload that succeeds is not a change of its own.\<close>

definition reload_step :: "tools \<Rightarrow> os \<Rightarrow> step" where
  "reload_step k w = (case systemctl k [''daemon-reload''] w of (Inl e, w1) \<Rightarrow> (Inl e, w1) | (Inr _, w1) \<Rightarrow> (Inr False, w1))"

definition apply_reload :: "tools \<Rightarrow> applied \<Rightarrow> applied" where
  "apply_reload k a = (if ac_units a then take_step ''daemon-reload'' [] False (reload_step k) a else a)"

definition unit_state :: "unitSpec \<Rightarrow> string" where
  "unit_state u = (if us_enabled u then ''enabled and started'' else ''stopped and disabled'')"

definition with_restart :: "bool \<Rightarrow> unitSpec \<Rightarrow> unitSpec" where
  "with_restart r u = (if r then u\<lparr>us_restart := True\<rparr> else u)"

definition apply_units :: "tools \<Rightarrow> jmap \<Rightarrow> applied \<Rightarrow> applied" where
  "apply_units k cfg a =
     fold (\<lambda>u. take_step (''unit '' @ us_name u) (''unit '' @ us_name u @ '': '' @ unit_state u) False (applyUnit k (with_restart (ac_units a) u)))
       (unitList (osIdentity (ac_os a)) (map_of cfg ''units'')) a"

definition applyConfig :: "tools \<Rightarrow> jmap \<Rightarrow> os \<Rightarrow> string list \<times> string option \<times> os" where
  "applyConfig k cfg w =
     (let a = (apply_units k cfg \<circ> apply_reload k \<circ> apply_packages k cfg \<circ> apply_boot cfg \<circ> apply_binaries k cfg
                \<circ> apply_files cfg \<circ> apply_keys cfg \<circ> apply_zone k cfg \<circ> apply_name k cfg)
                \<lparr>ac_os = w, ac_changes = [], ac_err = None, ac_units = False\<rparr>
      in (sort (ac_changes a), ac_err a, ac_os a))"

section \<open>A block of lines in somebody else's file\<close>

lemma prefix_iff: "has_prefix s p \<longleftrightarrow> (\<exists>r. s = p @ r)"
  unfolding has_prefix_def by (metis append_eq_conv_conj append_take_drop_id)

lemma prefix_before: "LF \<notin> set p \<Longrightarrow> has_prefix (a @ LF # r) p \<longleftrightarrow> has_prefix a p"
proof
  assume "LF \<notin> set p" "has_prefix (a @ LF # r) p"
  then obtain x where "a @ LF # r = p @ x" "LF \<notin> set p" by (auto simp: prefix_iff)
  thus "has_prefix a p" unfolding prefix_iff append_eq_append_conv2 by (auto simp: Cons_eq_append_conv)
qed (auto simp: prefix_iff)

lemma index_of_None: "index_of s p = None \<longleftrightarrow> \<not> str_contains s p"
  by (induction s) auto

lemma index_after:
  assumes "LF \<notin> set p" and "p \<noteq> []"
  shows "\<not> str_contains a p \<Longrightarrow> index_of (a @ LF # p @ r) p = Some (length a + 1)"
proof (induction a)
  case Nil
  have "\<not> has_prefix (LF # p @ r) p" using assms by (cases p) (auto simp: has_prefix_def)
  moreover have "has_prefix (p @ r) p" by (simp add: prefix_iff)
  hence "index_of (p @ r) p = Some 0" using assms(2) by (cases "p @ r") auto
  ultimately show ?case by simp
next
  case (Cons c a)
  have "\<not> has_prefix ((c # a) @ LF # p @ r) p" using Cons.prems prefix_before [OF assms(1), of "c # a"] by simp
  thus ?case using Cons by simp
qed

lemma contains_newline: "LF \<notin> set p \<Longrightarrow> p \<noteq> [] \<Longrightarrow> str_contains (a @ [LF]) p \<longleftrightarrow> str_contains a p"
proof (induction a)
  case Nil
  thus ?case by (cases p) (auto simp: has_prefix_def)
next
  case (Cons c a)
  thus ?case using prefix_before [of p "c # a" "[]"] by simp
qed

lemma markers: "LF \<notin> set bootConfigStart" "LF \<notin> set bootConfigEnd" "bootConfigStart \<noteq> []" "bootConfigEnd \<noteq> []"
  "\<not> str_contains bootConfigStart bootConfigEnd" "length bootConfigStart = 24" "length bootConfigEnd = 24"
  by code_simp+

lemma contains_across: "LF \<notin> set p \<Longrightarrow> p \<noteq> [] \<Longrightarrow> str_contains (a @ LF # b) p \<longleftrightarrow> str_contains a p \<or> str_contains b p"
proof (induction a)
  case Nil
  thus ?case by (cases p) (auto simp: has_prefix_def)
next
  case (Cons c a)
  thus ?case using prefix_before [of p "c # a" b] by simp
qed

lemma contains_part: "str_contains a p \<Longrightarrow> str_contains (a @ b) p"
  unfolding str_contains_iff by (metis append.assoc)

lemma drop_whole: "s = h @ t \<Longrightarrow> n = length h \<Longrightarrow> drop n s = t"
  by simp

lemma strip_written:
  assumes "\<not> str_contains rest bootConfigStart" and "\<not> str_contains (join_lines ls) bootConfigEnd"
  shows "stripBlock (rest @ [LF, LF] @ block_of ls @ [LF]) = rest @ [LF, LF, LF]"
proof -
  let ?body = "bootConfigStart @ LF # join_lines ls"
  let ?s = "(rest @ [LF]) @ LF # bootConfigStart @ (LF # join_lines ls @ LF # bootConfigEnd @ [LF])"
  have s: "rest @ [LF, LF] @ block_of ls @ [LF] = ?s" by (simp add: block_of_def)
  have "\<not> str_contains (rest @ [LF]) bootConfigStart" using assms(1) contains_newline [OF markers(1,3)] by simp
  hence i: "index_of ?s bootConfigStart = Some (length rest + 2)"
    using index_after [OF markers(1,3), of "rest @ [LF]" "LF # join_lines ls @ LF # bootConfigEnd @ [LF]"] by simp
  have d: "drop (length rest + 2) ?s = ?body @ LF # bootConfigEnd @ [LF]" by simp
  have "\<not> str_contains ?body bootConfigEnd" using contains_across [OF markers(2,4)] markers(5) assms(2) by simp
  hence j: "index_of (?body @ LF # bootConfigEnd @ [LF]) bootConfigEnd = Some (length ?body + 1)" by (rule index_after [OF markers(2,4)])
  have t: "take (length rest + 2) ?s = rest @ [LF, LF]" by simp
  let ?head = "rest @ [LF, LF] @ ?body @ LF # bootConfigEnd"
  have "?s = ?head @ [LF]" and l: "length rest + 2 + (length ?body + 1) + length bootConfigEnd = length ?head" by simp_all
  hence e: "drop (length rest + 2 + (length ?body + 1) + length bootConfigEnd) ?s = [LF]" by (intro drop_whole)
  show ?thesis unfolding s stripBlock_def i option.case d j t e by simp
qed

lemma trim_right_newline: "trim_right [LF] (s @ [LF]) = trim_right [LF] s" "trim_right [LF] (trim_right [LF] s) = trim_right [LF] s"
  by (simp_all add: trim_right_def dropWhile_idem)

lemma trim_right_split: "\<exists>n. s = trim_right [LF] s @ replicate n LF"
proof -
  have "\<forall>c\<in>set (takeWhile (\<lambda>c. c \<in> set [LF]) (rev s)). c = LF" by (auto dest: set_takeWhileD)
  hence "rev (takeWhile (\<lambda>c. c \<in> set [LF]) (rev s)) = replicate (length (takeWhile (\<lambda>c. c \<in> set [LF]) (rev s))) LF"
    by (metis replicate_length_same rev_replicate)
  moreover have "s = trim_right [LF] s @ rev (takeWhile (\<lambda>c. c \<in> set [LF]) (rev s))"
    unfolding trim_right_def by (metis rev_append rev_rev_ident takeWhile_dropWhile_id)
  ultimately show ?thesis by metis
qed

lemma lines_newline: "split_lines (s @ [LF]) = split_lines s @ [[]]"
  by (induction s) (auto split: list.splits)

lemma hasLine_newline: "hasLine (s @ [LF]) l \<longleftrightarrow> hasLine s l"
  by (simp add: hasLine_def lines_newline trim_space_def)

lemma hasLine_trim: "hasLine (trim_right [LF] s) l \<longleftrightarrow> hasLine s l"
proof -
  have "hasLine (t @ replicate n LF) l \<longleftrightarrow> hasLine t l" for t n
  proof (induction n)
    case (Suc n)
    thus ?case using hasLine_newline [of "t @ replicate n LF" l] by (simp add: replicate_append_same)
  qed simp
  thus ?thesis using trim_right_split [of s] by metis
qed

lemma missing_cong: "(\<And>l. hasLine b l \<longleftrightarrow> hasLine b' l) \<Longrightarrow> missing_lines b ls = missing_lines b' ls"
  by (simp add: missing_lines_def)

lemma missing_rest: "missing_lines (trim_right [LF] s @ [LF, LF, LF]) ls = missing_lines s ls"
  by (rule missing_cong) (metis append.assoc append_Cons append_Nil hasLine_newline hasLine_trim)

definition tidy :: "string \<Rightarrow> string list \<Rightarrow> bool" where
  "tidy old ls \<longleftrightarrow> \<not> str_contains (stripBlock old) bootConfigStart \<and> \<not> str_contains (join_lines (missing_lines (stripBlock old) ls)) bootConfigEnd"

lemma strip_none: "\<not> str_contains s bootConfigStart \<Longrightarrow> stripBlock s = s"
  using index_of_None [of s bootConfigStart] by (simp add: stripBlock_def)

lemma rest_clean: "\<not> str_contains s p \<Longrightarrow> \<not> str_contains (trim_right [LF] s) p"
  using trim_right_split [of s] contains_part by metis

text \<open>What a file looks like once the block was written, and what is found in it the next time.\<close>

lemma written_again:
  assumes "tidy old ls"
  defines "m \<equiv> missing_lines (stripBlock old) ls"
  defines "new \<equiv> replaceBlock old (if m = [] then [] else block_of m)"
  shows "missing_lines (stripBlock new) ls = m" and "m = [] \<Longrightarrow> \<not> str_contains new bootConfigStart"
    and "replaceBlock new (if m = [] then [] else block_of m) = new"
proof -
  let ?rest = "trim_right [LF] (stripBlock old)"
  have clean: "\<not> str_contains ?rest bootConfigStart" using assms(1) rest_clean by (simp add: tidy_def)
  have "missing_lines (stripBlock new) ls = m \<and> (m = [] \<longrightarrow> \<not> str_contains new bootConfigStart) \<and> replaceBlock new (if m = [] then [] else block_of m) = new"
  proof (cases "m = []")
    case True
    hence n: "new = ?rest @ [LF]" by (simp add: new_def replaceBlock_def)
    have c: "\<not> str_contains new bootConfigStart" unfolding n using clean contains_newline [OF markers(1,3)] by blast
    have "missing_lines new ls = m" unfolding m_def by (rule missing_cong) (simp only: n hasLine_newline hasLine_trim)
    moreover have "trim_right [LF] new = ?rest" by (simp only: n trim_right_newline)
    hence "replaceBlock new [] = new" unfolding replaceBlock_def Let_def strip_none [OF c] if_True using n by simp
    ultimately show ?thesis using True c strip_none [OF c] by simp
  next
    case False
    have ne: "block_of m \<noteq> []" using markers(3) by (simp add: block_of_def)
    hence n: "new = ?rest @ [LF, LF] @ block_of m @ [LF]" using False by (simp add: new_def replaceBlock_def)
    have "stripBlock new = ?rest @ [LF, LF, LF]" unfolding n by (rule strip_written [OF clean]) (use assms(1) in \<open>simp add: tidy_def m_def\<close>)
    moreover have "trim_right [LF] (?rest @ [LF, LF, LF]) = ?rest"
      using trim_right_newline by (metis append.assoc append_Cons append_Nil)
    ultimately have "missing_lines (stripBlock new) ls = m" "replaceBlock new (block_of m) = new"
      using missing_rest ne n by (simp_all add: m_def replaceBlock_def)
    thus ?thesis using False by simp
  qed
  thus "missing_lines (stripBlock new) ls = m" "m = [] \<Longrightarrow> \<not> str_contains new bootConfigStart"
    "replaceBlock new (if m = [] then [] else block_of m) = new" by blast+
qed

lemma lines_across: "split_lines (a @ LF # b) = split_lines a @ split_lines b"
  by (induction a) (auto split: list.splits)

lemma hasLine_across: "hasLine (a @ LF # b) l \<longleftrightarrow> hasLine a l \<or> hasLine b l"
  by (simp add: hasLine_def lines_across)

definition is_setting :: "string \<Rightarrow> bool" where
  "is_setting l \<longleftrightarrow> trim_space l \<noteq> [] \<and> \<not> has_prefix (trim_space l) ''#'' \<and> \<not> is_section l \<and> LF \<notin> set l"

lemma hasLine_join: "is_setting l \<Longrightarrow> l \<in> set m \<Longrightarrow> hasLine (join_lines m) l"
proof (induction "[LF]" m rule: join.induct)
  case (2 w)
  thus ?case by (simp add: is_setting_def hasLine_def split_on_none)
next
  case (3 w v ws)
  have "is_setting w \<Longrightarrow> hasLine w w" by (simp add: is_setting_def hasLine_def split_on_none)
  thus ?case using 3 hasLine_across [of w "join_lines (v # ws)" l] by auto
qed simp

lemma not_missing: "is_setting l \<Longrightarrow> l \<in> set ls \<Longrightarrow> l \<notin> set (missing_lines b ls) \<Longrightarrow> hasLine b l"
  unfolding missing_lines_def Let_def by (auto simp: onlySections_def list_all_iff is_setting_def split: if_splits)

lemma replaced_lines:
  assumes "m = missing_lines (stripBlock old) ls"
  shows "hasLine (stripBlock old) l \<Longrightarrow> hasLine (replaceBlock old (if m = [] then [] else block_of m)) l"
    and "is_setting l \<Longrightarrow> l \<in> set ls \<Longrightarrow> hasLine (replaceBlock old (if m = [] then [] else block_of m)) l"
proof -
  let ?rest = "trim_right [LF] (stripBlock old)" and ?new = "replaceBlock old (if m = [] then [] else block_of m)"
  have split: "?new = ?rest @ LF # (if m = [] then [] else LF # bootConfigStart @ LF # join_lines m @ LF # bootConfigEnd @ LF # [])"
    using markers(3) by (simp add: replaceBlock_def block_of_def)
  have old: "hasLine (stripBlock old) l \<Longrightarrow> hasLine ?new l"
    unfolding split by (simp add: hasLine_across hasLine_trim)
  show "hasLine (stripBlock old) l \<Longrightarrow> hasLine ?new l" by (rule old)
  assume l: "is_setting l" "l \<in> set ls"
  show "hasLine ?new l"
  proof (cases "l \<in> set m")
    case True
    hence "hasLine (join_lines m) l" by (rule hasLine_join [OF l(1)])
    hence "hasLine (join_lines m @ LF # bootConfigEnd @ LF # []) l" unfolding hasLine_across by blast
    hence "hasLine (bootConfigStart @ LF # join_lines m @ LF # bootConfigEnd @ LF # []) l" unfolding hasLine_across by blast
    hence "hasLine ([] @ LF # bootConfigStart @ LF # join_lines m @ LF # bootConfigEnd @ LF # []) l" unfolding hasLine_across [of "[]"] by blast
    hence "hasLine (?rest @ LF # [] @ LF # bootConfigStart @ LF # join_lines m @ LF # bootConfigEnd @ LF # []) l"
      unfolding hasLine_across [of ?rest] by blast
    hence "hasLine (?rest @ LF # LF # bootConfigStart @ LF # join_lines m @ LF # bootConfigEnd @ LF # []) l" by (simp only: append_Nil)
    thus ?thesis unfolding split using True by auto
  next
    case False
    thus ?thesis using not_missing [OF l] assms old by blast
  qed
qed

lemma applyBlockTo_cases:
  assumes "applyBlockTo path ls create w = (Inr c, w')" and "m = missing_lines (stripBlock (readFileStr w path)) ls"
    and "new = replaceBlock (readFileStr w path) (if m = [] then [] else block_of m)"
  shows "(m = [] \<and> \<not> str_contains (readFileStr w path) bootConfigStart \<and> w' = w \<and> \<not> c)
    \<or> (new = readFileStr w path \<and> w' = w \<and> \<not> c) \<or> w' = put_file path new 420 w"
  using assms(1) unfolding applyBlockTo_def Let_def assms(2) [symmetric] assms(3) [symmetric] by (simp split: if_split_asm)

lemma applyBlockTo_settles:
  assumes "applyBlockTo path ls create w = (Inr c, w')" and "tidy (readFileStr w path) ls"
  shows "applyBlockTo path ls create w' = (Inr False, w')"
proof -
  let ?old = "readFileStr w path" and ?m = "missing_lines (stripBlock (readFileStr w path)) ls"
  let ?new = "replaceBlock ?old (if ?m = [] then [] else block_of ?m)"
  from applyBlockTo_cases [OF assms(1) refl refl] consider (idle) "w' = w" "\<not> c" | (written) "w' = put_file path ?new 420 w" by blast
  thus ?thesis
  proof cases
    case written
    have r: "readFileStr w' path = ?new" "content w' path = Some ?new" by (simp_all add: written readFileStr_def content_def put_file_def)
    note again = written_again [OF assms(2)]
    show ?thesis unfolding applyBlockTo_def r Let_def again(1) again(3) using again(2) by simp
  qed (use assms(1) in simp)
qed

text \<open>Writing the agent's block makes every setting asked for a line of the file, keeps every line
  outside the block, touches no other file, and leaves nothing to do the next time.\<close>

theorem applyBlockTo_spec:
  assumes "applyBlockTo path ls create w = (Inr c, w')" and "tidy (readFileStr w path) ls"
  shows "applyBlockTo path ls create w' = (Inr False, w')"
    and "\<And>l. is_setting l \<Longrightarrow> l \<in> set ls \<Longrightarrow> hasLine (readFileStr w' path) l"
    and "\<And>l. hasLine (stripBlock (readFileStr w path)) l \<Longrightarrow> hasLine (readFileStr w' path) l"
    and "\<And>q. q \<noteq> path \<Longrightarrow> os_files w' q = os_files w q"
proof -
  let ?old = "readFileStr w path" and ?m = "missing_lines (stripBlock (readFileStr w path)) ls"
  let ?new = "replaceBlock ?old (if ?m = [] then [] else block_of ?m)"
  from applyBlockTo_cases [OF assms(1) refl refl]
  consider (idle) "?m = []" "\<not> str_contains ?old bootConfigStart" "w' = w" "\<not> c"
    | (same) "?new = ?old" "w' = w" "\<not> c" | (written) "w' = put_file path ?new 420 w" by blast
  hence "applyBlockTo path ls create w' = (Inr False, w') \<and> (\<forall>l. is_setting l \<and> l \<in> set ls \<longrightarrow> hasLine (readFileStr w' path) l)
    \<and> (\<forall>l. hasLine (stripBlock ?old) l \<longrightarrow> hasLine (readFileStr w' path) l) \<and> (\<forall>q. q \<noteq> path \<longrightarrow> os_files w' q = os_files w q)"
  proof cases
    case idle
    hence "stripBlock ?old = ?old" by (simp add: strip_none)
    moreover have "applyBlockTo path ls create w = (Inr False, w)" using assms(1) idle(3,4) by simp
    ultimately show ?thesis using idle not_missing [of _ ls "?old"] by auto
  next
    case same
    have "applyBlockTo path ls create w = (Inr False, w)" using assms(1) same(2,3) by simp
    thus ?thesis using same replaced_lines [OF refl, where old = ?old and ls = ls] by (simp only: same simp_thms) metis
  next
    case written
    have r: "readFileStr w' path = ?new" "content w' path = Some ?new" by (simp_all add: written readFileStr_def content_def put_file_def)
    have "applyBlockTo path ls create w' = (Inr False, w')" by (rule applyBlockTo_settles [OF assms])
    moreover have "\<forall>q. q \<noteq> path \<longrightarrow> os_files w' q = os_files w q" by (simp add: written put_file_def)
    ultimately show ?thesis using replaced_lines [OF refl, where old = ?old and ls = ls] r(1) by metis
  qed
  thus "applyBlockTo path ls create w' = (Inr False, w')" "\<And>l. is_setting l \<Longrightarrow> l \<in> set ls \<Longrightarrow> hasLine (readFileStr w' path) l"
    "\<And>l. hasLine (stripBlock ?old) l \<Longrightarrow> hasLine (readFileStr w' path) l" "\<And>q. q \<noteq> path \<Longrightarrow> os_files w' q = os_files w q" by blast+
qed

lemma applyBlockTo_there: "content w path = Some s \<Longrightarrow> \<exists>c w'. applyBlockTo path ls create w = (Inr c, w')"
  by (auto simp: applyBlockTo_def Let_def)

text \<open>A blade whose \<^verbatim>\<open>config.txt\<close> has one line gets a second one.\<close>

theorem applyBlockTo_spec_witness:
  "let w = put_file ''/boot/config.txt'' ''arm_64bit=1'' 420 \<lparr>os_host = [], os_zone = [], os_files = \<lambda>p. None, os_enabled = {}, os_active = {}, os_packages = {}\<rparr> in
   \<exists>c w'. applyBlockTo ''/boot/config.txt'' [''enable_uart=1''] False w = (Inr c, w') \<and> hasLine (readFileStr w' ''/boot/config.txt'') ''enable_uart=1''
     \<and> applyBlockTo ''/boot/config.txt'' [''enable_uart=1''] False w' = (Inr False, w')"
proof -
  let ?w = "put_file ''/boot/config.txt'' ''arm_64bit=1'' 420 \<lparr>os_host = [], os_zone = [], os_files = \<lambda>p. None, os_enabled = {}, os_active = {}, os_packages = {}\<rparr>"
  have r: "readFileStr ?w ''/boot/config.txt'' = ''arm_64bit=1''" "content ?w ''/boot/config.txt'' = Some ''arm_64bit=1''"
    by (simp_all add: readFileStr_def content_def put_file_def)
  have t: "tidy ''arm_64bit=1'' [''enable_uart=1'']" by code_simp
  have s: "is_setting ''enable_uart=1''" by code_simp
  from applyBlockTo_there [OF r(2)] obtain c w' where a: "applyBlockTo ''/boot/config.txt'' [''enable_uart=1''] False ?w = (Inr c, w')" by blast
  have "hasLine (readFileStr w' ''/boot/config.txt'') ''enable_uart=1'' \<and> applyBlockTo ''/boot/config.txt'' [''enable_uart=1''] False w' = (Inr False, w')"
    using applyBlockTo_spec [OF a] t s unfolding r by simp
  thus ?thesis using a unfolding Let_def by blast
qed

end
