(* ===== verification/Settle.thy ===== *)
theory Settle
  imports Apply
begin

text \<open>
  The agent's first rule (\<^verbatim>\<open>src/agent/apply.go\<close>): every change is checked first and only made when
  needed. An interface states what that asks of steps in general - one that succeeded has nothing
  to do the next time, and steps that are apart do not disturb each other -, the steps of the
  agent meet it as long as the programs they call do what they are told, and so a configuration
  that was applied without an error is applied a second time without a change.
\<close>

section \<open>Steps that settle\<close>

text \<open>One step after another, as long as none fails.\<close>

fun run_steps :: "('i \<Rightarrow> 'w \<Rightarrow> ('e + bool) \<times> 'w) \<Rightarrow> 'i list \<Rightarrow> 'w \<Rightarrow> 'w option" where
  "run_steps step [] w = Some w"
| "run_steps step (i # ims) w = (case step i w of (Inl _, _) \<Rightarrow> None | (Inr _, w') \<Rightarrow> run_steps step ims w')"

lemma run_steps_append:
  "run_steps step (xs @ ys) w = (case run_steps step xs w of None \<Rightarrow> None | Some w1 \<Rightarrow> run_steps step ys w1)"
  by (induction xs arbitrary: w) (auto split: prod.splits sum.splits)

locale settling =
  fixes step :: "'i \<Rightarrow> 'w \<Rightarrow> ('e + bool) \<times> 'w"
    and good :: "'i \<Rightarrow> 'w \<Rightarrow> bool"
    and settled :: "'i \<Rightarrow> 'w \<Rightarrow> bool"
    and apart :: "'i \<Rightarrow> 'i \<Rightarrow> bool"
  assumes settles: "step i w = (Inr c, w') \<Longrightarrow> good i w \<Longrightarrow> settled i w'"
    and good_stays: "good i w \<Longrightarrow> step j w = (Inr c, w') \<Longrightarrow> apart i j \<Longrightarrow> good i w'"
    and settled_stays: "settled i w \<Longrightarrow> step j w = (Inr c, w') \<Longrightarrow> apart i j \<Longrightarrow> settled i w'"
begin

lemma settled_through:
  "run_steps step js w = Some w' \<Longrightarrow> settled i w \<Longrightarrow> list_all (apart i) js \<Longrightarrow> settled i w'"
proof (induction js arbitrary: w)
  case (Cons j js)
  then obtain c w1 where "step j w = (Inr c, w1)" "run_steps step js w1 = Some w'" by (auto split: prod.splits sum.splits)
  thus ?case using Cons settled_stays by auto
qed simp

lemma good_through:
  "step j w = (Inr c, w1) \<Longrightarrow> list_all (\<lambda>i. good i w) ims \<Longrightarrow> list_all (\<lambda>i. apart i j) ims \<Longrightarrow> list_all (\<lambda>i. good i w1) ims"
  using good_stays by (auto simp: list_all_iff)

lemma all_settled:
  "run_steps step ims w = Some w' \<Longrightarrow> list_all (\<lambda>i. good i w) ims \<Longrightarrow> pairwise (\<lambda>i j. apart i j) (set ims) \<Longrightarrow> distinct ims
   \<Longrightarrow> list_all (\<lambda>i. settled i w') ims"
proof (induction ims arbitrary: w)
  case (Cons i ims)
  then obtain c w1 where st: "step i w = (Inr c, w1)" "run_steps step ims w1 = Some w'" by (auto split: prod.splits sum.splits)
  have ap: "list_all (apart i) ims" "list_all (\<lambda>j. apart j i) ims"
    using Cons.prems(3,4) by (auto simp: pairwise_def list_all_iff)
  have "settled i w'" using settled_through [OF st(2) _ ap(1)] settles [OF st(1)] Cons.prems(2) by simp
  moreover have "list_all (\<lambda>i. good i w1) ims" using good_through [OF st(1) _ ap(2)] Cons.prems(2) by simp
  hence "list_all (\<lambda>i. settled i w') ims"
    using Cons.IH [OF st(2)] Cons.prems(3,4) by (auto simp: pairwise_def)
  ultimately show ?case by simp
qed simp

end

section \<open>The steps of the agent\<close>

datatype item =
    Name string
  | Zone string
  | Keys keyTarget "string list"
  | File managedFile
  | Binary binarySpec
  | Boot "string list"
  | Packages "string list"
  | Unit unitSpec

fun item_step :: "tools \<Rightarrow> item \<Rightarrow> os \<Rightarrow> step" where
  "item_step k (Name h) w = setHostname k h w"
| "item_step k (Zone z) w = setTimezone k z w"
| "item_step k (Keys t ks) w = writeAuthorizedKeys t ks w"
| "item_step k (File f) w = writeManagedFile f w"
| "item_step k (Binary b) w = installBinary k b w"
| "item_step k (Boot ls) w = boot_step ls w"
| "item_step k (Packages ps) w = package_step k ps w"
| "item_step k (Unit u) w = applyUnit k u w"

text \<open>The files a step writes, and those its check looks at.\<close>

abbreviation boot_files :: "string set" where
  "boot_files \<equiv> {raspiFirmwareCustom, ''/boot/firmware/config.txt'', ''/boot/config.txt''}"

fun writes :: "item \<Rightarrow> string set" where
  "writes (Name h) = {''/etc/hosts'', ''/etc/hostname''}"
| "writes (Zone z) = {''/etc/timezone''}"
| "writes (Keys t ks) = {keys_path t}"
| "writes (File f) = {mf_path f}"
| "writes (Binary b) = {bn_path b}"
| "writes (Boot ls) = insert rebootMarker boot_files"
| "writes (Packages ps) = {}"
| "writes (Unit u) = {}"

fun looks_at :: "item \<Rightarrow> string set" where
  "looks_at (Name h) = {''/etc/hosts''}"
| "looks_at (Keys t ks) = {keys_path t}"
| "looks_at (File f) = {mf_path f}"
| "looks_at (Binary b) = {bn_path b}"
| "looks_at (Boot ls) = insert ''/etc/default/raspi-firmware'' boot_files"
| "looks_at _ = {}"

fun same_thing :: "item \<Rightarrow> item \<Rightarrow> bool" where
  "same_thing (Name _) (Name _) = True"
| "same_thing (Zone _) (Zone _) = True"
| "same_thing (Unit u) (Unit v) = (us_name u = us_name v)"
| "same_thing _ _ = False"

definition items_apart :: "item \<Rightarrow> item \<Rightarrow> bool" where
  "items_apart i j \<longleftrightarrow> looks_at i \<inter> writes j = {} \<and> \<not> same_thing i j"

text \<open>A host name without a newline; files of the boot partition that are tidy; programs that either
  have a checksum or are taken as they are.\<close>

fun item_good :: "item \<Rightarrow> os \<Rightarrow> bool" where
  "item_good (Name h) w = (LF \<notin> set h)"
| "item_good (Boot ls) w = (bootConfigPath w \<noteq> None \<and> (\<forall>p\<in>boot_files. tidy (readFileStr w p) ls))"
| "item_good _ w = True"

definition boot_quiet :: "string list \<Rightarrow> os \<Rightarrow> bool" where
  "boot_quiet ls w \<longleftrightarrow> (os_files w ''/etc/default/raspi-firmware'' = None \<or> fst (applyBlockTo raspiFirmwareCustom ls True w) = Inr False)
     \<and> (\<exists>p. bootConfigPath w = Some p \<and> fst (applyBlockTo p ls False w) = Inr False)"

fun item_settled :: "tools \<Rightarrow> item \<Rightarrow> os \<Rightarrow> bool" where
  "item_settled k (Name h) w = (os_host w = h \<and> ensureHostsEntry h w = w)"
| "item_settled k (Zone z) w = has_suffix (os_zone w) (''/'' @ z)"
| "item_settled k (Keys t ks) w = (content w (keys_path t) = Some (''# managed by sheath-agent'' @ [LF] @ join_lines ks @ [LF]))"
| "item_settled k (File f) w = (os_files w (mf_path f) = Some (mf_content f, perm (mf_mode f)))"
| "item_settled k (Binary b) w = (case content w (bn_path b) of None \<Rightarrow> False | Some s \<Rightarrow> bn_sha b = [] \<or> lower (tl_sha k s) = lower (bn_sha b))"
| "item_settled k (Boot ls) w = (boot_quiet ls w)"
| "item_settled k (Packages ps) w = (set ps \<subseteq> os_packages w)"
| "item_settled k (Unit u) w = (if us_enabled u then us_name u \<in> os_enabled w \<and> us_name u \<in> os_active w
     else us_name u \<notin> os_enabled w \<and> us_name u \<notin> os_active w)"

text \<open>Programs that do what they are told, and nothing where they fail.\<close>

definition does :: "tools \<Rightarrow> string list \<Rightarrow> (os \<Rightarrow> os) \<Rightarrow> bool" where
  "does k args f \<longleftrightarrow> (\<forall>w out e w'. tl_run k args w = (out, e, w') \<longrightarrow> w' = (if e = None then f w else w))"

definition obedient :: "tools \<Rightarrow> bool" where
  "obedient k \<longleftrightarrow>
     (\<forall>h. does k [''hostnamectl'', ''set-hostname'', h] (\<lambda>w. w\<lparr>os_host := h\<rparr>) \<and> does k [''hostname'', h] (\<lambda>w. w\<lparr>os_host := h\<rparr>))
     \<and> (\<forall>z. does k [''timedatectl'', ''set-timezone'', z] (\<lambda>w. w\<lparr>os_zone := ''/usr/share/zoneinfo/'' @ z\<rparr>))
     \<and> (\<forall>w p. lacks k w p \<longleftrightarrow> p \<notin> os_packages w)
     \<and> does k [''apt-get'', ''update'', ''-qq''] id
     \<and> (\<forall>ps. does k ([''apt-get'', ''install'', ''-y'', ''-qq'', ''--no-install-recommends''] @ ps) (\<lambda>w. w\<lparr>os_packages := os_packages w \<union> set ps\<rparr>))
     \<and> (\<forall>u w. (systemctlIs k ''is-enabled'' u w = ''enabled'') = (u \<in> os_enabled w))
     \<and> (\<forall>u w. (systemctlIs k ''is-active'' u w = ''active'') = (u \<in> os_active w))
     \<and> (\<forall>u. does k [''systemctl'', ''enable'', ''--now'', u] (\<lambda>w. w\<lparr>os_enabled := insert u (os_enabled w), os_active := insert u (os_active w)\<rparr>))
     \<and> (\<forall>u. does k [''systemctl'', ''disable'', ''--now'', u] (\<lambda>w. w\<lparr>os_enabled := os_enabled w - {u}, os_active := os_active w - {u}\<rparr>))
     \<and> (\<forall>u. does k [''systemctl'', ''restart'', u] id)
     \<and> does k [''systemctl'', ''daemon-reload''] id"

section \<open>What the steps leave alone\<close>

lemma doesD: "does k args f \<Longrightarrow> tl_run k args w = (out, e, w') \<Longrightarrow> w' = (if e = None then f w else w)"
  by (auto simp: does_def)

lemma write_file_frame [simp]:
  "os_host (write_file p s m w) = os_host w" "os_zone (write_file p s m w) = os_zone w" "os_enabled (write_file p s m w) = os_enabled w"
  "os_active (write_file p s m w) = os_active w" "os_packages (write_file p s m w) = os_packages w"
  "q \<noteq> p \<Longrightarrow> os_files (write_file p s m w) q = os_files w q" "content (write_file p s m w) p = Some s"
  by (simp_all add: write_file_def content_def)

lemma put_file_frame [simp]:
  "os_host (put_file p s m w) = os_host w" "os_zone (put_file p s m w) = os_zone w" "os_enabled (put_file p s m w) = os_enabled w"
  "os_active (put_file p s m w) = os_active w" "os_packages (put_file p s m w) = os_packages w"
  "q \<noteq> p \<Longrightarrow> os_files (put_file p s m w) q = os_files w q" "os_files (put_file p s m w) p = Some (s, m)" "content (put_file p s m w) p = Some s"
  by (simp_all add: put_file_def content_def)

definition same_but :: "string set \<Rightarrow> os \<Rightarrow> os \<Rightarrow> bool" where
  "same_but P w w' \<longleftrightarrow> (\<forall>q. q \<notin> P \<longrightarrow> os_files w' q = os_files w q)"

lemma same_butI: "(\<And>q. q \<notin> P \<Longrightarrow> os_files w' q = os_files w q) \<Longrightarrow> same_but P w w'"
  by (simp add: same_but_def)

lemma hosts_frame: "same_but {''/etc/hosts''} w (ensureHostsEntry h w)" "os_host (ensureHostsEntry h w) = os_host w"
  "os_zone (ensureHostsEntry h w) = os_zone w" "os_enabled (ensureHostsEntry h w) = os_enabled w" "os_active (ensureHostsEntry h w) = os_active w"
  "os_packages (ensureHostsEntry h w) = os_packages w"
  by (auto simp: ensureHostsEntry_def same_but_def split: option.splits)

text \<open>All a step does to what is not a file.\<close>

definition rest_same :: "item \<Rightarrow> os \<Rightarrow> os \<Rightarrow> bool" where
  "rest_same j w w' \<longleftrightarrow>
     ((\<exists>h. j = Name h) \<or> os_host w' = os_host w) \<and> ((\<exists>z. j = Zone z) \<or> os_zone w' = os_zone w) \<and> os_packages w \<subseteq> os_packages w'
     \<and> (\<forall>n. (\<exists>u. j = Unit u \<and> us_name u = n) \<or> (n \<in> os_enabled w' \<longleftrightarrow> n \<in> os_enabled w) \<and> (n \<in> os_active w' \<longleftrightarrow> n \<in> os_active w))"

lemma applyBlockTo_frame:
  "applyBlockTo path ls create w = (r, w') \<Longrightarrow> same_but {path} w w' \<and> rest_same (Boot ls') w w'"
  by (auto simp: applyBlockTo_def Let_def same_but_def rest_same_def split: if_splits)

lemma boot_frame:
  assumes "boot_step ls w = (r, w')"
  shows "same_but (insert rebootMarker boot_files) w w' \<and> rest_same (Boot ls) w w'"
proof -
  obtain r1 w1 where a: "applyBootConfig ls w = (r1, w1)" by force
  have "same_but boot_files w w1 \<and> rest_same (Boot ls) w w1"
  proof -
    obtain r0 w0 where c: "(if os_files w ''/etc/default/raspi-firmware'' \<noteq> None then applyBlockTo raspiFirmwareCustom ls True w else (Inr False, w)) = (r0, w0)" by force
    hence f: "same_but {raspiFirmwareCustom} w w0 \<and> rest_same (Boot ls) w w0"
      using applyBlockTo_frame by (cases "os_files w ''/etc/default/raspi-firmware'' \<noteq> None") (simp, simp add: same_but_def rest_same_def)
    show ?thesis
    proof (cases "\<exists>c p. r0 = Inr c \<and> bootConfigPath w0 = Some p")
      case True
      then obtain c' p where p: "r0 = Inr c'" "bootConfigPath w0 = Some p" by blast
      obtain r2 w2 where b: "applyBlockTo p ls False w0 = (r2, w2)" by force
      have "w1 = w2" using a c p b by (auto simp: applyBootConfig_def split: sum.splits)
      moreover have "p \<in> boot_files" using p(2) by (auto simp: bootConfigPath_def split: if_splits)
      ultimately show ?thesis using f applyBlockTo_frame [OF b, of ls] by (auto simp: same_but_def rest_same_def)
    next
      case False
      hence "w1 = w0" using a c by (auto simp: applyBootConfig_def split: sum.splits option.splits)
      thus ?thesis using f by (auto simp: same_but_def)
    qed
  qed
  moreover have "w' = w1 \<or> w' = markRebootPending w1" using assms a by (auto simp: boot_step_def split: sum.splits bool.splits)
  ultimately show ?thesis by (auto simp: same_but_def rest_same_def markRebootPending_def)
qed

lemma systemctl_ok:
  assumes "does k (''systemctl'' # args) f" and "systemctl k args w = (Inr c, w')"
  shows "w' = f w"
proof -
  obtain out e w1 where r: "tl_run k (''systemctl'' # args) w = (out, e, w1)" by (metis prod_cases3)
  thus ?thesis using assms(2) doesD [OF assms(1) r] by (auto simp: systemctl_def split: option.splits)
qed

lemma unit_result:
  assumes "obedient k" and "applyUnit k u w = (Inr c, w')"
  shows "w' = (if us_enabled u then w\<lparr>os_enabled := insert (us_name u) (os_enabled w), os_active := insert (us_name u) (os_active w)\<rparr>
     else w\<lparr>os_enabled := os_enabled w - {us_name u}, os_active := os_active w - {us_name u}\<rparr>)"
proof -
  from assms(1) have q: "(systemctlIs k ''is-enabled'' (us_name u) w = ''enabled'') = (us_name u \<in> os_enabled w)"
    "(systemctlIs k ''is-active'' (us_name u) w = ''active'') = (us_name u \<in> os_active w)"
    and d: "does k (''systemctl'' # [''enable'', ''--now'', us_name u]) (\<lambda>w. w\<lparr>os_enabled := insert (us_name u) (os_enabled w), os_active := insert (us_name u) (os_active w)\<rparr>)"
    "does k (''systemctl'' # [''disable'', ''--now'', us_name u]) (\<lambda>w. w\<lparr>os_enabled := os_enabled w - {us_name u}, os_active := os_active w - {us_name u}\<rparr>)"
    "does k (''systemctl'' # [''restart'', us_name u]) id"
    unfolding obedient_def by blast+
  show ?thesis using assms(2) systemctl_ok [OF d(1)] systemctl_ok [OF d(2)] systemctl_ok [OF d(3)] unfolding applyUnit_def q Let_def
    by (auto simp: insert_absorb split: if_splits)
qed

lemma package_result:
  assumes "obedient k" and "package_step k ps w = (Inr c, w')"
  shows "\<exists>X. w' = w\<lparr>os_packages := X\<rparr> \<and> os_packages w \<subseteq> X \<and> set ps \<subseteq> X"
proof -
  let ?m = "missingPackages k ps w"
  from assms(1) have l: "\<And>w p. lacks k w p \<longleftrightarrow> p \<notin> os_packages w" and u: "does k [''apt-get'', ''update'', ''-qq''] id"
    and d: "does k ([''apt-get'', ''install'', ''-y'', ''-qq'', ''--no-install-recommends''] @ ?m) (\<lambda>w. w\<lparr>os_packages := os_packages w \<union> set ?m\<rparr>)"
    unfolding obedient_def by blast+
  have m: "set ?m = set ps - os_packages w" by (auto simp: missingPackages_def l)
  show ?thesis
  proof (cases "?m = []")
    case True
    hence "w' = w" "set ps \<subseteq> os_packages w" using assms(2) m by (auto simp: package_step_def)
    thus ?thesis by (intro exI [of _ "os_packages w"]) simp
  next
    case False
    obtain o1 e1 w1 where r1: "tl_run k [''apt-get'', ''update'', ''-qq''] w = (o1, e1, w1)" by (metis prod_cases3)
    obtain o2 e2 w2 where r2: "tl_run k ([''apt-get'', ''install'', ''-y'', ''-qq'', ''--no-install-recommends''] @ ?m) w1 = (o2, e2, w2)" by (metis prod_cases3)
    have "w1 = w" using doesD [OF u r1] by (simp split: if_splits)
    moreover have "e2 = None \<and> w' = w2"
      using assms(2) False r1 r2 by (auto simp: package_step_def installPackages_def Let_def split: if_splits option.splits)
    ultimately have "w' = w\<lparr>os_packages := os_packages w \<union> set ?m\<rparr>" using doesD [OF d r2] by simp
    thus ?thesis using m by (intro exI [of _ "os_packages w \<union> set ?m"]) auto
  qed
qed

lemma hostname_result:
  assumes "obedient k" and "setHostname k h w = (Inr c, w')"
  shows "\<exists>w1. w' = ensureHostsEntry h w1 \<and> os_host w1 = h \<and> same_but {''/etc/hostname''} w w1 \<and> rest_same (Name h) w w1"
proof -
  from assms(1) have d: "does k [''hostnamectl'', ''set-hostname'', h] (\<lambda>w. w\<lparr>os_host := h\<rparr>)" "does k [''hostname'', h] (\<lambda>w. w\<lparr>os_host := h\<rparr>)"
    unfolding obedient_def by blast+
  obtain o1 e1 w1 where r1: "tl_run k [''hostnamectl'', ''set-hostname'', h] w = (o1, e1, w1)" by (metis prod_cases3)
  let ?w2 = "write_file ''/etc/hostname'' (h @ [LF]) 420 w1"
  obtain o2 e2 w3 where r2: "tl_run k [''hostname'', h] ?w2 = (o2, e2, w3)" by (metis prod_cases3)
  note d1 = doesD [OF d(1) r1] and d2 = doesD [OF d(2) r2]
  consider "os_host w = h" "w' = ensureHostsEntry h w" | "e1 = None" "w' = ensureHostsEntry h w1" | "e1 \<noteq> None" "e2 = None" "w' = ensureHostsEntry h w3"
    using assms(2) r1 r2 by (auto simp: setHostname_def split: if_splits option.splits)
  thus ?thesis
  proof cases
    case 1
    thus ?thesis by (intro exI [of _ w]) (simp add: same_but_def rest_same_def)
  next
    case 2
    thus ?thesis using d1 by (intro exI [of _ w1]) (simp add: same_but_def rest_same_def)
  next
    case 3
    thus ?thesis using d1 d2 by (intro exI [of _ w3]) (simp add: same_but_def rest_same_def)
  qed
qed

lemma timezone_result:
  assumes "obedient k" and "setTimezone k z w = (Inr c, w')"
  shows "has_suffix (os_zone w') (''/'' @ z) \<and> same_but {''/etc/timezone''} w w' \<and> rest_same (Zone z) w w'"
proof -
  from assms(1) have d: "does k [''timedatectl'', ''set-timezone'', z] (\<lambda>w. w\<lparr>os_zone := ''/usr/share/zoneinfo/'' @ z\<rparr>)" unfolding obedient_def by blast
  obtain o1 e1 w1 where r1: "tl_run k [''timedatectl'', ''set-timezone'', z] w = (o1, e1, w1)" by (metis prod_cases3)
  have suf: "has_suffix (''/usr/share/zoneinfo/'' @ z) (''/'' @ z)"
    by (simp add: has_suffix_def has_prefix_def)
  have w1: "w1 = (if e1 = None then w\<lparr>os_zone := ''/usr/share/zoneinfo/'' @ z\<rparr> else w)" by (rule doesD [OF d r1])
  let ?hand = "write_file ''/etc/timezone'' (z @ [LF]) 420 (w\<lparr>os_zone := ''/usr/share/zoneinfo/'' @ z\<rparr>)"
  have "has_suffix (os_zone w) (''/'' @ z) \<and> w' = w \<or> w' = w\<lparr>os_zone := ''/usr/share/zoneinfo/'' @ z\<rparr> \<or> w' = ?hand"
    using assms(2) w1 by (auto simp: setTimezone_def Let_def r1 split: if_splits option.splits)
  thus ?thesis
  proof (elim disjE)
    assume "w' = ?hand"
    thus ?thesis using suf by (simp add: same_but_def rest_same_def write_file_def)
  qed (use suf in \<open>simp_all add: same_but_def rest_same_def\<close>)
qed

lemma item_frame:
  assumes "obedient k" and "item_step k j w = (Inr c, w')"
  shows "same_but (writes j) w w' \<and> rest_same j w w'"
proof (cases j)
  case (Name h)
  hence "setHostname k h w = (Inr c, w')" using assms(2) by simp
  from hostname_result [OF assms(1) this]
  obtain w1 where "w' = ensureHostsEntry h w1" "same_but {''/etc/hostname''} w w1" "rest_same (Name h) w w1" by blast
  thus ?thesis using Name hosts_frame(1) [of w1 h] by (simp add: same_but_def rest_same_def hosts_frame)
next
  case (Zone z)
  thus ?thesis using timezone_result [OF assms(1)] assms(2) by auto
next
  case (Keys t ks)
  thus ?thesis using assms(2) by (auto simp: writeAuthorizedKeys_def Let_def same_but_def rest_same_def split: if_splits)
next
  case (File f)
  thus ?thesis using assms(2) by (auto simp: writeManagedFile_def same_but_def rest_same_def split: if_splits)
next
  case (Binary b)
  thus ?thesis using assms(2)
    by (auto simp: installBinary_def same_but_def rest_same_def split: if_splits download.splits option.splits)
next
  case (Boot ls)
  thus ?thesis using boot_frame assms(2) by simp
next
  case (Packages ps)
  hence "package_step k ps w = (Inr c, w')" using assms(2) by simp
  from package_result [OF assms(1) this] Packages show ?thesis by (auto simp: same_but_def rest_same_def)
next
  case (Unit u)
  hence "applyUnit k u w = (Inr c, w')" using assms(2) by simp
  from unit_result [OF assms(1) this] Unit show ?thesis by (auto simp: same_but_def rest_same_def split: if_splits)
qed

section \<open>A step that succeeded has nothing left to do\<close>

lemma trim_space_prefix:
  assumes "p \<noteq> []" and "\<not> is_space (hd p)" and "\<not> is_space (last p)"
  shows "has_prefix (trim_space (p @ x)) p"
proof -
  have a: "dropWhile is_space (p @ x) = p @ x" using assms(1,2) by (cases p) auto
  have "dropWhile is_space (rev x @ rev p) = (dropWhile is_space (rev x)) @ rev p"
  proof (cases "\<forall>c\<in>set x. is_space c")
    case True
    hence "dropWhile is_space (rev x @ rev p) = dropWhile is_space (rev p)" by (simp add: dropWhile_append)
    moreover have "dropWhile is_space (rev p) = rev p" using assms(1,3) by (cases p rule: rev_cases) auto
    moreover have "dropWhile is_space (rev x) = []" using True by simp
    ultimately show ?thesis by simp
  next
    case False
    then obtain c where "c \<in> set (rev x)" "\<not> is_space c" by auto
    thus ?thesis by (rule dropWhile_append1)
  qed
  thus ?thesis unfolding trim_space_def a by (simp add: prefix_iff)
qed

definition hosts_entry :: "string \<Rightarrow> string" where
  "hosts_entry h = ''127.0.1.1'' @ [CHR 0x09] @ h"

definition is_entry :: "string \<Rightarrow> bool" where
  "is_entry l \<longleftrightarrow> has_prefix (trim_space l) ''127.0.1.1''"

lemma entry_is_entry: "is_entry (hosts_entry h)"
  unfolding is_entry_def hosts_entry_def by (rule trim_space_prefix) (simp_all add: is_space_def code_def)

lemma hosts_lines_eq: "hosts_lines h ls = (if list_ex is_entry ls
     then takeWhile (\<lambda>l. \<not> is_entry l) ls @ hosts_entry h # tl (dropWhile (\<lambda>l. \<not> is_entry l) ls) else ls @ [hosts_entry h])"
  by (simp add: hosts_lines_def is_entry_def [abs_def] hosts_entry_def)

lemma hosts_lines_again: "hosts_lines h (hosts_lines h ls) = hosts_lines h ls"
proof -
  have again: "hosts_lines h (a @ hosts_entry h # b) = a @ hosts_entry h # b" if "list_all (\<lambda>l. \<not> is_entry l) a" for a b
  proof -
    have "takeWhile (\<lambda>l. \<not> is_entry l) (a @ hosts_entry h # b) = a" "dropWhile (\<lambda>l. \<not> is_entry l) (a @ hosts_entry h # b) = hosts_entry h # b"
      using that entry_is_entry [of h] by (auto simp: list_all_iff takeWhile_append dropWhile_append)
    moreover have "list_ex is_entry (a @ hosts_entry h # b)" using entry_is_entry by simp
    ultimately show ?thesis unfolding hosts_lines_eq by simp
  qed
  show ?thesis
  proof (cases "list_ex is_entry ls")
    case True
    have "list_all (\<lambda>l. \<not> is_entry l) (takeWhile (\<lambda>l. \<not> is_entry l) ls)" by (auto simp: list_all_iff dest: set_takeWhileD)
    from again [OF this] show ?thesis using True by (subst (1 3) hosts_lines_eq) (simp only: if_True)
  next
    case False
    hence "list_all (\<lambda>l. \<not> is_entry l) ls" by (auto simp: list_all_iff list_ex_iff)
    from again [OF this, of "[]"] show ?thesis using False by (subst (1 3) hosts_lines_eq) (simp only: if_False)
  qed
qed

lemma split_join: "ls \<noteq> [] \<Longrightarrow> \<forall>l\<in>set ls. LF \<notin> set l \<Longrightarrow> split_lines (join_lines ls) = ls"
proof (induction "[LF]" ls rule: join.induct)
  case (3 w v ws)
  thus ?case using split_on_append [of LF w "join_lines (v # ws)"] by simp
qed (simp_all add: split_on_none)

lemma split_lines_clean: "\<forall>l\<in>set (split_lines s). LF \<notin> set l"
  by (induction s) (auto split: list.splits)

lemma set_tl_subset: "set (tl xs) \<subseteq> set xs"
  by (cases xs) auto

lemma hosts_lines_clean:
  assumes "LF \<notin> set h"
  shows "hosts_lines h (split_lines s) \<noteq> []" "\<forall>l\<in>set (hosts_lines h (split_lines s)). LF \<notin> set l"
proof -
  have "LF \<notin> set (hosts_entry h)" using assms by (simp add: hosts_entry_def)
  moreover have "set (tl (dropWhile (\<lambda>l. \<not> is_entry l) (split_lines s))) \<subseteq> set (split_lines s)"
    by (rule subset_trans [OF set_tl_subset]) (auto dest: set_dropWhileD)
  ultimately show "\<forall>l\<in>set (hosts_lines h (split_lines s)). LF \<notin> set l"
    using split_lines_clean [of s] unfolding hosts_lines_eq by (auto dest: set_takeWhileD)
  show "hosts_lines h (split_lines s) \<noteq> []" by (simp add: hosts_lines_eq)
qed

lemma write_same: "os_files w p = Some (s, m') \<Longrightarrow> write_file p s m w = w"
  by (simp add: write_file_def fun_upd_idem)

lemma hosts_fixed:
  "ensureHostsEntry h w = w \<longleftrightarrow> (case content w ''/etc/hosts'' of None \<Rightarrow> True | Some b \<Rightarrow> join_lines (hosts_lines h (split_lines b)) = b)"
proof (cases "os_files w ''/etc/hosts''")
  case (Some x)
  obtain b m where x: "x = (b, m)" by force
  have "write_file ''/etc/hosts'' s 420 w = w \<longleftrightarrow> s = b" for s
    using Some x write_same [of w "''/etc/hosts''" b m 420] write_file_frame(7) [of "''/etc/hosts''" s 420 w] by (auto simp: content_def)
  thus ?thesis using Some x by (simp add: ensureHostsEntry_def content_def)
qed (simp add: ensureHostsEntry_def content_def)

lemma hosts_settled: "LF \<notin> set h \<Longrightarrow> ensureHostsEntry h (ensureHostsEntry h w) = ensureHostsEntry h w"
proof (cases "content w ''/etc/hosts''")
  case (Some b)
  assume "LF \<notin> set h"
  note clean = hosts_lines_clean [OF this, of b]
  have c: "content (ensureHostsEntry h w) ''/etc/hosts'' = Some (join_lines (hosts_lines h (split_lines b)))"
    using Some by (simp add: ensureHostsEntry_def)
  show ?thesis unfolding hosts_fixed c option.case split_join [OF clean] hosts_lines_again ..
qed (simp add: ensureHostsEntry_def)

lemma block_result:
  assumes "applyBlockTo path ls create w = (Inr c, w')" and "tidy (readFileStr w path) ls"
  shows "applyBlockTo path ls create w' = (Inr False, w')"
  using applyBlockTo_settles [OF assms] .

lemma block_quiet: "applyBlockTo path ls create w = (Inr False, w') \<Longrightarrow> w' = w"
  by (auto simp: applyBlockTo_def Let_def split: if_splits)

lemma block_cong: "content w' path = content w path \<Longrightarrow> fst (applyBlockTo path ls create w') = fst (applyBlockTo path ls create w)"
  by (simp add: applyBlockTo_def Let_def readFileStr_def)

lemma boot_quiet_idle:
  assumes "boot_quiet ls w"
  shows "applyBootConfig ls w = (Inr False, w)"
proof -
  obtain p where p: "bootConfigPath w = Some p" "fst (applyBlockTo p ls False w) = Inr False" using assms by (auto simp: boot_quiet_def)
  have q: "applyBlockTo q ls cr w = (Inr False, w)" if "fst (applyBlockTo q ls cr w) = Inr False" for q cr
    using that block_quiet [of q ls cr w] by (metis prod.collapse)
  show ?thesis using assms q [OF p(2)] q [of raspiFirmwareCustom True] p(1) by (auto simp: applyBootConfig_def boot_quiet_def)
qed

abbreviation config_files :: "string set" where
  "config_files \<equiv> {''/boot/firmware/config.txt'', ''/boot/config.txt''}"

lemma bootConfigPath_cong:
  "(\<And>q. q \<in> config_files \<Longrightarrow> (os_files w' q = None) = (os_files w q = None)) \<Longrightarrow> bootConfigPath w' = bootConfigPath w"
  by (simp add: bootConfigPath_def del: not_None_eq)

lemma bootConfigPath_some: "bootConfigPath w = Some p \<Longrightarrow> p \<in> config_files \<and> os_files w p \<noteq> None"
  unfolding bootConfigPath_def by (drule find_SomeD) simp

lemma content_cong: "os_files w' p = os_files w p \<Longrightarrow> content w' p = content w p"
  by (simp add: content_def)

lemma boot_quiet_cong:
  assumes same: "\<And>p. p \<in> insert ''/etc/default/raspi-firmware'' boot_files \<Longrightarrow> os_files w' p = os_files w p"
  shows "boot_quiet ls w' = boot_quiet ls w"
proof -
  have path: "bootConfigPath w' = bootConfigPath w" by (rule bootConfigPath_cong) (use same in auto)
  have block: "fst (applyBlockTo p ls cr w') = fst (applyBlockTo p ls cr w)" if "p \<in> boot_files" for p cr
    by (rule block_cong, rule content_cong, rule same) (use that in blast)
  have deb: "os_files w' ''/etc/default/raspi-firmware'' = os_files w ''/etc/default/raspi-firmware''" by (rule same) simp
  show ?thesis
  proof (cases "bootConfigPath w")
    case (Some p)
    hence "p \<in> boot_files" using bootConfigPath_some by blast
    thus ?thesis using block [of p False] block [of raspiFirmwareCustom True] by (simp add: boot_quiet_def path deb Some)
  qed (simp add: boot_quiet_def path)
qed

lemma boot_paths:
  "raspiFirmwareCustom \<noteq> ''/etc/default/raspi-firmware''" "raspiFirmwareCustom \<notin> config_files" "''/etc/default/raspi-firmware'' \<notin> config_files"
  "rebootMarker \<notin> insert ''/etc/default/raspi-firmware'' boot_files"
  by (simp_all add: raspiFirmwareCustom_def rebootMarker_def)

lemma block_keeps_present:
  assumes "applyBlockTo p ls False w = (Inr c, w')"
  shows "(os_files w' q = None) = (os_files w q = None)"
proof -
  have "content w p \<noteq> None" using assms by (auto simp: applyBlockTo_def split: if_splits)
  hence "os_files w p \<noteq> None" by (simp add: content_def)
  moreover from applyBlockTo_cases [OF assms refl refl] obtain s m where "w' = w \<or> w' = put_file p s m w" by blast
  ultimately show ?thesis by (cases "q = p") auto
qed

lemma boot_settled:
  assumes "boot_step ls w = (Inr c, w')" and "item_good (Boot ls) w"
  shows "boot_quiet ls w'"
proof -
  let ?deb = "os_files w ''/etc/default/raspi-firmware'' \<noteq> None"
  obtain p where p: "bootConfigPath w = Some p" and tidy: "\<And>q. q \<in> boot_files \<Longrightarrow> tidy (readFileStr w q) ls" using assms(2) by auto
  have pc: "p \<in> config_files" and pn: "p \<noteq> raspiFirmwareCustom" "p \<noteq> ''/etc/default/raspi-firmware''"
    using bootConfigPath_some [OF p] boot_paths by metis+
  obtain r0 w0 where a: "(if ?deb then applyBlockTo raspiFirmwareCustom ls True w else (Inr False, w)) = (r0, w0)" by force
  have f0: "\<And>q. q \<noteq> raspiFirmwareCustom \<Longrightarrow> os_files w0 q = os_files w q"
    using a applyBlockTo_frame by (cases ?deb) (auto simp: same_but_def)
  have p0: "bootConfigPath w0 = Some p"
    unfolding p [symmetric] by (rule bootConfigPath_cong) (use f0 boot_paths(2) in metis)
  obtain r1 w1 where b: "applyBlockTo p ls False w0 = (r1, w1)" by force
  from assms(1) a b p0 obtain c0 c1 where r: "r0 = Inr c0" "r1 = Inr c1" and w': "w' = w1 \<or> w' = markRebootPending w1"
    by (auto simp: boot_step_def applyBootConfig_def split: sum.splits bool.splits)
  have f1: "\<And>q. q \<noteq> p \<Longrightarrow> os_files w1 q = os_files w0 q" using applyBlockTo_frame [OF b] by (auto simp: same_but_def)
  have "readFileStr w0 p = readFileStr w p" using f0 [OF pn(1)] by (simp add: readFileStr_def content_def)
  hence t: "tidy (readFileStr w0 p) ls" using tidy [of p] pc by auto
  have cfg: "fst (applyBlockTo p ls False w1) = Inr False" using block_result [OF b [unfolded r] t] by simp
  have cust: "?deb \<Longrightarrow> fst (applyBlockTo raspiFirmwareCustom ls True w1) = Inr False"
  proof -
    assume ?deb
    hence a': "applyBlockTo raspiFirmwareCustom ls True w = (Inr c0, w0)" using a r by simp
    have "content w1 raspiFirmwareCustom = content w0 raspiFirmwareCustom" by (rule content_cong, rule f1) (use pn in blast)
    moreover have "fst (applyBlockTo raspiFirmwareCustom ls True w0) = Inr False" using block_result [OF a' tidy [of raspiFirmwareCustom]] by simp
    ultimately show ?thesis using block_cong by metis
  qed
  have deb: "os_files w1 ''/etc/default/raspi-firmware'' = os_files w ''/etc/default/raspi-firmware''"
    using f0 f1 pn boot_paths(1) by metis
  have "bootConfigPath w1 = Some p"
    unfolding p0 [symmetric] by (rule bootConfigPath_cong) (rule block_keeps_present [OF b [unfolded r]])
  hence "boot_quiet ls w1" using cfg cust deb by (simp only: boot_quiet_def) blast
  moreover have "boot_quiet ls (markRebootPending w1) = boot_quiet ls w1"
  proof (rule boot_quiet_cong)
    fix q assume "q \<in> insert ''/etc/default/raspi-firmware'' boot_files"
    hence "q \<noteq> rebootMarker" using boot_paths(4) by metis
    thus "os_files (markRebootPending w1) q = os_files w1 q" by (simp add: markRebootPending_def)
  qed
  ultimately show ?thesis using w' by metis
qed

lemma item_settles:
  assumes "obedient k" and "item_step k i w = (Inr c, w')" and "item_good i w"
  shows "item_settled k i w'"
proof (cases i)
  case (Name h)
  hence "setHostname k h w = (Inr c, w')" using assms(2) by simp
  from hostname_result [OF assms(1) this] Name assms(3) show ?thesis by (auto simp: hosts_frame hosts_settled)
next
  case (Zone z)
  hence "setTimezone k z w = (Inr c, w')" using assms(2) by simp
  from timezone_result [OF assms(1) this] Zone show ?thesis by simp
next
  case (Keys t ks)
  thus ?thesis using assms(2) by (auto simp: writeAuthorizedKeys_def Let_def split: if_splits)
next
  case (File f)
  thus ?thesis using assms(2) by (auto simp: writeManagedFile_def split: if_splits option.splits)
next
  case (Binary b)
  thus ?thesis using assms(2) by (auto simp: installBinary_def split: if_splits download.splits option.splits)
next
  case (Boot ls)
  thus ?thesis using boot_settled assms(2,3) by simp
next
  case (Packages ps)
  hence "package_step k ps w = (Inr c, w')" using assms(2) by simp
  from package_result [OF assms(1) this] Packages show ?thesis by auto
next
  case (Unit u)
  hence "applyUnit k u w = (Inr c, w')" using assms(2) by simp
  from unit_result [OF assms(1) this] Unit show ?thesis by (simp split: if_splits)
qed

lemma item_undisturbed:
  assumes "same_but (writes j) w w'" and "rest_same j w w'" and "items_apart i j" and "item_settled k i w"
  shows "item_settled k i w'"
proof -
  have f: "\<And>q. q \<in> looks_at i \<Longrightarrow> os_files w' q = os_files w q" using assms(1,3) by (auto simp: same_but_def items_apart_def)
  show ?thesis
  proof (cases i)
    case (Name h)
    have "content w' ''/etc/hosts'' = content w ''/etc/hosts''" using f Name by (simp add: content_def)
    moreover have "os_host w' = os_host w" using assms(2,3) Name by (auto simp: rest_same_def items_apart_def)
    ultimately show ?thesis using assms(4) Name by (simp add: hosts_fixed)
  next
    case (Zone z)
    thus ?thesis using assms(2-4) by (auto simp: rest_same_def items_apart_def)
  next
    case (Keys t ks)
    thus ?thesis using assms(4) f by (simp add: content_def)
  next
    case (File g)
    thus ?thesis using assms(4) f by simp
  next
    case (Binary b)
    thus ?thesis using assms(4) f by (simp add: content_def)
  next
    case (Boot ls)
    have "boot_quiet ls w' = boot_quiet ls w" by (rule boot_quiet_cong) (use f Boot in simp)
    thus ?thesis using assms(4) Boot by simp
  next
    case (Packages ps)
    thus ?thesis using assms(2,4) by (auto simp: rest_same_def)
  next
    case (Unit u)
    hence "\<not> (\<exists>v. j = Unit v \<and> us_name v = us_name u)" using assms(3) by (auto simp: items_apart_def)
    hence "(us_name u \<in> os_enabled w' \<longleftrightarrow> us_name u \<in> os_enabled w) \<and> (us_name u \<in> os_active w' \<longleftrightarrow> us_name u \<in> os_active w)"
      using assms(2) unfolding rest_same_def by blast
    thus ?thesis using assms(4) Unit by simp
  qed
qed

lemma good_undisturbed:
  assumes "same_but (writes j) w w'" and "items_apart i j" and "item_good i w"
  shows "item_good i w'"
proof (cases i)
  case (Boot ls)
  have f: "\<And>q. q \<in> boot_files \<Longrightarrow> os_files w' q = os_files w q" using assms(1,2) Boot by (auto simp: same_but_def items_apart_def)
  have "bootConfigPath w' = bootConfigPath w" by (rule bootConfigPath_cong) (use f in auto)
  moreover have "\<And>q. q \<in> boot_files \<Longrightarrow> readFileStr w' q = readFileStr w q" using f by (simp add: readFileStr_def content_def)
  ultimately show ?thesis using assms(3) Boot by simp
qed (use assms(3) in auto)

lemma obedient_settling: "obedient k \<Longrightarrow> settling (item_step k) item_good (item_settled k) items_apart"
  by unfold_locales (use item_settles item_undisturbed good_undisturbed item_frame in blast)+

lemma item_idle:
  assumes "obedient k" and "item_settled k i w" and "\<And>u. i = Unit u \<Longrightarrow> \<not> us_restart u"
  shows "item_step k i w = (Inr False, w)"
proof (cases i)
  case (Name h)
  thus ?thesis using assms(2) by (simp add: setHostname_def)
next
  case (Zone z)
  thus ?thesis using assms(2) by (simp add: setTimezone_def)
next
  case (Keys t ks)
  thus ?thesis using assms(2) by (simp add: writeAuthorizedKeys_def)
next
  case (File f)
  thus ?thesis using assms(2) by (simp add: writeManagedFile_def)
next
  case (Binary b)
  thus ?thesis using assms(2) by (auto simp: installBinary_def split: option.splits)
next
  case (Boot ls)
  thus ?thesis using assms(2) boot_quiet_idle by (simp add: boot_step_def)
next
  case (Packages ps)
  have "\<And>p. lacks k w p \<longleftrightarrow> p \<notin> os_packages w" using assms(1) unfolding obedient_def by blast
  hence "missingPackages k ps w = []" using assms(2) Packages by (auto simp: missingPackages_def filter_empty_conv)
  thus ?thesis using Packages by (simp add: package_step_def)
next
  case (Unit u)
  have q: "(systemctlIs k ''is-enabled'' (us_name u) w = ''enabled'') = (us_name u \<in> os_enabled w)"
    "(systemctlIs k ''is-active'' (us_name u) w = ''active'') = (us_name u \<in> os_active w)"
    using assms(1) unfolding obedient_def by blast+
  have "\<not> us_restart u" by (rule assms(3) [OF Unit])
  hence "applyUnit k u w = (Inr False, w)" using assms(2) Unit unfolding applyUnit_def q by (auto simp: Let_def split: if_splits)
  thus ?thesis using Unit by simp
qed

section \<open>A configuration as a list of steps\<close>

definition cfg_start :: "jmap \<Rightarrow> item list" where
  "cfg_start cfg =
     (let h = str_of (map_of cfg ''hostname''); z = str_of (map_of cfg ''timezone'')
      in (if h = [] then [] else [Name h]) @ (if z = [] then [] else [Zone z]))"

definition cfg_keys :: "jmap \<Rightarrow> os \<Rightarrow> item list" where
  "cfg_keys cfg w = (let ks = stringList (map_of cfg ''ssh_authorized_keys'') in if ks = [] then [] else map (\<lambda>t. Keys t ks) (keyTargets w))"

definition cfg_files :: "jmap \<Rightarrow> item list" where
  "cfg_files cfg = map File (fileList (map_of cfg ''files'')) @ map Binary (binaryList (map_of cfg ''binaries''))
     @ (let ls = stringList (map_of cfg ''boot_config'') in if ls = [] then [] else [Boot ls])"

definition cfg_packages :: "jmap \<Rightarrow> os \<Rightarrow> item list" where
  "cfg_packages cfg w = (let ps = packageList (osIdentity w) (map_of cfg ''packages'') in if ps = [] then [] else [Packages ps])"

definition cfg_units :: "bool \<Rightarrow> jmap \<Rightarrow> os \<Rightarrow> item list" where
  "cfg_units r cfg w = map (\<lambda>u. Unit (with_restart r u)) (unitList (osIdentity w) (map_of cfg ''units''))"

definition config_items :: "bool \<Rightarrow> jmap \<Rightarrow> os \<Rightarrow> item list" where
  "config_items r cfg w = cfg_start cfg @ cfg_keys cfg w @ cfg_files cfg @ cfg_packages cfg w @ cfg_units r cfg w"

text \<open>One part of the pass carries out these steps: it had no error before if it has none after, and
  then all of them succeeded.\<close>

definition carries :: "tools \<Rightarrow> item list \<Rightarrow> applied \<Rightarrow> applied \<Rightarrow> bool" where
  "carries k ims a b \<longleftrightarrow> (ac_err b = None \<longrightarrow> ac_err a = None \<and> run_steps (item_step k) ims (ac_os a) = Some (ac_os b))"

lemma carries_append: "carries k xs a b \<Longrightarrow> carries k ys b c \<Longrightarrow> carries k (xs @ ys) a c"
  by (auto simp: carries_def run_steps_append)

lemma carries_none: "carries k [] a a"
  by (simp add: carries_def)

lemma carries_step:
  assumes "\<And>w. f w = item_step k i w"
  shows "carries k [i] a (take_step what txt cn f a)"
  unfolding carries_def take_step_def assms
  by (cases "item_step k i (ac_os a)"; cases "fst (item_step k i (ac_os a))") (auto simp: fail_at_def note_change_def split: option.splits if_splits)

lemma carries_fold:
  assumes "\<And>x w. g x w = item_step k (h x) w"
  shows "carries k (map h xs) a (fold (\<lambda>x. take_step (what x) (txt x) (cn x) (g x)) xs a)"
proof (induction xs arbitrary: a)
  case (Cons x xs)
  have "carries k ([h x] @ map h xs) a (fold (\<lambda>x. take_step (what x) (txt x) (cn x) (g x)) xs (take_step (what x) (txt x) (cn x) (g x) a))"
    by (rule carries_append [OF carries_step Cons.IH]) (rule assms)
  thus ?case by simp
qed (simp add: carries_none)

lemma carries_reload:
  assumes "obedient k"
  shows "carries k [] a (apply_reload k a)"
proof -
  have d: "does k (''systemctl'' # [''daemon-reload'']) id" using assms unfolding obedient_def by blast
  obtain r w1 where r: "systemctl k [''daemon-reload''] (ac_os a) = (r, w1)" by force
  have "r = Inr c \<Longrightarrow> w1 = ac_os a" for c using systemctl_ok [OF d] r by (metis id_apply)
  thus ?thesis using r by (cases r) (auto simp: carries_def apply_reload_def reload_step_def take_step_def fail_at_def note_change_def split: option.splits)
qed

lemma carries_name: "carries k (cfg_start cfg) a (apply_zone k cfg (apply_name k cfg a))"
proof -
  let ?h = "str_of (map_of cfg ''hostname'')" and ?z = "str_of (map_of cfg ''timezone'')"
  have "carries k (if ?h = [] then [] else [Name ?h]) a (apply_name k cfg a)"
    using carries_step [of "setHostname k ?h" k "Name ?h" a] by (simp add: apply_name_def Let_def carries_none)
  moreover have "carries k (if ?z = [] then [] else [Zone ?z]) b (apply_zone k cfg b)" for b
    using carries_step [of "setTimezone k ?z" k "Zone ?z" b] by (simp add: apply_zone_def Let_def carries_none)
  ultimately show ?thesis unfolding cfg_start_def Let_def by (rule carries_append)
qed

lemma carries_keys: "carries k (cfg_keys cfg (ac_os a)) a (apply_keys cfg a)"
  unfolding cfg_keys_def apply_keys_def Let_def by (simp add: carries_none) (intro impI carries_fold, simp)

lemma carries_files: "carries k (cfg_files cfg) a (apply_boot cfg (apply_binaries k cfg (apply_files cfg a)))"
proof -
  let ?ls = "stringList (map_of cfg ''boot_config'')"
  have "carries k (map File (fileList (map_of cfg ''files''))) a (apply_files cfg a)" for a
    unfolding apply_files_def by (rule carries_fold) simp
  moreover have "carries k (map Binary (binaryList (map_of cfg ''binaries''))) a (apply_binaries k cfg a)" for a
    unfolding apply_binaries_def by (rule carries_fold) simp
  moreover have "carries k (if ?ls = [] then [] else [Boot ?ls]) a (apply_boot cfg a)" for a
    using carries_step [of "boot_step ?ls" k "Boot ?ls" a] by (simp add: apply_boot_def Let_def carries_none)
  ultimately show ?thesis unfolding cfg_files_def Let_def by (intro carries_append)
qed

lemma carries_packages: "carries k (cfg_packages cfg (ac_os a)) a (apply_packages k cfg a)"
  unfolding cfg_packages_def apply_packages_def Let_def by (simp add: carries_none) (intro impI carries_step, simp)

lemma carries_units: "carries k (cfg_units (ac_units a) cfg (ac_os a)) a (apply_units k cfg a)"
  unfolding cfg_units_def apply_units_def by (rule carries_fold) simp

text \<open>The files that say who the users are and what the system is called.\<close>

definition identity_files :: "string set" where
  "identity_files = {''/etc/passwd'', ''/etc/os-release'', ''/boot/dietpi/.version'', ''/var/lib/dietpi/.version''}"

definition steady :: "item list \<Rightarrow> bool" where
  "steady ims \<longleftrightarrow> (\<forall>i\<in>set ims. writes i \<inter> identity_files = {})"

lemma identity_same:
  assumes "\<forall>q\<in>identity_files. os_files w' q = os_files w q"
  shows "keyTargets w' = keyTargets w" "osIdentity w' = osIdentity w"
proof -
  have "readFileStr w' q = readFileStr w q" if "q \<in> identity_files" for q
    using assms that by (simp add: readFileStr_def content_def)
  hence r: "readFileStr w' ''/etc/passwd'' = readFileStr w ''/etc/passwd''" "readFileStr w' ''/etc/os-release'' = readFileStr w ''/etc/os-release''"
    "readFileStr w' ''/boot/dietpi/.version'' = readFileStr w ''/boot/dietpi/.version''"
    "readFileStr w' ''/var/lib/dietpi/.version'' = readFileStr w ''/var/lib/dietpi/.version''"
    by (simp_all only: identity_files_def insert_iff simp_thms)
  show "keyTargets w' = keyTargets w" "osIdentity w' = osIdentity w"
    by (simp_all only: keyTargets_def osIdentity_def dietPi_def r)
qed

lemma run_steady:
  "obedient k \<Longrightarrow> run_steps (item_step k) ims w = Some w' \<Longrightarrow> steady ims \<Longrightarrow> \<forall>q\<in>identity_files. os_files w' q = os_files w q"
proof (induction ims arbitrary: w)
  case (Cons i ims)
  then obtain c w1 where st: "item_step k i w = (Inr c, w1)" "run_steps (item_step k) ims w1 = Some w'" by (auto split: prod.splits sum.splits)
  have "\<forall>q\<in>identity_files. os_files w1 q = os_files w q"
    using item_frame [OF Cons.prems(1) st(1)] Cons.prems(3) by (auto simp: same_but_def steady_def)
  moreover have "\<forall>q\<in>identity_files. os_files w' q = os_files w1 q"
    using Cons.IH [OF Cons.prems(1) st(2)] Cons.prems(3) by (simp add: steady_def)
  ultimately show ?case by simp
qed simp

lemma steady_units: "steady (cfg_units r cfg w)"
  by (auto simp: steady_def cfg_units_def)

lemma steady_append: "steady (xs @ ys) \<longleftrightarrow> steady xs \<and> steady ys"
  by (auto simp: steady_def)

lemma steady_packages: "steady (cfg_packages cfg w)"
  by (auto simp: steady_def cfg_packages_def Let_def)

lemma cfg_same:
  assumes "\<forall>q\<in>identity_files. os_files w' q = os_files w q"
  shows "cfg_keys cfg w' = cfg_keys cfg w" "cfg_packages cfg w' = cfg_packages cfg w" "cfg_units r cfg w' = cfg_units r cfg w"
  unfolding cfg_keys_def cfg_packages_def cfg_units_def identity_same [OF assms] by (rule refl)+

lemma applyConfig_runs:
  assumes "obedient k" and "applyConfig k cfg w = (ch, None, w')" and "steady (config_items r0 cfg w)"
  shows "\<exists>r. run_steps (item_step k) (config_items r cfg w) w = Some w'"
proof -
  let ?a0 = "\<lparr>ac_os = w, ac_changes = [], ac_err = None, ac_units = False\<rparr>"
  let ?a1 = "apply_zone k cfg (apply_name k cfg ?a0)"
  let ?a2 = "apply_keys cfg ?a1"
  let ?a3 = "apply_boot cfg (apply_binaries k cfg (apply_files cfg ?a2))"
  let ?a4 = "apply_packages k cfg ?a3"
  let ?a5 = "apply_reload k ?a4"
  let ?a6 = "apply_units k cfg ?a5"
  have e6: "ac_err ?a6 = None" and w': "ac_os ?a6 = w'" using assms(2) by (auto simp: applyConfig_def Let_def)
  have st: "steady (cfg_start cfg)" "steady (cfg_keys cfg w)" "steady (cfg_files cfg)"
    using assms(3) by (simp_all add: config_items_def steady_append)
  have 6: "ac_err ?a5 = None" "run_steps (item_step k) (cfg_units (ac_units ?a5) cfg (ac_os ?a5)) (ac_os ?a5) = Some w'"
    using carries_units [where k = k and cfg = cfg and a = ?a5] e6 w' by (simp_all add: carries_def)
  have 5: "ac_err ?a4 = None" "ac_os ?a5 = ac_os ?a4" using carries_reload [OF assms(1), where a = ?a4] 6(1) by (simp_all add: carries_def)
  have 4: "ac_err ?a3 = None" "run_steps (item_step k) (cfg_packages cfg (ac_os ?a3)) (ac_os ?a3) = Some (ac_os ?a4)"
    using carries_packages [where k = k and cfg = cfg and a = ?a3] 5(1) by (simp_all add: carries_def)
  have 3: "ac_err ?a2 = None" "run_steps (item_step k) (cfg_files cfg) (ac_os ?a2) = Some (ac_os ?a3)"
    using carries_files [where k = k and cfg = cfg and a = ?a2] 4(1) by (simp_all add: carries_def)
  have 2: "ac_err ?a1 = None" "run_steps (item_step k) (cfg_keys cfg (ac_os ?a1)) (ac_os ?a1) = Some (ac_os ?a2)"
    using carries_keys [where k = k and cfg = cfg and a = ?a1] 3(1) by (simp_all add: carries_def)
  have 1: "run_steps (item_step k) (cfg_start cfg) w = Some (ac_os ?a1)"
    using carries_name [where k = k and cfg = cfg and a = ?a0] 2(1) by (simp add: carries_def)
  note id1 = run_steady [OF assms(1) 1 st(1)]
  note k2 = 2(2) [unfolded cfg_same(1) [OF id1]]
  have id2: "\<forall>q\<in>identity_files. os_files (ac_os ?a2) q = os_files w q" using run_steady [OF assms(1) k2 st(2)] id1 by simp
  have id3: "\<forall>q\<in>identity_files. os_files (ac_os ?a3) q = os_files w q" using run_steady [OF assms(1) 3(2) st(3)] id2 by simp
  note k4 = 4(2) [unfolded cfg_same(2) [OF id3]]
  have id5: "\<forall>q\<in>identity_files. os_files (ac_os ?a5) q = os_files w q" using run_steady [OF assms(1) k4 steady_packages] id3 5(2) by simp
  have "run_steps (item_step k) (config_items (ac_units ?a5) cfg w) w = Some w'"
    unfolding config_items_def run_steps_append using 1 k2 3(2) k4 6(2) [unfolded cfg_same(3) [OF id5]] 5(2) by simp
  thus ?thesis by blast
qed

section \<open>A settled configuration has nothing to do\<close>

lemma take_step_idle: "f (ac_os a) = (Inr False, ac_os a) \<Longrightarrow> take_step what txt cn f a = a"
  by (simp add: take_step_def)

lemma fold_idle: "(\<And>x. x \<in> set xs \<Longrightarrow> g x (ac_os a) = (Inr False, ac_os a)) \<Longrightarrow> fold (\<lambda>x. take_step (what x) (txt x) (cn x) (g x)) xs a = a"
  by (induction xs) (simp_all add: take_step_idle)

lemma applyConfig_idle:
  assumes "\<And>i. i \<in> set (config_items False cfg w) \<Longrightarrow> item_step k i w = (Inr False, w)"
  shows "applyConfig k cfg w = ([], None, w)"
proof -
  let ?a = "\<lparr>ac_os = w, ac_changes = [], ac_err = None, ac_units = False\<rparr>"
  have i: "\<And>i. i \<in> set (cfg_start cfg) \<union> set (cfg_keys cfg w) \<union> set (cfg_files cfg) \<union> set (cfg_packages cfg w) \<union> set (cfg_units False cfg w) \<Longrightarrow> item_step k i w = (Inr False, w)"
    using assms by (auto simp: config_items_def)
  have "apply_name k cfg ?a = ?a"
    using i [of "Name (str_of (map_of cfg ''hostname''))"] by (auto simp: apply_name_def Let_def cfg_start_def intro!: take_step_idle)
  moreover have "apply_zone k cfg ?a = ?a"
    using i [of "Zone (str_of (map_of cfg ''timezone''))"] by (auto simp: apply_zone_def Let_def cfg_start_def intro!: take_step_idle)
  moreover have "apply_keys cfg ?a = ?a"
  proof -
    let ?ks = "stringList (map_of cfg ''ssh_authorized_keys'')"
    have "?ks \<noteq> [] \<Longrightarrow> t \<in> set (keyTargets w) \<Longrightarrow> writeAuthorizedKeys t ?ks w = (Inr False, w)" for t
      using i [of "Keys t ?ks"] by (auto simp: cfg_keys_def Let_def)
    thus ?thesis unfolding apply_keys_def Let_def by (auto intro!: fold_idle)
  qed
  moreover have "apply_files cfg ?a = ?a" unfolding apply_files_def
  proof (rule fold_idle)
    fix f assume "f \<in> set (fileList (map_of cfg ''files''))"
    thus "writeManagedFile f (ac_os ?a) = (Inr False, ac_os ?a)" using i [of "File f"] by (simp add: cfg_files_def)
  qed
  moreover have "apply_binaries k cfg ?a = ?a" unfolding apply_binaries_def
  proof (rule fold_idle)
    fix b assume "b \<in> set (binaryList (map_of cfg ''binaries''))"
    thus "installBinary k b (ac_os ?a) = (Inr False, ac_os ?a)" using i [of "Binary b"] by (simp add: cfg_files_def)
  qed
  moreover have "apply_boot cfg ?a = ?a"
    using i [of "Boot (stringList (map_of cfg ''boot_config''))"] by (auto simp: apply_boot_def Let_def cfg_files_def intro!: take_step_idle)
  moreover have "apply_packages k cfg ?a = ?a"
    using i [of "Packages (packageList (osIdentity w) (map_of cfg ''packages''))"]
    by (auto simp: apply_packages_def Let_def cfg_packages_def intro!: take_step_idle)
  moreover have "apply_reload k ?a = ?a" by (simp add: apply_reload_def)
  moreover have "apply_units k cfg ?a = ?a" unfolding apply_units_def
  proof (rule fold_idle)
    fix u assume "u \<in> set (unitList (osIdentity (ac_os ?a)) (map_of cfg ''units''))"
    thus "applyUnit k (with_restart (ac_units ?a) u) (ac_os ?a) = (Inr False, ac_os ?a)"
      using i [of "Unit (with_restart False u)"] by (simp add: cfg_units_def)
  qed
  ultimately show ?thesis by (simp add: applyConfig_def)
qed

fun restarting :: "bool \<Rightarrow> item \<Rightarrow> item" where
  "restarting r (Unit u) = Unit (with_restart r u)"
| "restarting r i = i"

lemma restarting_same [simp]:
  "looks_at (restarting r i) = looks_at i" "writes (restarting r i) = writes i" "same_thing (restarting r i) (restarting r j) = same_thing i j"
  "item_good (restarting r i) w = item_good i w" "item_settled k (restarting r i) w = item_settled k i w"
  by (cases i; cases j; simp add: with_restart_def)+

lemma config_items_restarting: "config_items r cfg w = map (restarting r) (config_items False cfg w)"
proof -
  have "map (restarting r) ims = ims" if "\<And>u. Unit u \<notin> set ims" for ims
  proof (rule map_idI)
    fix i assume i: "i \<in> set ims"
    show "restarting r i = i"
    proof (cases i)
      case (Unit u)
      thus ?thesis using that [of u] i by blast
    qed simp_all
  qed
  moreover have "Unit u \<notin> set (cfg_start cfg @ cfg_keys cfg w @ cfg_files cfg @ cfg_packages cfg w)" for u
    by (auto simp: cfg_start_def cfg_keys_def cfg_files_def cfg_packages_def Let_def split: if_splits)
  moreover have "cfg_units r cfg w = map (restarting r) (cfg_units False cfg w)"
    by (simp add: cfg_units_def with_restart_def)
  ultimately show ?thesis unfolding config_items_def map_append by (metis append.assoc map_append)
qed

definition never_restarts :: "item list \<Rightarrow> bool" where
  "never_restarts ims \<longleftrightarrow> (\<forall>u. Unit u \<in> set ims \<longrightarrow> \<not> us_restart u)"

lemma restarting_inj: "never_restarts ims \<Longrightarrow> inj_on (restarting r) (set ims)"
proof (rule inj_onI)
  fix i j assume n: "never_restarts ims" and ij: "i \<in> set ims" "j \<in> set ims" "restarting r i = restarting r j"
  have "with_restart r u = with_restart r v \<Longrightarrow> \<not> us_restart u \<Longrightarrow> \<not> us_restart v \<Longrightarrow> u = v" for u v
    by (cases u; cases v) (simp add: with_restart_def split: if_splits)
  thus "i = j" using n ij by (cases i; cases j) (auto simp: never_restarts_def)
qed

lemma pairwise_restarting: "pairwise items_apart S \<Longrightarrow> pairwise items_apart (restarting r ` S)"
proof (rule pairwiseI)
  fix x y assume S: "pairwise items_apart S" "x \<in> restarting r ` S" "y \<in> restarting r ` S" "x \<noteq> y"
  then obtain i j where ij: "i \<in> S" "j \<in> S" "x = restarting r i" "y = restarting r j" by blast
  hence "items_apart i j" using S(1,4) by (metis pairwiseD)
  thus "items_apart x y" by (simp add: ij items_apart_def)
qed

text \<open>The parts of a configuration do not get in each other's way, and none asks for a restart of its own.\<close>

definition sound_config :: "jmap \<Rightarrow> os \<Rightarrow> bool" where
  "sound_config cfg w \<longleftrightarrow>
     (let ims = config_items False cfg w
      in distinct ims \<and> pairwise items_apart (set ims) \<and> list_all (\<lambda>i. item_good i w) ims \<and> steady ims \<and> never_restarts ims)"


text \<open>Programs as the manual pages have them.\<close>

definition plain_run :: "string list \<Rightarrow> os \<Rightarrow> string \<times> string option \<times> os" where
  "plain_run args w =
     (let cmd = hd args; sub = args ! 1; x = last args
      in if cmd = ''hostnamectl'' \<or> cmd = ''hostname'' then ([], None, w\<lparr>os_host := x\<rparr>)
         else if cmd = ''timedatectl'' then ([], None, w\<lparr>os_zone := ''/usr/share/zoneinfo/'' @ x\<rparr>)
         else if cmd = ''dpkg-query'' then (if x \<in> os_packages w then ''install ok installed'' else [], None, w)
         else if cmd = ''apt-get'' then ([], None, if sub = ''install'' then w\<lparr>os_packages := os_packages w \<union> set (drop 5 args)\<rparr> else w)
         else if sub = ''is-enabled'' then (if x \<in> os_enabled w then ''enabled'' else [], None, w)
         else if sub = ''is-active'' then (if x \<in> os_active w then ''active'' else [], None, w)
         else if sub = ''enable'' then ([], None, w\<lparr>os_enabled := insert x (os_enabled w), os_active := insert x (os_active w)\<rparr>)
         else if sub = ''disable'' then ([], None, w\<lparr>os_enabled := os_enabled w - {x}, os_active := os_active w - {x}\<rparr>)
         else ([], None, w))"

definition plain_tools :: tools where
  "plain_tools = \<lparr>tl_run = plain_run, tl_has = (\<lambda>_. True), tl_sha = (\<lambda>s. s), tl_get = (\<lambda>u. Got 200 u None)\<rparr>"

lemma plain_obedient: "obedient plain_tools"
proof -
  have "trim_space ''enabled'' = ''enabled''" "trim_space ''active'' = ''active''" "trim_space [] \<noteq> ''enabled''" "trim_space [] \<noteq> ''active''"
    "str_contains ''install ok installed'' ''install ok installed''" "\<not> str_contains [] ''install ok installed''" by code_simp+
  thus ?thesis
    unfolding obedient_def by (simp add: does_def plain_tools_def plain_run_def lacks_def systemctlIs_def)
qed

interpretation plain: settling "item_step plain_tools" item_good "item_settled plain_tools" items_apart
  by (rule obedient_settling [OF plain_obedient])

definition demo_os :: os where
  "demo_os = \<lparr>os_host = ''old'', os_zone = [], os_files = (\<lambda>_. None), os_enabled = {}, os_active = {}, os_packages = {}\<rparr>"

definition demo_cfg :: jmap where
  "demo_cfg = [(''hostname'', JStr ''b1''), (''files'', JArr [JObj [(''path'', JStr ''/etc/motd''), (''content'', JStr ''hi'')]]),
     (''units'', JArr [JStr ''ssh''])]"

lemma demo_items: "config_items False demo_cfg demo_os =
   [Name ''b1'', File \<lparr>mf_path = ''/etc/motd'', mf_content = ''hi'', mf_mode = 420\<rparr>, Unit \<lparr>us_name = ''ssh'', us_enabled = True, us_restart = False\<rparr>]"
  by (simp add: config_items_def cfg_start_def cfg_keys_def cfg_files_def cfg_packages_def cfg_units_def demo_cfg_def str_of_def fileList_def objects_def
      List.map_filter_def mode_of_def binaryList_def packageList_def unitList_def unit_entry_def with_restart_def Let_def)

lemma demo_sound: "sound_config demo_cfg demo_os"
  by (auto simp: sound_config_def demo_items pairwise_insert items_apart_def steady_def identity_files_def never_restarts_def)

lemma demo_applied: "\<exists>ch w'. applyConfig plain_tools demo_cfg demo_os = (ch, None, w') \<and> os_host w' = ''b1''"
proof -
  let ?f = "\<lparr>mf_path = ''/etc/motd'', mf_content = ''hi'', mf_mode = 420\<rparr>"
  have lists: "str_of (map_of demo_cfg ''hostname'') = ''b1''" "str_of (map_of demo_cfg ''timezone'') = []"
    "stringList (map_of demo_cfg ''ssh_authorized_keys'') = []" "stringList (map_of demo_cfg ''boot_config'') = []"
    "fileList (map_of demo_cfg ''files'') = [?f]" "binaryList (map_of demo_cfg ''binaries'') = []" "packageList x (map_of demo_cfg ''packages'') = []"
    "unitList x (map_of demo_cfg ''units'') = [\<lparr>us_name = ''ssh'', us_enabled = True, us_restart = False\<rparr>]" for x
    by (simp_all add: demo_cfg_def str_of_def fileList_def objects_def List.map_filter_def mode_of_def binaryList_def packageList_def unitList_def unit_entry_def)
  have "\<not> has_suffix ''/etc/motd'' ''.service''" "\<not> has_suffix ''/etc/motd'' ''.timer''" by code_simp+
  thus ?thesis
    by (simp add: applyConfig_def apply_name_def apply_zone_def apply_keys_def apply_files_def apply_binaries_def apply_boot_def apply_packages_def
        apply_reload_def apply_units_def lists take_step_def setHostname_def demo_os_def plain_tools_def plain_run_def ensureHostsEntry_def content_def
        note_change_def writeManagedFile_def perm_def put_file_def applyUnit_def systemctlIs_def systemctl_def trim_space_def with_restart_def Let_def)
qed


end
