(* ===== verification/Agent.thy ===== *)
theory Agent
  imports Settle Relay
begin

text \<open>
  The process that runs on every blade (\<^verbatim>\<open>src/agent/main.go\<close>, \<^verbatim>\<open>server.go\<close>): its credentials, the
  version it last applied, the changes it has still to report, the rules it was given, and one
  pass - report, commands, configuration. Who answers it is a record of functions; what it sends
  and does is the list of what happened. The centre's handler of its question is
  \<^verbatim>\<open>hBladeConfig\<close> of \<^verbatim>\<open>src/server/api.go\<close>.
\<close>

section \<open>Credentials\<close>

record config =
  cf_server :: string
  cf_serial :: string
  cf_token :: string

definition no_config :: config where "no_config = \<lparr>cf_server = [], cf_serial = [], cf_token = []\<rparr>"

definition legacyPrefix :: string where "legacyPrefix = ''BLADEMASTER_''"

text \<open>The name a line gives a value to, with either prefix folded away, and the value.\<close>

definition env_entry :: "string \<Rightarrow> (string \<times> string) option" where
  "env_entry l0 =
     (let l = trim_space l0
      in if l = [] \<or> has_prefix l ''#'' then None
         else map_option (\<lambda>(k, v). (trim_prefix (trim_prefix (trim_space k) legacyPrefix) ''SHEATH_'', trim_chars [CHR 0x22, CHR 0x27] (trim_space v)))
                (cut CHR ''='' l))"

definition fill_entry :: "string \<times> string \<Rightarrow> config \<Rightarrow> config" where
  "fill_entry e c =
     (if fst e = ''SERVER'' then (if cf_server c = [] then c\<lparr>cf_server := snd e\<rparr> else c)
      else if fst e = ''SERIAL'' then (if cf_serial c = [] then c\<lparr>cf_serial := snd e\<rparr> else c)
      else if fst e = ''TOKEN'' then (if cf_token c = [] then c\<lparr>cf_token := snd e\<rparr> else c)
      else c)"

definition env_line :: "string \<Rightarrow> config \<Rightarrow> config" where
  "env_line l c = (case env_entry l of None \<Rightarrow> c | Some e \<Rightarrow> fill_entry e c)"

definition read_env :: "string \<Rightarrow> config \<Rightarrow> config" where
  "read_env s c = fold env_line (split_lines s) c"

definition readEnvFile :: "os \<Rightarrow> string \<Rightarrow> config \<Rightarrow> config" where
  "readEnvFile w path c = (case content w path of None \<Rightarrow> c | Some s \<Rightarrow> read_env s c)"

definition firstEnv :: "(string \<Rightarrow> string) \<Rightarrow> string list \<Rightarrow> string" where
  "firstEnv env ks = (case dropWhile (\<lambda>k. env k = []) ks of [] \<Rightarrow> [] | k # _ \<Rightarrow> env k)"

definition legacyEnvFiles :: "string list" where "legacyEnvFiles = [''/etc/blademaster/agent.env'']"

definition own_serial :: "os \<Rightarrow> string" where
  "own_serial w =
     (case readSerial (content w ''/proc/device-tree/serial-number'') (content w ''/proc/cpuinfo'') of None \<Rightarrow> [] | Some s \<Rightarrow> s)"

definition present :: "string \<Rightarrow> string" where "present s = (if s = [] then ''missing'' else ''set'')"

text \<open>The credentials, or what is missing; \<open>env\<close> is the environment of the process.\<close>

definition loadConfig :: "(string \<Rightarrow> string) \<Rightarrow> os \<Rightarrow> string \<Rightarrow> string + config" where
  "loadConfig env w path =
     (let c0 = \<lparr>cf_server = firstEnv env [''SHEATH_SERVER'', legacyPrefix @ ''SERVER''],
                cf_serial = firstEnv env [''SHEATH_SERIAL'', legacyPrefix @ ''SERIAL''],
                cf_token = firstEnv env [''SHEATH_TOKEN'', legacyPrefix @ ''TOKEN'']\<rparr>;
          c1 = fold (readEnvFile w) (path # legacyEnvFiles) c0;
          c2 = (if cf_serial c1 = [] then c1\<lparr>cf_serial := own_serial w\<rparr> else c1)
      in if cf_server c2 = [] \<or> cf_serial c2 = [] \<or> cf_token c2 = []
         then Inl (''incomplete (server='' @ cf_server c2 @ '' serial='' @ cf_serial c2 @ '' token='' @ present (cf_token c2) @ '') '' @ emdash @ '' check '' @ path)
         else Inr (c2\<lparr>cf_server := trim_right ''/'' (cf_server c2)\<rparr>))"

section \<open>The process\<close>

record agent =
  ag_cfg :: config
  ag_applied :: string
  ag_pending :: "string list"
  ag_pol :: agentPolicy
  ag_announced :: bool

definition no_policy :: agentPolicy where
  "no_policy = \<lparr>ap_interval = 0, ap_jitter = 0, ap_allow = [], ap_reboot_on_cfg = False, ap_window = []\<rparr>"

definition stateFile :: string where "stateFile = ''/var/lib/sheath/applied''"
definition legacyStateFiles :: "string list" where "legacyStateFiles = [''/var/lib/blademaster/applied'']"

definition readState :: "os \<Rightarrow> string" where
  "readState w =
     (case dropWhile (\<lambda>p. trim_space (readFileStr w p) = []) (stateFile # legacyStateFiles) of
        [] \<Rightarrow> [] | p # _ \<Rightarrow> trim_space (readFileStr w p))"

definition writeState :: "string \<Rightarrow> os \<Rightarrow> os" where
  "writeState v w = write_file stateFile (v @ [LF]) 420 w"

definition start_agent :: "config \<Rightarrow> os \<Rightarrow> agent" where
  "start_agent c w = \<lparr>ag_cfg = c, ag_applied = readState w, ag_pending = [], ag_pol = no_policy, ag_announced = False\<rparr>"

text \<open>The wait between two passes in seconds; \<open>r\<close> is the random part, below the jitter.\<close>

definition wait_after :: "int \<Rightarrow> int \<Rightarrow> agent \<Rightarrow> int" where
  "wait_after interval r a =
     (if ap_interval (ag_pol a) > 0 then ap_interval (ag_pol a) else interval) + (if ap_jitter (ag_pol a) > 0 then r else 0)"

section \<open>Asking\<close>

text \<open>What comes back: nothing, or a status with the first bytes of its text and the decoded body.\<close>

datatype 'd heard = Silence string | Heard nat string "'d option"

definition do_request :: "'d heard \<Rightarrow> string + nat \<times> 'd option" where
  "do_request r =
     (case r of
        Silence e \<Rightarrow> Inl e
      | Heard c txt d \<Rightarrow>
          if c = 304 then Inr (304, None)
          else if c \<ge> 400 then Inl (''HTTP '' @ show_nat c @ '': '' @ trim_space (take 512 txt))
          else case d of None \<Rightarrow> Inl ''response unreadable'' | Some x \<Rightarrow> Inr (c, Some x))"

record message =
  ms_facts :: json
  ms_health :: json
  ms_applied :: string
  ms_changes :: "string list"

record configResp =
  cr_version :: string
  cr_config :: jmap

record contacts =
  ct_now :: instant
  ct_minute :: int
  ct_facts :: json
  ct_health :: json
  ct_status :: "config \<Rightarrow> message \<Rightarrow> unit heard"
  ct_commands :: "config \<Rightarrow> command list heard"
  ct_config :: "config \<Rightarrow> string \<Rightarrow> configResp heard"
  ct_answers :: "string \<Rightarrow> bool"

text \<open>What happened: a message left, a change was noted for the next one, a command was carried
  out, a configuration was taken up, a restart was asked for.\<close>

datatype event = Sent message | Noted string | Did deed | Applying string | Restarting nat

section \<open>Reporting\<close>

definition report_message :: "contacts \<Rightarrow> agent \<Rightarrow> message" where
  "report_message ct a = \<lparr>ms_facts = ct_facts ct, ms_health = ct_health ct, ms_applied = ag_applied a, ms_changes = ag_pending a\<rparr>"

definition report :: "contacts \<Rightarrow> agent \<Rightarrow> agent \<times> event list \<times> string option" where
  "report ct a =
     (let m = report_message ct a
      in (a\<lparr>ag_pending := []\<rparr>, [Sent m],
          case ct_status ct (ag_cfg a) m of
            Silence e \<Rightarrow> Some e
          | Heard c txt d \<Rightarrow> if c \<ge> 400 then Some (''HTTP '' @ show_nat c @ '': '' @ trim_space (take 512 txt)) else None))"

definition add_notes :: "string list \<Rightarrow> agent \<Rightarrow> agent" where
  "add_notes cs a = a\<lparr>ag_pending := ag_pending a @ cs\<rparr>"

section \<open>Restarting\<close>

definition maybeRestart :: "contacts \<Rightarrow> os \<Rightarrow> agent \<Rightarrow> agent \<times> event list" where
  "maybeRestart ct w a =
     (if \<not> ap_reboot_on_cfg (ag_pol a) \<or> \<not> rebootRequired w then (a, [])
      else if \<not> inWindow (ag_pol a) (ct_minute ct) then
        (if ag_announced a then (a, [])
         else (let n = ''restart pending '' @ emdash @ '' waiting for the maintenance window '' @ ap_window (ag_pol a)
               in ((add_notes [n] a)\<lparr>ag_announced := True\<rparr>, [Noted n])))
      else
        (let n = ''restarting for a boot configuration change'';
             (a1, es, _) = report ct (add_notes [n] a)
         in (a1\<lparr>ag_pol := (ag_pol a1)\<lparr>ap_reboot_on_cfg := False\<rparr>\<rparr>, Noted n # es @ [Restarting 30])))"

section \<open>Following the site\<close>

definition env_lines :: "string \<Rightarrow> string \<Rightarrow> string list \<Rightarrow> string list" where
  "env_lines key value ls =
     (let mine = (\<lambda>l. has_prefix (trim_space l) (key @ ''='')); new = key @ ''='' @ value
      in if list_ex mine ls then map (\<lambda>l. if mine l then new else l) ls else ls @ [new])"

definition replaced_env :: "string \<Rightarrow> string \<Rightarrow> string \<Rightarrow> string" where
  "replaced_env key value s =
     (let out = join_lines (env_lines key value (split_lines s)) in if has_suffix out [LF] then out else out @ [LF])"

definition replaceEnvValue :: "string \<Rightarrow> string \<Rightarrow> string \<Rightarrow> os \<Rightarrow> os option" where
  "replaceEnvValue path key value w =
     (case content w path of None \<Rightarrow> None | Some s \<Rightarrow> Some (put_file path (replaced_env key value s) 384 w))"

definition serverKey :: string where "serverKey = ''SHEATH_SERVER''"

definition wanted_server :: "jmap \<Rightarrow> string" where
  "wanted_server cfg = trim_right ''/'' (trim_space (str_of (map_of cfg ''server_url'')))"

definition arrow :: string where "arrow = map char_of [0xE2, 0x86, 0x92 :: nat]"

definition adoptServer :: "contacts \<Rightarrow> jmap \<Rightarrow> string \<Rightarrow> agent \<Rightarrow> os \<Rightarrow> string option \<times> agent \<times> os" where
  "adoptServer ct cfg envFile a w =
     (let want = wanted_server cfg
      in if want = [] \<or> want = cf_server (ag_cfg a) \<or> \<not> ct_answers ct want then (None, a, w)
         else case replaceEnvValue envFile serverKey want w of
                None \<Rightarrow> (None, a, w)
              | Some w1 \<Rightarrow> (Some (''server: '' @ cf_server (ag_cfg a) @ '' '' @ arrow @ '' '' @ want), a\<lparr>ag_cfg := (ag_cfg a)\<lparr>cf_server := want\<rparr>\<rparr>, w1))"

section \<open>A pass\<close>

definition none_match :: "agent \<Rightarrow> string" where
  "none_match a = (if ag_applied a = [] then [] else [CHR 0x22] @ ag_applied a @ [CHR 0x22])"

type_synonym pass = "agent \<times> os \<times> event list \<times> string option"

definition then_restart :: "contacts \<Rightarrow> os \<Rightarrow> agent \<Rightarrow> event list \<Rightarrow> string option \<Rightarrow> pass" where
  "then_restart ct w a es err = (let (a1, fs) = maybeRestart ct w a in (a1, w, es @ fs, err))"

definition take_up :: "tools \<Rightarrow> contacts \<Rightarrow> string \<Rightarrow> configResp \<Rightarrow> agent \<Rightarrow> os \<Rightarrow> pass" where
  "take_up k ct envFile cr a w =
     (let (moved, a1, w1) = adoptServer ct (cr_config cr) envFile (a\<lparr>ag_pol := readAgentPolicy (cr_config cr)\<rparr>) w;
          m = (case moved of None \<Rightarrow> [] | Some c \<Rightarrow> [c]);
          (changes, err, w2) = applyConfig k (cr_config cr) w1
      in case err of
           Some e \<Rightarrow> (let ns = m @ changes @ [''FAILED: '' @ e] in then_restart ct w2 (add_notes ns a1) (map Noted m @ [Applying (cr_version cr)] @ map Noted (changes @ [''FAILED: '' @ e])) (Some e))
         | None \<Rightarrow> then_restart ct (writeState (cr_version cr) w2) ((add_notes (m @ changes) a1)\<lparr>ag_applied := cr_version cr\<rparr>) (map Noted m @ [Applying (cr_version cr)] @ map Noted changes) None)"

definition syncConfig :: "tools \<Rightarrow> contacts \<Rightarrow> string \<Rightarrow> agent \<Rightarrow> os \<Rightarrow> pass" where
  "syncConfig k ct envFile a w =
     (case do_request (ct_config ct (ag_cfg a) (none_match a)) of
        Inl e \<Rightarrow> (a, w, [], Some e)
      | Inr (c, None) \<Rightarrow> then_restart ct w a [] None
      | Inr (c, Some cr) \<Rightarrow> if cr_version cr = ag_applied a then then_restart ct w a [] None else take_up k ct envFile cr a w)"

definition command_events :: "deed list \<Rightarrow> event list" where
  "command_events ds =
     concat (map (\<lambda>d. case d of deed.Refused kind \<Rightarrow> [Noted (''command '' @ kind @ '' refused: not allowed on this blade''), Did d] | _ \<Rightarrow> [Did d]) ds)"

definition notes_of :: "event list \<Rightarrow> string list" where
  "notes_of es = concat (map (\<lambda>e. case e of Noted n \<Rightarrow> [n] | _ \<Rightarrow> []) es)"

definition commands_pass :: "contacts \<Rightarrow> agent \<Rightarrow> agent \<times> event list" where
  "commands_pass ct a =
     (case do_request (ct_commands ct (ag_cfg a)) of
        Inr (c, Some cmds) \<Rightarrow>
          (let es = command_events (runCommands (ap_allow (ag_pol a)) (ct_now ct) cmds) in (add_notes (notes_of es) a, es))
      | _ \<Rightarrow> (a, []))"

definition tick :: "tools \<Rightarrow> contacts \<Rightarrow> string \<Rightarrow> agent \<Rightarrow> os \<Rightarrow> pass" where
  "tick k ct envFile a w =
     (case report ct a of
        (a1, es1, Some e) \<Rightarrow> (a1, w, es1, Some (''status report: '' @ e))
      | (a1, es1, None) \<Rightarrow>
          (let (a2, es2) = commands_pass ct a1;
               (a3, w3, es3, err) = syncConfig k ct envFile a2 w
           in (a3, w3, es1 @ es2 @ es3, map_option (\<lambda>e. ''configuration: '' @ e) err)))"

text \<open>One pass after another, each with its own answers.\<close>

fun passes :: "tools \<Rightarrow> string \<Rightarrow> contacts list \<Rightarrow> agent \<times> os \<Rightarrow> agent \<times> os \<times> event list" where
  "passes k envFile [] (a, w) = (a, w, [])"
| "passes k envFile (ct # cts) (a, w) =
     (let (a1, w1, es, _) = tick k ct envFile a w; (a2, w2, fs) = passes k envFile cts (a1, w1) in (a2, w2, es @ fs))"

section \<open>The centre's answer\<close>

definition hBladeConfig :: "app \<Rightarrow> (jmap \<Rightarrow> string) \<Rightarrow> string \<Rightarrow> string \<Rightarrow> string \<Rightarrow> config_answer" where
  "hBladeConfig a hash header match serial =
     (if \<not> requireBlade a header serial then CRefused 401
      else case getBlade a serial of
             None \<Rightarrow> CRefused 404
           | Some b \<Rightarrow> (let cfg = mergedConfig a b in if str_contains match (hash cfg) then CUnchanged else CConfig (hash cfg) cfg))"

text \<open>As the agent hears it.\<close>

definition heard_config :: "config_answer \<Rightarrow> configResp heard" where
  "heard_config r =
     (case r of
        CRefused c \<Rightarrow> Heard c [] None
      | CUnchanged \<Rightarrow> Heard 304 [] None
      | CConfig v cfg \<Rightarrow> Heard 200 [] (Some \<lparr>cr_version = v, cr_config = cfg\<rparr>))"


section \<open>Every change leaves once\<close>

text \<open>The changes in the messages of a list of events, and the restarts and configurations in it.\<close>

definition sent_changes :: "event list \<Rightarrow> string list" where
  "sent_changes es = concat (map (\<lambda>e. case e of Sent m \<Rightarrow> ms_changes m | _ \<Rightarrow> []) es)"

definition restarts :: "event list \<Rightarrow> nat" where
  "restarts es = length (filter (\<lambda>e. case e of Restarting n \<Rightarrow> True | _ \<Rightarrow> False) es)"

definition taken_up :: "event list \<Rightarrow> nat" where
  "taken_up es = length (filter (\<lambda>e. case e of Applying v \<Rightarrow> True | _ \<Rightarrow> False) es)"

lemma event_lists [simp]:
  "sent_changes [] = []" "sent_changes (es @ fs) = sent_changes es @ sent_changes fs" "sent_changes (Sent m # es) = ms_changes m @ sent_changes es"
  "sent_changes (Noted n # es) = sent_changes es" "sent_changes (Did d # es) = sent_changes es" "sent_changes (Applying v # es) = sent_changes es"
  "sent_changes (Restarting k # es) = sent_changes es" "sent_changes (map Noted ns) = []"
  "notes_of [] = []" "notes_of (es @ fs) = notes_of es @ notes_of fs" "notes_of (Sent m # es) = notes_of es" "notes_of (Noted n # es) = n # notes_of es"
  "notes_of (Did d # es) = notes_of es" "notes_of (Applying v # es) = notes_of es" "notes_of (Restarting k # es) = notes_of es" "notes_of (map Noted ns) = ns"
  by (simp_all add: sent_changes_def notes_of_def comp_def)

lemma event_counts [simp]:
  "restarts [] = 0" "restarts (es @ fs) = restarts es + restarts fs" "restarts (Sent m # es) = restarts es" "restarts (Noted n # es) = restarts es"
  "restarts (Did d # es) = restarts es" "restarts (Applying v # es) = restarts es" "restarts (Restarting k # es) = Suc (restarts es)" "restarts (map Noted ns) = 0"
  "taken_up [] = 0" "taken_up (es @ fs) = taken_up es + taken_up fs" "taken_up (Sent m # es) = taken_up es" "taken_up (Noted n # es) = taken_up es"
  "taken_up (Did d # es) = taken_up es" "taken_up (Applying v # es) = Suc (taken_up es)" "taken_up (Restarting k # es) = taken_up es" "taken_up (map Noted ns) = 0"
  by (simp_all add: restarts_def taken_up_def filter_map comp_def)

lemma no_deed_events [simp]:
  "sent_changes (command_events ds) = []" "restarts (command_events ds) = 0" "taken_up (command_events ds) = 0"
  by (induction ds) (simp_all add: command_events_def split: deed.split)

lemma report_fields:
  "report ct a = (a1, es, e) \<Longrightarrow> a1 = a\<lparr>ag_pending := []\<rparr> \<and> es = [Sent (report_message ct a)]"
  by (simp add: report_def Let_def)

text \<open>The books: what was to be reported, and the restarts that are still allowed.\<close>

definition balanced :: "agent \<Rightarrow> event list \<Rightarrow> agent \<Rightarrow> bool" where
  "balanced a es a' \<longleftrightarrow> sent_changes es @ ag_pending a' = ag_pending a @ notes_of es
     \<and> restarts es + of_bool (ap_reboot_on_cfg (ag_pol a')) \<le> of_bool (ap_reboot_on_cfg (ag_pol a)) + taken_up es"

lemma balanced_refl: "balanced a [] a" by (simp add: balanced_def)

lemma balanced_trans: "balanced a es b \<Longrightarrow> balanced b fs c \<Longrightarrow> balanced a (es @ fs) c"
  by (auto simp: balanced_def)

lemma balanced_restart: "maybeRestart ct w a = (a', es) \<Longrightarrow> balanced a es a'"
  by (auto simp: maybeRestart_def report_def report_message_def add_notes_def balanced_def Let_def split: if_splits)

lemma balanced_then: "balanced a es b \<Longrightarrow> then_restart ct w b es err = (a', w', fs, err') \<Longrightarrow> balanced a fs a'"
  using balanced_trans balanced_restart by (auto simp: then_restart_def split: prod.splits)

lemma adopt_fields: "adoptServer ct cfg f a w = (m, a', w') \<Longrightarrow> ag_pending a' = ag_pending a \<and> ag_pol a' = ag_pol a \<and> ag_applied a' = ag_applied a"
  by (auto simp: adoptServer_def Let_def split: if_splits option.splits)

lemma balanced_sync: "syncConfig k ct f a w = (a', w', es, err) \<Longrightarrow> balanced a es a'"
proof -
  assume s: "syncConfig k ct f a w = (a', w', es, err)"
  have "balanced a es a'" if t: "take_up k ct f cr a w = (a', w', es, err)" for cr
  proof -
    obtain m a1 w1 where m: "adoptServer ct (cr_config cr) f (a\<lparr>ag_pol := readAgentPolicy (cr_config cr)\<rparr>) w = (m, a1, w1)" by (cases "adoptServer ct (cr_config cr) f (a\<lparr>ag_pol := readAgentPolicy (cr_config cr)\<rparr>) w")
    obtain changes e w2 where c: "applyConfig k (cr_config cr) w1 = (changes, e, w2)" by (cases "applyConfig k (cr_config cr) w1")
    have p: "ag_pending a1 = ag_pending a" using adopt_fields [OF m] by simp
    show ?thesis
    proof (rule balanced_then)
      show "then_restart ct (case e of None \<Rightarrow> writeState (cr_version cr) w2 | Some x \<Rightarrow> w2)
          (case e of None \<Rightarrow> (add_notes ((case m of None \<Rightarrow> [] | Some c \<Rightarrow> [c]) @ changes) a1)\<lparr>ag_applied := cr_version cr\<rparr>
            | Some x \<Rightarrow> add_notes ((case m of None \<Rightarrow> [] | Some c \<Rightarrow> [c]) @ changes @ [''FAILED: '' @ x]) a1)
          (map Noted (case m of None \<Rightarrow> [] | Some c \<Rightarrow> [c]) @ [Applying (cr_version cr)] @ map Noted (changes @ (case e of None \<Rightarrow> [] | Some x \<Rightarrow> [''FAILED: '' @ x])))
          e = (a', w', es, err)"
        using t m c by (cases e) (simp_all add: take_up_def Let_def)
    qed (simp add: balanced_def add_notes_def p split: option.split)
  qed
  thus ?thesis using s balanced_refl [of a] balanced_then [OF balanced_refl]
    by (auto simp: syncConfig_def split: sum.splits option.splits if_splits)
qed

lemma balanced_commands: "commands_pass ct a = (a', es) \<Longrightarrow> balanced a es a'"
  by (auto simp: commands_pass_def balanced_def add_notes_def Let_def split: sum.splits option.splits)

lemma balanced_report: "report ct a = (a', es, e) \<Longrightarrow> balanced a es a'"
  by (auto simp: report_def report_message_def balanced_def Let_def)

lemma balanced_tick: "tick k ct f a w = (a', w', es, err) \<Longrightarrow> balanced a es a'"
  by (auto simp: tick_def split: prod.splits option.splits dest!: balanced_report balanced_commands balanced_sync intro: balanced_trans)

lemma balanced_passes: "passes k f cts (a, w) = (a', w', es) \<Longrightarrow> balanced a es a'"
proof (induction cts arbitrary: a w a' w' es)
  case (Cons ct cts)
  obtain a1 w1 es1 err where t: "tick k ct f a w = (a1, w1, es1, err)" by (metis prod_cases4)
  obtain a2 w2 fs where p: "passes k f cts (a1, w1) = (a2, w2, fs)" by (metis prod_cases3)
  show ?case using Cons.prems balanced_trans [OF balanced_tick [OF t] Cons.IH [OF p]] t p by simp
qed (simp add: balanced_refl)

text \<open>C23. Over any number of passes, whatever the server answers: what the agent noted leaves it in
  exactly one message, in the order it was noted, or is still waiting; and it asks for a restart
  at most once for each configuration it takes up.\<close>

theorem changes_leave_once:
  "case passes k f cts (a, w) of (a', w', es) \<Rightarrow>
     sent_changes es @ ag_pending a' = ag_pending a @ notes_of es
     \<and> restarts es \<le> taken_up es + of_bool (ap_reboot_on_cfg (ag_pol a))"
proof -
  obtain a' w' es where p: "passes k f cts (a, w) = (a', w', es)" by (metis prod_cases3)
  thus ?thesis using balanced_passes [OF p] by (simp add: balanced_def)
qed

text \<open>A report that does not get through is lost with what it said: whatever is done later, the
  changes that were waiting are in no later message, and nothing but the message happened.\<close>

theorem failed_report_loses:
  assumes "\<And>m. ct_status ct (ag_cfg a) m = Silence e"
  shows "case tick k ct f a w of (a1, w1, es, err) \<Rightarrow> err \<noteq> None \<and> w1 = w \<and> sent_changes es = ag_pending a \<and> length es = 1
     \<and> (case passes k f cts (a1, w1) of (a2, w2, fs) \<Rightarrow> sent_changes fs @ ag_pending a2 = notes_of fs)"
proof -
  have t: "tick k ct f a w = (a\<lparr>ag_pending := []\<rparr>, w, [Sent (report_message ct a)], Some (''status report: '' @ e))"
    by (simp add: tick_def report_def Let_def assms)
  obtain a2 w2 fs where p: "passes k f cts (a\<lparr>ag_pending := []\<rparr>, w) = (a2, w2, fs)" by (metis prod_cases3)
  show ?thesis using balanced_passes [OF p] by (simp add: t p balanced_def report_message_def)
qed

section \<open>What a restarted agent remembers\<close>

lemma contains_affix: "str_contains (a @ s @ b) s"
proof (induction a)
  case Nil
  thus ?case by (cases s) (simp_all add: has_prefix_def, cases b, simp_all add: has_prefix_def)
qed simp

lemma do_unchanged: "do_request (heard_config CUnchanged) = Inr (304, None)"
  by (simp add: do_request_def heard_config_def)

lemma asked_again:
  assumes "requireBlade s (''Bearer '' @ cf_token c) (cf_serial c)" and "getBlade s (cf_serial c) = Some b"
    and "ag_applied a = hash (mergedConfig s b)" and "ag_applied a \<noteq> []"
  shows "hBladeConfig s hash (''Bearer '' @ cf_token c) (none_match a) (cf_serial c) = CUnchanged"
proof -
  have "str_contains (none_match a) (hash (mergedConfig s b))"
    using contains_affix [of "[CHR 0x22]" "ag_applied a" "[CHR 0x22]"] assms(4) by (simp add: none_match_def flip: assms(3))
  thus ?thesis using assms(1,2) by (simp add: hBladeConfig_def Let_def)
qed

text \<open>A centre that is not changed: its answer to the question for the configuration.\<close>

definition answered_by :: "app \<Rightarrow> (jmap \<Rightarrow> string) \<Rightarrow> contacts \<Rightarrow> bool" where
  "answered_by s hash ct \<longleftrightarrow> (\<forall>c m. ct_config ct c m = heard_config (hBladeConfig s hash (''Bearer '' @ cf_token c) m (cf_serial c)))"

lemma no_restart_unless_told: "\<not> ap_reboot_on_cfg (ag_pol a) \<Longrightarrow> maybeRestart ct w a = (a, [])"
  by (simp add: maybeRestart_def)

lemma refused_in: "Did (deed.Refused d) \<in> set (command_events ds) \<longleftrightarrow> deed.Refused d \<in> set ds"
  by (induction ds) (auto simp: command_events_def split: deed.splits)

lemma unrestricted: "deed.Refused d \<notin> set (runCommands [] t cmds)"
  by (auto simp: runCommands_def carry_out_def allows_def split: if_splits)

text \<open>A pass on a blade that has the current configuration.\<close>

definition up_to_date :: "app \<Rightarrow> (jmap \<Rightarrow> string) \<Rightarrow> agent \<Rightarrow> bool" where
  "up_to_date s hash a \<longleftrightarrow>
     (\<exists>b. requireBlade s (''Bearer '' @ cf_token (ag_cfg a)) (cf_serial (ag_cfg a)) \<and> getBlade s (cf_serial (ag_cfg a)) = Some b
        \<and> ag_applied a = hash (mergedConfig s b) \<and> ag_applied a \<noteq> [])"

definition same_rules :: "agentPolicy \<Rightarrow> agentPolicy \<Rightarrow> bool" where
  "same_rules p q \<longleftrightarrow> q = p \<or> ap_reboot_on_cfg p \<and> q = p\<lparr>ap_reboot_on_cfg := False\<rparr>"

lemma same_rules_trans: "same_rules p q \<Longrightarrow> same_rules q r \<Longrightarrow> same_rules p r"
  by (auto simp: same_rules_def)

lemma restart_quiet:
  "maybeRestart ct w a = (a', es) \<Longrightarrow> ag_cfg a' = ag_cfg a \<and> ag_applied a' = ag_applied a \<and> same_rules (ag_pol a) (ag_pol a') \<and> taken_up es = 0 \<and> (\<forall>d. Did d \<notin> set es)"
  by (auto simp: maybeRestart_def report_def add_notes_def same_rules_def Let_def split: if_splits)

lemma commands_quiet:
  "commands_pass ct a = (a', es) \<Longrightarrow> ag_cfg a' = ag_cfg a \<and> ag_applied a' = ag_applied a \<and> ag_pol a' = ag_pol a \<and> taken_up es = 0
     \<and> (ap_allow (ag_pol a) = [] \<longrightarrow> (\<forall>d. Did (deed.Refused d) \<notin> set es))"
  by (auto simp: commands_pass_def add_notes_def Let_def refused_in unrestricted split: sum.splits option.splits)

lemma quiet_tick:
  assumes "answered_by s hash ct" and "up_to_date s hash a" and "tick k ct f a w = (a', w', es, err)"
  shows "up_to_date s hash a'" and "ag_applied a' = ag_applied a" and "same_rules (ag_pol a) (ag_pol a')" and "w' = w" and "taken_up es = 0"
    and "ap_allow (ag_pol a) = [] \<Longrightarrow> Did (deed.Refused d) \<notin> set es" and "Sent (report_message ct a) \<in> set es"
proof -
  from assms(2) obtain b where b: "requireBlade s (''Bearer '' @ cf_token (ag_cfg a)) (cf_serial (ag_cfg a))" "getBlade s (cf_serial (ag_cfg a)) = Some b"
    "ag_applied a = hash (mergedConfig s b)" "ag_applied a \<noteq> []" unfolding up_to_date_def by blast
  have sync: "syncConfig k ct f x w = then_restart ct w x [] None" if "ag_cfg x = ag_cfg a" "ag_applied x = ag_applied a" for x
  proof -
    have "hBladeConfig s hash (''Bearer '' @ cf_token (ag_cfg x)) (none_match x) (cf_serial (ag_cfg x)) = CUnchanged"
      by (rule asked_again) (use b that in auto)
    hence "do_request (ct_config ct (ag_cfg x) (none_match x)) = Inr (304, None)"
      using assms(1) by (simp add: answered_by_def do_unchanged)
    thus ?thesis by (simp add: syncConfig_def)
  qed
  obtain a1 es1 e where r: "report ct a = (a1, es1, e)" by (metis prod_cases3)
  obtain a2 es2 where c: "commands_pass ct a1 = (a2, es2)" by force
  obtain a3 es3 where m: "maybeRestart ct w a2 = (a3, es3)" by force
  have a1: "a1 = a\<lparr>ag_pending := []\<rparr>" "es1 = [Sent (report_message ct a)]" using report_fields [OF r] by simp_all
  note q = commands_quiet [OF c] restart_quiet [OF m] a1
  have s2: "syncConfig k ct f a2 w = then_restart ct w a2 [] None" by (rule sync) (simp_all add: q)
  have t: "tick k ct f a w = (case e of Some x \<Rightarrow> (a1, w, es1, Some (''status report: '' @ x)) | None \<Rightarrow> (a3, w, es1 @ es2 @ es3, None))"
    by (simp add: tick_def r c s2 then_restart_def m split: option.split)
  have "ag_cfg a' = ag_cfg a \<and> ag_applied a' = ag_applied a \<and> same_rules (ag_pol a) (ag_pol a') \<and> w' = w \<and> taken_up es = 0
      \<and> (ap_allow (ag_pol a) = [] \<longrightarrow> (\<forall>d. Did (deed.Refused d) \<notin> set es)) \<and> Sent (report_message ct a) \<in> set es"
    using t assms(3) q by (cases e) (auto simp: same_rules_def)
  thus "up_to_date s hash a'" "ag_applied a' = ag_applied a" "same_rules (ag_pol a) (ag_pol a')" "w' = w" "taken_up es = 0"
    "ap_allow (ag_pol a) = [] \<Longrightarrow> Did (deed.Refused d) \<notin> set es" "Sent (report_message ct a) \<in> set es"
    using assms(2) by (auto simp: up_to_date_def)
qed

lemma same_rules_allow: "same_rules p q \<Longrightarrow> ap_allow q = ap_allow p"
  by (auto simp: same_rules_def)

lemma quiet_passes:
  assumes "list_all (answered_by s hash) cts" and "up_to_date s hash a" and "passes k f cts (a, w) = (a', w', es)"
  shows "w' = w \<and> ag_applied a' = ag_applied a \<and> same_rules (ag_pol a) (ag_pol a') \<and> taken_up es = 0 \<and> (ap_allow (ag_pol a) = [] \<longrightarrow> (\<forall>d. Did (deed.Refused d) \<notin> set es))"
  using assms
proof (induction cts arbitrary: a a' w' es)
  case (Cons ct cts)
  obtain a1 w1 es1 err where t: "tick k ct f a w = (a1, w1, es1, err)" by (metis prod_cases4)
  have ans: "answered_by s hash ct" using Cons.prems(1) by simp
  note q = quiet_tick [OF ans Cons.prems(2) t]
  obtain a2 w2 fs where p: "passes k f cts (a1, w) = (a2, w2, fs)" by (metis prod_cases3)
  have "passes k f (ct # cts) (a, w) = (a2, w2, es1 @ fs)" using t p q(4) by simp
  thus ?case using Cons.IH [OF _ q(1) p] Cons.prems(1,3) q same_rules_trans same_rules_allow [OF q(3)] by auto
qed (simp add: same_rules_def)

text \<open>C12. An agent that starts on a blade with the current configuration is told that nothing is new, and
  so never reads the rules that are in it: for as long as the configuration stays, it carries out
  commands its blade does not allow, keeps to no interval and never restarts for a boot
  configuration.\<close>

theorem restarted_agent_forgets:
  assumes "\<And>ct. ct \<in> set cts \<Longrightarrow> answered_by s hash ct" and "requireBlade s (''Bearer '' @ cf_token c) (cf_serial c)"
    and "getBlade s (cf_serial c) = Some b" and "readState w = hash (mergedConfig s b)" and "readState w \<noteq> []"
  shows "case passes k f cts (start_agent c w, w) of (a', w', es) \<Rightarrow>
     ag_pol a' = no_policy \<and> w' = w \<and> (\<forall>d. Did (deed.Refused d) \<notin> set es) \<and> restarts es = 0"
proof -
  obtain a' w' es where p: "passes k f cts (start_agent c w, w) = (a', w', es)" by (metis prod_cases3)
  have "up_to_date s hash (start_agent c w)" using assms(2-5) by (auto simp: up_to_date_def start_agent_def)
  moreover have "list_all (answered_by s hash) cts" using assms(1) by (simp add: list_all_iff)
  ultimately show ?thesis using quiet_passes [OF _ _ p] balanced_passes [OF p] unfolding p
    by (fastforce simp: start_agent_def no_policy_def same_rules_def balanced_def)
qed

section \<open>The seed when a blade moves\<close>

definition entries :: "string list \<Rightarrow> (string \<times> string) list" where
  "entries ls = List.map_filter env_entry ls"

definition first_value :: "string \<Rightarrow> (string \<times> string) list \<Rightarrow> string" where
  "first_value k es = (case filter (\<lambda>e. fst e = k \<and> snd e \<noteq> []) es of [] \<Rightarrow> [] | e # _ \<Rightarrow> snd e)"

lemma read_env_entries: "fold env_line ls c = fold fill_entry (entries ls) c"
  by (induction ls arbitrary: c) (simp_all add: entries_def env_line_def map_filter_simps split: option.splits)

lemma fill_all:
  "fold fill_entry es c = c\<lparr>cf_server := (if cf_server c = [] then first_value ''SERVER'' es else cf_server c),
     cf_serial := (if cf_serial c = [] then first_value ''SERIAL'' es else cf_serial c),
     cf_token := (if cf_token c = [] then first_value ''TOKEN'' es else cf_token c)\<rparr>"
  by (induction es arbitrary: c) (auto simp: first_value_def fill_entry_def)

lemma read_env_values:
  "read_env s no_config = \<lparr>cf_server = first_value ''SERVER'' (entries (split_lines s)), cf_serial = first_value ''SERIAL'' (entries (split_lines s)),
     cf_token = first_value ''TOKEN'' (entries (split_lines s))\<rparr>"
  by (simp add: read_env_def read_env_entries fill_all no_config_def)

lemma entries_append: "entries (ls @ ms) = entries ls @ entries ms"
  by (simp add: entries_def List.map_filter_def)

lemma first_value_append: "first_value k (es @ fs) = (if first_value k es = [] then first_value k fs else first_value k es)"
  by (auto simp: first_value_def split: list.split dest!: filter_eq_ConsD)

lemma lines_without: "l \<in> set (split_lines s) \<Longrightarrow> LF \<notin> set l"
  by (induction s arbitrary: l) (auto split: if_splits list.splits)

lemma lines_of_join: "ls \<noteq> [] \<Longrightarrow> (\<And>l. l \<in> set ls \<Longrightarrow> LF \<notin> set l) \<Longrightarrow> split_lines (join_lines ls) = ls"
proof (induction "[LF]" ls rule: join.induct)
  case (3 w v ws)
  thus ?case using split_on_append [of LF w] by simp
qed (simp_all add: split_on_none)

lemma entry_blank: "entries [[]] = []"
  by (simp add: entries_def env_entry_def trim_space_def map_filter_simps)

text \<open>A value that can be written down and read again.\<close>

definition plain_value :: "string \<Rightarrow> bool" where
  "plain_value v \<longleftrightarrow> v \<noteq> [] \<and> LF \<notin> set v \<and> trim_space v = v \<and> trim_chars [CHR 0x22, CHR 0x27] v = v"

lemma trim_space_last: "trim_space v = v \<Longrightarrow> v \<noteq> [] \<Longrightarrow> \<not> is_space (last v)"
proof -
  assume v: "trim_space v = v" "v \<noteq> []"
  define u where "u = dropWhile is_space (rev (dropWhile is_space v))"
  have "v = rev u" using v(1) by (simp add: trim_space_def u_def)
  hence "last v = hd u" "u \<noteq> []" using v(2) by (auto simp: last_rev)
  thus ?thesis using hd_dropWhile [of is_space "rev (dropWhile is_space v)"] by (simp add: u_def)
qed

lemma trim_key: "trim_space v = v \<Longrightarrow> v \<noteq> [] \<Longrightarrow> trim_space (''SHEATH_SERVER='' @ v) = ''SHEATH_SERVER='' @ v"
proof -
  assume v: "trim_space v = v" "v \<noteq> []"
  obtain u x where u: "v = u @ [x]" "\<not> is_space x" using trim_space_last [OF v] v(2) by (metis append_butlast_last_id)
  have "\<not> is_space (CHR ''S'')" by (simp add: is_space_def code_def)
  thus ?thesis using u(2) by (simp add: trim_space_def u(1))
qed

lemma env_entry_server:
  assumes "trim_space l = ''SHEATH_SERVER='' @ r"
  shows "env_entry l = Some (''SERVER'', trim_chars [CHR 0x22, CHR 0x27] (trim_space r))"
proof -
  have k: "trim_prefix (trim_prefix (trim_space ''SHEATH_SERVER'') legacyPrefix) ''SHEATH_'' = ''SERVER''" by code_simp
  have "cut CHR ''='' (''SHEATH_SERVER='' @ r) = Some (''SHEATH_SERVER'', r)" by (simp add: cut_def)
  thus ?thesis unfolding env_entry_def assms Let_def by (simp add: k has_prefix_def)
qed

definition server_line :: "string \<Rightarrow> string" where "server_line v = serverKey @ ''='' @ v"

lemma server_entry: "plain_value v \<Longrightarrow> entries [server_line v] = [(''SERVER'', v)]"
  using trim_key [of v] env_entry_server [of "server_line v" v]
  by (simp add: plain_value_def entries_def map_filter_simps server_line_def serverKey_def)

definition sets_server :: "string \<Rightarrow> bool" where "sets_server l \<longleftrightarrow> has_prefix (trim_space l) (serverKey @ ''='')"

lemma sets_server_key: "sets_server l \<Longrightarrow> k \<noteq> ''SERVER'' \<Longrightarrow> first_value k (entries [l]) = []"
proof -
  assume l: "sets_server l" "k \<noteq> ''SERVER''"
  then obtain r where r: "trim_space l = ''SHEATH_SERVER='' @ r" by (auto simp: sets_server_def serverKey_def prefix_iff)
  note env_entry_server [OF r]
  thus ?thesis using l(2) by (simp add: entries_def map_filter_simps first_value_def)
qed

lemma entries_Cons: "entries (l # ls) = entries [l] @ entries ls"
  using entries_append [of "[l]" ls] by simp

lemma env_lines_server:
  "env_lines serverKey v ls = (if list_ex sets_server ls then map (\<lambda>l. if sets_server l then server_line v else l) ls else ls @ [server_line v])"
  unfolding env_lines_def sets_server_def server_line_def Let_def by (rule refl)

lemma other_values:
  assumes "plain_value v" and "k \<noteq> ''SERVER''"
  shows "first_value k (entries (env_lines serverKey v ls)) = first_value k (entries ls)"
proof -
  let ?new = "server_line v"
  have n: "first_value k (entries [?new]) = []" using assms by (simp add: server_entry first_value_def)
  have "first_value k (entries (map (\<lambda>l. if sets_server l then ?new else l) ls)) = first_value k (entries ls)"
  proof (induction ls)
    case (Cons l ls)
    show ?case unfolding list.map entries_Cons [of "if sets_server l then ?new else l" "map (\<lambda>l. if sets_server l then ?new else l) ls"] entries_Cons [of l ls] first_value_append
      using Cons n sets_server_key [OF _ assms(2), of l] by simp
  qed simp
  thus ?thesis using n by (simp add: env_lines_server entries_append first_value_append)
qed

lemma server_value:
  assumes "plain_value v"
  shows "first_value ''SERVER'' (entries (env_lines serverKey v ls))
    = (let u = first_value ''SERVER'' (entries (takeWhile (\<lambda>l. \<not> sets_server l) ls)) in if u = [] then v else u)"
proof -
  let ?new = "server_line v"
  have n: "first_value ''SERVER'' (entries (?new # ls)) = v" for ls
    unfolding entries_Cons [of ?new ls] first_value_append using assms by (simp add: server_entry first_value_def plain_value_def)
  show ?thesis
  proof (cases "list_ex sets_server ls")
    case True
    have "first_value ''SERVER'' (entries (map (\<lambda>l. if sets_server l then ?new else l) ls))
        = (let u = first_value ''SERVER'' (entries (takeWhile (\<lambda>l. \<not> sets_server l) ls)) in if u = [] then v else u)"
      using True
    proof (induction ls)
      case (Cons l ls)
      show ?case
      proof (cases "sets_server l")
        case True
        thus ?thesis using n [of "map (\<lambda>l. if sets_server l then ?new else l) ls"] by (simp add: first_value_def entries_def map_filter_simps Let_def)
      next
        case False
        hence "list_ex sets_server ls" using Cons.prems by simp
        with Cons.IH False show ?thesis
          by (simp add: entries_Cons [of l "map (\<lambda>l. if sets_server l then ?new else l) ls"] entries_Cons [of l "takeWhile (\<lambda>l. \<not> sets_server l) ls"] first_value_append Let_def)
      qed
    qed simp
    thus ?thesis using True by (simp add: env_lines_server)
  next
    case False
    hence "takeWhile (\<lambda>l. \<not> sets_server l) ls = ls" by (auto simp: list_ex_iff takeWhile_eq_all_conv)
    moreover have "env_lines serverKey v ls = ls @ [?new]" using False by (simp add: env_lines_server)
    ultimately show ?thesis using n [of "[]"] by (simp only: entries_append first_value_append Let_def)
  qed
qed

lemma lines_replaced:
  assumes "plain_value v"
  shows "entries (split_lines (replaced_env serverKey v s)) = entries (env_lines serverKey v (split_lines s))"
proof -
  let ?ls = "env_lines serverKey v (split_lines s)" and ?out = "join_lines (env_lines serverKey v (split_lines s))"
  have "LF \<notin> set (serverKey @ ''='' @ v)" using assms by (simp add: plain_value_def serverKey_def)
  hence "LF \<notin> set l" if "l \<in> set ?ls" for l using that lines_without [of _ s] by (auto simp: env_lines_def Let_def split: if_splits)
  moreover have "?ls \<noteq> []" by (auto simp: env_lines_def Let_def)
  ultimately have "split_lines ?out = ?ls" by (intro lines_of_join)
  thus ?thesis by (simp add: replaced_env_def Let_def lines_newline entries_append entry_blank)
qed

text \<open>C34. When the agent takes up a new address, the seed it rewrites still gives the same serial and the
  same token to the next start. It gives the new address, unless a line above the one the agent
  rewrites - one in the old spelling, say - names a server: then the next start goes back to that.\<close>

theorem moved_seed_read:
  assumes "plain_value v"
  shows "read_env (replaced_env serverKey v s) no_config =
     (read_env s no_config)\<lparr>cf_server :=
        (let u = first_value ''SERVER'' (entries (takeWhile (\<lambda>l. \<not> sets_server l) (split_lines s))) in if u = [] then v else u)\<rparr>"
  unfolding read_env_values lines_replaced [OF assms] server_value [OF assms] by (simp add: other_values [OF assms])

text \<open>The seed the installer writes, and one from before the rename.\<close>

theorem moved_seed_read_witness:
  "read_env (replaced_env serverKey ''http://10.0.0.3'' (''SHEATH_SERVER=http://c'' @ [LF] @ ''SHEATH_SERIAL=a1'' @ [LF] @ ''SHEATH_TOKEN=t'' @ [LF])) no_config
     = \<lparr>cf_server = ''http://10.0.0.3'', cf_serial = ''a1'', cf_token = ''t''\<rparr>
   \<and> read_env (replaced_env serverKey ''http://10.0.0.3'' (''BLADEMASTER_SERVER=http://c'' @ [LF] @ ''BLADEMASTER_TOKEN=t'')) no_config
     = \<lparr>cf_server = ''http://c'', cf_serial = [], cf_token = ''t''\<rparr>"
proof -
  have p: "plain_value ''http://10.0.0.3''" by code_simp
  have r: "read_env (''SHEATH_SERVER=http://c'' @ [LF] @ ''SHEATH_SERIAL=a1'' @ [LF] @ ''SHEATH_TOKEN=t'' @ [LF]) no_config
      = \<lparr>cf_server = ''http://c'', cf_serial = ''a1'', cf_token = ''t''\<rparr>"
    "read_env (''BLADEMASTER_SERVER=http://c'' @ [LF] @ ''BLADEMASTER_TOKEN=t'') no_config = \<lparr>cf_server = ''http://c'', cf_serial = [], cf_token = ''t''\<rparr>"
    by code_simp+
  have u: "first_value ''SERVER'' (entries (takeWhile (\<lambda>l. \<not> sets_server l) (split_lines (''SHEATH_SERVER=http://c'' @ [LF] @ ''SHEATH_SERIAL=a1'' @ [LF] @ ''SHEATH_TOKEN=t'' @ [LF])))) = []"
    "first_value ''SERVER'' (entries (takeWhile (\<lambda>l. \<not> sets_server l) (split_lines (''BLADEMASTER_SERVER=http://c'' @ [LF] @ ''BLADEMASTER_TOKEN=t'')))) = ''http://c''"
    by code_simp+
  show ?thesis unfolding moved_seed_read [OF p] r u Let_def by simp
qed

section \<open>A configuration on its way\<close>

lemma contains_quoted: "hash cfg \<noteq> [] \<Longrightarrow> \<not> str_contains (none_match a) (hash cfg) \<Longrightarrow> ag_applied a \<noteq> hash cfg"
  using contains_affix [of "[CHR 0x22]" "hash cfg" "[CHR 0x22]"] by (auto simp: none_match_def)

lemma taken_up_tick:
  assumes "answered_by s hash ct" and "\<And>c m. ct_status ct c m = Heard 200 [] (Some ())"
    and "requireBlade s (''Bearer '' @ cf_token (ag_cfg a)) (cf_serial (ag_cfg a))" and "getBlade s (cf_serial (ag_cfg a)) = Some b"
    and "hash (mergedConfig s b) \<noteq> []" and "\<not> str_contains (none_match a) (hash (mergedConfig s b))"
    and "applyConfig k (mergedConfig s b) w = (changes, None, w1)"
    and "wanted_server (mergedConfig s b) \<in> {[], cf_server (ag_cfg a)}" and "tick k ct f a w = (a', w', es, err)"
  shows "err = None \<and> w' = writeState (hash (mergedConfig s b)) w1 \<and> up_to_date s hash a' \<and> ag_applied a' = hash (mergedConfig s b)
     \<and> same_rules (readAgentPolicy (mergedConfig s b)) (ag_pol a') \<and> taken_up es = 1 \<and> set changes \<subseteq> set (notes_of es)"
proof -
  let ?cfg = "mergedConfig s b"
  obtain a1 es1 e where r: "report ct a = (a1, es1, e)" by (metis prod_cases3)
  have a1: "a1 = a\<lparr>ag_pending := []\<rparr>" "es1 = [Sent (report_message ct a)]" "e = None"
    using report_fields [OF r] r assms(2) by (auto simp: report_def Let_def)
  obtain a2 es2 where c: "commands_pass ct a1 = (a2, es2)" by force
  have a2: "ag_cfg a2 = ag_cfg a" "ag_applied a2 = ag_applied a" "taken_up es2 = 0" using commands_quiet [OF c] a1 by simp_all
  hence m: "none_match a2 = none_match a" by (simp add: none_match_def)
  have h: "hBladeConfig s hash (''Bearer '' @ cf_token (ag_cfg a)) (none_match a) (cf_serial (ag_cfg a)) = CConfig (hash ?cfg) ?cfg"
    using assms(3,4,6) by (simp add: hBladeConfig_def Let_def)
  have "ct_config ct (ag_cfg a) (none_match a) = heard_config (CConfig (hash ?cfg) ?cfg)"
    using assms(1) h unfolding answered_by_def by metis
  hence d: "do_request (ct_config ct (ag_cfg a2) (none_match a2)) = Inr (200, Some \<lparr>cr_version = hash ?cfg, cr_config = ?cfg\<rparr>)"
    by (simp add: a2 m do_request_def heard_config_def)
  have ne: "hash ?cfg \<noteq> ag_applied a2" using contains_quoted [where hash = hash, OF assms(5,6)] a2(2) by simp
  let ?a3 = "a2\<lparr>ag_pol := readAgentPolicy ?cfg\<rparr>"
  have ad: "adoptServer ct ?cfg f ?a3 w = (None, ?a3, w)" using assms(8) a2(1) by (auto simp: adoptServer_def Let_def)
  let ?a4 = "(add_notes changes ?a3)\<lparr>ag_applied := hash ?cfg\<rparr>"
  obtain a5 es3 where mr: "maybeRestart ct (writeState (hash ?cfg) w1) ?a4 = (a5, es3)" by force
  have t: "tick k ct f a w = (a5, writeState (hash ?cfg) w1, es1 @ es2 @ Applying (hash ?cfg) # map Noted changes @ es3, None)"
    unfolding tick_def r a1(3) prod.case option.case c Let_def syncConfig_def d sum.case
    using ne by (simp add: take_up_def ad assms(7) Let_def then_restart_def mr)
  have a4: "ag_cfg ?a4 = ag_cfg a" "ag_applied ?a4 = hash ?cfg" "ag_pol ?a4 = readAgentPolicy ?cfg" using a2(1) by (simp_all add: add_notes_def)
  show ?thesis using t assms(3-5,9) restart_quiet [OF mr] a1(2) a2(3) unfolding a4 by (auto simp: up_to_date_def)
qed


section \<open>Restarts by itself\<close>

lemma restart_told:
  "maybeRestart ct w a = (a', es) \<Longrightarrow> Restarting n \<in> set es \<Longrightarrow>
     n = 30 \<and> rebootRequired w \<and> ap_reboot_on_cfg (ag_pol a) \<and> inWindow (ag_pol a) (ct_minute ct) \<and> ag_pol a' = (ag_pol a)\<lparr>ap_reboot_on_cfg := False\<rparr>
     \<and> Sent (report_message ct (add_notes [''restarting for a boot configuration change''] a)) \<in> set es"
  by (auto simp: maybeRestart_def report_def add_notes_def Let_def split: if_splits)

lemma window_kept: "inWindow (p\<lparr>ap_reboot_on_cfg := r\<rparr>) t = inWindow p t"
  by (simp add: inWindow_def)

lemma take_up_form: "\<exists>x b es0 e. take_up k ct f cr a w = then_restart ct x b es0 e \<and> (\<forall>n. Restarting n \<notin> set es0)"
proof -
  obtain m a1 w1 where ad: "adoptServer ct (cr_config cr) f (a\<lparr>ag_pol := readAgentPolicy (cr_config cr)\<rparr>) w = (m, a1, w1)" by (metis prod_cases3)
  obtain changes e w2 where ac: "applyConfig k (cr_config cr) w1 = (changes, e, w2)" by (metis prod_cases3)
  show ?thesis unfolding take_up_def ad ac Let_def prod.case by (cases e) (simp; intro exI conjI, rule refl, auto split: option.split)+
qed

lemma restart_sync:
  assumes "syncConfig k ct f a w = (a', w', es, err)" and "Restarting n \<in> set es"
  shows "n = 30 \<and> rebootRequired w' \<and> inWindow (ag_pol a') (ct_minute ct) \<and> \<not> ap_reboot_on_cfg (ag_pol a')
     \<and> (\<exists>m. Sent m \<in> set es \<and> ''restarting for a boot configuration change'' \<in> set (ms_changes m))"
proof -
  have main: "n = 30 \<and> rebootRequired w' \<and> inWindow (ag_pol a') (ct_minute ct) \<and> \<not> ap_reboot_on_cfg (ag_pol a')
     \<and> (\<exists>m. Sent m \<in> set es \<and> ''restarting for a boot configuration change'' \<in> set (ms_changes m))"
    if t: "then_restart ct x b es0 e = (a', w', es, err)" and es: "Restarting n \<notin> set es0" for x b es0 e
  proof -
    obtain fs where m: "maybeRestart ct x b = (a', fs)" "es = es0 @ fs" "w' = x" using t by (auto simp: then_restart_def split: prod.splits)
    hence r: "Restarting n \<in> set fs" using es assms(2) by simp
    have "''restarting for a boot configuration change'' \<in> set (ms_changes (report_message ct (add_notes [''restarting for a boot configuration change''] b)))"
      by (simp add: report_message_def add_notes_def)
    thus ?thesis using restart_told [OF m(1) r] m(2,3) by (auto simp: window_kept)
  qed
  have "\<exists>x b es0 e. then_restart ct x b es0 e = (a', w', es, err) \<and> Restarting n \<notin> set es0"
  proof (cases "do_request (ct_config ct (ag_cfg a) (none_match a))")
    case (Inl e)
    thus ?thesis using assms by (simp add: syncConfig_def)
  next
    case (Inr r)
    have "syncConfig k ct f a w = then_restart ct w a [] None \<or> (\<exists>cr. syncConfig k ct f a w = take_up k ct f cr a w)"
      by (auto simp: syncConfig_def Inr split: prod.splits option.splits)
    thus ?thesis using assms(1) take_up_form [of k ct f _ a w] by (metis empty_iff list.set(1))
  qed
  thus ?thesis using main by blast
qed

lemma restart_counted: "restarts es = 0 \<Longrightarrow> Restarting n \<notin> set es"
  by (auto simp: restarts_def filter_empty_conv)

lemma no_restart_command: "commands_pass ct a = (a', es) \<Longrightarrow> restarts es = 0"
  by (auto simp: commands_pass_def Let_def split: sum.splits option.splits)

text \<open>A restart the agent asks for by itself is always for a boot configuration that waits for one,
  inside the window of the rules it goes by, announced in a message that left before, and not
  followed by a second one until new rules come.\<close>

theorem restart_announced_in_window:
  assumes "tick k ct f a w = (a', w', es, err)" and "Restarting n \<in> set es"
  shows "n = 30 \<and> rebootRequired w' \<and> inWindow (ag_pol a') (ct_minute ct) \<and> \<not> ap_reboot_on_cfg (ag_pol a')
     \<and> (\<exists>m. Sent m \<in> set es \<and> ''restarting for a boot configuration change'' \<in> set (ms_changes m))"
proof -
  obtain a1 es1 e where r: "report ct a = (a1, es1, e)" by (metis prod_cases3)
  obtain a2 es2 where c: "commands_pass ct a1 = (a2, es2)" by force
  obtain a3 w3 es3 err3 where s: "syncConfig k ct f a2 w = (a3, w3, es3, err3)" by (metis prod_cases4)
  have n: "Restarting n \<notin> set es1" "Restarting n \<notin> set es2" using report_fields [OF r] restart_counted [OF no_restart_command [OF c]] by simp_all
  have "a' = a3 \<and> w' = w3 \<and> es = es1 @ es2 @ es3"
    using assms n by (cases e) (auto simp: tick_def r c s)
  thus ?thesis using restart_sync [OF s, of n] assms(2) n by auto
qed

section \<open>Concrete passes\<close>

text \<open>The demonstration blade may only be identified; the agent starts on it with the current
  configuration and is sent a command to reinstall.\<close>

definition guarded_centre :: app where
  "guarded_centre = demo\<lparr>a_configs := [(''global'', JObj [(''agent'', JObj [(''allow'', JArr [JStr ''identify''])])])]\<rparr>"

definition demo_creds :: config where "demo_creds = \<lparr>cf_server = ''http://c'', cf_serial = ''c0ffee01'', cf_token = ''secret''\<rparr>"

definition demo_contacts :: "app \<Rightarrow> command list \<Rightarrow> contacts" where
  "demo_contacts s cmds =
     \<lparr>ct_now = 0, ct_minute = 0, ct_facts = JNull, ct_health = JNull, ct_status = (\<lambda>c m. Heard 200 [] (Some ())),
      ct_commands = (\<lambda>c. Heard 200 [] (Some cmds)),
      ct_config = (\<lambda>c m. heard_config (hBladeConfig s (\<lambda>_. ''v1'') (''Bearer '' @ cf_token c) m (cf_serial c))), ct_answers = (\<lambda>_. True)\<rparr>"

definition reimage_command :: command where
  "reimage_command = \<lparr>c_id = 1, c_serial = ''c0ffee01'', c_kind = ''reimage'', c_created = None, c_taken = NotTaken\<rparr>"

lemma demo_answers: "answered_by s (\<lambda>_. ''v1'') (demo_contacts s cmds)"
  by (simp add: answered_by_def demo_contacts_def)

lemma guarded_blade:
  "requireBlade guarded_centre (''Bearer '' @ cf_token demo_creds) (cf_serial demo_creds)"
  "getBlade guarded_centre (cf_serial demo_creds) = Some (view guarded_centre demo_blade)"
  "ap_allow (readAgentPolicy (mergedConfig guarded_centre (view guarded_centre demo_blade))) = [''identify'']"
proof -
  show "requireBlade guarded_centre (''Bearer '' @ cf_token demo_creds) (cf_serial demo_creds)"
    by (simp add: requireBlade_def guarded_centre_def demo_creds_def get_row_def demo_defs trim_prefix_def has_prefix_def bearer_def trim_space_def is_space_def code_def)
  show "getBlade guarded_centre (cf_serial demo_creds) = Some (view guarded_centre demo_blade)"
    by (simp add: getBlade_def guarded_centre_def demo_creds_def get_row_def demo_defs)
  have "map_of (mergedConfig guarded_centre (view guarded_centre demo_blade)) ''agent'' = Some (JObj [(''allow'', JArr [JStr ''identify''])])"
    by (simp add: mergedConfig_def scopes_def scope_map_def configFor_def guarded_centre_def demo_blade_def put_key_def Let_def update_conv')
  thus "ap_allow (readAgentPolicy (mergedConfig guarded_centre (view guarded_centre demo_blade))) = [''identify'']"
    by (simp add: readAgentPolicy_def trim_space_def is_space_def code_def)
qed

lemma carried_out:
  assumes "ct_status ct (ag_cfg a) (report_message ct a) = Heard 200 [] (Some ())" and "ct_commands ct (ag_cfg a) = Heard 200 [] (Some cmds)"
    and "passes k f [ct] (a, w) = (a', w', es)"
  shows "set (command_events (runCommands (ap_allow (ag_pol a)) (ct_now ct) cmds)) \<subseteq> set es"
proof -
  obtain a3 w3 es3 err3 where t: "tick k ct f a w = (a3, w3, es3, err3)" by (metis prod_cases4)
  hence "set (command_events (runCommands (ap_allow (ag_pol a)) (ct_now ct) cmds)) \<subseteq> set es3"
    using assms(1,2) by (auto simp: tick_def report_def commands_pass_def do_request_def Let_def split: prod.splits)
  thus ?thesis using assms(3) t by auto
qed

theorem restarted_agent_forgets_witness:
  "\<not> allows (ap_allow (readAgentPolicy (mergedConfig guarded_centre (view guarded_centre demo_blade)))) ''reimage''
   \<and> (\<exists>a' w' es. passes plain_tools ''/etc/sheath/agent.env'' [demo_contacts guarded_centre [reimage_command]]
         (start_agent demo_creds (writeState ''v1'' demo_os), writeState ''v1'' demo_os) = (a', w', es)
       \<and> ag_pol a' = no_policy \<and> w' = writeState ''v1'' demo_os \<and> Did (RebootIn 10) \<in> set es \<and> Did (deed.Refused ''reimage'') \<notin> set es)"
proof -
  let ?w = "writeState ''v1'' demo_os" and ?ct = "demo_contacts guarded_centre [reimage_command]"
  have r: "readState ?w = ''v1''"
    by (simp add: readState_def writeState_def readFileStr_def stateFile_def trim_space_def is_space_def code_def)
  obtain a' w' es where p: "passes plain_tools ''/etc/sheath/agent.env'' [?ct] (start_agent demo_creds ?w, ?w) = (a', w', es)" by (metis prod_cases3)
  have f: "ag_pol a' = no_policy \<and> w' = ?w \<and> (\<forall>d. Did (deed.Refused d) \<notin> set es) \<and> restarts es = 0"
  proof -
    have "case passes plain_tools ''/etc/sheath/agent.env'' [?ct] (start_agent demo_creds ?w, ?w) of (a', w', es) \<Rightarrow>
        ag_pol a' = no_policy \<and> w' = ?w \<and> (\<forall>d. Did (deed.Refused d) \<notin> set es) \<and> restarts es = 0"
      by (rule restarted_agent_forgets [where hash = "\<lambda>_. ''v1''", OF _ guarded_blade(1,2)]) (simp_all add: demo_answers r)
    thus ?thesis unfolding p prod.case .
  qed
  have "command_events (runCommands [] 0 [reimage_command]) = [Did (RebootIn 10)]"
    by (simp add: runCommands_def run_order_def stale_def reimage_command_def carry_out_def allows_def command_events_def rank_def)
  moreover have "set (command_events (runCommands (ap_allow (ag_pol (start_agent demo_creds ?w))) (ct_now ?ct) [reimage_command])) \<subseteq> set es"
    by (rule carried_out [OF _ _ p]) (simp_all add: demo_contacts_def)
  ultimately have "Did (RebootIn 10) \<in> set es" by (simp add: start_agent_def no_policy_def demo_contacts_def)
  thus ?thesis using f p by (simp add: guarded_blade(3) allows_def)
qed

theorem failed_report_loses_witness:
  "case tick plain_tools ((demo_contacts demo [])\<lparr>ct_status := \<lambda>c m. Silence ''timeout''\<rparr>) [] ((start_agent demo_creds demo_os)\<lparr>ag_pending := [''hostname set to b1'']\<rparr>) demo_os of
     (a1, w1, es, err) \<Rightarrow> sent_changes es = [''hostname set to b1'']
       \<and> (case passes plain_tools [] [demo_contacts demo []] (a1, w1) of (a2, w2, fs) \<Rightarrow> sent_changes fs @ ag_pending a2 = notes_of fs)"
  using failed_report_loses [where ct = "(demo_contacts demo [])\<lparr>ct_status := \<lambda>c m. Silence ''timeout''\<rparr>" and k = plain_tools and f = "[]" and w = demo_os
      and a = "(start_agent demo_creds demo_os)\<lparr>ag_pending := [''hostname set to b1'']\<rparr>" and e = "''timeout''" and cts = "[demo_contacts demo []]"]
  by (auto split: prod.splits)

text \<open>The same centre, and a blade that has never been configured.\<close>

lemma guarded_config:
  "map_of (mergedConfig guarded_centre (view guarded_centre demo_blade)) key =
     (if key = ''hostname'' then Some (JStr ''blade-r1s03'') else if key = ''expected_ip'' \<and> v_ip (view guarded_centre demo_blade) \<noteq> []
      then Some (JStr (v_ip (view guarded_centre demo_blade))) else if key = ''agent'' then Some (JObj [(''allow'', JArr [JStr ''identify''])]) else None)"
proof -
  have u: "siteRelayURL guarded_centre (v_site_id (view guarded_centre demo_blade)) = []"
    by (simp add: siteRelayURL_def getSite_def get_site_def guarded_centre_def demo_defs Let_def)
  have n: "b_hostname (view guarded_centre demo_blade) = ''blade-r1s03''" "b_groups (view guarded_centre demo_blade) = []" by (simp_all add: demo_blade_def)
  have "fold (\<lambda>s m. mergeInto m (scope_map guarded_centre s)) (scopes (view guarded_centre demo_blade)) [] = [(''agent'', JObj [(''allow'', JArr [JStr ''identify''])])]"
    by (simp add: scopes_def demo_blade_def scope_map_def configFor_def guarded_centre_def)
  thus ?thesis unfolding mergedConfig_def u n put_key_def Let_def by (simp add: update_conv')
qed

lemma guarded_applied:
  "\<exists>w1. applyConfig plain_tools (mergedConfig guarded_centre (view guarded_centre demo_blade)) demo_os = ([''hostname set to blade-r1s03''], None, w1)"
proof -
  let ?cfg = "mergedConfig guarded_centre (view guarded_centre demo_blade)"
  have lists: "str_of (map_of ?cfg ''hostname'') = ''blade-r1s03''" "str_of (map_of ?cfg ''timezone'') = []"
    "stringList (map_of ?cfg ''ssh_authorized_keys'') = []" "stringList (map_of ?cfg ''boot_config'') = []"
    "fileList (map_of ?cfg ''files'') = []" "binaryList (map_of ?cfg ''binaries'') = []" "packageList x (map_of ?cfg ''packages'') = []"
    "unitList x (map_of ?cfg ''units'') = []" for x
    by (simp_all add: guarded_config str_of_def fileList_def objects_def binaryList_def packageList_def unitList_def)
  show ?thesis
    by (simp add: applyConfig_def apply_name_def apply_zone_def apply_keys_def apply_files_def apply_binaries_def apply_boot_def apply_packages_def
        apply_reload_def apply_units_def lists take_step_def setHostname_def demo_os_def plain_tools_def plain_run_def ensureHostsEntry_def content_def
        note_change_def Let_def)
qed


text \<open>A blade that may restart itself, with the marker.\<close>

theorem restart_announced_in_window_witness:
  "\<exists>a' es. tick plain_tools ((demo_contacts demo [])\<lparr>ct_config := \<lambda>c m. Heard 304 [] None\<rparr>) [] ((start_agent demo_creds demo_os)\<lparr>ag_pol := no_policy\<lparr>ap_reboot_on_cfg := True\<rparr>\<rparr>)
       (markRebootPending demo_os) = (a', markRebootPending demo_os, es, None)
     \<and> (\<exists>m. Sent m \<in> set es \<and> ''restarting for a boot configuration change'' \<in> set (ms_changes m))"
proof -
  let ?ct = "(demo_contacts demo [])\<lparr>ct_config := \<lambda>c m. Heard 304 [] None\<rparr>" and ?a = "(start_agent demo_creds demo_os)\<lparr>ag_pol := no_policy\<lparr>ap_reboot_on_cfg := True\<rparr>\<rparr>"
  have m: "rebootRequired (markRebootPending demo_os)" by (simp add: rebootRequired_def markRebootPending_def write_file_def)
  have none: "runCommands allow t [] = []" for allow t by (simp add: runCommands_def run_order_def)
  obtain a' es where t: "tick plain_tools ?ct [] ?a (markRebootPending demo_os) = (a', markRebootPending demo_os, es, None)" and "Restarting 30 \<in> set es"
    using m by (simp add: tick_def report_def commands_pass_def do_request_def syncConfig_def then_restart_def maybeRestart_def demo_contacts_def none
        command_events_def add_notes_def no_policy_def inWindow_def Let_def)
  from restart_announced_in_window [OF this] show ?thesis using t by blast
qed

end
