(* ===== verification/Storage.thy ===== *)
theory Storage
  imports Agent
begin

text \<open>
  What the server keeps on its disk beside the database: copies of the database with a date in
  their names (\<^verbatim>\<open>src/server/backup.go\<close>), and the netboot payload the sites fetch
  (\<^verbatim>\<open>src/server/payload.go\<close>). A directory is a list of names with what they are. The date in a
  name and the checksum are parameters; removing a file succeeds. The server has a directory for
  the copies - without one it makes none.
\<close>

section \<open>Copies of the database\<close>

datatype 'd entry = Copy 'd | Folder | Link string

type_synonym 'd folder = "(string \<times> 'd entry) list"

definition backupPrefix :: string where "backupPrefix = ''sheath-''"

definition latest_link :: string where "latest_link = backupPrefix @ ''latest.db''"

text \<open>\<open>stamp\<close> writes a second of UTC as the date in the name.\<close>

definition copy_name :: "(nat \<Rightarrow> string) \<Rightarrow> nat \<Rightarrow> string" where
  "copy_name stamp s = backupPrefix @ stamp s @ ''.db''"

definition is_copy :: "string \<times> 'd entry \<Rightarrow> bool" where
  "is_copy e \<longleftrightarrow> snd e \<noteq> Folder \<and> has_prefix (fst e) backupPrefix \<and> has_suffix (fst e) ''.db'' \<and> fst e \<noteq> latest_link"

definition backupList :: "'d folder \<Rightarrow> string list" where
  "backupList d = rev (sort (map fst (filter is_copy d)))"

text \<open>\<^verbatim>\<open>VACUUM INTO\<close> refuses a file that is there; \<open>broken\<close> says that it failed for another reason.
  Either way what is at the path is removed.\<close>

definition backupNow :: "(nat \<Rightarrow> string) \<Rightarrow> nat \<Rightarrow> 'd \<Rightarrow> bool \<Rightarrow> 'd folder \<Rightarrow> 'd folder \<times> string option" where
  "backupNow stamp s db broken d =
     (let name = copy_name stamp s
      in if broken \<or> map_of d name \<noteq> None then (if map_of d name = Some Folder then d else AList.delete name d, None)
         else (AList.update latest_link (Link name) (AList.update name (Copy db) d), Some name))"

definition pruneBackups :: "int \<Rightarrow> 'd folder \<Rightarrow> 'd folder \<times> nat" where
  "pruneBackups keep d =
     (let names = backupList d
      in if keep \<le> 0 \<or> length names \<le> nat keep then (d, 0)
         else (fold AList.delete (drop (nat keep) names) d, length names - nat keep))"

text \<open>One run of the daily job, or of the button; \<open>hum\<close> is the size in words.\<close>

definition backupAndLog :: "(nat \<Rightarrow> string) \<Rightarrow> string \<Rightarrow> string \<Rightarrow> int \<Rightarrow> instant \<Rightarrow> 'd \<Rightarrow> string option \<Rightarrow> app \<times> 'd folder \<Rightarrow> app \<times> 'd folder" where
  "backupAndLog stamp hum why keep t db broken s =
     (case s of (a, d) \<Rightarrow>
        (case backupNow stamp (t div nsec) db (broken \<noteq> None) d of
           (d1, None) \<Rightarrow> (logEvent a t [] ''warn'' (''backup failed: '' @ (case broken of None \<Rightarrow> ''output file already exists'' | Some e \<Rightarrow> e)), d1)
         | (d1, Some name) \<Rightarrow>
             (let (d2, dropped) = pruneBackups keep d1
              in (logEvent a t [] ''info'' (''backup written: '' @ name @ '' ('' @ hum @ '')''
                    @ (if dropped > 0 then '', '' @ show_nat dropped @ '' older one(s) removed'' else [])
                    @ (if why \<noteq> [] then '' '' @ emdash @ '' '' @ why else [])), d2))))"

text \<open>What the page says, and whether the server catches up when it starts; \<open>when\<close> reads a date.\<close>

definition backup_stamp :: "string \<Rightarrow> string" where
  "backup_stamp n = (let r = trim_prefix n backupPrefix in if has_suffix r ''.db'' then take (length r - 3) r else r)"

definition last_backup :: "(string \<Rightarrow> nat option) \<Rightarrow> 'd folder \<Rightarrow> nat option" where
  "last_backup when d = (case backupList d of [] \<Rightarrow> None | n # _ \<Rightarrow> when (backup_stamp n))"

definition catches_up :: "(string \<Rightarrow> nat option) \<Rightarrow> nat \<Rightarrow> 'd folder \<Rightarrow> bool" where
  "catches_up when s d = (case last_backup when d of None \<Rightarrow> True | Some b \<Rightarrow> int s - int b > 24 * 3600)"

definition hBackupNow :: "(nat \<Rightarrow> string) \<Rightarrow> string \<Rightarrow> int \<Rightarrow> instant \<Rightarrow> 'd \<Rightarrow> bool \<Rightarrow> app \<times> 'd folder \<Rightarrow> (app \<times> 'd folder) \<times> (nat + string \<times> nat)" where
  "hBackupNow stamp hum keep t db broken s =
     (case s of (a, d) \<Rightarrow>
        (case backupNow stamp (t div nsec) db broken d of
           (d1, None) \<Rightarrow> ((a, d1), Inl 500)
         | (d1, Some name) \<Rightarrow>
             (let (d2, dropped) = pruneBackups keep d1
              in ((logEvent a t [] ''info'' (''backup written: '' @ name @ '' ('' @ hum @ '')''), d2), Inr (name, dropped)))))"

section \<open>The payload\<close>

record payloadFile =
  py_name :: string
  py_sha256 :: string
  py_bytes :: nat

record payloadInfo =
  pi_sha256 :: string
  pi_version :: string
  pi_bytes :: nat
  pi_built :: nat
  pi_files :: "payloadFile list"

definition no_payload :: payloadInfo where
  "no_payload = \<lparr>pi_sha256 = [], pi_version = [], pi_bytes = 0, pi_built = 0, pi_files = []\<rparr>"

text \<open>A file of the directory: its path below it, what is in it, when it was changed.\<close>

type_synonym tree = "(string \<times> string \<times> nat) list"

definition skipPayloadFile :: "string \<Rightarrow> bool" where
  "skipPayloadFile name \<longleftrightarrow> has_suffix name ''.verified'' \<or> has_suffix name ''.upstream'' \<or> has_suffix name ''.tmp'' \<or> has_prefix name ''.''"

definition payload_files :: "tree \<Rightarrow> tree" where
  "payload_files d = filter (\<lambda>f. \<not> skipPayloadFile (path_base (fst f))) d"

definition payloadStamp :: "tree \<Rightarrow> nat \<times> nat" where
  "payloadStamp d = (fold (\<lambda>f m. max (snd (snd f)) m) (payload_files d) 0, sum_list (map (\<lambda>f. length (fst (snd f))) (payload_files d)))"

definition readPayloadDir :: "(string \<Rightarrow> string) \<Rightarrow> tree \<Rightarrow> payloadFile list" where
  "readPayloadDir sha d =
     sort_key py_name (map (\<lambda>f. \<lparr>py_name = fst f, py_sha256 = sha (fst (snd f)), py_bytes = length (fst (snd f))\<rparr>) (payload_files d))"

definition shortVersion :: "string \<Rightarrow> string" where "shortVersion s = take 8 s"

definition fresh_payload :: "(string \<Rightarrow> string) \<Rightarrow> tree \<Rightarrow> payloadInfo" where
  "fresh_payload sha d =
     (let files = readPayloadDir sha d
      in if files = [] then no_payload
         else (let img = filter (\<lambda>f. py_name f = ''boot.img'') files
               in \<lparr>pi_sha256 = (if img = [] then [] else py_sha256 (last img)),
                   pi_version = shortVersion (sha (concat (map (\<lambda>f. py_name f @ '' '' @ py_sha256 f @ [LF]) files))),
                   pi_bytes = (if img = [] then 0 else py_bytes (last img)), pi_built = fst (payloadStamp d), pi_files = files\<rparr>))"

type_synonym payloadCache = "payloadInfo \<times> nat \<times> nat"

definition payload :: "(string \<Rightarrow> string) \<Rightarrow> payloadCache \<Rightarrow> tree \<Rightarrow> payloadInfo \<times> payloadCache" where
  "payload sha c d =
     (if pi_version (fst c) \<noteq> [] \<and> payloadStamp d = snd c then (fst c, c)
      else if readPayloadDir sha d = [] then (no_payload, c)
      else (fresh_payload sha d, (fresh_payload sha d, payloadStamp d)))"

definition hPayload :: "(string \<Rightarrow> string) \<Rightarrow> payloadCache \<Rightarrow> tree \<Rightarrow> (nat + payloadInfo) \<times> payloadCache" where
  "hPayload sha c d = (let (p, c1) = payload sha c d in (if pi_sha256 p = [] then Inl 404 else Inr p, c1))"

definition payloadState :: "payloadInfo \<Rightarrow> string \<Rightarrow> string \<times> string" where
  "payloadState centre site =
     (if site = [] then (''pay.unknown'', [])
      else if pi_version centre = [] then (''pay.nocentre'', ''warn'')
      else if site = pi_version centre \<or> site = pi_sha256 centre then (''pay.same'', ''ok'')
      else (''pay.differs'', ''warn''))"

definition payloadFromStatus :: "jmap \<Rightarrow> string" where
  "payloadFromStatus m = trim_space (str_of (map_of m ''payload''))"

section \<open>Copies rotate_copies\<close>

lemma less_inside: "length x = length y \<Longrightarrow> x < y \<Longrightarrow> p @ x @ q < p @ y @ q" for x y :: string
proof -
  assume l: "length x = length y" "x < y"
  have "x @ q < y @ q" using l by (induction x y rule: list_induct2) auto
  thus ?thesis by (induction p) auto
qed

definition copies :: "'d folder \<Rightarrow> string set" where
  "copies d = {n. \<exists>e. map_of d n = Some e \<and> is_copy (n, e)}"

lemma backupList_copies:
  assumes "distinct (map fst d)"
  shows "sorted (rev (backupList d))" and "distinct (backupList d)" and "set (backupList d) = copies d"
proof -
  show "sorted (rev (backupList d))" by (simp add: backupList_def)
  show "distinct (backupList d)" using assms by (simp add: backupList_def distinct_map distinct_filter inj_on_def)
  have "n \<in> fst ` {e \<in> set d. is_copy e} \<longleftrightarrow> n \<in> copies d" for n
    using map_of_eq_Some_iff [OF assms] by (force simp: copies_def)
  thus "set (backupList d) = copies d" by (auto simp: backupList_def)
qed

lemma backupList_unique:
  assumes "distinct (map fst d)" and "copies d = set ns" and "sorted (rev ns)" and "distinct ns"
  shows "backupList d = ns"
  using backupList_copies [OF assms(1)] assms(2-4) sorted_distinct_set_unique [of "rev (backupList d)" "rev ns"] by simp

lemma name_is_copy: "stamp s \<noteq> ''latest'' \<Longrightarrow> is_copy (copy_name stamp s, Copy db)"
  by (auto simp: is_copy_def copy_name_def latest_link_def backupPrefix_def has_prefix_def has_suffix_def)

lemma link_no_copy: "\<not> is_copy (latest_link, e)"
  by (simp add: is_copy_def)

text \<open>One copy at a new second, then the pruning.\<close>

lemma backup_step:
  assumes "distinct (map fst d)" and "keep > 0" and "stamp s \<noteq> ''latest''" and "\<forall>n\<in>copies d. n < copy_name stamp s"
    and "map_of d (copy_name stamp s) = None" and "backupNow stamp s db False d = (d1, r)" and "pruneBackups keep d1 = (d2, k)"
  shows "backupList d2 = take (nat keep) (copy_name stamp s # backupList d)" and "distinct (map fst d2)"
    and "map_of d2 latest_link = Some (Link (copy_name stamp s))" and "r = Some (copy_name stamp s)"
    and "\<And>n. n \<in> copies d2 \<Longrightarrow> map_of d2 n = (if n = copy_name stamp s then Some (Copy db) else map_of d n)"
    and "\<And>n. n \<notin> copies d \<Longrightarrow> n \<noteq> copy_name stamp s \<Longrightarrow> n \<noteq> latest_link \<Longrightarrow> map_of d2 n = map_of d n"
proof -
  let ?new = "copy_name stamp s"
  have nl: "?new \<noteq> latest_link" using name_is_copy [where stamp = stamp and s = s, OF assms(3)] link_no_copy by metis
  have d1: "d1 = AList.update latest_link (Link ?new) (AList.update ?new (Copy db) d)" "r = Some ?new"
    using assms(5,6) by (simp_all add: backupNow_def Let_def)
  have m1: "map_of d1 n = (if n = latest_link then Some (Link ?new) else if n = ?new then Some (Copy db) else map_of d n)" for n
    by (simp add: d1 update_conv')
  have dist1: "distinct (map fst d1)" using assms(1) by (simp add: d1 distinct_update)
  have c1: "copies d1 = insert ?new (copies d)"
    using name_is_copy [where stamp = stamp and s = s, OF assms(3), of db] nl link_no_copy by (auto simp: copies_def m1)
  have l1: "backupList d1 = ?new # backupList d"
  proof (rule backupList_unique [OF dist1])
    show "copies d1 = set (?new # backupList d)" by (simp add: c1 backupList_copies(3) [OF assms(1)])
    show "sorted (rev (?new # backupList d))" using assms(4) backupList_copies [OF assms(1)] by (auto simp: sorted_append intro: less_imp_le)
    show "distinct (?new # backupList d)" using assms(4) backupList_copies [OF assms(1)] by auto
  qed
  let ?gone = "drop (nat keep) (?new # backupList d)"
  have m2: "map_of (fold AList.delete ns e) n = (if n \<in> set ns then None else map_of e n)" for ns and e :: "'a folder" and n
    by (induction ns arbitrary: e) (auto simp: delete_conv')
  have dd: "distinct (map fst (fold AList.delete ns e))" if "distinct (map fst e)" for ns and e :: "'a folder"
    using that by (induction ns arbitrary: e) (simp_all add: distinct_delete)
  have d2: "d2 = fold AList.delete ?gone d1"
    using assms(2,7) by (auto simp: pruneBackups_def l1 Let_def split: if_splits)
  have m: "map_of d2 n = (if n \<in> set ?gone then None else map_of d1 n)" for n by (simp add: d2 m2)
  show dist2: "distinct (map fst d2)" by (simp add: d2 dd dist1)
  have all: "distinct (?new # backupList d)" using backupList_copies(2) [OF dist1] l1 by simp
  have parts: "set (take (nat keep) (?new # backupList d)) \<inter> set ?gone = {}" "set (?new # backupList d) = set (take (nat keep) (?new # backupList d)) \<union> set ?gone"
    using all by (metis append_take_drop_id distinct_append) (metis append_take_drop_id set_append)
  have inlist: "set (?new # backupList d) = copies d1" using backupList_copies(3) [OF dist1] l1 by simp
  have c2: "copies d2 = set (take (nat keep) (?new # backupList d))"
  proof -
    have "copies d2 = copies d1 - set ?gone" by (auto simp: copies_def m)
    thus ?thesis using parts inlist by auto
  qed
  show "backupList d2 = take (nat keep) (?new # backupList d)"
  proof (rule backupList_unique [OF dist2 c2])
    have "sorted (rev (?new # backupList d))" using backupList_copies(1) [OF dist1] l1 by simp
    thus "sorted (rev (take (nat keep) (?new # backupList d)))" by (metis append_take_drop_id rev_append sorted_append)
    show "distinct (take (nat keep) (?new # backupList d))" using all by (rule distinct_take)
  qed
  have gone: "n \<in> set ?gone \<Longrightarrow> n \<in> copies d" for n
    using assms(2) backupList_copies(3) [OF assms(1)] by (cases "nat keep") (auto dest: in_set_dropD)
  have "latest_link \<notin> copies d" by (simp add: copies_def link_no_copy)
  thus "map_of d2 latest_link = Some (Link ?new)" using gone by (auto simp: m m1)
  show "r = Some ?new" by (rule d1(2))
  show "map_of d2 n = (if n = ?new then Some (Copy db) else map_of d n)" if "n \<in> copies d2" for n
  proof -
    have "n \<noteq> latest_link" using that by (auto simp: copies_def link_no_copy)
    moreover have "n \<notin> set ?gone" using that c2 parts(1) by blast
    ultimately show ?thesis by (simp add: m m1)
  qed
  show "map_of d2 n = map_of d n" if "n \<notin> copies d" "n \<noteq> ?new" "n \<noteq> latest_link" for n
    using that gone by (auto simp: m m1)
qed

definition rotate_copies :: "(nat \<Rightarrow> string) \<Rightarrow> int \<Rightarrow> nat \<times> 'd \<Rightarrow> 'd folder \<Rightarrow> 'd folder" where
  "rotate_copies stamp keep one d = fst (pruneBackups keep (fst (backupNow stamp (fst one) (snd one) False d)))"

text \<open>Dates as the format writes them: sixteen characters that read in order of time.\<close>

definition dated :: "(nat \<Rightarrow> string) \<Rightarrow> nat list \<Rightarrow> bool" where
  "dated stamp ts \<longleftrightarrow> list_all (\<lambda>s. length (stamp s) = 16) ts \<and> sorted_wrt (\<lambda>s t. stamp s < stamp t) ts"

lemma dated_snoc: "dated stamp (ts @ [s]) \<Longrightarrow> dated stamp ts \<and> stamp s \<noteq> ''latest'' \<and> (\<forall>t\<in>set ts. copy_name stamp t < copy_name stamp s)"
  by (auto simp: dated_def sorted_wrt_append list_all_iff copy_name_def intro!: less_inside)

lemma rotate_runs:
  assumes "distinct (map fst d)" and "copies d = {}" and "keep > 0" and "dated stamp (map fst runs)" and "\<forall>s\<in>set (map fst runs). map_of d (copy_name stamp s) = None"
  shows "distinct (map fst (fold (rotate_copies stamp keep) runs d)) \<and> backupList (fold (rotate_copies stamp keep) runs d) = map (copy_name stamp) (take (nat keep) (rev (map fst runs)))
    \<and> (\<forall>(s, db)\<in>set runs. copy_name stamp s \<in> copies (fold (rotate_copies stamp keep) runs d) \<longrightarrow> map_of (fold (rotate_copies stamp keep) runs d) (copy_name stamp s) = Some (Copy db))
    \<and> (runs \<noteq> [] \<longrightarrow> map_of (fold (rotate_copies stamp keep) runs d) latest_link = Some (Link (copy_name stamp (fst (last runs)))))
    \<and> (\<forall>n. n \<notin> copy_name stamp ` set (map fst runs) \<and> n \<noteq> latest_link \<longrightarrow> map_of (fold (rotate_copies stamp keep) runs d) n = map_of d n)"
  using assms(4,5)
proof (induction runs rule: rev_induct)
  case Nil
  have "backupList d = []" using backupList_copies(3) [OF assms(1)] assms(2) by simp
  thus ?case using assms(1) by simp
next
  case (snoc one runs)
  obtain s db where one: "one = (s, db)" by force
  let ?d = "fold (rotate_copies stamp keep) runs d" and ?new = "copy_name stamp s"
  have ds: "dated stamp (map fst runs)" "stamp s \<noteq> ''latest''" "\<forall>t\<in>set (map fst runs). copy_name stamp t < ?new"
    using dated_snoc [of stamp "map fst runs" s] snoc.prems(1) by (simp_all add: one)
  note ih = snoc.IH [OF ds(1)]
  have ih': "distinct (map fst ?d)" "backupList ?d = map (copy_name stamp) (take (nat keep) (rev (map fst runs)))"
    "\<forall>(s, db)\<in>set runs. copy_name stamp s \<in> copies ?d \<longrightarrow> map_of ?d (copy_name stamp s) = Some (Copy db)"
    "\<forall>n. n \<notin> copy_name stamp ` set (map fst runs) \<and> n \<noteq> latest_link \<longrightarrow> map_of ?d n = map_of d n"
    using ih snoc.prems(2) by auto
  have sub: "copies ?d \<subseteq> copy_name stamp ` set (map fst runs)"
  proof -
    have "set (backupList ?d) \<subseteq> copy_name stamp ` set (map fst runs)"
      unfolding ih'(2) using set_take_subset [of "nat keep" "rev (map fst runs)"] by (simp only: set_map set_rev image_mono)
    thus ?thesis using backupList_copies(3) [OF ih'(1)] by simp
  qed
  have below: "\<forall>n\<in>copies ?d. n < ?new" using sub ds(3) by auto
  have fresh: "?new \<notin> copy_name stamp ` set (map fst runs)" using ds(3) by auto
  have nl: "?new \<noteq> latest_link" using name_is_copy [where stamp = stamp and s = s, OF ds(2)] link_no_copy by metis
  have none: "map_of ?d ?new = None" using ih'(4) fresh nl snoc.prems(2) by (simp add: one)
  obtain d1 r where b: "backupNow stamp s db False ?d = (d1, r)" by force
  obtain d2 k where pr: "pruneBackups keep d1 = (d2, k)" by force
  note st = backup_step [where stamp = stamp, OF ih'(1) assms(3) ds(2) below none b pr]
  have f: "fold (rotate_copies stamp keep) (runs @ [one]) d = d2" by (simp add: one rotate_copies_def b pr)
  have take: "take (nat keep) (?new # backupList ?d) = map (copy_name stamp) (take (nat keep) (rev (map fst (runs @ [one]))))"
    using assms(3) by (cases "nat keep") (simp_all add: ih'(2) one take_map min_def)
  have "\<forall>(x, y)\<in>set (runs @ [one]). copy_name stamp x \<in> copies d2 \<longrightarrow> map_of d2 (copy_name stamp x) = Some (Copy y)"
  proof (intro ballI, clarify)
    fix x y assume xy: "(x, y) \<in> set (runs @ [one])" "copy_name stamp x \<in> copies d2"
    show "map_of d2 (copy_name stamp x) = Some (Copy y)"
    proof (cases "(x, y) \<in> set runs")
      case True
      hence "x \<in> set (map fst runs)" by force
      hence ne: "copy_name stamp x \<noteq> ?new" using fresh by (metis imageI)
      have "copy_name stamp x \<in> set (backupList d2)" using xy(2) backupList_copies(3) [OF st(2)] by simp
      hence "copy_name stamp x \<in> set (?new # backupList ?d)" unfolding st(1) by (rule in_set_takeD)
      hence c: "copy_name stamp x \<in> copies ?d" using ne unfolding list.set backupList_copies(3) [OF ih'(1)] by blast
      have "map_of ?d (copy_name stamp x) = Some (Copy y)" using bspec [OF ih'(3) True] c by simp
      thus ?thesis using st(5) [OF xy(2)] ne by simp
    next
      case False
      thus ?thesis using xy st(5) [OF xy(2)] by (simp add: one)
    qed
  qed
  moreover have "map_of d2 n = map_of d n" if "n \<notin> copy_name stamp ` set (map fst (runs @ [one]))" "n \<noteq> latest_link" for n
  proof -
    have "n \<notin> copies ?d" "n \<noteq> ?new" using that sub by (auto simp: one)
    thus ?thesis using st(6) that ih'(4) by simp
  qed
  ultimately show ?case using st(1,2,3) unfolding f take by (simp add: one)
qed

text \<open>Copies made one after another leave the newest ones, as many as are to be kept, newest first,
  each with the database of its own moment; the link names the last of them, and no other file of
  the directory is touched.\<close>

theorem backups_rotate:
  assumes "distinct (map fst d)" and "backupList d = []" and "keep > 0" and "dated stamp (map fst runs)" and "runs \<noteq> []"
    and "\<forall>s\<in>set (map fst runs). map_of d (copy_name stamp s) = None"
    and "d' = fold (rotate_copies stamp keep) runs d"
  shows "backupList d' = map (copy_name stamp) (take (nat keep) (rev (map fst runs)))
    \<and> (\<forall>(s, db)\<in>set runs. copy_name stamp s \<in> set (backupList d') \<longrightarrow> map_of d' (copy_name stamp s) = Some (Copy db))
    \<and> map_of d' latest_link = Some (Link (copy_name stamp (fst (last runs))))
    \<and> (\<forall>n. n \<notin> insert latest_link (copy_name stamp ` set (map fst runs)) \<longrightarrow> map_of d' n = map_of d n)"
proof -
  have "copies d = {}" using backupList_copies(3) [OF assms(1)] assms(2) by simp
  note r = rotate_runs [OF assms(1) this assms(3,4,6), folded assms(7)]
  have c: "set (backupList d') = copies d'" using r backupList_copies(3) by blast
  have "backupList d' = map (copy_name stamp) (take (nat keep) (rev (map fst runs)))" using r by blast
  moreover have "\<forall>(s, db)\<in>set runs. copy_name stamp s \<in> set (backupList d') \<longrightarrow> map_of d' (copy_name stamp s) = Some (Copy db)"
    using r unfolding c by fast
  moreover have "map_of d' latest_link = Some (Link (copy_name stamp (fst (last runs))))" using r assms(5) by blast
  moreover have "\<forall>n. n \<notin> insert latest_link (copy_name stamp ` set (map fst runs)) \<longrightarrow> map_of d' n = map_of d n" using r by blast
  ultimately show ?thesis by blast
qed

text \<open>A second copy within the same second destroys the first: nothing is left at its name, and the
  link points at nothing.\<close>

theorem second_copy_destroys_first:
  assumes "stamp s \<noteq> ''latest''" and "backupNow stamp s db False d = (d1, Some name)"
  shows "map_of d1 name = Some (Copy db) \<and> (\<exists>d2. backupNow stamp s db' False d1 = (d2, None) \<and> map_of d2 name = None \<and> map_of d2 latest_link = Some (Link name))"
proof -
  have nl: "copy_name stamp s \<noteq> latest_link" using name_is_copy [where stamp = stamp and s = s, OF assms(1)] link_no_copy by metis
  have d1: "name = copy_name stamp s" "d1 = AList.update latest_link (Link name) (AList.update name (Copy db) d)"
    using assms(2) by (auto simp: backupNow_def Let_def split: if_splits)
  have m: "map_of d1 name = Some (Copy db)" using nl by (simp add: d1 update_conv')
  hence "backupNow stamp s db' False d1 = (AList.delete name d1, None)" by (simp add: backupNow_def Let_def flip: d1(1))
  thus ?thesis using m nl by (simp add: delete_conv' d1 update_conv')
qed

text \<open>Seconds as letters.\<close>

definition letters :: "nat \<Rightarrow> string" where
  "letters s = replicate s CHR ''b'' @ replicate (16 - s) CHR ''a''"

theorem backups_rotate_witness:
  "backupList (fold (rotate_copies letters 2) [(1, ''x''), (2, ''y''), (3, ''z'')] [(''notes'', Copy ''n'')]) = [copy_name letters 3, copy_name letters 2]
   \<and> map_of (fold (rotate_copies letters 2) [(1, ''x''), (2, ''y''), (3, ''z'')] [(''notes'', Copy ''n'')]) (copy_name letters 3) = Some (Copy ''z'')
   \<and> map_of (fold (rotate_copies letters 2) [(1, ''x''), (2, ''y''), (3, ''z'')] [(''notes'', Copy ''n'')]) ''notes'' = Some (Copy ''n'')"
proof -
  let ?d = "[(''notes'', Copy ''n'')] :: string folder" and ?runs = "[(1, ''x''), (2, ''y''), (3, ''z'')] :: (nat \<times> string) list"
  have l: "dated letters (map fst ?runs)" by code_simp
  have b: "backupList ?d = []" by code_simp
  have n: "copy_name letters 1 \<noteq> ''notes''" "copy_name letters 2 \<noteq> ''notes''" "copy_name letters 3 \<noteq> ''notes''" "''notes'' \<noteq> latest_link" by code_simp+
  note r = backups_rotate [where stamp = letters, OF _ b _ l, of 2 "fold (rotate_copies letters 2) ?runs ?d"]
  have "backupList (fold (rotate_copies letters 2) ?runs ?d) = [copy_name letters 3, copy_name letters 2]" using r n by simp
  thus ?thesis using r n by simp
qed

theorem second_copy_destroys_first_witness:
  "\<exists>d1 d2. backupNow letters 1 ''x'' False [] = (d1, Some (copy_name letters 1)) \<and> backupNow letters 1 ''y'' False d1 = (d2, None) \<and> map_of d2 (copy_name letters 1) = None"
proof -
  have l: "letters 1 \<noteq> ''latest''" by code_simp
  have "backupNow letters 1 ''x'' False [] = (AList.update latest_link (Link (copy_name letters 1)) (AList.update (copy_name letters 1) (Copy ''x'') []), Some (copy_name letters 1))"
    by (simp add: backupNow_def Let_def)
  thus ?thesis using second_copy_destroys_first [where stamp = letters and db' = "''y''", OF l] by blast
qed

section \<open>The payload is what its stamp says\<close>

fun payload_run :: "(string \<Rightarrow> string) \<Rightarrow> payloadCache \<Rightarrow> tree list \<Rightarrow> payloadCache" where
  "payload_run sha c [] = c"
| "payload_run sha c (d # ds) = payload_run sha (snd (payload sha c d)) ds"

lemma payload_run_inv:
  "(pi_version (fst c) \<noteq> [] \<Longrightarrow> \<exists>u\<in>old. fst c = fresh_payload sha u \<and> snd c = payloadStamp u) \<Longrightarrow>
   pi_version (fst (payload_run sha c ds)) \<noteq> [] \<Longrightarrow> \<exists>u\<in>old \<union> set ds. fst (payload_run sha c ds) = fresh_payload sha u \<and> snd (payload_run sha c ds) = payloadStamp u"
proof (induction ds arbitrary: c old)
  case (Cons d ds)
  have "\<exists>u\<in>insert d old. fst (snd (payload sha c d)) = fresh_payload sha u \<and> snd (snd (payload sha c d)) = payloadStamp u"
    if "pi_version (fst (snd (payload sha c d))) \<noteq> []"
    using that Cons.prems(1) by (auto simp: payload_def split: if_splits)
  from Cons.IH [OF this] Cons.prems(2) show ?case by auto
qed simp

text \<open>Whatever the directory looked like at earlier questions, the payload the centre names is the one
  in the directory now, or one it saw before whose newest change and whose size in total were the
  same: a file exchanged for an older one of the same size goes unnoticed, everything else does not.\<close>

theorem payload_as_stamped:
  "\<exists>u\<in>set (ds @ [d]). payloadStamp u = payloadStamp d \<and> fst (payload sha (payload_run sha (no_payload, 0, 0) ds) d) = fresh_payload sha u"
proof -
  let ?c = "payload_run sha (no_payload, 0, 0) ds"
  have c: "pi_version (fst ?c) \<noteq> [] \<Longrightarrow> \<exists>u\<in>set ds. fst ?c = fresh_payload sha u \<and> snd ?c = payloadStamp u"
    using payload_run_inv [of "(no_payload, 0, 0)" "{}" sha ds] by (simp add: no_payload_def)
  consider "pi_version (fst ?c) \<noteq> []" "payloadStamp d = snd ?c" | "\<not> (pi_version (fst ?c) \<noteq> [] \<and> payloadStamp d = snd ?c)" by blast
  thus ?thesis
  proof cases
    case 1
    then obtain u where "u \<in> set ds" "fst ?c = fresh_payload sha u" "payloadStamp u = payloadStamp d" using c by metis
    thus ?thesis using 1 by (intro bexI [of _ u]) (simp_all add: payload_def)
  next
    case 2
    hence "fst (payload sha ?c d) = fresh_payload sha d" by (auto simp: payload_def fresh_payload_def)
    thus ?thesis by simp
  qed
qed

end
