(* ===== verification/SiteStart.thy ===== *)
theory SiteStart
  imports Agent
begin

text \<open>
  The start of the process at a site: signing in with a code the first time, the token and the
  number it keeps for the next start (\<^verbatim>\<open>src/site/main.go\<close>, \<^verbatim>\<open>enroll.go\<close>), and what it says about
  itself - whether it can write where it must (\<^verbatim>\<open>writable.go\<close>) and whether anything serves
  addresses (\<^verbatim>\<open>dhcpalive.go\<close>). Which writes succeed is a parameter of the machine.
\<close>

section \<open>The machine of a site\<close>

record site_host =
  sh_name :: string
  sh_files :: "string \<Rightarrow> string option"
  sh_writable :: "string \<Rightarrow> bool"

definition put_host_file :: "string \<Rightarrow> string \<Rightarrow> site_host \<Rightarrow> site_host" where
  "put_host_file p s h = h\<lparr>sh_files := (sh_files h)(p \<mapsto> s)\<rparr>"

section \<open>Signing in\<close>

record enrolment =
  en_site :: int
  en_token :: string

datatype start_error = Out_of_reach string | Enrolment_refused string | Without_token | Unwritten string | No_server | No_token | No_site

text \<open>The file beside the token; paths without repeated slashes.\<close>

definition siteIDPath :: "string \<Rightarrow> string" where
  "siteIDPath tokenFile = rev (dropWhile (\<lambda>c. c \<noteq> CHR ''/'') (rev tokenFile)) @ ''site-id''"

text \<open>The answer to a code: nothing, a refusal with its status and reason, or the site and its token.\<close>

definition enroll :: "(string \<Rightarrow> string \<Rightarrow> enrolment heard) \<Rightarrow> string \<Rightarrow> string \<Rightarrow> site_host \<Rightarrow> (start_error + enrolment) \<times> site_host" where
  "enroll ask typed tokenFile h =
     (case ask typed (sh_name h) of
        Silence e \<Rightarrow> (Inl (Out_of_reach e), h)
      | Heard c reason d \<Rightarrow>
          if c \<noteq> 201 then (Inl (Enrolment_refused reason), h)
          else case d of
                 None \<Rightarrow> (Inl (Out_of_reach ''unreadable''), h)
               | Some en \<Rightarrow>
                   if en_token en = [] \<or> en_site en = 0 then (Inl Without_token, h)
                   else if \<not> sh_writable h tokenFile then (Inl (Unwritten tokenFile), h)
                   else (let h1 = put_host_file tokenFile (en_token en @ [LF]) h
                         in (Inr en, if sh_writable h (siteIDPath tokenFile)
                               then put_host_file (siteIDPath tokenFile) (show_int (en_site en) @ [LF]) h1 else h1)))"

definition readSiteID :: "string \<Rightarrow> site_host \<Rightarrow> int" where
  "readSiteID tokenFile h =
     (case sh_files h (siteIDPath tokenFile) of
        None \<Rightarrow> 0 | Some s \<Rightarrow> (case atoi (trim_space s) of None \<Rightarrow> 0 | Some n \<Rightarrow> n))"

text \<open>The site and the token the process goes on with. The code and the number are what the command
  line says, empty and 0 where it says nothing.\<close>

definition start_site :: "(string \<Rightarrow> string \<Rightarrow> enrolment heard) \<Rightarrow> string \<Rightarrow> int \<Rightarrow> string \<Rightarrow> string \<Rightarrow> site_host \<Rightarrow> (start_error + int \<times> string) \<times> site_host" where
  "start_site ask server siteID typed tokenFile h =
     (if server = [] then (Inl No_server, h)
      else
        (let tok = sh_files h tokenFile;
             signed = (if (case tok of None \<Rightarrow> True | Some s \<Rightarrow> trim_space s = []) \<and> typed \<noteq> []
               then (case enroll ask typed tokenFile h of
                       (Inl e, h1) \<Rightarrow> (Inl e, h1)
                     | (Inr en, h1) \<Rightarrow> (Inr (Some (en_token en), if siteID = 0 then en_site en else siteID), h1))
               else (Inr (tok, siteID), h))
         in case signed of
              (Inl e, h1) \<Rightarrow> (Inl e, h1)
            | (Inr (None, k), h1) \<Rightarrow> (Inl No_token, h1)
            | (Inr (Some s, k), h1) \<Rightarrow>
                (let k1 = (if k = 0 then readSiteID tokenFile h1 else k)
                 in if k1 = 0 then (Inl No_site, h1) else (Inr (k1, trim_space s), h1))))"

section \<open>Whether addresses are served\<close>

definition hex_digit :: "nat \<Rightarrow> char" where "hex_digit n = ''0123456789ABCDEF'' ! (n mod 16)"

definition hex4 :: "nat \<Rightarrow> string" where
  "hex4 n = [hex_digit (n div 4096), hex_digit (n div 256), hex_digit (n div 16), hex_digit n]"

text \<open>A line of the kernel's table of sockets; the first line is the heading.\<close>

definition socket_on :: "nat \<Rightarrow> string \<Rightarrow> bool" where
  "socket_on port l = (let fs = words [] l in length fs \<ge> 2 \<and> has_suffix (fs ! 1) (CHR '':'' # hex4 port))"

definition listeningOnUDP :: "nat \<Rightarrow> string option list \<Rightarrow> bool" where
  "listeningOnUDP port tables =
     list_ex (\<lambda>t. case t of None \<Rightarrow> False | Some s \<Rightarrow> list_ex (socket_on port) (tl (split_lines s))) tables"

definition dhcpPort :: nat where "dhcpPort = 67"

definition servesDHCP :: "string \<Rightarrow> site_host \<Rightarrow> bool" where
  "servesDHCP rangeFile h \<longleftrightarrow> rangeFile \<noteq> [] \<and> (case sh_files h rangeFile of None \<Rightarrow> False | Some s \<Rightarrow> s \<noteq> [])"

text \<open>The socket tables before and after \<^verbatim>\<open>dnsmasq\<close> was started, and whether starting failed.\<close>

definition dhcpTrouble :: "string \<Rightarrow> site_host \<Rightarrow> string option list \<Rightarrow> (string \<times> string) option \<Rightarrow> string option list \<Rightarrow> string" where
  "dhcpTrouble rangeFile h before failed afterwards =
     (if listeningOnUDP dhcpPort before then []
      else if \<not> servesDHCP rangeFile h then []
      else case failed of
             Some (e, out) \<Rightarrow> ''no DHCP server on port '' @ show_nat dhcpPort @ '', and it would not start: '' @ e @ '': '' @ trim_space out
           | None \<Rightarrow> if listeningOnUDP dhcpPort afterwards then []
                     else ''no DHCP server on port '' @ show_nat dhcpPort @ '' '' @ emdash @ '' dnsmasq was started and is still not serving'')"

section \<open>Whether it can write\<close>

text \<open>The directories by what they are for; a probe answers with an error or nothing.\<close>

definition writeTrouble :: "(string \<Rightarrow> string option) \<Rightarrow> (string \<times> string) list \<Rightarrow> string" where
  "writeTrouble probeWrite dirs =
     (let bad = List.map_filter (\<lambda>(what, path). if path = [] then None
                  else map_option (\<lambda>e. what @ '' ('' @ e @ '')'') (probeWrite path)) dirs
      in if bad = [] then [] else ''cannot write to '' @ join '', '' (sort bad))"

definition trouble :: "string \<Rightarrow> string \<Rightarrow> string" where
  "trouble unwritable unserved = join ''; '' (filter (\<lambda>t. t \<noteq> []) [unwritable, unserved])"

section \<open>The next start\<close>

lemma trim_ended: "trim_space s = s \<Longrightarrow> trim_space (s @ [LF]) = s"
proof -
  have "trim_space (s @ [LF]) = trim_space s"
  proof (cases "list_all is_space s")
    case True
    hence "dropWhile is_space s = []" "dropWhile is_space (s @ [LF]) = []" by (simp_all add: list_all_iff is_space_def code_def)
    thus ?thesis by (simp only: trim_space_def)
  next
    case False
    hence "dropWhile is_space (s @ [LF]) = dropWhile is_space s @ [LF]" by (simp add: list_all_iff dropWhile_append)
    thus ?thesis by (simp add: trim_space_def is_space_def code_def)
  qed
  thus "trim_space s = s \<Longrightarrow> trim_space (s @ [LF]) = s" by simp
qed

lemma atoi_show_int: "- (2 ^ 63) \<le> n \<Longrightarrow> n < 2 ^ 63 \<Longrightarrow> 0 \<le> n \<Longrightarrow> atoi (show_int n) = Some n"
  using atoi_show_nat [of "nat n"] by (simp add: show_int_def)

lemma trim_clean: "list_all (\<lambda>c. \<not> is_space c) s \<Longrightarrow> trim_space s = s"
proof -
  have d: "dropWhile is_space u = u" if "list_all (\<lambda>c. \<not> is_space c) u" for u using that by (cases u) simp_all
  assume "list_all (\<lambda>c. \<not> is_space c) s"
  moreover from this have "list_all (\<lambda>c. \<not> is_space c) (rev s)" by simp
  ultimately show ?thesis unfolding trim_space_def using d by simp
qed

lemma trim_digits: "trim_space (show_nat n) = show_nat n"
proof (rule trim_clean)
  have "is_digit c \<Longrightarrow> \<not> is_space c" for c by (simp add: is_digit_def is_space_def)
  thus "list_all (\<lambda>c. \<not> is_space c) (show_nat n)" using show_nat_digits [of n] by (simp only: list_all_iff) blast
qed

text \<open>What enrolling leaves behind.\<close>

lemma enroll_Inr:
  assumes "enroll ask typed f h = (Inr en, h')"
  shows "sh_files h' f = Some (en_token en @ [LF]) \<or> siteIDPath f = f" and "en_token en \<noteq> []" and "en_site en \<noteq> 0" and "sh_writable h f"
    and "sh_files h' (siteIDPath f) = (if sh_writable h (siteIDPath f) then Some (show_int (en_site en) @ [LF])
           else if siteIDPath f = f then Some (en_token en @ [LF]) else sh_files h (siteIDPath f))"
    and "sh_writable h' = sh_writable h" and "sh_name h' = sh_name h"
proof -
  have e: "en_token en \<noteq> [] \<and> en_site en \<noteq> 0 \<and> sh_writable h f
      \<and> h' = (if sh_writable h (siteIDPath f) then put_host_file (siteIDPath f) (show_int (en_site en) @ [LF]) (put_host_file f (en_token en @ [LF]) h)
              else put_host_file f (en_token en @ [LF]) h)"
    using assms unfolding enroll_def Let_def by (cases "ask typed (sh_name h)") (simp_all split: if_splits option.splits)
  thus "en_token en \<noteq> []" "en_site en \<noteq> 0" "sh_writable h f" by blast+
  show "sh_files h' f = Some (en_token en @ [LF]) \<or> siteIDPath f = f" using e by (simp add: put_host_file_def)
  show "sh_files h' (siteIDPath f) = (if sh_writable h (siteIDPath f) then Some (show_int (en_site en) @ [LF])
           else if siteIDPath f = f then Some (en_token en @ [LF]) else sh_files h (siteIDPath f))" using e by (simp add: put_host_file_def)
  show "sh_writable h' = sh_writable h" "sh_name h' = sh_name h" using e by (simp_all add: put_host_file_def)
qed

text \<open>The number the file beside the token gives to the next start.\<close>

lemma readSiteID_written:
  "sh_files h (siteIDPath f) = Some (show_int k @ [LF]) \<Longrightarrow> 0 \<le> k \<Longrightarrow> k < 2 ^ 63 \<Longrightarrow> readSiteID f h = k"
  using trim_ended [OF trim_digits [of "nat k"]] atoi_show_int [of k] by (simp add: readSiteID_def show_int_def)

text \<open>A site that signed in with a code starts again without one, as the same site and with the same
  token, whatever code its command line still carries - provided its number could be written beside
  the token. Where it could not and the command line does not give it, no later start succeeds:
  the token is there, so the code is never tried again.\<close>

theorem enrolled_site_starts_again:
  assumes "trim_space (en_token en) = en_token en" and "0 < en_site en" and "en_site en < 2 ^ 63" and "siteIDPath f \<noteq> f" and "server \<noteq> []"
    and "enroll ask typed f h = (Inr en, h')" and "sh_files h (siteIDPath f) = None"
  shows "start_site ask' server 0 typed' f h' = (if sh_writable h (siteIDPath f) then (Inr (en_site en, en_token en), h') else (Inl No_site, h'))"
proof -
  note e = enroll_Inr [OF assms(6)]
  have t: "sh_files h' f = Some (en_token en @ [LF])" "trim_space (en_token en @ [LF]) = en_token en" using e(1) assms(1,4) trim_ended by auto
  have k: "readSiteID f h' = (if sh_writable h (siteIDPath f) then en_site en else 0)"
    using e(5) assms(2,3,4,7) readSiteID_written [of h' f "en_site en"] by (cases "sh_writable h (siteIDPath f)") (simp_all add: readSiteID_def)
  show ?thesis using assms(2,5) e(2) by (simp add: start_site_def t k)
qed

section \<open>A code at the centre\<close>

text \<open>As the site hears the centre's answer.\<close>

definition heard_enrolment :: "(int \<times> string) reply \<Rightarrow> enrolment heard" where
  "heard_enrolment r =
     (case r of
        Denied c \<Rightarrow> Heard c [] None
      | NotModified \<Rightarrow> Heard 304 [] None
      | Answer (k, t) \<Rightarrow> Heard 201 [] (Some \<lparr>en_site = k, en_token = t\<rparr>))"

text \<open>A code is good for the site's token at the centre and in the site's own file, and the centre lets
  the site in with it; but a site that cannot write its token has used the code up all the same: its
  machine is as before, and at the centre the code is gone and the token replaced.\<close>

theorem code_used_up:
  assumes "distinct (map s_id (a_sites a))" and "hSiteEnroll a t newtok typed (sh_name h) remote = (a', Answer (k, newtok))" and "newtok \<noteq> []" and "k \<noteq> 0"
    and "start_site (\<lambda>c n. heard_enrolment (snd (hSiteEnroll a t newtok c n remote))) server 0 typed f h = (r, h')"
    and "server \<noteq> []" and "sh_files h f = None" and "normaliseCode typed \<noteq> []" and "trim_space newtok = newtok" and "siteIDPath f \<noteq> f"
  shows "requireSite a' (''Bearer '' @ newtok) k \<and> (\<forall>st. getSite a' k = Some st \<longrightarrow> s_enroll_code st = [])"
    and "if sh_writable h f then r = Inr (k, newtok) \<and> sh_files h' f = Some (newtok @ [LF]) else r = Inl (Unwritten f) \<and> h' = h"
proof -
  have tn: "typed \<noteq> []" using assms(8) by (auto simp: normaliseCode_def trim_space_def upper_def)
  obtain st where f: "find (\<lambda>st. s_enroll_code st \<noteq> [] \<and> normaliseCode (s_enroll_code st) = normaliseCode typed) (listSites a) = Some st"
    and k: "k = s_id st" and a': "a' = logEvent (upd_site a k (\<lambda>r. r\<lparr>s_token := newtok, s_enroll_code := [], s_enroll_until := None\<rparr>))
                          t [] ''warn'' (''site '' @ show_int (s_id st) @ '' ('' @ s_name st @ '') enrolled from ''
                             @ (if sh_name h = [] then hd (split_on CHR '':'' remote) else sh_name h))"
    using assms(2) by (auto simp: hSiteEnroll_def Let_def split: if_splits option.splits)
  have g: "getSite a k = Some st" using find_listSites [OF f assms(1)] by (simp add: k)
  have g': "getSite a' k = Some (st\<lparr>s_token := newtok, s_enroll_code := [], s_enroll_until := None\<rparr>)"
    unfolding a' using g by (simp add: getSite_upd_site)
  show "requireSite a' (''Bearer '' @ newtok) k \<and> (\<forall>st. getSite a' k = Some st \<longrightarrow> s_enroll_code st = [])"
    using assms(3) by (simp add: requireSite_def g' trim_prefix_def has_prefix_def)
  have e: "enroll (\<lambda>c n. heard_enrolment (snd (hSiteEnroll a t newtok c n remote))) typed f h
      = (if sh_writable h f then enroll (\<lambda>c n. heard_enrolment (snd (hSiteEnroll a t newtok c n remote))) typed f h else (Inl (Unwritten f), h))"
    using assms(2,3,4) by (simp add: enroll_def heard_enrolment_def)
  show "if sh_writable h f then r = Inr (k, newtok) \<and> sh_files h' f = Some (newtok @ [LF]) else r = Inl (Unwritten f) \<and> h' = h"
  proof (cases "sh_writable h f")
    case True
    obtain h1 where h1: "enroll (\<lambda>c n. heard_enrolment (snd (hSiteEnroll a t newtok c n remote))) typed f h = (Inr \<lparr>en_site = k, en_token = newtok\<rparr>, h1)"
      using assms(2,3,4) True by (simp add: enroll_def heard_enrolment_def Let_def)
    show ?thesis using assms(4,5,6,7,10) tn True h1 enroll_Inr(1) [OF h1] by (auto simp: start_site_def assms(9))
  next
    case False
    thus ?thesis using assms(5,6,7) tn e by (simp add: start_site_def)
  qed
qed

text \<open>A site whose number cannot be written, with a code that stays on its command line.\<close>

definition half_writable :: site_host where
  "half_writable = \<lparr>sh_name = ''s1'', sh_files = (\<lambda>_. None), sh_writable = (\<lambda>p. p = ''/etc/s/token'')\<rparr>"

theorem enrolled_site_starts_again_witness:
  "\<exists>h'. enroll (\<lambda>c n. Heard 201 [] (Some \<lparr>en_site = 4, en_token = ''tok''\<rparr>)) ''AB'' ''/etc/s/token'' half_writable = (Inr \<lparr>en_site = 4, en_token = ''tok''\<rparr>, h')
     \<and> start_site (\<lambda>c n. Silence []) ''http://c'' 0 ''AB'' ''/etc/s/token'' h' = (Inl No_site, h')"
proof -
  obtain h' where e: "enroll (\<lambda>c n. Heard 201 [] (Some \<lparr>en_site = 4, en_token = ''tok''\<rparr>)) ''AB'' ''/etc/s/token'' half_writable = (Inr \<lparr>en_site = 4, en_token = ''tok''\<rparr>, h')"
    by (simp add: enroll_def half_writable_def Let_def)
  have "siteIDPath ''/etc/s/token'' = ''/etc/s/site-id''" by code_simp
  moreover have "trim_space ''tok'' = ''tok''" by code_simp
  ultimately show ?thesis
    using e enrolled_site_starts_again [OF _ _ _ _ _ e, of "''http://c''" "\<lambda>c n. Silence []" "''AB''"] by (auto simp: half_writable_def)
qed

theorem code_used_up_witness:
  "\<exists>a a'. hSiteEnroll a 7 ''new'' ''ab'' ''s1'' [] = (a', Answer (1, ''new''))
     \<and> fst (start_site (\<lambda>c n. heard_enrolment (snd (hSiteEnroll a 7 ''new'' c n []))) ''http://c'' 0 ''ab'' ''/x/y'' half_writable) = Inl (Unwritten ''/x/y'')
     \<and> requireSite a' (''Bearer '' @ ''new'') 1"
proof -
  obtain a where m: "makeEnrollCode demo 0 [0, 1] 1 = Some (a, ''AB'')" using demo_made by blast
  then have "snd (hSiteEnroll a 7 ''new'' ''ab'' ''s1'' []) = Answer (1, ''new'')"
    by (auto simp: makeEnrollCode_def hSiteEnroll_def listSites_def upd_site_def demo_def demo_site_def normaliseCode_def
        newEnrollCode_def enrollAlphabet_def getSite_def get_site_def upper_def to_upper_def trim_space_def Let_def
        code_expired_def enrollWindow_def stamp_of_def since_def hours_def nsec_def str_simps char_of_def bit_0
        split: option.splits)
  then obtain a' where h: "hSiteEnroll a 7 ''new'' ''ab'' (sh_name half_writable) [] = (a', Answer (1, ''new''))"
    by (cases "hSiteEnroll a 7 ''new'' ''ab'' ''s1'' []") (simp add: half_writable_def)
  have d: "distinct (map s_id (a_sites a))"
    using m by (auto simp: makeEnrollCode_def upd_site_def sites.keys_upd demo_def Let_def split: option.splits)
  have s: "siteIDPath ''/x/y'' \<noteq> ''/x/y''" "normaliseCode ''ab'' \<noteq> []" "trim_space ''new'' = ''new''" by code_simp+
  obtain r h' where st: "start_site (\<lambda>c n. heard_enrolment (snd (hSiteEnroll a 7 ''new'' c n []))) ''http://c'' 0 ''ab'' ''/x/y'' half_writable = (r, h')" by force
  have "sh_files half_writable ''/x/y'' = None" "\<not> sh_writable half_writable ''/x/y''" by (simp_all add: half_writable_def)
  thus ?thesis using code_used_up [OF d h _ _ st _ _ s(2,3,1)] h st
    by (intro exI [of _ a] exI [of _ a']) (auto simp: half_writable_def)
qed

end
