(* ===== verification/Board.thy ===== *)
theory Board
  imports SiteStart "HOL-Library.Word"
begin

text \<open>
  What a blade is made of, as the agent and the installer read it
  (\<^verbatim>\<open>src/agent/hardware.go\<close>, of which \<^verbatim>\<open>src/installer/hardware.go\<close> is a copy, and the facts of
  \<^verbatim>\<open>src/agent/collect.go\<close>): the revision code taken apart bit by bit, the boot order out of the
  configuration of the bootloader, the two block devices, and the facts that carry them to the
  centre. The files, the directories and what programs print are a record of readings; so are the
  two conversions of dates.
\<close>

unbundle bit_operations_syntax

section \<open>Readings\<close>

record readings =
  rd_file :: "string \<Rightarrow> string option"
  rd_dir :: "string \<Rightarrow> string list option"
  rd_program :: "string list \<Rightarrow> string option"
  rd_found :: "string \<Rightarrow> bool"
  rd_active :: "string \<Rightarrow> bool"
  rd_day :: "nat \<Rightarrow> string"
  rd_date :: "string \<Rightarrow> string option"
  rd_release :: string
  rd_machine :: string

definition read_text :: "readings \<Rightarrow> string \<Rightarrow> string" where
  "read_text h p = (case rd_file h p of None \<Rightarrow> [] | Some s \<Rightarrow> s)"

definition there :: "readings \<Rightarrow> string \<Rightarrow> bool" where
  "there h p \<longleftrightarrow> rd_file h p \<noteq> None \<or> rd_dir h p \<noteq> None"

definition cut_tail :: "string \<Rightarrow> string" where "cut_tail s = trim_right [CHR 0x00, LF, CHR '' ''] s"

definition firstLine :: "readings \<Rightarrow> string \<Rightarrow> string" where
  "firstLine h p = trim_space (takeWhile (\<lambda>c. c \<noteq> LF) (cut_tail (read_text h p)))"

definition dtString :: "readings \<Rightarrow> string \<Rightarrow> string" where
  "dtString h p = cut_tail (read_text h p)"

definition big_endian :: "string \<Rightarrow> 32 word" where
  "big_endian b = (push_bit 24 (of_char (b ! 0)) OR push_bit 16 (of_char (b ! 1)) OR push_bit 8 (of_char (b ! 2)) OR of_char (b ! 3))"

definition dtUint32 :: "readings \<Rightarrow> string \<Rightarrow> 32 word option" where
  "dtUint32 h p = (case rd_file h p of None \<Rightarrow> None | Some b \<Rightarrow> if length b < 4 then None else Some (big_endian b))"

section \<open>The revision code\<close>

definition hex_digit_val :: "char \<Rightarrow> nat" where
  "hex_digit_val c = (case hex_val (to_lower c) of Some d \<Rightarrow> d | None \<Rightarrow> 0)"

definition hex_number :: "string \<Rightarrow> nat" where
  "hex_number s = fold (\<lambda>c n. n * 16 + hex_digit_val c) s 0"

text \<open>\<^verbatim>\<open>strconv.ParseUint\<close> of 64 bits in base 16.\<close>

definition parse_hex :: "string \<Rightarrow> 64 word option" where
  "parse_hex s = (if s = [] \<or> \<not> list_all is_hex s \<or> hex_number s \<ge> 2 ^ 64 then None else Some (word_of_nat (hex_number s)))"

fun show_hex :: "nat \<Rightarrow> string" where
  "show_hex n = (if n < 16 then [digit n] else show_hex (n div 16) @ [digit (n mod 16)])"

declare show_hex.simps [simp del]

definition hex_pad2 :: "nat \<Rightarrow> string" where
  "hex_pad2 n = (if n < 16 then ''0'' @ show_hex n else show_hex n)"

record board =
  bd_model :: string
  bd_revision :: string
  bd_soc :: string
  bd_maker :: string
  bd_ram :: nat

definition board_types :: "(nat \<times> string) list" where
  "board_types =
     [(0x00, ''Model A''), (0x01, ''Model B''), (0x02, ''Model A+''), (0x03, ''Model B+''), (0x04, ''Pi 2 Model B''), (0x06, ''Compute Module 1''),
      (0x08, ''Pi 3 Model B''), (0x09, ''Zero''), (0x0a, ''Compute Module 3''), (0x0c, ''Zero W''), (0x0d, ''Pi 3 Model B+''), (0x0e, ''Pi 3 Model A+''),
      (0x10, ''Compute Module 3+''), (0x11, ''Pi 4 Model B''), (0x12, ''Zero 2 W''), (0x13, ''Pi 400''), (0x14, ''Compute Module 4''),
      (0x15, ''Compute Module 4S''), (0x17, ''Pi 5''), (0x18, ''Compute Module 5''), (0x19, ''Pi 500''), (0x1a, ''Compute Module 5 Lite'')]"

definition board_socs :: "(nat \<times> string) list" where
  "board_socs = [(0, ''BCM2835''), (1, ''BCM2836''), (2, ''BCM2837''), (3, ''BCM2711''), (4, ''BCM2712'')]"

definition board_makers :: "(nat \<times> string) list" where
  "board_makers = [(0, ''Sony UK''), (1, ''Egoman''), (2, ''Embest''), (3, ''Sony Japan''), (4, ''Embest''), (5, ''Stadium'')]"

definition board_ram :: "(nat \<times> nat) list" where
  "board_ram = [(0, 256), (1, 512), (2, 1024), (3, 2048), (4, 4096), (5, 8192), (6, 16384)]"

definition or_none :: "'a option \<Rightarrow> 'a \<Rightarrow> 'a" where "or_none x d = (case x of None \<Rightarrow> d | Some y \<Rightarrow> y)"

definition decodeRevision :: "string \<Rightarrow> board option" where
  "decodeRevision s =
     (case parse_hex (trim_space s) of
        None \<Rightarrow> None
      | Some v \<Rightarrow>
          if v AND push_bit 23 1 = 0 then None
          else (let t = unat (drop_bit 4 v AND 0xff); m = or_none (map_of board_types t) []
                in Some \<lparr>bd_model = (if m = [] then ''unknown type 0x'' @ hex_pad2 t else m),
                     bd_revision = ''1.'' @ show_nat (unat (v AND 0xf)),
                     bd_soc = or_none (map_of board_socs (unat (drop_bit 12 v AND 0xf))) [],
                     bd_maker = or_none (map_of board_makers (unat (drop_bit 16 v AND 0xf))) [],
                     bd_ram = or_none (map_of board_ram (unat (drop_bit 20 v AND 0x7))) 0\<rparr>))"

fun revision_line :: "string list \<Rightarrow> string option" where
  "revision_line [] = None"
| "revision_line (l # ls) =
     (case (if has_prefix l ''Revision'' then cut CHR '':'' l else None) of
        Some (k, v) \<Rightarrow> Some (trim_space v) | None \<Rightarrow> revision_line ls)"

definition revisionCode :: "readings \<Rightarrow> string" where
  "revisionCode h =
     (case revision_line (split_lines (read_text h ''/proc/cpuinfo'')) of
        Some v \<Rightarrow> v
      | None \<Rightarrow>
          (case dtUint32 h ''/proc/device-tree/system/linux,revision'' of
             None \<Rightarrow> [] | Some v \<Rightarrow> if v = 0 then [] else show_hex (unat v)))"

section \<open>The bootloader\<close>

definition bootModeName :: "32 word \<Rightarrow> string" where
  "bootModeName m =
     (if m = 1 then ''sd'' else if m = 2 then ''network'' else if m = 3 then ''rpiboot'' else if m = 4 then ''usb-msd''
      else if m = 5 then ''usb-bcm'' else if m = 6 then ''nvme'' else if m = 7 then ''http'' else ''mode '' @ show_nat (unat m))"

text \<open>The value of a line that sets \<^verbatim>\<open>BOOT_ORDER\<close>: up to the first blank or comment.\<close>

definition order_value :: "string \<Rightarrow> string option" where
  "order_value l0 =
     (let l = trim_space l0
      in if l = [] \<or> has_prefix l ''#'' then None
         else case cut CHR ''='' l of
                None \<Rightarrow> None
              | Some (k, v0) \<Rightarrow>
                  if trim_space k \<noteq> ''BOOT_ORDER'' then None
                  else Some (lower (trim_prefix (lower (trim_space (takeWhile (\<lambda>c. c \<notin> {CHR '' '', CHR 0x09, CHR ''#''}) (trim_space v0)))) ''0x'')))"

definition parseBootOrder :: "string \<Rightarrow> string" where
  "parseBootOrder s =
     (case List.map_filter order_value (split_lines s) of
        [] \<Rightarrow> []
      | v # _ \<Rightarrow> if v = [] \<or> parse_hex v = None then [] else ''0x'' @ v)"

definition bootOrder :: "readings \<Rightarrow> string" where
  "bootOrder h =
     (case filter (\<lambda>v. v \<noteq> []) (map parseBootOrder (List.map_filter (rd_program h) [[''vcgencmd'', ''bootloader_config''], [''rpi-eeprom-config'']])) of
        [] \<Rightarrow> [] | v # _ \<Rightarrow> v)"

text \<open>The date line and the hash of the version line.\<close>

definition vc_line :: "string \<Rightarrow> string \<times> string \<Rightarrow> string \<times> string" where
  "vc_line l0 = (\<lambda>(date, hash).
     (let l = trim_space l0; f = words [] l
      in if has_prefix l ''version '' then (date, if length f > 1 \<and> length (f ! 1) \<ge> 8 then take 8 (f ! 1) else hash)
         else if date = [] \<and> l \<noteq> [] \<and> \<not> has_prefix l ''Copyright'' then (l, hash)
         else (date, hash)))"

definition vcgencmdVersion :: "readings \<Rightarrow> string" where
  "vcgencmdVersion h =
     (case rd_program h [''vcgencmd'', ''version''] of
        None \<Rightarrow> []
      | Some out \<Rightarrow>
          (let (date0, hash) = fold vc_line (split_lines out) ([], []); date = or_none (rd_date h date0) date0
           in if date \<noteq> [] \<and> hash \<noteq> [] then date @ '' ('' @ hash @ '')'' else if date \<noteq> [] then date else hash))"

definition put_text :: "string \<Rightarrow> string \<Rightarrow> jmap \<Rightarrow> jmap" where
  "put_text k v m = (if v \<noteq> [] then AList.update k (JStr v) m else m)"

definition put_maybe :: "string \<Rightarrow> string option \<Rightarrow> jmap \<Rightarrow> jmap" where
  "put_maybe k v m = (case v of None \<Rightarrow> m | Some x \<Rightarrow> AList.update k (JStr x) m)"

definition firmware :: "readings \<Rightarrow> jmap" where
  "firmware h =
     (let v = dtString h ''/proc/device-tree/chosen/bootloader/version'';
          m1 = put_text ''bootloader'' v [];
          m2 = put_text ''bootloader_short'' (if length v > 8 then take 8 v else []) m1;
          m3 = put_maybe ''bootloader_built'' (case dtUint32 h ''/proc/device-tree/chosen/bootloader/build-timestamp'' of
                  None \<Rightarrow> None | Some ts \<Rightarrow> if ts > 0 then Some (rd_day h (unat ts)) else None) m2;
          m4 = put_maybe ''boot_mode'' (map_option bootModeName (dtUint32 h ''/proc/device-tree/chosen/bootloader/boot-mode'')) m3
      in put_text ''boot_order'' (bootOrder h) (put_text ''vc_firmware'' (vcgencmdVersion h) m4))"

section \<open>Block devices, processors, networks\<close>

definition in_sys :: "string \<Rightarrow> string \<Rightarrow> string" where "in_sys dev p = ''/sys/block/'' @ dev @ ''/'' @ p"

definition blockSize :: "readings \<Rightarrow> string \<Rightarrow> int \<times> string" where
  "blockSize h dev =
     (case atoi (firstLine h (in_sys dev ''size'')) of
        None \<Rightarrow> (0, [])
      | Some n \<Rightarrow>
          if n \<le> 0 then (0, [])
          else (let m = firstLine h (in_sys dev ''device/model'')
                in (sint (word_of_int (n * 512) :: 64 word), trim_space (if m = [] then firstLine h (in_sys dev ''device/name'') else m))))"

definition mmcKind :: "readings \<Rightarrow> string" where
  "mmcKind h =
     (let t = upper (firstLine h ''/sys/block/mmcblk0/device/type'')
      in if t = ''MMC'' then ''emmc'' else if t = ''SD'' then ''sd''
         else if there h ''/sys/block/mmcblk0boot0'' then ''emmc'' else ''sd'')"

definition onlineCPUs :: "readings \<Rightarrow> nat" where
  "onlineCPUs h =
     (case rd_dir h ''/sys/devices/system/cpu'' of
        None \<Rightarrow> 0 | Some es \<Rightarrow> length (filter (\<lambda>n. has_prefix n ''cpu'' \<and> atoi (drop 3 n) \<noteq> None) es))"

definition maxMHz :: "readings \<Rightarrow> int" where
  "maxMHz h = (case atoi (firstLine h ''/sys/devices/system/cpu/cpu0/cpufreq/cpuinfo_max_freq'') of None \<Rightarrow> 0 | Some k \<Rightarrow> (if k < 0 then - ((- k) div 1000) else k div 1000))"

definition hasWireless :: "readings \<Rightarrow> bool" where
  "hasWireless h = (case rd_dir h ''/sys/class/net'' of None \<Rightarrow> False | Some es \<Rightarrow> list_ex (\<lambda>n. has_prefix n ''wlan'') es)"

definition primaryMAC :: "readings \<Rightarrow> string" where
  "primaryMAC h =
     (case filter (\<lambda>m. m \<noteq> []) (map (\<lambda>dev. firstLine h (''/sys/class/net/'' @ dev @ ''/address'')) [''eth0'', ''end0'']) of [] \<Rightarrow> [] | m # _ \<Rightarrow> m)"

section \<open>The facts\<close>

definition put_number :: "string \<Rightarrow> int \<Rightarrow> jmap \<Rightarrow> jmap" where
  "put_number k n m = AList.update k (JNum (of_int n)) m"

definition board_facts :: "readings \<Rightarrow> jmap" where
  "board_facts h =
     (let rev = revisionCode h
      in if rev = [] then []
         else case decodeRevision rev of
                None \<Rightarrow> [(''board_revision'', JStr rev)]
              | Some b \<Rightarrow>
                  [(''board_revision'', JStr rev), (''board'', JStr (bd_model b)), (''board_rev'', JStr (bd_revision b)),
                   (''soc'', JStr (bd_soc b)), (''maker'', JStr (bd_maker b))]
                  @ (if bd_ram b > 0 then [(''ram_mb'', JNum (of_nat (bd_ram b)))] else []))"

text \<open>What sits on the card interface, and the NVMe.\<close>

definition card_facts :: "readings \<Rightarrow> jmap \<Rightarrow> jmap" where
  "card_facts h m =
     (case blockSize h ''mmcblk0'' of (sz, name) \<Rightarrow>
        if sz > 0 then
          (let kind = mmcKind h;
               m1 = put_text ''mmc_model'' name (put_number ''mmc_bytes'' sz (AList.update ''mmc_kind'' (JStr kind) m))
           in if kind = ''sd'' then put_number ''emmc_bytes'' 0 (put_number ''sd_bytes'' sz m1)
              else put_text ''emmc_model'' name (put_number ''emmc_bytes'' sz m1))
        else put_number ''emmc_bytes'' 0 m)"

definition nvme_facts :: "readings \<Rightarrow> jmap \<Rightarrow> jmap" where
  "nvme_facts h m =
     (case blockSize h ''nvme0n1'' of (sz, name) \<Rightarrow>
        if sz > 0 then put_text ''nvme_model'' name (put_number ''nvme_bytes'' sz m) else m)"

definition put_all :: "jmap \<Rightarrow> jmap \<Rightarrow> jmap" where
  "put_all new m = fold (\<lambda>(k, v). AList.update k v) new m"

definition hardware :: "readings \<Rightarrow> jmap" where
  "hardware h =
     (let m1 = board_facts h;
          m2 = (if onlineCPUs h > 0 then put_number ''cpu_cores'' (int (onlineCPUs h)) m1 else m1);
          m3 = (if maxMHz h > 0 then put_number ''cpu_mhz'' (maxMHz h) m2 else m2);
          m4 = nvme_facts h (card_facts h m3);
          m5 = put_all (firmware h) (AList.update ''wireless'' (JBool (hasWireless h)) m4)
      in put_text ''eth_mac'' (primaryMAC h) m5)"

section \<open>The system on it\<close>

definition family :: "string \<Rightarrow> string \<Rightarrow> string" where
  "family i like =
     (if i = ''debian'' \<or> i = ''ubuntu'' \<or> i = ''dietpi'' \<or> str_contains like ''debian'' \<or> str_contains like ''ubuntu'' then ''debian''
      else if i = ''fedora'' \<or> str_contains like ''rhel'' \<or> str_contains like ''fedora'' then ''rhel''
      else if i = ''alpine'' then ''alpine'' else i)"

definition initSystem :: "readings \<Rightarrow> string" where
  "initSystem h = (if there h ''/run/systemd/system'' then ''systemd'' else if there h ''/sbin/openrc'' then ''openrc'' else ''unknown'')"

definition packageManager :: "readings \<Rightarrow> string" where
  "packageManager h = (case filter (rd_found h) [''apt-get'', ''dnf'', ''pacman'', ''apk''] of [] \<Rightarrow> ''unknown'' | p # _ \<Rightarrow> p)"

definition netBackend :: "readings \<Rightarrow> string" where
  "netBackend h =
     (if there h ''/etc/netplan'' \<and> rd_dir h ''/etc/netplan'' \<noteq> None \<and> rd_dir h ''/etc/netplan'' \<noteq> Some [] then ''netplan''
      else if rd_active h ''NetworkManager'' then ''NetworkManager'' else if rd_active h ''systemd-networkd'' then ''networkd''
      else if there h ''/etc/network/interfaces'' then ''ifupdown'' else ''unknown'')"

definition bootPath :: "readings \<Rightarrow> string" where
  "bootPath h = (if there h ''/boot/firmware/config.txt'' then ''/boot/firmware'' else ''/boot'')"

section \<open>Whether anybody can get in\<close>

definition sshServers :: "string list" where "sshServers = [''sshd'', ''dropbear'']"

definition sshdInstalled :: "readings \<Rightarrow> bool" where
  "sshdInstalled h = list_ex (\<lambda>d. list_ex (\<lambda>n. there h (d @ ''/'' @ n)) sshServers) [''/usr/sbin'', ''/sbin'', ''/usr/bin'', ''/bin'']"

definition sshdRunning :: "readings \<Rightarrow> bool" where
  "sshdRunning h =
     (case rd_dir h ''/proc'' of
        None \<Rightarrow> False
      | Some es \<Rightarrow> list_ex (\<lambda>n. rd_dir h (''/proc/'' @ n) \<noteq> None \<and> n \<noteq> [] \<and> is_digit (hd n)
                      \<and> trim_space (read_text h (''/proc/'' @ n @ ''/comm'')) \<in> set sshServers) es)"

definition listens :: "nat \<Rightarrow> string \<Rightarrow> bool" where
  "listens port l =
     (let fs = words [] l
      in length fs \<ge> 4 \<and> fs ! 3 = ''0A'' \<and> (case cut CHR '':'' (fs ! 1) of None \<Rightarrow> False | Some (a, p) \<Rightarrow> upper p = hex4 port))"

definition listeningOn :: "readings \<Rightarrow> nat \<Rightarrow> bool" where
  "listeningOn h port = list_ex (\<lambda>f. list_ex (listens port) (split_lines (read_text h f))) [''/proc/net/tcp'', ''/proc/net/tcp6'']"

definition hostKeys :: "readings \<Rightarrow> nat option" where
  "hostKeys h =
     map_option (\<lambda>es. length (filter (\<lambda>n. has_prefix n ''ssh_host_'' \<and> has_suffix n ''_key'' \<and> read_text h (''/etc/ssh/'' @ n) \<noteq> []) es)) (rd_dir h ''/etc/ssh'')"

definition sshAccess :: "readings \<Rightarrow> jmap" where
  "sshAccess h =
     [(''ssh_present'', JBool (sshdInstalled h)), (''ssh_running'', JBool (sshdRunning h)), (''ssh_listening'', JBool (listeningOn h 22))]
     @ (case hostKeys h of None \<Rightarrow> [] | Some n \<Rightarrow> [(''ssh_hostkeys'', JNum (of_nat n))])"

section \<open>All of it\<close>

text \<open>The machine as the modules of the agent that apply a configuration see it gives the identity of
  the system; \<open>w\<close> is that machine.\<close>

definition base_facts :: "readings \<Rightarrow> os \<Rightarrow> string \<Rightarrow> jmap" where
  "base_facts h w agent_version =
     (let rel = parseKV (readFileStr w ''/etc/os-release'');
          sys = (case dietPi w of Some (i, n, v) \<Rightarrow> (i, n, v) | None \<Rightarrow> (kv rel ''ID'', kv rel ''PRETTY_NAME'', kv rel ''VERSION_ID''))
      in [(''os_id'', JStr (fst sys)), (''os_version_id'', JStr (snd (snd sys))), (''os_name'', JStr (fst (snd sys))),
          (''os_base'', JStr (kv rel ''PRETTY_NAME'')), (''os_family'', JStr (family (kv rel ''ID'') (kv rel ''ID_LIKE''))),
          (''init'', JStr (initSystem h)), (''pkg_mgr'', JStr (packageManager h)), (''net_backend'', JStr (netBackend h)),
          (''boot_path'', JStr (bootPath h)), (''kernel'', JStr (rd_release h)), (''arch'', JStr (rd_machine h)),
          (''model'', JStr (trim_right [CHR 0x00] (read_text h ''/proc/device-tree/model''))), (''serial'', JStr (own_serial w)),
          (''agent_version'', JStr agent_version), (''reboot_required'', JBool (rebootRequired w))])"

definition collectFacts :: "readings \<Rightarrow> os \<Rightarrow> string \<Rightarrow> jmap" where
  "collectFacts h w agent_version = put_all (sshAccess h) (put_all (hardware h) (base_facts h w agent_version))"

section \<open>The bits of a revision code\<close>

lemma show_hex_last: "show_hex n = (if n < 16 then [digit n] else show_hex (n div 16) @ [digit (n mod 16)])"
  by (rule show_hex.simps)

lemma hex_digit_digit: "d < 16 \<Longrightarrow> hex_digit_val (digit d) = d"
  by (simp add: hex_digit_val_def hex_val_digit)

lemma hex_number_show: "hex_number (show_hex n) = n"
proof (induction n rule: show_hex.induct)
  case (1 n)
  show ?case
  proof (cases "n < 16")
    case True
    thus ?thesis by (subst show_hex_last) (simp add: hex_number_def hex_digit_digit)
  next
    case False
    hence "hex_number (show_hex n) = n div 16 * 16 + n mod 16"
      using 1 by (subst show_hex_last) (simp add: hex_number_def hex_digit_digit)
    thus ?thesis by simp
  qed
qed

lemma is_hex_digit: "d < 16 \<Longrightarrow> is_hex (digit d)"
  by (auto simp: is_hex_def is_digit_def digit_def)

lemma show_hex_chars: "list_all is_hex (show_hex n) \<and> show_hex n \<noteq> []"
proof (induction n rule: show_hex.induct)
  case (1 n)
  thus ?case by (subst (1 2) show_hex_last) (auto simp: is_hex_digit)
qed

lemma hex_not_space: "is_hex c \<Longrightarrow> \<not> is_space c"
  by (auto simp: is_hex_def is_digit_def is_space_def)

lemma parse_show_hex: "n < 2 ^ 64 \<Longrightarrow> parse_hex (trim_space (show_hex n)) = Some (word_of_nat n)"
proof -
  assume n: "n < 2 ^ 64"
  have "list_all (\<lambda>c. \<not> is_space c) (show_hex n)" using show_hex_chars [of n] hex_not_space by (auto simp: list_all_iff)
  thus ?thesis using n show_hex_chars [of n] by (simp add: trim_clean parse_hex_def hex_number_show)
qed

lemma field_of:
  fixes n :: nat
  assumes "n < 2 ^ 64"
  shows "unat (drop_bit k (word_of_nat n :: 64 word) AND mask m) = n div 2 ^ k mod 2 ^ m"
proof -
  have "unat (word_of_nat n :: 64 word) = n" using assms by (simp add: unat_of_nat)
  hence "unat (take_bit m (drop_bit k (word_of_nat n :: 64 word))) = n div 2 ^ k mod 2 ^ m"
    by (simp only: unsigned_take_bit_eq unat_drop_bit_eq) (simp only: take_bit_eq_mod drop_bit_eq_div)
  thus ?thesis by (simp only: take_bit_eq_mask)
qed

lemma style_bit:
  assumes "n < 2 ^ 64" and "n div 2 ^ 23 mod 2 ^ 1 = 1"
  shows "(word_of_nat n :: 64 word) AND push_bit 23 1 \<noteq> 0"
proof
  let ?w = "word_of_nat n :: 64 word"
  assume z: "?w AND push_bit 23 1 = 0"
  have "unat ?w = n" using assms(1) by (simp add: unat_of_nat)
  moreover have "bit n 23" using assms(2) unfolding bit_iff_odd by (simp add: odd_iff_mod_2_eq_one)
  ultimately have "bit (unat ?w) 23" by simp
  hence "bit ?w 23" by (simp only: bit_unsigned_iff)
  moreover have "bit (push_bit 23 1 :: 64 word) 23" by (simp add: bit_push_bit_iff)
  ultimately have "bit (?w AND push_bit 23 1) 23" by (simp only: bit_and_iff)
  thus False by (simp only: z bit_0_eq bot_apply bot_bool_def)
qed

text \<open>A revision code from its fields: the revision of the board, its type, its processor, who made it,
  and the step of its memory.\<close>

definition revision_of :: "nat \<Rightarrow> nat \<Rightarrow> nat \<Rightarrow> nat \<Rightarrow> nat \<Rightarrow> nat" where
  "revision_of r t s k m = r + 2 ^ 4 * t + 2 ^ 12 * s + 2 ^ 16 * k + 2 ^ 20 * m + 2 ^ 23"

lemma named_types: "list_all (\<lambda>e. snd e \<noteq> []) board_types"
  by (simp add: board_types_def)

lemma revision_fields:
  assumes "r < 16" and "t < 256" and "s < 16" and "k < 16" and "m < 8"
  defines "n \<equiv> revision_of r t s k m"
  shows "n div 2 ^ 0 mod 2 ^ 4 = r \<and> n div 2 ^ 4 mod 2 ^ 8 = t \<and> n div 2 ^ 12 mod 2 ^ 4 = s \<and> n div 2 ^ 16 mod 2 ^ 4 = k \<and> n div 2 ^ 20 mod 2 ^ 3 = m \<and> n div 2 ^ 23 mod 2 ^ 1 = 1"
proof -
  define a4 where "a4 = m + 8"
  define a3 where "a3 = k + 16 * a4"
  define a2 where "a2 = s + 16 * a3"
  define a1 where "a1 = t + 256 * a2"
  have n: "n = r + 16 * a1" by (simp add: n_def revision_of_def a1_def a2_def a3_def a4_def)
  have d1: "n div 16 = a1" "n mod 16 = r" using assms(1) by (simp_all add: n)
  have d2: "a1 div 256 = a2" "a1 mod 256 = t" using assms(2) by (simp_all add: a1_def)
  have d3: "a2 div 16 = a3" "a2 mod 16 = s" using assms(3) by (simp_all add: a2_def)
  have d4: "a3 div 16 = a4" "a3 mod 16 = k" using assms(4) by (simp_all add: a3_def)
  have d5: "a4 div 8 = 1" "a4 mod 8 = m" using assms(5) by (simp_all add: a4_def)
  have "n div 4096 = a2" using div_mult2_eq [of n 16 256] d1 d2 by simp
  moreover from this have "n div 65536 = a3" using div_mult2_eq [of n 4096 16] d3 by simp
  moreover from this have "n div 1048576 = a4" using div_mult2_eq [of n 65536 16] d4 by simp
  moreover from this have "n div 8388608 = 1" using div_mult2_eq [of n 1048576 8] d5 by simp
  ultimately show ?thesis using d1 d2(2) d3(2) d4(2) d5(2) by simp
qed

text \<open>A revision code of the new style is taken apart into exactly the fields it was put together
  from, whatever they are: the name of the type or its number, the revision, processor, maker and
  memory.\<close>

theorem decodeRevision_fields:
  assumes "r < 16" and "t < 256" and "s < 16" and "k < 16" and "m < 8"
  shows "decodeRevision (show_hex (revision_of r t s k m)) =
    Some \<lparr>bd_model = or_none (map_of board_types t) (''unknown type 0x'' @ hex_pad2 t), bd_revision = ''1.'' @ show_nat r,
      bd_soc = or_none (map_of board_socs s) [], bd_maker = or_none (map_of board_makers k) [], bd_ram = or_none (map_of board_ram m) 0\<rparr>"
proof -
  let ?n = "revision_of r t s k m" and ?v = "word_of_nat (revision_of r t s k m) :: 64 word"
  have n: "?n < 2 ^ 64" using assms by (simp add: revision_of_def)
  have f: "?n div 2 ^ 0 mod 2 ^ 4 = r" "?n div 2 ^ 4 mod 2 ^ 8 = t" "?n div 2 ^ 12 mod 2 ^ 4 = s" "?n div 2 ^ 16 mod 2 ^ 4 = k" "?n div 2 ^ 20 mod 2 ^ 3 = m"
    "?n div 2 ^ 23 mod 2 ^ 1 = 1"
    using revision_fields [OF assms] by blast+
  have masks: "(0xff :: 64 word) = mask 8" "(0xf :: 64 word) = mask 4" "(0x7 :: 64 word) = mask 3" by (simp_all add: mask_eq_exp_minus_1)
  note u = field_of [OF n]
  have fields: "unat (drop_bit 4 ?v AND 0xff) = t" "unat (?v AND 0xf) = r" "unat (drop_bit 12 ?v AND 0xf) = s" "unat (drop_bit 16 ?v AND 0xf) = k"
    "unat (drop_bit 20 ?v AND 0x7) = m"
    unfolding masks using trans [OF u [of 4 8] f(2)] trans [OF u [of 0 4, unfolded drop_bit_0 id_apply] f(1)] trans [OF u [of 12 4] f(3)]
      trans [OF u [of 16 4] f(4)] trans [OF u [of 20 3] f(5)] by blast+
  have new: "?v AND push_bit 23 1 \<noteq> 0" by (rule style_bit [OF n f(6)])
  have "or_none (map_of board_types t) [] \<noteq> [] \<or> map_of board_types t = None"
    using map_of_SomeD [of board_types t] named_types by (cases "map_of board_types t") (auto simp: or_none_def list_all_iff)
  hence name: "(if or_none (map_of board_types t) [] = [] then ''unknown type 0x'' @ hex_pad2 t else or_none (map_of board_types t) [])
      = or_none (map_of board_types t) (''unknown type 0x'' @ hex_pad2 t)"
    by (cases "map_of board_types t") (simp_all add: or_none_def)
  show ?thesis unfolding decodeRevision_def parse_show_hex [OF n] option.case if_not_P [OF new] Let_def fields name ..
qed

text \<open>A Compute Module 4 with eight gigabytes, and a type nobody knows yet.\<close>

theorem decodeRevision_fields_witness:
  "decodeRevision ''d03141'' = Some \<lparr>bd_model = ''Compute Module 4'', bd_revision = ''1.1'', bd_soc = ''BCM2711'', bd_maker = ''Sony UK'', bd_ram = 8192\<rparr>
   \<and> decodeRevision ''8033f0'' = Some \<lparr>bd_model = ''unknown type 0x3f'', bd_revision = ''1.0'', bd_soc = ''BCM2711'', bd_maker = ''Sony UK'', bd_ram = 256\<rparr>"
proof -
  have g: "digit 13 = CHR ''d''" "digit 0 = CHR ''0''" "digit 3 = CHR ''3''" "digit 1 = CHR ''1''" "digit 4 = CHR ''4''" "digit 8 = CHR ''8''" "digit 15 = CHR ''f''"
    by code_simp+
  have e: "show_hex (revision_of 1 20 3 0 5) = ''d03141''" "show_hex (revision_of 0 63 3 0 0) = ''8033f0''" "hex_pad2 63 = ''3f''"
    using g by (simp_all add: revision_of_def show_hex_last hex_pad2_def)
  have f: "show_nat 1 = ''1''" "show_nat 0 = ''0''" by code_simp+
  have m: "map_of board_types 20 = Some ''Compute Module 4''" "map_of board_types 63 = None" "map_of board_socs 3 = Some ''BCM2711''"
    "map_of board_makers 0 = Some ''Sony UK''" "map_of board_ram 5 = Some 8192" "map_of board_ram 0 = Some 256"
    by (simp_all add: board_types_def board_socs_def board_makers_def board_ram_def)
  have d: "decodeRevision (show_hex (revision_of 1 20 3 0 5)) = Some \<lparr>bd_model = or_none (map_of board_types 20) (''unknown type 0x'' @ hex_pad2 20), bd_revision = ''1.'' @ show_nat 1,
      bd_soc = or_none (map_of board_socs 3) [], bd_maker = or_none (map_of board_makers 0) [], bd_ram = or_none (map_of board_ram 5) 0\<rparr>"
    "decodeRevision (show_hex (revision_of 0 63 3 0 0)) = Some \<lparr>bd_model = or_none (map_of board_types 63) (''unknown type 0x'' @ hex_pad2 63), bd_revision = ''1.'' @ show_nat 0,
      bd_soc = or_none (map_of board_socs 3) [], bd_maker = or_none (map_of board_makers 0) [], bd_ram = or_none (map_of board_ram 0) 0\<rparr>"
    by (rule decodeRevision_fields; simp)+
  show ?thesis using d unfolding e f m or_none_def option.case append.simps by blast
qed

section \<open>What the centre makes of it\<close>

lemma put_same [simp]: "k' \<noteq> k \<Longrightarrow> map_of (put_text k' v m) k = map_of m k" "k' \<noteq> k \<Longrightarrow> map_of (put_number k' n m) k = map_of m k"
  "map_of (put_number k n m) k = Some (JNum (of_int n))"
  by (simp_all add: put_text_def put_number_def update_conv')

lemma put_all_same: "k \<notin> fst ` set new \<Longrightarrow> map_of (put_all new m) k = map_of m k"
  unfolding put_all_def by (induction new arbitrary: m) (auto simp: update_conv')

lemma put_all_new: "distinct (map fst new) \<Longrightarrow> k \<in> fst ` set new \<Longrightarrow> map_of (put_all new m) k = map_of new k"
proof (induction new arbitrary: m)
  case (Cons e new)
  obtain k' v where e: "e = (k', v)" by force
  show ?case
  proof (cases "k = k'")
    case True
    hence "k \<notin> fst ` set new" using Cons.prems(1) e by auto
    thus ?thesis using put_all_same [of k new "AList.update k' v m"] True e by (simp add: put_all_def update_conv')
  next
    case False
    hence "k \<in> fst ` set new" using Cons.prems(2) e by auto
    thus ?thesis using Cons.IH [of "AList.update k' v m"] Cons.prems(1) False e by (simp add: put_all_def)
  qed
qed simp

lemma put_distinct: "distinct (map fst m) \<Longrightarrow> distinct (map fst (put_text k v m)) \<and> distinct (map fst (put_number k n m))"
  by (simp add: put_text_def put_number_def distinct_update)

lemma put_all_distinct: "distinct (map fst m) \<Longrightarrow> distinct (map fst (put_all new m))"
  unfolding put_all_def by (induction new arbitrary: m) (auto simp: distinct_update)

definition device_keys :: "string set" where
  "device_keys = {''nvme_bytes'', ''emmc_bytes'', ''sd_bytes'', ''mmc_kind''}"

lemma put_none: "k' \<noteq> k \<Longrightarrow> map_of m k = None \<Longrightarrow> map_of (put_text k' v m) k = None"
  "k' \<noteq> k \<Longrightarrow> map_of m k = None \<Longrightarrow> map_of (put_number k' n m) k = None" "k' \<noteq> k \<Longrightarrow> map_of m k = None \<Longrightarrow> map_of (AList.update k' j m) k = None"
  "k' \<noteq> k \<Longrightarrow> map_of m k = None \<Longrightarrow> map_of (put_maybe k' x m) k = None"
  by (simp_all add: put_maybe_def update_conv' split: option.split)

lemma firmware_keys:
  assumes "k \<in> device_keys"
  shows "k \<notin> fst ` set (firmware h)"
proof -
  have other: "''bootloader'' \<noteq> k" "''bootloader_short'' \<noteq> k" "''bootloader_built'' \<noteq> k" "''boot_mode'' \<noteq> k" "''vc_firmware'' \<noteq> k" "''boot_order'' \<noteq> k"
    using assms by (auto simp: device_keys_def)
  have "map_of (firmware h) k = None" unfolding firmware_def Let_def by (intro put_none other) simp
  thus ?thesis by (simp only: map_of_eq_None_iff) simp
qed

lemma ssh_keys: "k \<in> device_keys \<Longrightarrow> k \<notin> fst ` set (sshAccess h)"
  by (auto simp: device_keys_def sshAccess_def split: option.splits)

lemma board_keys: "k \<in> device_keys \<Longrightarrow> map_of (board_facts h) k = None"
  by (auto simp: device_keys_def board_facts_def Let_def split: option.split)

lemma put_cong: "map_of m k = map_of m' k \<Longrightarrow> map_of (put_text k' v m) k = map_of (put_text k' v m') k"
  "map_of m k = map_of m' k \<Longrightarrow> map_of (put_number k' n m) k = map_of (put_number k' n m') k"
  "map_of m k = map_of m' k \<Longrightarrow> map_of (AList.update k' j m) k = map_of (AList.update k' j m') k"
  by (simp_all add: put_text_def put_number_def update_conv')

lemma if_both: "map_of m k = map_of m' k \<Longrightarrow> map_of n k = map_of n' k \<Longrightarrow> map_of (if b then m else n) k = map_of (if b then m' else n') k"
  by simp

lemma card_cong: "map_of m k = map_of m' k \<Longrightarrow> map_of (card_facts h m) k = map_of (card_facts h m') k"
  by (cases "blockSize h ''mmcblk0''") (simp only: card_facts_def Let_def prod.case, intro put_cong if_both, assumption+)

lemma nvme_cong: "map_of m k = map_of m' k \<Longrightarrow> map_of (nvme_facts h m) k = map_of (nvme_facts h m') k"
  by (cases "blockSize h ''nvme0n1''") (simp only: nvme_facts_def prod.case, intro put_cong if_both, assumption+)

text \<open>The four facts the centre looks at, whatever else is reported.\<close>

lemma hardware_lookup:
  assumes "k \<in> device_keys"
  shows "map_of (hardware h) k = map_of (nvme_facts h (card_facts h [])) k"
proof -
  have other: "k \<noteq> ''eth_mac''" "k \<noteq> ''wireless''" "k \<noteq> ''cpu_mhz''" "k \<noteq> ''cpu_cores''" using assms by (auto simp: device_keys_def)
  define m3 where "m3 = (let m2 = (if onlineCPUs h > 0 then put_number ''cpu_cores'' (int (onlineCPUs h)) (board_facts h) else board_facts h)
      in if maxMHz h > 0 then put_number ''cpu_mhz'' (maxMHz h) m2 else m2)"
  have n: "map_of m3 k = None" using board_keys [OF assms] other by (simp add: m3_def Let_def)
  have step: "map_of (nvme_facts h (card_facts h m)) k = map_of (nvme_facts h (card_facts h [])) k" if "map_of m k = None" for m
    by (intro nvme_cong card_cong) (simp add: that)
  have "map_of (hardware h) k = map_of (nvme_facts h (card_facts h m3)) k"
    using other put_all_same [OF firmware_keys [OF assms]] by (simp add: hardware_def m3_def Let_def update_conv')
  thus ?thesis using step [OF n] by simp
qed

lemma hardware_distinct: "distinct (map fst (hardware h))"
proof -
  have "distinct (map fst (board_facts h))" by (auto simp: board_facts_def Let_def split: option.split)
  hence "distinct (map fst (nvme_facts h (card_facts h m)))" if "distinct (map fst m)" for m
    using that put_distinct by (auto simp: nvme_facts_def card_facts_def distinct_update Let_def split: prod.split)
  thus ?thesis using \<open>distinct (map fst (board_facts h))\<close> put_distinct put_all_distinct by (simp add: hardware_def distinct_update Let_def)
qed

lemma base_keys: "k \<in> device_keys \<Longrightarrow> map_of (base_facts h w v) k = None"
proof -
  have n: "map fst (base_facts h w v) = [''os_id'', ''os_version_id'', ''os_name'', ''os_base'', ''os_family'', ''init'', ''pkg_mgr'', ''net_backend'',
      ''boot_path'', ''kernel'', ''arch'', ''model'', ''serial'', ''agent_version'', ''reboot_required'']"
    by (simp add: base_facts_def Let_def)
  have "set (map fst (base_facts h w v)) \<inter> device_keys = {}" unfolding n device_keys_def by code_simp
  thus "k \<in> device_keys \<Longrightarrow> map_of (base_facts h w v) k = None" by (auto simp: map_of_eq_None_iff)
qed

lemma facts_lookup: "k \<in> device_keys \<Longrightarrow> map_of (collectFacts h w v) k = map_of (hardware h) k"
proof -
  assume k: "k \<in> device_keys"
  show ?thesis
  proof (cases "k \<in> fst ` set (hardware h)")
    case True
    thus ?thesis using put_all_same [OF ssh_keys [OF k]] put_all_new [OF hardware_distinct True] by (simp add: collectFacts_def)
  next
    case False
    hence "map_of (hardware h) k = None" by (simp add: map_of_eq_None_iff)
    thus ?thesis using put_all_same [OF ssh_keys [OF k]] put_all_same [OF False] base_keys [OF k] by (simp add: collectFacts_def)
  qed
qed


text \<open>A module with a card in its slot and an NVMe.\<close>

definition demo_readings :: readings where
  "demo_readings = \<lparr>rd_file = (\<lambda>p. if p = in_sys ''mmcblk0'' ''size'' then Some ''10'' else if p = in_sys ''nvme0n1'' ''size'' then Some ''20''
       else if p = ''/sys/block/mmcblk0/device/type'' then Some ''SD'' else None),
     rd_dir = (\<lambda>_. None), rd_program = (\<lambda>_. None), rd_found = (\<lambda>_. False), rd_active = (\<lambda>_. False), rd_day = (\<lambda>_. []), rd_date = (\<lambda>_. None),
     rd_release = [], rd_machine = []\<rparr>"


text \<open>Reading a boot order from the right: up to the first nought, or to the digit that starts over.\<close>

definition read_steps :: "nat list \<Rightarrow> nat list" where
  "read_steps ds = (let r = takeWhile (\<lambda>d. d \<noteq> 0 \<and> d \<noteq> 15) ds in r @ (if length r < length ds \<and> ds ! length r = 15 then [15] else []))"

lemma read_steps_Cons: "read_steps (d # ds) = (if d = 0 then [] else if d = 15 then [15] else d # read_steps ds)"
  by (simp add: read_steps_def Let_def)

lemma order_steps_all: "list_all (\<lambda>c. hex_val c \<noteq> None) cs \<Longrightarrow> order_steps cs = Some (read_steps (map (\<lambda>c. the (hex_val c)) cs))"
proof (induction cs)
  case Nil
  show ?case by (simp add: read_steps_def)
next
  case (Cons c cs)
  thus ?case by (auto simp: read_steps_Cons)
qed

lemma lower_idem: "lower (lower s) = lower s"
proof -
  have "to_lower (to_lower c) = to_lower c" for c
  proof (cases "is_upper c")
    case True
    hence "\<not> is_upper (char_of (code c + 32))" by (simp add: is_upper_def code_def)
    thus ?thesis using True by (simp add: to_lower_def)
  qed (simp add: to_lower_def)
  thus ?thesis by (simp add: lower_def)
qed

lemma lower_hex: "is_hex c \<Longrightarrow> to_lower c = c \<Longrightarrow> hex_val c \<noteq> None"
proof -
  assume h: "is_hex c" "to_lower c = c"
  have "\<not> is_upper c"
  proof
    assume u: "is_upper c"
    hence "code (to_lower c) = code c + 32" by (simp add: to_lower_def is_upper_def code_def)
    thus False using h(2) by simp
  qed
  thus ?thesis using h(1) by (auto simp: is_hex_def hex_val_def is_upper_def)
qed

text \<open>C40. Whatever text the configuration of the bootloader is: the boot order the agent takes out of it,
  when it takes one, is read by the centre digit by digit, none of them lost, so that the devices
  the page names are those the bootloader will try.\<close>

theorem reported_order_is_read:
  assumes "parseBootOrder s \<noteq> []"
  shows "\<exists>ds. parseBootOrder s = ''0x'' @ ds \<and> ds \<noteq> [] \<and> list_all is_hex ds \<and> bootOrderSteps (parseBootOrder s) = read_steps (map (\<lambda>c. the (hex_val c)) (rev ds))"
proof -
  obtain v vs where v: "List.map_filter order_value (split_lines s) = v # vs" "v \<noteq> []" "parse_hex v \<noteq> None" "parseBootOrder s = ''0x'' @ v"
    using assms by (auto simp: parseBootOrder_def split: list.splits if_splits)
  have hex: "list_all is_hex v" using v(3) by (auto simp: parse_hex_def split: if_splits)
  have "v \<in> set (List.map_filter order_value (split_lines s))" using v(1) by simp
  then obtain l where "order_value l = Some v" by (auto simp: List.map_filter_def)
  hence low: "lower v = v" using lower_idem by (auto simp: order_value_def Let_def split: option.splits if_splits)
  have each: "hex_val c \<noteq> None" if "c \<in> set v" for c
  proof -
    have "to_lower c = c" using low that unfolding lower_def by (metis in_set_conv_nth length_map nth_map)
    thus ?thesis using hex that lower_hex by (simp add: list_all_iff)
  qed
  have "\<not> is_space (last v)" if "v \<noteq> []" using hex hex_not_space last_in_set [OF that] by (simp add: list_all_iff)
  hence "bootOrderSteps (''0x'' @ v) = (case order_steps (rev v) of None \<Rightarrow> [] | Some r \<Rightarrow> r)" using steps_of_0x [of v] low by simp
  also have "\<dots> = read_steps (map (\<lambda>c. the (hex_val c)) (rev v))"
    using order_steps_all [of "rev v"] each by (simp add: list_all_iff)
  finally show ?thesis using v(2,4) hex by metis
qed

text \<open>The stock configuration of a Compute Blade: the comment above the setting is not one.\<close>

definition stock_order :: string where
  "stock_order = ''[all]'' @ [LF] @ ''# BOOT_ORDER=0x1'' @ [LF] @ ''BOOT_ORDER=0xF25416 # first the card'' @ [LF]"

theorem reported_order_is_read_witness:
  "parseBootOrder stock_order = ''0xf25416'' \<and> bootOrderSteps (parseBootOrder stock_order) = [6, 1, 4, 5, 2, 15]"
proof -
  have o: "order_value ''[all]'' = None" "order_value ''# BOOT_ORDER=0x1'' = None" "order_value ''BOOT_ORDER=0xF25416 # first the card'' = Some ''f25416''"
    by code_simp+
  have l: "split_lines stock_order = [''[all]'', ''# BOOT_ORDER=0x1'', ''BOOT_ORDER=0xF25416 # first the card'', []]" by code_simp
  have "list_all is_hex ''f25416''" by code_simp
  moreover have "hex_number ''f25416'' < 2 ^ 64"
  proof -
    have "hex_digit_val CHR ''f'' = 15" "hex_digit_val CHR ''2'' = 2" "hex_digit_val CHR ''5'' = 5" "hex_digit_val CHR ''4'' = 4" "hex_digit_val CHR ''1'' = 1" "hex_digit_val CHR ''6'' = 6"
      by code_simp+
    thus ?thesis by (simp add: hex_number_def)
  qed
  ultimately have h: "parse_hex ''f25416'' \<noteq> None" by (simp add: parse_hex_def)
  have p: "parseBootOrder stock_order = ''0xf25416''" unfolding parseBootOrder_def l using o h by (simp add: List.map_filter_simps)
  hence ne: "parseBootOrder stock_order \<noteq> []" by simp
  obtain ds where ds: "parseBootOrder stock_order = ''0x'' @ ds" "bootOrderSteps (parseBootOrder stock_order) = read_steps (map (\<lambda>c. the (hex_val c)) (rev ds))"
    using reported_order_is_read [OF ne] by blast
  have "ds = ''f25416''" using ds(1) p by simp
  moreover have "read_steps (map (\<lambda>c. the (hex_val c)) (rev ''f25416'')) = [6, 1, 4, 5, 2, 15]" by code_simp
  ultimately show ?thesis using ds(2) p by simp
qed

end
