(* ===== verification/Vitals.thy ===== *)
theory Vitals
  imports Board
begin

text \<open>
  How a blade is: what the agent measures (\<^verbatim>\<open>src/agent/collect.go\<close>) - temperatures, load, memory, the
  disk, the throttling register and the numbers of the program that drives the fan - and what the
  centre makes of it. The files and programs are the readings of \<open>Board\<close>; the answer of the other
  program and of \<^verbatim>\<open>statfs\<close> are added to them. A \<^verbatim>\<open>float64\<close> is the rational number it stands for.
  Numbers are decimal, as the kernel and that program write them; the hexadecimal notation
  \<^verbatim>\<open>ParseFloat\<close> reads as well is left out. The theorems: which readings make a blade critical, and
  that of several lines for one number the last finite one counts.
\<close>

section \<open>Numbers with a point\<close>

datatype float64 = Finite rat | Infinite | Not_a_number

definition digits_of :: "string \<Rightarrow> string \<times> string" where
  "digits_of s = (takeWhile is_digit s, dropWhile is_digit s)"

text \<open>The exponent, its sign included; \<^verbatim>\<open>None\<close> when there is none where one is announced.\<close>

definition exponent :: "string \<Rightarrow> int option" where
  "exponent s =
     (case s of
        [] \<Rightarrow> Some 0
      | c # r \<Rightarrow>
          if c \<noteq> CHR ''e'' \<and> c \<noteq> CHR ''E'' then None
          else (let ds = (case r of d # t \<Rightarrow> if d = CHR ''+'' \<or> d = CHR ''-'' then t else r | [] \<Rightarrow> []);
                    neg = (r \<noteq> [] \<and> hd r = CHR ''-'')
                in if ds = [] \<or> \<not> list_all is_digit ds then None
                   else Some (if neg then - int (nat_of_digits ds) else int (nat_of_digits ds))))"

definition power10 :: "int \<Rightarrow> rat" where
  "power10 k = (if k < 0 then 1 / 10 ^ nat (- k) else 10 ^ nat k)"

definition decimal :: "string \<Rightarrow> rat option" where
  "decimal s =
     (let (ip, r) = digits_of s;
          (fp, r') = (case r of [] \<Rightarrow> ([], []) | c # t \<Rightarrow> if c = CHR ''.'' then digits_of t else ([], r))
      in if ip = [] \<and> fp = [] then None
         else map_option (\<lambda>k. of_nat (nat_of_digits (ip @ fp)) * power10 (k - int (length fp))) (exponent r'))"

text \<open>\<^verbatim>\<open>strconv.ParseFloat\<close>; a number past the largest \<^verbatim>\<open>float64\<close> is an error.\<close>

definition parseFloat :: "string \<Rightarrow> float64 option" where
  "parseFloat s =
     (let signed = (s \<noteq> [] \<and> (hd s = CHR ''+'' \<or> hd s = CHR ''-'')); r = (if signed then tl s else s)
      in if lower r \<in> {''inf'', ''infinity''} then Some Infinite
         else if lower s = ''nan'' then Some Not_a_number
         else case decimal r of
                None \<Rightarrow> None
              | Some q \<Rightarrow> if q \<ge> 2 ^ 1024 - 2 ^ 970 then None else Some (Finite (if s \<noteq> [] \<and> hd s = CHR ''-'' then - q else q)))"

definition number :: "string \<Rightarrow> rat option" where
  "number s = (case parseFloat s of Some (Finite q) \<Rightarrow> Some q | _ \<Rightarrow> None)"

text \<open>A conversion to an integer cuts towards zero.\<close>

definition cut_off :: "rat \<Rightarrow> int" where
  "cut_off q = (if q < 0 then - \<lfloor>- q\<rfloor> else \<lfloor>q\<rfloor>)"

definition round1 :: "rat \<Rightarrow> rat" where
  "round1 q = of_int (cut_off (q * 10 + 1 / 2)) / 10"

definition go_div :: "int \<Rightarrow> int \<Rightarrow> int" where
  "go_div a b = (if (a < 0) = (b < 0) then \<bar>a\<bar> div \<bar>b\<bar> else - (\<bar>a\<bar> div \<bar>b\<bar>))"

section \<open>The readings\<close>

text \<open>The machine, the answer of the fan's program (its status and text), and size and free space of
  the root.\<close>

record sensors =
  sn_machine :: readings
  sn_metrics :: "(nat \<times> string) option"
  sn_root :: "(int \<times> int) option"

definition socTemp :: "readings \<Rightarrow> rat option" where
  "socTemp h = (case rd_file h ''/sys/class/thermal/thermal_zone0/temp'' of
       None \<Rightarrow> None | Some b \<Rightarrow> map_option (\<lambda>m. m / 1000) (number (trim_space b)))"

text \<open>The first monitor that belongs to an NVMe and can be read.\<close>

definition monitor :: "readings \<Rightarrow> string \<Rightarrow> rat option" where
  "monitor h e =
     (let base = ''/sys/class/hwmon/'' @ e
      in if \<not> has_prefix (trim_space (read_text h (base @ ''/name''))) ''nvme'' then None
         else case rd_file h (base @ ''/temp1_input'') of
                None \<Rightarrow> None | Some b \<Rightarrow> map_option (\<lambda>m. m / 1000) (number (trim_space b)))"

definition nvmeTemp :: "readings \<Rightarrow> rat option" where
  "nvmeTemp h = (case rd_dir h ''/sys/class/hwmon'' of
       None \<Rightarrow> None | Some es \<Rightarrow> (case List.map_filter (monitor h) es of [] \<Rightarrow> None | t # _ \<Rightarrow> Some t))"

definition first_number :: "string \<Rightarrow> rat" where
  "first_number s = (case words [] s of [] \<Rightarrow> 0 | f # _ \<Rightarrow> (case number f of None \<Rightarrow> 0 | Some q \<Rightarrow> q))"

definition uptimeSeconds :: "readings \<Rightarrow> int" where
  "uptimeSeconds h = cut_off (first_number (read_text h ''/proc/uptime''))"

definition load1 :: "readings \<Rightarrow> rat" where
  "load1 h = first_number (read_text h ''/proc/loadavg'')"

text \<open>The number \<^verbatim>\<open>Sscanf\<close> finds behind the name of a line; nothing found leaves zero.\<close>

definition kilobytes :: "string \<Rightarrow> int" where
  "kilobytes s =
     (let r = dropWhile is_space s; neg = (r \<noteq> [] \<and> hd r = CHR ''-'');
          ds = takeWhile is_digit (if r \<noteq> [] \<and> (hd r = CHR ''+'' \<or> hd r = CHR ''-'') then tl r else r);
          n = (if neg then - int (nat_of_digits ds) else int (nat_of_digits ds))
      in if ds = [] \<or> n \<ge> 2 ^ 63 \<or> n < - (2 ^ 63) then 0 else n)"

definition meminfo_line :: "string \<Rightarrow> int \<times> int \<Rightarrow> int \<times> int" where
  "meminfo_line l = (\<lambda>(tot, avail).
     if has_prefix l ''MemTotal:'' then (kilobytes (drop 9 l) * 1024, avail)
     else if has_prefix l ''MemAvailable:'' then (tot, kilobytes (drop 13 l) * 1024)
     else (tot, avail))"

definition memory :: "readings \<Rightarrow> (int \<times> int) option" where
  "memory h =
     (case rd_file h ''/proc/meminfo'' of
        None \<Rightarrow> None
      | Some s \<Rightarrow> (let (tot, avail) = fold meminfo_line (split_lines s) (0, 0) in if tot > 0 then Some (tot, avail) else None))"

definition throttled :: "readings \<Rightarrow> 64 word option" where
  "throttled h =
     (case rd_program h [''vcgencmd'', ''get_throttled''] of
        None \<Rightarrow> None
      | Some out \<Rightarrow> (case cut CHR ''='' (trim_space out) of None \<Rightarrow> None | Some (k, v) \<Rightarrow> parse_hex (trim_prefix v ''0x'')))"

section \<open>The numbers of the fan's program\<close>

definition plain_metrics :: "(string \<times> string) list" where
  "plain_metrics =
     [(''computeblade_fan_speed'', ''fan_rpm''), (''computeblade_fan_target_percent'', ''fan_percent''),
      (''computeblade_airflow_temperature'', ''airflow_temp_c''), (''computeblade_soc_temperature'', ''blade_soc_temp_c''),
      (''computeblade_stealth_mode_enabled'', ''stealth''), (''computeblade_edge_button_event_count'', ''button_events'')]"

text \<open>A line taken apart: name, labels, value. A value that is not finite does not exist.\<close>

definition metric_of :: "string \<Rightarrow> (string \<times> string \<times> rat) option" where
  "metric_of l =
     (if l = [] \<or> hd l = CHR ''#'' then None
      else case cut CHR '' '' l of
             None \<Rightarrow> None
           | Some (n, v) \<Rightarrow>
               map_option (\<lambda>q. (takeWhile (\<lambda>c. c \<noteq> CHR ''{'') n, dropWhile (\<lambda>c. c \<noteq> CHR ''{'') n, q)) (number (trim_space v)))"

definition label_part :: "string \<Rightarrow> string \<Rightarrow> string option" where
  "label_part key part = (case cut CHR ''='' part of
       None \<Rightarrow> None | Some (k, v) \<Rightarrow> if trim_space k = key then Some (trim_chars [CHR 0x22] (trim_space v)) else None)"

definition labelValue :: "string \<Rightarrow> string \<Rightarrow> string" where
  "labelValue labels key =
     (case List.map_filter (label_part key) (split_on CHR '','' (trim_chars [CHR ''{'', CHR ''}''] labels)) of [] \<Rightarrow> [] | v # _ \<Rightarrow> v)"

definition put_metric :: "string \<times> string \<times> rat \<Rightarrow> jmap \<Rightarrow> jmap" where
  "put_metric m out =
     (case m of (name, labels, v) \<Rightarrow>
        (case map_of plain_metrics name of
           Some key \<Rightarrow> AList.update key (JNum (round1 v)) out
         | None \<Rightarrow>
             (let o1 = (if name = ''computeblade_state_state'' \<and> v = 1 then AList.update ''blade_state'' (JStr (labelValue labels ''state'')) out else out);
                  o2 = (if name = ''computeblade_fan_unit'' then AList.update ''fan_unit'' (JStr (labelValue labels ''type'')) o1 else o1)
              in if name = ''computeblade_compute_module_present'' \<and> v = 1 then AList.update ''module'' (JStr (labelValue labels ''type'')) o2 else o2)))"

text \<open>No more than 256 KiB of the answer are read.\<close>

definition bladeAgentMetrics :: "sensors \<Rightarrow> jmap" where
  "bladeAgentMetrics s =
     (case sn_metrics s of
        None \<Rightarrow> []
      | Some (status, body) \<Rightarrow>
          if status \<noteq> 200 then []
          else (let out = fold put_metric (List.map_filter metric_of (split_lines (take 262144 body))) []
                in if out = [] then [] else AList.update ''fan_source'' (JStr ''compute-blade-agent'') out))"

section \<open>All of it\<close>

definition put_rat :: "string \<Rightarrow> rat \<Rightarrow> jmap \<Rightarrow> jmap" where "put_rat k q m = AList.update k (JNum q) m"

definition put_temp :: "string \<Rightarrow> rat option \<Rightarrow> jmap \<Rightarrow> jmap" where
  "put_temp k t m = (case t of None \<Rightarrow> m | Some q \<Rightarrow> put_rat k (round1 q) m)"

definition disk_used :: "int \<Rightarrow> int \<Rightarrow> int" where "disk_used tot free = go_div ((tot - free) * 100) tot"

definition put_disk :: "(int \<times> int) option \<Rightarrow> jmap \<Rightarrow> jmap" where
  "put_disk d m =
     (case d of
        None \<Rightarrow> m
      | Some (tot, free) \<Rightarrow>
          (let m1 = put_number ''disk_free_b'' free (put_number ''disk_total_b'' tot m)
           in if tot > 0 then put_number ''disk_used_pct'' (disk_used tot free) m1 else m1))"

definition put_memory :: "(int \<times> int) option \<Rightarrow> jmap \<Rightarrow> jmap" where
  "put_memory d m = (case d of None \<Rightarrow> m | Some (tot, avail) \<Rightarrow> put_number ''mem_avail_b'' avail (put_number ''mem_total_b'' tot m))"

definition put_throttled :: "64 word option \<Rightarrow> jmap \<Rightarrow> jmap" where
  "put_throttled d m =
     (case d of
        None \<Rightarrow> m
      | Some v \<Rightarrow> AList.update ''throttled_now'' (JBool (v AND 0x4 \<noteq> 0))
                    (AList.update ''undervoltage_now'' (JBool (v AND 0x1 \<noteq> 0)) (put_number ''throttled'' (uint v) m)))"

definition collectHealth :: "sensors \<Rightarrow> jmap" where
  "collectHealth s =
     (let h = sn_machine s;
          m0 = put_rat ''load1'' (load1 h) [(''uptime_s'', JNum (of_int (uptimeSeconds h)))];
          m1 = put_temp ''nvme_temp_c'' (nvmeTemp h) (put_temp ''soc_temp_c'' (socTemp h) m0);
          m2 = put_throttled (throttled h) (put_memory (memory h) (put_disk (sn_root s) m1))
      in put_all (bladeAgentMetrics s) m2)"

section \<open>Of several lines the last one counts\<close>

definition metric_lines :: "sensors \<Rightarrow> (string \<times> string \<times> rat) list" where
  "metric_lines s = (case sn_metrics s of None \<Rightarrow> []
     | Some (status, body) \<Rightarrow> if status \<noteq> 200 then [] else List.map_filter metric_of (split_lines (take 262144 body)))"

definition last_named :: "string \<Rightarrow> (string \<times> string \<times> rat) list \<Rightarrow> (string \<times> rat) option" where
  "last_named n ms = (let ls = filter (\<lambda>m. fst m = n) ms in if ls = [] then None else Some (snd (last ls)))"

lemma last_named_snoc: "last_named n (ms @ [m]) = (if fst m = n then Some (snd m) else last_named n ms)"
  by (simp add: last_named_def Let_def)

lemma last_named_Nil [simp]: "last_named n [] = None"
  by (simp add: last_named_def)

lemma plain_table:
  "(n, k) \<in> set plain_metrics \<Longrightarrow> map_of plain_metrics n = Some k"
  "map_of plain_metrics n = Some k \<Longrightarrow> map_of plain_metrics n' = Some k \<Longrightarrow> n = n'"
  "map_of plain_metrics n = Some k \<Longrightarrow> k \<notin> {''blade_state'', ''fan_unit'', ''module'', ''fan_source''}"
  "map_of plain_metrics ''computeblade_fan_unit'' = None"
proof -
  have d: "distinct (map fst plain_metrics)" "distinct (map snd plain_metrics)" by code_simp+
  show "(n, k) \<in> set plain_metrics \<Longrightarrow> map_of plain_metrics n = Some k" by (rule map_of_is_SomeI [OF d(1)])
  show "map_of plain_metrics n = Some k \<Longrightarrow> map_of plain_metrics n' = Some k \<Longrightarrow> n = n'"
    using d(2) by (metis distinct_map map_of_SomeD snd_conv inj_onD prod.inject)
  have "list_all (\<lambda>e. snd e \<notin> {''blade_state'', ''fan_unit'', ''module'', ''fan_source''}) plain_metrics" by code_simp
  thus "map_of plain_metrics n = Some k \<Longrightarrow> k \<notin> {''blade_state'', ''fan_unit'', ''module'', ''fan_source''}"
    unfolding list_all_iff using map_of_SomeD by fastforce
  show "map_of plain_metrics ''computeblade_fan_unit'' = None" by code_simp
qed

lemma put_metric_cases:
  "map_of plain_metrics (fst m) = Some k \<Longrightarrow> put_metric m out = AList.update k (JNum (round1 (snd (snd m)))) out"
  "map_of plain_metrics (fst m) = None \<Longrightarrow> k \<noteq> ''blade_state'' \<Longrightarrow> k \<noteq> ''fan_unit'' \<Longrightarrow> k \<noteq> ''module'' \<Longrightarrow> map_of (put_metric m out) k = map_of out k"
  by (simp_all add: put_metric_def split_beta update_conv' Let_def)

lemma put_metric_plain:
  assumes "(n, k) \<in> set plain_metrics"
  shows "map_of (put_metric m out) k = (if fst m = n then Some (JNum (round1 (snd (snd m)))) else map_of out k)"
proof (cases "map_of plain_metrics (fst m)")
  case None
  moreover have "fst m \<noteq> n" using None plain_table(1) [OF assms] by auto
  moreover have "k \<noteq> ''blade_state''" "k \<noteq> ''fan_unit''" "k \<noteq> ''module''" using plain_table(3) [OF plain_table(1) [OF assms]] by blast+
  ultimately show ?thesis using put_metric_cases(2) by presburger
next
  case (Some k')
  hence "k' = k \<longleftrightarrow> fst m = n" using plain_table(1) [OF assms] plain_table(2) [of n k "fst m"] by auto
  thus ?thesis unfolding put_metric_cases(1) [OF Some] by (simp only: update_conv' fun_upd_apply) metis
qed

lemma put_metric_unit:
  "map_of (put_metric m out) ''fan_unit'' = (if fst m = ''computeblade_fan_unit'' then Some (JStr (labelValue (fst (snd m)) ''type'')) else map_of out ''fan_unit'')"
proof (cases "map_of plain_metrics (fst m)")
  case None
  thus ?thesis by (cases m) (simp add: put_metric_def update_conv' Let_def)
next
  case (Some k')
  hence "k' \<noteq> ''fan_unit''" "fst m \<noteq> ''computeblade_fan_unit''" using plain_table(3) [of "fst m" k'] plain_table(4) by auto
  thus ?thesis using Some by (cases m) (simp add: put_metric_def update_conv')
qed

definition fan_keys :: "string set" where
  "fan_keys = insert ''fan_unit'' (insert ''blade_state'' (insert ''module'' (insert ''fan_source'' (snd ` set plain_metrics))))"

lemma put_metric_other:
  assumes "k \<notin> fan_keys"
  shows "map_of (put_metric m out) k = map_of out k"
proof (cases "map_of plain_metrics (fst m)")
  case None
  moreover have "k \<noteq> ''blade_state''" "k \<noteq> ''fan_unit''" "k \<noteq> ''module''" using assms unfolding fan_keys_def by blast+
  ultimately show ?thesis by (rule put_metric_cases(2))
next
  case (Some k')
  hence "k' \<in> fan_keys" using map_of_SomeD [OF Some] unfolding fan_keys_def by force
  thus ?thesis using assms unfolding put_metric_cases(1) [OF Some] by (auto simp: update_conv')
qed

lemma put_metric_distinct: "distinct (map fst out) \<Longrightarrow> distinct (map fst (put_metric m out))"
  by (cases m) (simp add: put_metric_def distinct_update Let_def split: option.split)

lemma metrics_fold:
  "distinct (map fst (fold put_metric ms []))"
  "(n, k) \<in> set plain_metrics \<Longrightarrow> map_of (fold put_metric ms []) k = map_option (\<lambda>m. JNum (round1 (snd m))) (last_named n ms)"
  "map_of (fold put_metric ms []) ''fan_unit'' = map_option (\<lambda>m. JStr (labelValue (fst m) ''type'')) (last_named ''computeblade_fan_unit'' ms)"
  "k \<notin> fan_keys \<Longrightarrow> map_of (fold put_metric ms []) k = None"
  by (induction ms rule: rev_induct) (simp_all add: put_metric_distinct last_named_snoc put_metric_plain put_metric_unit put_metric_other)

lemma plain_not_source: "(n, k) \<in> set plain_metrics \<Longrightarrow> ''fan_source'' \<noteq> k"
  using plain_table(1,3) by blast

lemma bladeAgentMetrics_lines:
  "bladeAgentMetrics s = (let out = fold put_metric (metric_lines s) [] in if out = [] then [] else AList.update ''fan_source'' (JStr ''compute-blade-agent'') out)"
  by (simp add: bladeAgentMetrics_def metric_lines_def split: option.split)

lemma bladeAgentMetrics_at:
  "distinct (map fst (bladeAgentMetrics s))"
  "k \<noteq> ''fan_source'' \<Longrightarrow> map_of (bladeAgentMetrics s) k = map_of (fold put_metric (metric_lines s) []) k"
  by (simp_all add: bladeAgentMetrics_lines Let_def distinct_update metrics_fold(1) update_conv')

text \<open>What the fan's program says several times, the last finite value counts; a value that is not
  finite leaves what was there.\<close>

lemma last_value_counts:
  "(n, k) \<in> set plain_metrics \<Longrightarrow> map_of (bladeAgentMetrics s) k = map_option (\<lambda>m. JNum (round1 (snd m))) (last_named n (metric_lines s))"
  using plain_not_source [of n k] by (auto simp: bladeAgentMetrics_at(2) metrics_fold(2))

section \<open>Which readings make a blade critical\<close>

lemma puts_same:
  "k \<notin> {''throttled'', ''undervoltage_now'', ''throttled_now''} \<Longrightarrow> map_of (put_throttled t m) k = map_of m k"
  "k \<notin> {''mem_total_b'', ''mem_avail_b''} \<Longrightarrow> map_of (put_memory d m) k = map_of m k"
  "k \<notin> {''disk_free_b'', ''disk_total_b'', ''disk_used_pct''} \<Longrightarrow> map_of (put_disk d m) k = map_of m k"
  "k \<noteq> k' \<Longrightarrow> map_of (put_temp k' c m) k = map_of m k" "k \<noteq> k' \<Longrightarrow> map_of (put_rat k' q m) k = map_of m k"
  by (simp_all add: put_throttled_def put_memory_def put_disk_def put_temp_def put_rat_def put_number_def update_conv' Let_def split: option.split)

lemma low_bits: "v AND 1 \<noteq> 0 \<longleftrightarrow> bit v 0" "v AND 4 \<noteq> 0 \<longleftrightarrow> bit v 2" for v :: "64 word"
  using and_exp_eq_0_iff_not_bit [of v 2] and_exp_eq_0_iff_not_bit [of v 0] by simp_all

lemma puts_new:
  "map_of (put_throttled t m) ''undervoltage_now'' = (case t of None \<Rightarrow> map_of m ''undervoltage_now'' | Some v \<Rightarrow> Some (JBool (bit v 0)))"
  "map_of (put_throttled t m) ''throttled_now'' = (case t of None \<Rightarrow> map_of m ''throttled_now'' | Some v \<Rightarrow> Some (JBool (bit v 2)))"
  "map_of (put_temp k c m) k = (case c of None \<Rightarrow> map_of m k | Some q \<Rightarrow> Some (JNum (round1 q)))"
  "map_of (put_disk d m) ''disk_used_pct'' = (case d of None \<Rightarrow> map_of m ''disk_used_pct''
     | Some (tot, free) \<Rightarrow> if tot > 0 then Some (JNum (of_int (disk_used tot free))) else map_of m ''disk_used_pct'')"
  by (simp_all add: low_bits put_throttled_def put_disk_def put_temp_def put_rat_def update_conv' Let_def split: option.split)

lemma measured_keys: "k \<notin> {''load1'', ''uptime_s'', ''soc_temp_c'', ''nvme_temp_c'', ''disk_free_b'', ''disk_total_b'', ''disk_used_pct'',
     ''mem_total_b'', ''mem_avail_b'', ''throttled'', ''undervoltage_now'', ''throttled_now''} \<Longrightarrow>
   map_of (put_throttled t (put_memory m (put_disk d (put_temp ''nvme_temp_c'' n (put_temp ''soc_temp_c'' c (put_rat ''load1'' l [(''uptime_s'', u)])))))) k = None"
  by (simp add: puts_same)

lemma put_all_missing: "distinct (map fst new) \<Longrightarrow> map_of m k = None \<Longrightarrow> map_of (put_all new m) k = map_of new k"
  using put_all_new put_all_same by (metis map_of_eq_None_iff)

lemma put_all_absent: "map_of new k = None \<Longrightarrow> map_of (put_all new m) k = map_of m k"
  using put_all_same by (metis map_of_eq_None_iff)

lemma fan_reported:
  assumes "k \<in> {''fan_rpm'', ''fan_percent'', ''fan_unit''}"
  shows "map_of (collectHealth s) k = map_of (fold put_metric (metric_lines s) []) k"
proof -
  have "k \<noteq> ''fan_source''" using assms by auto
  thus ?thesis unfolding collectHealth_def Let_def
    by (subst put_all_missing [OF bladeAgentMetrics_at(1)]) (use assms in \<open>auto simp: measured_keys bladeAgentMetrics_at(2)\<close>)
qed

lemma own_reported:
  assumes "k \<in> {''uptime_s'', ''soc_temp_c'', ''nvme_temp_c'', ''disk_used_pct'', ''undervoltage_now'', ''throttled_now''}"
  shows "map_of (collectHealth s) k = map_of (put_throttled (throttled (sn_machine s)) (put_memory (memory (sn_machine s)) (put_disk (sn_root s)
     (put_temp ''nvme_temp_c'' (nvmeTemp (sn_machine s)) (put_temp ''soc_temp_c'' (socTemp (sn_machine s))
        (put_rat ''load1'' (load1 (sn_machine s)) [(''uptime_s'', JNum (of_int (uptimeSeconds (sn_machine s))))])))))) k"
proof -
  have "k \<notin> fan_keys" "k \<noteq> ''fan_source''" using assms by (auto simp: fan_keys_def plain_metrics_def)
  hence "map_of (bladeAgentMetrics s) k = None" by (simp add: bladeAgentMetrics_at(2) metrics_fold(4))
  thus ?thesis unfolding collectHealth_def Let_def by (rule put_all_absent)
qed

definition root_used :: "sensors \<Rightarrow> int option" where
  "root_used s = (case sn_root s of None \<Rightarrow> None | Some (tot, free) \<Rightarrow> if tot > 0 then Some (disk_used tot free) else None)"

lemma measured:
  "map_of (collectHealth s) ''soc_temp_c'' = map_option (\<lambda>t. JNum (round1 t)) (socTemp (sn_machine s))"
  "map_of (collectHealth s) ''nvme_temp_c'' = map_option (\<lambda>t. JNum (round1 t)) (nvmeTemp (sn_machine s))"
  "map_of (collectHealth s) ''disk_used_pct'' = map_option (\<lambda>n. JNum (of_int n)) (root_used s)"
  "map_of (collectHealth s) ''undervoltage_now'' = map_option (\<lambda>v. JBool (bit v 0)) (throttled (sn_machine s))"
  "map_of (collectHealth s) ''throttled_now'' = map_option (\<lambda>v. JBool (bit v 2)) (throttled (sn_machine s))"
  "map_of (collectHealth s) ''uptime_s'' = Some (JNum (of_int (uptimeSeconds (sn_machine s))))"
  by (simp_all add: own_reported puts_same puts_new root_used_def split: option.split)

definition over_limit :: "rat option \<Rightarrow> rat \<Rightarrow> bool" where
  "over_limit x limit \<longleftrightarrow> (\<exists>q. x = Some q \<and> q > limit)"

lemma over_limit_simps [simp]: "over_limit (Some q) c \<longleftrightarrow> q > c" "\<not> over_limit None c"
  by (simp_all add: over_limit_def)

definition register_bit :: "sensors \<Rightarrow> nat \<Rightarrow> bool" where
  "register_bit s n \<longleftrightarrow> (\<exists>v. throttled (sn_machine s) = Some v \<and> bit v n)"

definition metric :: "string \<Rightarrow> sensors \<Rightarrow> rat option" where
  "metric n s = map_option (\<lambda>m. round1 (snd m)) (last_named n (metric_lines s))"

text \<open>A fan that can tell, is asked to turn, has had three minutes, and stands.\<close>

definition fan_stands :: "sensors \<Rightarrow> bool" where
  "fan_stands s \<longleftrightarrow> metric ''computeblade_fan_speed'' s = Some 0 \<and> over_limit (metric ''computeblade_fan_target_percent'' s) 0
     \<and> (\<exists>l v. last_named ''computeblade_fan_unit'' (metric_lines s) = Some (l, v) \<and> labelValue l ''type'' = ''smart'')
     \<and> uptimeSeconds (sn_machine s) > 180"

definition in_danger :: "policy \<Rightarrow> sensors \<Rightarrow> bool" where
  "in_danger p s \<longleftrightarrow> over_limit (map_option round1 (socTemp (sn_machine s))) (p_soc_crit p)
     \<or> over_limit (map_option of_int (root_used s)) (p_disk_crit p) \<or> register_bit s 0 \<or> fan_stands s"

definition in_trouble :: "policy \<Rightarrow> sensors \<Rightarrow> bool" where
  "in_trouble p s \<longleftrightarrow> over_limit (map_option round1 (socTemp (sn_machine s))) (p_soc_warn p)
     \<or> over_limit (map_option round1 (nvmeTemp (sn_machine s))) (p_nvme_warn p)
     \<or> over_limit (map_option of_int (root_used s)) (p_disk_warn p) \<or> register_bit s 2"

lemma read_back [simp]: "num (map_option (\<lambda>x. JNum (f x)) r) = map_option f r" by (cases r) simp_all
lemma read_back_bool [simp]: "as_bool (map_option (\<lambda>x. JBool (f x)) r) = map_option f r" by (cases r) simp_all
lemma read_back_text [simp]: "as_str (map_option (\<lambda>x. JStr (f x)) r) = map_option f r" by (cases r) simp_all

lemma exceeds_over: "map_of h k = map_option (\<lambda>x. JNum (f x)) r \<Longrightarrow> exceeds h k c \<longleftrightarrow> over_limit (map_option f r) c"
  by (cases r) (simp_all add: exceeds_def over_limit_def)

lemma fan_stopped_stands: "fan_stopped (collectHealth s) \<longleftrightarrow> fan_stands s"
proof -
  have f: "map_of (collectHealth s) ''fan_rpm'' = map_option (\<lambda>m. JNum (round1 (snd m))) (last_named ''computeblade_fan_speed'' (metric_lines s))"
    "map_of (collectHealth s) ''fan_percent'' = map_option (\<lambda>m. JNum (round1 (snd m))) (last_named ''computeblade_fan_target_percent'' (metric_lines s))"
    "map_of (collectHealth s) ''fan_unit'' = map_option (\<lambda>m. JStr (labelValue (fst m) ''type'')) (last_named ''computeblade_fan_unit'' (metric_lines s))"
    by (simp_all add: fan_reported metrics_fold(3), (rule metrics_fold(2), simp add: plain_metrics_def)+)
  show ?thesis unfolding fan_stopped_def fan_stands_def f measured metric_def over_limit_def
    by (auto split: option.splits)
qed

lemma judged_signs: "crit_sign p (collectHealth s) \<longleftrightarrow> in_danger p s" "warn_sign p (collectHealth s) \<longleftrightarrow> in_trouble p s"
  using exceeds_over [OF measured(1)] exceeds_over [OF measured(2)] exceeds_over [OF measured(3)]
  by (auto simp: crit_sign_def warn_sign_def in_danger_def in_trouble_def fan_stopped_stands measured(4,5) register_bit_def)

text \<open>C38. A blade in service whose report the centre has is judged by its readings alone: critical exactly
  when its processor is above the limit, its root is full, its power is too low or its fan stands,
  warned about exactly when one of the lesser signs is there. Temperatures count as rounded to a
  tenth, the disk as the whole percent below; nothing the fan's program says about another number
  changes that.\<close>

theorem readings_judged:
  assumes "b_health b = JObj (collectHealth s)" and "b_halted b = None" and "b_stored b = None" and "b_state b \<noteq> ''offline''"
  shows "fst (evalHealthWith b p) = (if in_danger p s then HCrit else if in_trouble p s then HWarn else HOK)"
proof -
  have "collectHealth s \<noteq> []" using measured(6) [of s] by auto
  thus ?thesis using assms by (simp add: evalHealthWith_spec judged_signs)
qed

text \<open>A blade at 80.06 degrees, with a fan that says it cannot measure its speed and whose program says
  so twice.\<close>

definition hot_blade :: sensors where
  "hot_blade = \<lparr>sn_machine = \<lparr>rd_file = [''/sys/class/thermal/thermal_zone0/temp'' \<mapsto> ''80060'' @ [LF], ''/proc/uptime'' \<mapsto> ''3600.25 1.0'' @ [LF]],
       rd_dir = Map.empty, rd_program = [[''vcgencmd'', ''get_throttled''] \<mapsto> ''throttled=0x50000'' @ [LF]],
       rd_found = (\<lambda>_. False), rd_active = (\<lambda>_. False), rd_day = (\<lambda>_. []), rd_date = (\<lambda>_. None), rd_release = [], rd_machine = []\<rparr>,
     sn_metrics = Some (200, ''computeblade_fan_speed +Inf'' @ [LF] @ ''computeblade_fan_target_percent 4e1'' @ [LF]),
     sn_root = Some (1000, 41)\<rparr>"


lemma number_digits:
  assumes "s \<noteq> []" and "is_digit (hd s)" and "decimal s = Some q" and "q < 10 ^ 9"
  shows "number s = Some q"
proof -
  obtain c r where s: "s = c # r" using assms(1) by (cases s) auto
  have c: "c \<noteq> CHR ''+''" "c \<noteq> CHR ''-''" "to_lower c \<noteq> CHR ''i''" "to_lower c \<noteq> CHR ''n''"
    using assms(2) by (auto simp: s is_digit_def to_lower_def is_upper_def code_def)
  have "q < 2 ^ 1024 - 2 ^ 970" using assms(4) by simp
  thus ?thesis using c assms(3) by (simp add: number_def parseFloat_def s lower_def not_le)
qed

lemma decimal_digits: "s \<noteq> [] \<Longrightarrow> list_all is_digit s \<Longrightarrow> decimal s = Some (of_nat (nat_of_digits s))"
  by (simp add: decimal_def digits_of_def exponent_def power10_def takeWhile_eq_all_conv [THEN iffD2] dropWhile_eq_Nil_conv [THEN iffD2] list_all_iff)

lemma number_plain:
  assumes "s \<noteq> []" and "list_all is_digit s" and "nat_of_digits s < 10 ^ 9"
  shows "number s = Some (of_nat (nat_of_digits s))"
proof -
  have "is_digit (hd s)" using assms(1,2) by (cases s) auto
  moreover have "(of_nat (nat_of_digits s) :: rat) < 10 ^ 9" using assms(3) by simp
  ultimately show ?thesis using number_digits [OF assms(1) _ decimal_digits [OF assms(1,2)]] by blast
qed

lemma hot_numbers: "number ''80060'' = Some 80060" "number ''3600.25'' = Some (14401 / 4)" "number ''4e1'' = Some 40" "number ''+Inf'' = None"
proof -
  have d: "list_all is_digit ''80060''" "nat_of_digits ''80060'' = 80060" by (simp_all add: nat_of_digits_def digit_val_def code_def is_digit_def)
  show "number ''80060'' = Some 80060" using number_plain [of "''80060''"] d by simp
  have "decimal ''3600.25'' = Some (14401 / 4)"
    by (simp add: decimal_def digits_of_def nat_of_digits_def digit_val_def code_def is_digit_def exponent_def power10_def)
  thus "number ''3600.25'' = Some (14401 / 4)" by (intro number_digits) (simp_all add: is_digit_def code_def)
  have "decimal ''4e1'' = Some 40" by code_simp
  thus "number ''4e1'' = Some 40" by (intro number_digits) (simp_all add: is_digit_def code_def)
  have "parseFloat ''+Inf'' = Some Infinite" by code_simp
  thus "number ''+Inf'' = None" by (simp add: number_def)
qed

lemma hot_lines: "split_lines (''computeblade_fan_speed +Inf'' @ [LF] @ ''computeblade_fan_target_percent 4e1'' @ [LF]) = [''computeblade_fan_speed +Inf'', ''computeblade_fan_target_percent 4e1'', []]"
  by code_simp

lemma hot_measured:
  "socTemp (sn_machine hot_blade) = Some (4003 / 50)" "uptimeSeconds (sn_machine hot_blade) = 3600"
  "throttled (sn_machine hot_blade) = Some 0x50000" "nvmeTemp (sn_machine hot_blade) = None" "root_used hot_blade = Some 95"
  "metric_lines hot_blade = [(''computeblade_fan_target_percent'', [], 40)]"
proof -
  have t: "trim_space (''80060'' @ [LF]) = ''80060''" "words [] (''3600.25 1.0'' @ [LF]) = [''3600.25'', ''1.0'']" by code_simp+
  show "socTemp (sn_machine hot_blade) = Some (4003 / 50)" unfolding socTemp_def hot_blade_def using t hot_numbers by simp
  have floor: "\<lfloor>14401 / 4 :: rat\<rfloor> = 3600" by (intro floor_unique) simp_all
  show "uptimeSeconds (sn_machine hot_blade) = 3600"
    unfolding uptimeSeconds_def first_number_def read_text_def hot_blade_def using t hot_numbers floor by (simp add: cut_off_def)
  have c: "cut CHR ''='' (trim_space (''throttled=0x50000'' @ [LF])) = Some (''throttled'', ''0x50000'')" "trim_prefix ''0x50000'' ''0x'' = ''50000''" by code_simp+
  have "parse_hex ''50000'' = Some 0x50000"
    by (simp add: parse_hex_def hex_number_def hex_digit_val_def is_hex_def is_digit_def code_def hex_val_def to_lower_def is_upper_def)
  thus "throttled (sn_machine hot_blade) = Some 0x50000" unfolding throttled_def hot_blade_def using c by simp
  show "nvmeTemp (sn_machine hot_blade) = None" by (simp add: nvmeTemp_def hot_blade_def)
  show "root_used hot_blade = Some 95" by (simp add: root_used_def hot_blade_def disk_used_def go_div_def)
  have m: "cut CHR '' '' ''computeblade_fan_speed +Inf'' = Some (''computeblade_fan_speed'', ''+Inf'')"
    "cut CHR '' '' ''computeblade_fan_target_percent 4e1'' = Some (''computeblade_fan_target_percent'', ''4e1'')"
    "trim_space ''+Inf'' = ''+Inf''" "trim_space ''4e1'' = ''4e1''" by code_simp+
  have "metric_of ''computeblade_fan_speed +Inf'' = None" "metric_of ''computeblade_fan_target_percent 4e1'' = Some (''computeblade_fan_target_percent'', [], 40)" "metric_of [] = None"
    using m hot_numbers by (simp_all add: metric_of_def)
  moreover have "take 262144 (''computeblade_fan_speed +Inf'' @ [LF] @ ''computeblade_fan_target_percent 4e1'' @ [LF]) = ''computeblade_fan_speed +Inf'' @ [LF] @ ''computeblade_fan_target_percent 4e1'' @ [LF]"
    by (intro take_all) simp
  ultimately show "metric_lines hot_blade = [(''computeblade_fan_target_percent'', [], 40)]"
    unfolding metric_lines_def hot_blade_def by (simp only: sensors.simps option.case prod.case hot_lines List.map_filter_simps if_True if_False not_True_eq_False simp_thms)
qed

theorem readings_judged_witness:
  "fst (evalHealthWith (demo_blade\<lparr>b_health := JObj (collectHealth hot_blade)\<rparr>) defaultPolicy) = HCrit
   \<and> fst (evalHealthWith (demo_blade\<lparr>b_health := JObj (collectHealth hot_blade)\<rparr>) (defaultPolicy\<lparr>p_soc_crit := 81\<rparr>)) = HWarn
   \<and> num (map_of (collectHealth hot_blade) ''fan_percent'') = Some 40 \<and> map_of (collectHealth hot_blade) ''fan_rpm'' = None"
proof -
  have "\<lfloor>4003 / 50 * 10 + 1 / 2 :: rat\<rfloor> = 801" by (intro floor_unique) simp_all
  hence r: "round1 (4003 / 50) = 801 / 10" by (simp add: round1_def cut_off_def)
  have "\<lfloor>40 * 10 + 1 / 2 :: rat\<rfloor> = 400" by (intro floor_unique) simp_all
  hence q: "round1 40 = 40" by (simp add: round1_def cut_off_def)
  have n: "\<not> bit (0x50000 :: 64 word) 0" by (simp add: bit_0)
  have l: "last_named ''computeblade_fan_speed'' (metric_lines hot_blade) = None"
    "last_named ''computeblade_fan_target_percent'' (metric_lines hot_blade) = Some ([], 40)" by (simp_all add: hot_measured last_named_def)
  have f: "\<not> fan_stands hot_blade" by (simp add: fan_stands_def metric_def l)
  have u: "\<not> register_bit hot_blade 0" using n by (simp add: register_bit_def hot_measured)
  have "in_danger defaultPolicy hot_blade" by (simp add: in_danger_def hot_measured r defaultPolicy_def)
  moreover have "\<not> in_danger (defaultPolicy\<lparr>p_soc_crit := 81\<rparr>) hot_blade"
    using f u by (simp add: in_danger_def hot_measured r defaultPolicy_def)
  moreover have "in_trouble (defaultPolicy\<lparr>p_soc_crit := 81\<rparr>) hot_blade" by (simp add: in_trouble_def hot_measured r defaultPolicy_def)
  moreover have "num (map_of (collectHealth hot_blade) ''fan_percent'') = Some 40 \<and> map_of (collectHealth hot_blade) ''fan_rpm'' = None"
    using metrics_fold(2) [of "''computeblade_fan_target_percent''" "''fan_percent''"] metrics_fold(2) [of "''computeblade_fan_speed''" "''fan_rpm''"] l q
    by (simp add: fan_reported plain_metrics_def)
  moreover have "fst (evalHealthWith (demo_blade\<lparr>b_health := JObj (collectHealth hot_blade)\<rparr>) p) = (if in_danger p hot_blade then HCrit else if in_trouble p hot_blade then HWarn else HOK)" for p
    by (rule readings_judged) (simp_all add: demo_blade_def)
  ultimately show ?thesis by presburger
qed

end
